(* ===== verification/Prelude.thy ===== *)
theory Prelude
  imports Main "HOL-Library.Word" "HOL-Library.Char_ord" "HOL-Library.List_Lexorder"
    "HOL-Library.Product_Lexorder"
begin

section \<open>Shared types and lemmas\<close>

text \<open>
  What every component of the model shares: the crate's error type (\<^verbatim>\<open>src/src/error.rs\<close>), the
  outcome of a call (\<open>Ok\<close>, an error value, or a panic), sequencing of calls that may fail, and the
  machine integers and floats by their bit patterns. A Rust \<^verbatim>\<open>String\<close> is the list of its UTF-8
  bytes (type \<^typ>\<open>string\<close>, one \<^typ>\<open>char\<close> per byte), so its length is Rust's \<^verbatim>\<open>len()\<close> and its
  lexicographic order is Rust's \<^verbatim>\<open>Ord\<close> on strings.
\<close>

named_theorems outcome_simps \<open>inversion of calls that returned a value or an error\<close>
named_theorems frame_simps \<open>which record fields an operation leaves alone\<close>

type_synonym u64 = "64 word"
type_synonym u32 = "32 word"
type_synonym i64 = "64 word"
type_synonym f64 = "64 word"
type_synonym f32 = "32 word"

subsection \<open>The error type of the crate\<close>

datatype error = Parse string | Execution string | Io string

text \<open>\<^verbatim>\<open>impl Display for Error\<close>: the text a user of the library, the error log and the C interface see.\<close>

fun error_to_string :: "error \<Rightarrow> string" where
  "error_to_string (Parse m) = ''parse error: '' @ m"
| "error_to_string (Execution m) = ''execution error: '' @ m"
| "error_to_string (Io m) = ''io error: '' @ m"

text \<open>\<^verbatim>\<open>impl From<std::io::Error> for Error\<close>: the argument is the I/O error's own text.\<close>

definition error_from_io :: "string \<Rightarrow> error" where
  "error_from_io msg = Io msg"

subsection \<open>Outcomes\<close>

text \<open>
  A call of the crate returns \<^verbatim>\<open>Ok\<close>, returns \<^verbatim>\<open>Err\<close>, or panics (an \<^verbatim>\<open>expect\<close> on a missing value, a
  slice out of range). \<open>rbind\<close> is the \<open>?\<close> operator: it leaves at the first outcome that is not
  \<open>Ok\<close>.
\<close>

datatype 'a result = Ok 'a | Err error | Panic string

primrec rbind :: "'a result \<Rightarrow> ('a \<Rightarrow> 'b result) \<Rightarrow> 'b result" where
  "rbind (Ok x) f = f x"
| "rbind (Err e) f = Err e"
| "rbind (Panic m) f = Panic m"

definition is_ok :: "'a result \<Rightarrow> bool" where
  "is_ok r = (case r of Ok _ \<Rightarrow> True | _ \<Rightarrow> False)"

definition is_err :: "'a result \<Rightarrow> bool" where
  "is_err r = (case r of Err _ \<Rightarrow> True | _ \<Rightarrow> False)"

definition is_panic :: "'a result \<Rightarrow> bool" where
  "is_panic r = (case r of Panic _ \<Rightarrow> True | _ \<Rightarrow> False)"

text \<open>\<^verbatim>\<open>Option::ok_or_else\<close>, and \<^verbatim>\<open>collect::<Result<Vec<_>>>()\<close> over an iterator.\<close>

definition ok_or :: "error \<Rightarrow> 'a option \<Rightarrow> 'a result" where
  "ok_or e x = (case x of None \<Rightarrow> Err e | Some v \<Rightarrow> Ok v)"

primrec rmap :: "('a \<Rightarrow> 'b result) \<Rightarrow> 'a list \<Rightarrow> 'b list result" where
  "rmap f [] = Ok []"
| "rmap f (x # xs) = rbind (f x) (\<lambda>y. rbind (rmap f xs) (\<lambda>ys. Ok (y # ys)))"

text \<open>A call on a mutable value returns the value it left behind even when it fails.\<close>

definition sbind :: "'a result \<times> 's \<Rightarrow> ('a \<Rightarrow> 's \<Rightarrow> 'b result \<times> 's) \<Rightarrow> 'b result \<times> 's" where
  "sbind r f = (case r of (Ok x, s) \<Rightarrow> f x s | (Err e, s) \<Rightarrow> (Err e, s) | (Panic m, s) \<Rightarrow> (Panic m, s))"

lemma rbind_cong [fundef_cong]:
  "r = r' \<Longrightarrow> (\<And>x. r' = Ok x \<Longrightarrow> f x = g x) \<Longrightarrow> rbind r f = rbind r' g"
  by (cases r') auto

lemma rbind_Ok_iff [outcome_simps]: "rbind r f = Ok y \<longleftrightarrow> (\<exists>x. r = Ok x \<and> f x = Ok y)"
  by (cases r) auto

lemma rbind_Err_iff [outcome_simps]:
  "rbind r f = Err e \<longleftrightarrow> r = Err e \<or> (\<exists>x. r = Ok x \<and> f x = Err e)"
  by (cases r) auto

lemma rbind_Panic_iff [outcome_simps]:
  "rbind r f = Panic m \<longleftrightarrow> r = Panic m \<or> (\<exists>x. r = Ok x \<and> f x = Panic m)"
  by (cases r) auto

lemma rbind_assoc: "rbind (rbind r f) g = rbind r (\<lambda>x. rbind (f x) g)"
  by (cases r) auto

lemma is_ok_simps [simp]: "is_ok (Ok x)" "\<not> is_ok (Err e)" "\<not> is_ok (Panic m)"
  by (simp_all add: is_ok_def)

lemma is_err_simps [simp]: "\<not> is_err (Ok x)" "is_err (Err e)" "\<not> is_err (Panic m)"
  by (simp_all add: is_err_def)

lemma is_panic_simps [simp]: "\<not> is_panic (Ok x)" "\<not> is_panic (Err e)" "is_panic (Panic m)"
  by (simp_all add: is_panic_def)

lemma ok_or_simps [simp]: "ok_or e None = Err e" "ok_or e (Some v) = Ok v"
  by (simp_all add: ok_or_def)

lemma ok_or_iff [outcome_simps]:
  "ok_or e x = Ok v \<longleftrightarrow> x = Some v" "ok_or e x = Err e' \<longleftrightarrow> x = None \<and> e' = e" "ok_or e x \<noteq> Panic m"
  by (cases x; auto)+

lemma sbind_simps [simp]:
  "sbind (Ok x, s) f = f x s" "sbind (Err e, s) f = (Err e, s)" "sbind (Panic m, s) f = (Panic m, s)"
  by (simp_all add: sbind_def)

lemma sbind_Ok_iff [outcome_simps]:
  "sbind r f = (Ok y, s') \<longleftrightarrow> (\<exists>x s. r = (Ok x, s) \<and> f x s = (Ok y, s'))"
  by (cases r; cases "fst r"; simp)

lemma sbind_cong [fundef_cong]:
  "r = r' \<Longrightarrow> (\<And>x s. r' = (Ok x, s) \<Longrightarrow> f x s = g x s) \<Longrightarrow> sbind r f = sbind r' g"
  by (cases r'; cases "fst r'"; simp)

lemma rmap_Ok_iff: "rmap f xs = Ok ys \<longleftrightarrow> list_all2 (\<lambda>x y. f x = Ok y) xs ys"
proof (induction xs arbitrary: ys)
  case (Cons x xs)
  then show ?case by (cases ys) (auto simp: outcome_simps)
qed auto

lemma rmap_map_Ok: "(\<And>x. x \<in> set xs \<Longrightarrow> f (g x) = Ok (h x)) \<Longrightarrow> rmap f (map g xs) = Ok (map h xs)"
  by (induction xs) auto

lemma rmap_append:
  "rmap f (xs @ ys) = rbind (rmap f xs) (\<lambda>us. rbind (rmap f ys) (\<lambda>vs. Ok (us @ vs)))"
proof (induction xs)
  case Nil
  show ?case by (cases "rmap f ys") auto
next
  case (Cons x xs)
  then show ?case by (cases "f x") (simp_all add: rbind_assoc)
qed

lemma is_panic_rbind [outcome_simps]:
  "is_panic (rbind r f) \<longleftrightarrow> is_panic r \<or> (\<exists>x. r = Ok x \<and> is_panic (f x))"
  by (cases r) auto

lemma rmap_no_panic: "(\<And>x. x \<in> set xs \<Longrightarrow> \<not> is_panic (f x)) \<Longrightarrow> \<not> is_panic (rmap f xs)"
  by (induction xs) (auto simp: outcome_simps)

subsection \<open>Lists\<close>

text \<open>\<^verbatim>\<open>slice::chunks(n)\<close> for a positive chunk size (a size of zero panics in Rust).\<close>

function chunks :: "nat \<Rightarrow> 'a list \<Rightarrow> 'a list list" where
  "chunks n xs = (if n = 0 \<or> xs = [] then [] else take n xs # chunks n (drop n xs))"
  by pat_completeness auto
termination
  by (relation "measure (\<lambda>(n, xs). length xs)") auto

declare chunks.simps [simp del]

lemma chunks_Nil [simp]: "chunks n [] = []"
  by (simp add: chunks.simps)

lemma concat_chunks: "0 < n \<Longrightarrow> concat (chunks n xs) = xs"
proof (induction n xs rule: chunks.induct)
  case (1 n xs)
  then show ?case by (cases "xs = []") (simp_all add: chunks.simps [of n xs])
qed

lemma chunks_length: "c \<in> set (chunks n xs) \<Longrightarrow> 0 < length c \<and> length c \<le> n"
proof (induction n xs rule: chunks.induct)
  case (1 n xs)
  then show ?case by (cases "n = 0 \<or> xs = []") (auto simp: chunks.simps [of n xs])
qed

end
