(* ===== verification/Ordered_Map.thy ===== *)
theory Ordered_Map
  imports Prelude
begin

section \<open>Ordered maps and sets\<close>

text \<open>
  \<^verbatim>\<open>std::collections::BTreeMap\<close> and \<^verbatim>\<open>BTreeSet\<close> as the crate uses them: a map is the list of its
  entries in strictly ascending key order (the order \<^verbatim>\<open>iter()\<close> yields), a set the strictly ascending
  list of its elements. Equality of two maps is then equality of their entries, as in Rust.
  The locale \<open>ordered_map\<close> states what the clients rely on; \<open>bm\<close> is its interpretation.
\<close>

type_synonym ('k, 'v) bmap = "('k \<times> 'v) list"

definition bm_ok :: "('k::linorder, 'v) bmap \<Rightarrow> bool" where
  "bm_ok m = sorted_wrt (<) (map fst m)"

abbreviation bm_get :: "('k::linorder, 'v) bmap \<Rightarrow> 'k \<Rightarrow> 'v option" where
  "bm_get \<equiv> map_of"

fun bm_insert :: "'k::linorder \<Rightarrow> 'v \<Rightarrow> ('k, 'v) bmap \<Rightarrow> ('k, 'v) bmap" where
  "bm_insert k v [] = [(k, v)]"
| "bm_insert k v (e # m) =
     (if fst e < k then e # bm_insert k v m
      else if fst e = k then (k, v) # m
      else (k, v) # e # m)"

definition bm_remove :: "'k::linorder \<Rightarrow> ('k, 'v) bmap \<Rightarrow> ('k, 'v) bmap" where
  "bm_remove k m = filter (\<lambda>e. fst e \<noteq> k) m"

text \<open>Collecting an iterator of pairs into a map: later pairs overwrite earlier ones.\<close>

definition bm_from :: "('k::linorder \<times> 'v) list \<Rightarrow> ('k, 'v) bmap" where
  "bm_from es = foldl (\<lambda>m e. bm_insert (fst e) (snd e) m) [] es"

definition bs_ok :: "'a::linorder list \<Rightarrow> bool" where
  "bs_ok s = sorted_wrt (<) s"

fun bs_insert :: "'a::linorder \<Rightarrow> 'a list \<Rightarrow> 'a list" where
  "bs_insert x [] = [x]"
| "bs_insert x (y # s) = (if y < x then y # bs_insert x s else if y = x then y # s else x # y # s)"

definition bs_inter :: "'a::linorder list \<Rightarrow> 'a list \<Rightarrow> 'a list" where
  "bs_inter s t = filter (\<lambda>x. x \<in> set t) s"

text \<open>\<^verbatim>\<open>map.entry(key).or_default().insert(x)\<close> on a map of sets.\<close>

definition bm_add :: "'k::linorder \<Rightarrow> 'a::linorder \<Rightarrow> ('k, 'a list) bmap \<Rightarrow> ('k, 'a list) bmap" where
  "bm_add k x m = bm_insert k (bs_insert x (case bm_get m k of None \<Rightarrow> [] | Some s \<Rightarrow> s)) m"

subsection \<open>Lookup after each operation\<close>

lemma map_of_bm_insert [simp]: "map_of (bm_insert k v m) = (map_of m)(k \<mapsto> v)"
  by (induction m) (auto simp: fun_eq_iff)

lemma map_of_bm_remove [simp]: "map_of (bm_remove k m) = (map_of m)(k := None)"
  by (induction m) (auto simp: bm_remove_def fun_eq_iff)

lemma fst_set_bm_insert [simp]: "fst ` set (bm_insert k v m) = insert k (fst ` set m)"
  by (induction m) auto

lemma fst_set_bm_remove [simp]: "fst ` set (bm_remove k m) = fst ` set m - {k}"
  by (force simp: bm_remove_def)

lemma set_bm_insert_subset: "set (bm_insert k v m) \<subseteq> insert (k, v) (set m)"
  by (induction m) auto

lemma bm_ok_Nil [simp, intro]: "bm_ok []"
  by (simp add: bm_ok_def)

lemma bm_ok_Cons: "bm_ok (e # m) \<longleftrightarrow> (\<forall>k \<in> fst ` set m. fst e < k) \<and> bm_ok m"
  by (auto simp: bm_ok_def)

lemma bm_ok_insert [simp, intro]: "bm_ok m \<Longrightarrow> bm_ok (bm_insert k v m)"
  by (induction m) (auto simp: bm_ok_Cons)

lemma bm_ok_remove [simp, intro]: "bm_ok m \<Longrightarrow> bm_ok (bm_remove k m)"
  by (induction m) (auto simp: bm_ok_Cons bm_remove_def)

lemma bm_ok_distinct: "bm_ok m \<Longrightarrow> distinct (map fst m)"
  by (simp add: bm_ok_def strict_sorted_iff)

lemma bm_get_iff: "bm_ok m \<Longrightarrow> bm_get m k = Some v \<longleftrightarrow> (k, v) \<in> set m"
  by (simp add: bm_ok_distinct)

lemma bm_get_dom: "bm_get m k = None \<longleftrightarrow> k \<notin> fst ` set m"
  by (simp add: map_of_eq_None_iff)

text \<open>Two maps with the same lookups are the same map.\<close>

lemma bm_ext:
  assumes ok: "bm_ok m" "bm_ok m'" and get: "\<And>k. bm_get m k = bm_get m' k"
  shows "m = m'"
proof (rule map_sorted_distinct_set_unique)
  show "inj_on fst (set m \<union> set m')"
  proof (rule inj_onI)
    fix x y assume "x \<in> set m \<union> set m'" "y \<in> set m \<union> set m'" "fst x = fst y"
    with ok get show "x = y" by (cases x; cases y) (auto simp flip: bm_get_iff)
  qed
  show "set m = set m'"
    using ok get by (auto simp flip: bm_get_iff)
qed (use ok in \<open>simp_all add: bm_ok_def strict_sorted_iff\<close>)

subsection \<open>The interface its clients use\<close>

text \<open>
  The laws of an ordered map: what a lookup finds after each operation, that every operation keeps
  the representation, and that lookups determine the map. The lemmas of the block are proved once
  from these laws.
\<close>

locale ordered_map =
  fixes empty :: "'m"
    and get :: "'m \<Rightarrow> 'k \<Rightarrow> 'v option"
    and insert :: "'k \<Rightarrow> 'v \<Rightarrow> 'm \<Rightarrow> 'm"
    and remove :: "'k \<Rightarrow> 'm \<Rightarrow> 'm"
    and ok :: "'m \<Rightarrow> bool"
  assumes get_empty: "get empty k = None"
    and get_insert: "get (insert k v m) k' = (if k' = k then Some v else get m k')"
    and get_remove: "get (remove k m) k' = (if k' = k then None else get m k')"
    and ok_empty: "ok empty"
    and ok_insert: "ok m \<Longrightarrow> ok (insert k v m)"
    and ok_remove: "ok m \<Longrightarrow> ok (remove k m)"
    and ext: "ok m \<Longrightarrow> ok m' \<Longrightarrow> (\<And>k. get m k = get m' k) \<Longrightarrow> m = m'"
begin

lemma insert_same: "ok m \<Longrightarrow> get m k = Some v \<Longrightarrow> insert k v m = m"
  by (rule ext) (auto simp: get_insert ok_insert)

lemma insert_overwrite: "ok m \<Longrightarrow> insert k v (insert k u m) = insert k v m"
  by (rule ext) (auto simp: get_insert ok_insert)

lemma insert_commute:
  "ok m \<Longrightarrow> k \<noteq> k' \<Longrightarrow> insert k v (insert k' u m) = insert k' u (insert k v m)"
  by (rule ext) (auto simp: get_insert ok_insert)

lemma remove_absent: "ok m \<Longrightarrow> get m k = None \<Longrightarrow> remove k m = m"
  by (rule ext) (auto simp: get_remove ok_remove)

lemma remove_insert: "ok m \<Longrightarrow> get m k = None \<Longrightarrow> remove k (insert k v m) = m"
  by (rule ext) (auto simp: get_remove get_insert ok_remove ok_insert)

lemma insert_remove: "ok m \<Longrightarrow> insert k v (remove k m) = insert k v m"
  by (rule ext) (auto simp: get_remove get_insert ok_remove ok_insert)

end

interpretation bm: ordered_map "[]" bm_get bm_insert bm_remove bm_ok
  by unfold_locales (auto intro: bm_ext)

subsection \<open>Iterating and collecting\<close>

lemma foldl_bm_insert_ok:
  "bm_ok m \<Longrightarrow> bm_ok (foldl (\<lambda>m e. bm_insert (fst e) (snd e) m) m es)"
  by (induction es arbitrary: m) auto

lemma bm_from_ok [simp, intro]: "bm_ok (bm_from es)"
  by (simp add: bm_from_def foldl_bm_insert_ok)

lemma foldl_bm_insert_get:
  "bm_get (foldl (\<lambda>m e. bm_insert (fst e) (snd e) m) m es) k =
     (case map_of (rev es) k of None \<Rightarrow> bm_get m k | Some v \<Rightarrow> Some v)"
  by (induction es arbitrary: m) (auto simp: map_add_def split: option.splits)

lemma bm_from_get: "bm_get (bm_from es) k = map_of (rev es) k"
  by (simp add: bm_from_def foldl_bm_insert_get split: option.splits)

text \<open>Appending an entry whose key is above all others, as when entries are read back in order.\<close>

lemma bm_insert_snoc: "(\<And>k'. k' \<in> fst ` set m \<Longrightarrow> k' < k) \<Longrightarrow> bm_insert k v m = m @ [(k, v)]"
  by (induction m) auto

lemma bm_ok_append:
  "bm_ok (m @ m') \<longleftrightarrow> bm_ok m \<and> bm_ok m' \<and> (\<forall>k \<in> fst ` set m. \<forall>k' \<in> fst ` set m'. k < k')"
  by (auto simp: bm_ok_def sorted_wrt_append)

lemma foldl_bm_insert_sorted:
  "bm_ok (m @ es) \<Longrightarrow> foldl (\<lambda>m e. bm_insert (fst e) (snd e) m) m es = m @ es"
proof (induction es arbitrary: m)
  case (Cons e es)
  have "bm_insert (fst e) (snd e) m = m @ [e]"
    using Cons.prems by (subst bm_insert_snoc) (auto simp: bm_ok_append)
  with Cons show ?case by simp
qed simp

lemma bm_from_sorted: "bm_ok es \<Longrightarrow> bm_from es = es"
  using foldl_bm_insert_sorted [of "[]" es] by (simp add: bm_from_def)

lemma bm_ok_filter [simp, intro]: "bm_ok m \<Longrightarrow> bm_ok (filter P m)"
  by (induction m) (auto simp: bm_ok_Cons)

lemma bm_ok_map_values [simp]: "bm_ok (map (\<lambda>e. (fst e, f e)) m) = bm_ok m"
  by (simp add: bm_ok_def comp_def)

subsection \<open>Ordered sets\<close>

lemma set_bs_insert [simp]: "set (bs_insert x s) = insert x (set s)"
  by (induction s) auto

lemma bs_ok_insert [simp, intro]: "bs_ok s \<Longrightarrow> bs_ok (bs_insert x s)"
  by (induction s) (auto simp: bs_ok_def)

lemma bs_ok_Nil [simp, intro]: "bs_ok []"
  by (simp add: bs_ok_def)

lemma bs_inter_ok [simp, intro]: "bs_ok s \<Longrightarrow> bs_ok (bs_inter s t)"
  by (simp add: bs_ok_def bs_inter_def sorted_wrt_filter)

lemma set_bs_inter [simp]: "set (bs_inter s t) = set s \<inter> set t"
  by (auto simp: bs_inter_def)

lemma bs_ext: "bs_ok s \<Longrightarrow> bs_ok t \<Longrightarrow> set s = set t \<Longrightarrow> s = t"
  by (simp add: bs_ok_def strict_sorted_equal)

lemma bs_insert_snoc: "(\<And>y. y \<in> set s \<Longrightarrow> y < x) \<Longrightarrow> bs_insert x s = s @ [x]"
  by (induction s) auto

lemma bs_ok_distinct: "bs_ok s \<Longrightarrow> distinct s"
  by (simp add: bs_ok_def strict_sorted_iff)

text \<open>The entries of a map of sets: \<open>bm_post m k\<close> is \<^verbatim>\<open>m.get(k).cloned().unwrap_or_default()\<close>.\<close>

definition bm_post :: "('k::linorder, 'a list) bmap \<Rightarrow> 'k \<Rightarrow> 'a list" where
  "bm_post m k = (case bm_get m k of None \<Rightarrow> [] | Some s \<Rightarrow> s)"

lemma bm_post_Nil [simp]: "bm_post [] k = []"
  by (simp add: bm_post_def)

lemma bm_post_add [simp]: "bm_post (bm_add k x m) k' = (if k' = k then bs_insert x (bm_post m k) else bm_post m k')"
  by (simp add: bm_post_def bm_add_def)

lemma bm_ok_add [simp, intro]: "bm_ok m \<Longrightarrow> bm_ok (bm_add k x m)"
  by (simp add: bm_add_def)

end
