(* ===== verification/Rust_Text.thy ===== *)
theory Rust_Text
  imports Prelude
begin

section \<open>Strings and numbers as text\<close>

text \<open>
  The parts of Rust's \<^verbatim>\<open>str\<close> and integer formatting that the crate calls, on UTF-8 byte lists:
  validity of UTF-8, characters and white space, trimming and splitting, ASCII case, and reading and
  writing unsigned and signed integers in a radix. Operations that search for an ASCII character work
  on bytes, which agrees with Rust because an ASCII byte never occurs inside a longer UTF-8 sequence.
\<close>

abbreviation tab :: char where "tab \<equiv> CHR 0x09"
abbreviation newline :: char where "newline \<equiv> CHR 0x0A"
abbreviation carriage :: char where "carriage \<equiv> CHR 0x0D"
abbreviation squote :: char where "squote \<equiv> CHR 0x27"
abbreviation dquote :: char where "dquote \<equiv> CHR 0x22"
abbreviation backtick :: char where "backtick \<equiv> CHR 0x60"
abbreviation backslash :: char where "backslash \<equiv> CHR 0x5C"

subsection \<open>UTF-8\<close>

definition code :: "char \<Rightarrow> nat" where
  "code c = of_char c"

definition is_cont :: "char \<Rightarrow> bool" where
  "is_cont c \<longleftrightarrow> 128 \<le> code c \<and> code c < 192"

text \<open>The second byte of a three or four byte sequence (no overlong forms, no surrogates).\<close>

definition second_ok :: "char \<Rightarrow> char \<Rightarrow> bool" where
  "second_ok a b =
     (if code a = 224 then 160 \<le> code b \<and> code b < 192
      else if code a = 237 then 128 \<le> code b \<and> code b < 160
      else if code a = 240 then 144 \<le> code b \<and> code b < 192
      else if code a = 244 then 128 \<le> code b \<and> code b < 144
      else is_cont b)"

text \<open>\<^verbatim>\<open>String::from_utf8(bytes).is_ok()\<close>.\<close>

fun utf8_valid :: "string \<Rightarrow> bool" where
  "utf8_valid [] = True"
| "utf8_valid (a # s) =
     (if code a < 128 then utf8_valid s
      else if 194 \<le> code a \<and> code a < 224 then
        (case s of b # s' \<Rightarrow> is_cont b \<and> utf8_valid s' | _ \<Rightarrow> False)
      else if 224 \<le> code a \<and> code a < 240 then
        (case s of b # c # s' \<Rightarrow> second_ok a b \<and> is_cont c \<and> utf8_valid s' | _ \<Rightarrow> False)
      else if 240 \<le> code a \<and> code a < 245 then
        (case s of b # c # d # s' \<Rightarrow> second_ok a b \<and> is_cont c \<and> is_cont d \<and> utf8_valid s' | _ \<Rightarrow> False)
      else False)"

definition ascii :: "string \<Rightarrow> bool" where
  "ascii s = (\<forall>c \<in> set s. code c < 128)"

lemma ascii_simps [simp]: "ascii []" "ascii (c # s) \<longleftrightarrow> code c < 128 \<and> ascii s"
  "ascii (s @ t) \<longleftrightarrow> ascii s \<and> ascii t"
  by (auto simp: ascii_def)

lemma ascii_utf8_valid: "ascii s \<Longrightarrow> utf8_valid s"
  by (induction s) auto

text \<open>\<^verbatim>\<open>str::chars\<close>, each character as its bytes.\<close>

function utf8_chars :: "string \<Rightarrow> string list" where
  "utf8_chars [] = []"
| "utf8_chars (c # s) = (c # takeWhile is_cont s) # utf8_chars (dropWhile is_cont s)"
  by pat_completeness auto
termination
  by (relation "measure length") (auto simp: le_imp_less_Suc length_dropWhile_le)

lemma concat_utf8_chars [simp]: "concat (utf8_chars s) = s"
  by (induction s rule: utf8_chars.induct) auto

lemma utf8_chars_ascii: "ascii s \<Longrightarrow> utf8_chars s = map (\<lambda>c. [c]) s"
proof (induction s)
  case (Cons c s)
  have "takeWhile is_cont s = []" "dropWhile is_cont s = s"
    using Cons.prems by (cases s; auto simp: is_cont_def)+
  with Cons show ?case by simp
qed simp

text \<open>\<^verbatim>\<open>char::is_whitespace\<close>: the Unicode property White_Space, which has 25 characters.\<close>

definition is_whitespace :: "string \<Rightarrow> bool" where
  "is_whitespace ch =
     (case map code ch of
        [x] \<Rightarrow> (9 \<le> x \<and> x \<le> 13) \<or> x = 32
      | [x, y] \<Rightarrow> x = 194 \<and> (y = 133 \<or> y = 160)
      | [x, y, z] \<Rightarrow>
          (x = 225 \<and> y = 154 \<and> z = 128) \<or>
          (x = 226 \<and> y = 128 \<and> ((128 \<le> z \<and> z \<le> 138) \<or> z = 168 \<or> z = 169 \<or> z = 175)) \<or>
          (x = 226 \<and> y = 129 \<and> z = 159) \<or>
          (x = 227 \<and> y = 128 \<and> z = 128)
      | _ \<Rightarrow> False)"

subsection \<open>Trimming and ASCII case\<close>

definition dropWhileEnd :: "('a \<Rightarrow> bool) \<Rightarrow> 'a list \<Rightarrow> 'a list" where
  "dropWhileEnd P xs = rev (dropWhile P (rev xs))"

definition str_trim :: "string \<Rightarrow> string" where
  "str_trim s = concat (dropWhileEnd is_whitespace (dropWhile is_whitespace (utf8_chars s)))"

definition trim_end :: "string \<Rightarrow> string" where
  "trim_end s = concat (dropWhileEnd is_whitespace (utf8_chars s))"

text \<open>\<^verbatim>\<open>trim_matches(c)\<close> and \<^verbatim>\<open>trim_end_matches(c)\<close> for an ASCII character.\<close>

definition trim_matches :: "char \<Rightarrow> string \<Rightarrow> string" where
  "trim_matches c s = dropWhileEnd ((=) c) (dropWhile ((=) c) s)"

definition trim_end_matches :: "char \<Rightarrow> string \<Rightarrow> string" where
  "trim_end_matches c s = dropWhileEnd ((=) c) s"

definition ascii_lower :: "char \<Rightarrow> char" where
  "ascii_lower c = (if 65 \<le> code c \<and> code c \<le> 90 then char_of (code c + 32) else c)"

definition to_ascii_lowercase :: "string \<Rightarrow> string" where
  "to_ascii_lowercase s = map ascii_lower s"

definition eq_ignore_ascii_case :: "string \<Rightarrow> string \<Rightarrow> bool" where
  "eq_ignore_ascii_case s t \<longleftrightarrow> to_ascii_lowercase s = to_ascii_lowercase t"

lemma code_char_of [simp]: "code (char_of n) = n mod 256"
  by (simp add: code_def)

lemma ascii_lower_idem [simp]: "ascii_lower (ascii_lower c) = ascii_lower c"
  by (simp add: ascii_lower_def)

lemma to_ascii_lowercase_idem [simp]: "to_ascii_lowercase (to_ascii_lowercase s) = to_ascii_lowercase s"
  by (simp add: to_ascii_lowercase_def comp_def)

lemma length_to_ascii_lowercase [simp]: "length (to_ascii_lowercase s) = length s"
  by (simp add: to_ascii_lowercase_def)

lemma dropWhileEnd_id: "xs = [] \<or> \<not> P (last xs) \<Longrightarrow> dropWhileEnd P xs = xs"
  by (cases xs rule: rev_cases) (auto simp: dropWhileEnd_def)

lemma dropWhile_id: "xs = [] \<or> \<not> P (hd xs) \<Longrightarrow> dropWhile P xs = xs"
  by (cases xs) auto

subsection \<open>Splitting\<close>

text \<open>\<^verbatim>\<open>split\<close> with a predicate on the items: always at least one piece.\<close>

fun split_pred :: "('a \<Rightarrow> bool) \<Rightarrow> 'a list \<Rightarrow> 'a list list" where
  "split_pred P [] = [[]]"
| "split_pred P (x # xs) =
     (if P x then [] # split_pred P xs
      else (case split_pred P xs of [] \<Rightarrow> [[x]] | p # ps \<Rightarrow> (x # p) # ps))"

definition split_char :: "char \<Rightarrow> string \<Rightarrow> string list" where
  "split_char d s = split_pred ((=) d) s"

definition split_whitespace :: "string \<Rightarrow> string list" where
  "split_whitespace s = map concat (filter (\<lambda>w. w \<noteq> []) (split_pred is_whitespace (utf8_chars s)))"

fun split_once :: "char \<Rightarrow> string \<Rightarrow> (string \<times> string) option" where
  "split_once d [] = None"
| "split_once d (c # s) =
     (if c = d then Some ([], s) else map_option (\<lambda>(a, b). (c # a, b)) (split_once d s))"

lemma split_once_length: "split_once d s = Some (a, b) \<Longrightarrow> length b < length s"
  by (induction s arbitrary: a) (auto split: if_splits)

text \<open>
  \<^verbatim>\<open>str::lines\<close>: pieces ended by a line feed, without it and without a carriage return before it; a
  last piece without a line feed is kept as it is.
\<close>

definition strip_cr :: "string \<Rightarrow> string" where
  "strip_cr s = (if s \<noteq> [] \<and> last s = carriage then butlast s else s)"

function lines :: "string \<Rightarrow> string list" where
  "lines s =
     (if s = [] then []
      else (case split_once newline s of
              None \<Rightarrow> [s]
            | Some (l, rest) \<Rightarrow> strip_cr l # lines rest))"
  by pat_completeness auto
termination
  by (relation "measure length") (auto dest: split_once_length)

declare lines.simps [simp del]

fun join :: "string \<Rightarrow> string list \<Rightarrow> string" where
  "join sep [] = []"
| "join sep [s] = s"
| "join sep (s # t # ss) = s @ sep @ join sep (t # ss)"

lemma split_pred_ne [simp]: "split_pred P xs \<noteq> []"
  by (induction xs) (auto split: list.splits)

lemma split_pred_append:
  "\<forall>x \<in> set xs. \<not> P x \<Longrightarrow> P y \<Longrightarrow> split_pred P (xs @ y # ys) = xs # split_pred P ys"
  by (induction xs) auto

lemma split_pred_none: "\<forall>x \<in> set xs. \<not> P x \<Longrightarrow> split_pred P xs = [xs]"
  by (induction xs) auto

lemma split_char_join:
  "ss \<noteq> [] \<Longrightarrow> \<forall>s \<in> set ss. d \<notin> set s \<Longrightarrow> split_char d (join [d] ss) = ss"
proof (induction "[d]" ss rule: join.induct)
  case (2 s)
  then show ?case by (auto simp: split_char_def intro: split_pred_none)
next
  case (3 s t ss)
  have "split_pred ((=) d) (s @ d # join [d] (t # ss)) = s # split_pred ((=) d) (join [d] (t # ss))"
    using 3 by (intro split_pred_append) auto
  with 3 show ?case by (simp add: split_char_def)
qed simp

lemma split_once_first: "d \<notin> set a \<Longrightarrow> split_once d (a @ d # b) = Some (a, b)"
  by (induction a) auto

lemma split_once_None: "split_once d s = None \<longleftrightarrow> d \<notin> set s"
  by (induction s) auto

lemma lines_Nil [simp]: "lines [] = []"
  by (simp add: lines.simps)

lemma lines_Cons: "newline \<notin> set l \<Longrightarrow> carriage \<notin> set l \<Longrightarrow> lines (l @ newline # s) = l # lines s"
  by (subst lines.simps) (auto simp: split_once_first strip_cr_def dest: last_in_set)

subsection \<open>Integers in a radix\<close>

text \<open>\<^verbatim>\<open>char::to_digit(radix)\<close> and the lower-case digit used for output.\<close>

definition digit_val :: "nat \<Rightarrow> char \<Rightarrow> nat option" where
  "digit_val r c =
     (let x = code c;
          d = (if 48 \<le> x \<and> x \<le> 57 then Some (x - 48)
               else if 97 \<le> x \<and> x \<le> 122 then Some (x - 87)
               else if 65 \<le> x \<and> x \<le> 90 then Some (x - 55)
               else None)
      in case d of None \<Rightarrow> None | Some v \<Rightarrow> if v < r then Some v else None)"

definition digit_char :: "nat \<Rightarrow> char" where
  "digit_char d = char_of (if d < 10 then 48 + d else 87 + d)"

fun from_digits :: "nat \<Rightarrow> nat \<Rightarrow> string \<Rightarrow> nat option" where
  "from_digits r n [] = Some n"
| "from_digits r n (c # s) =
     (case digit_val r c of None \<Rightarrow> None | Some d \<Rightarrow> from_digits r (n * r + d) s)"

fun show_radix :: "nat \<Rightarrow> nat \<Rightarrow> string" where
  "show_radix r n =
     (if r < 2 \<or> n < r then [digit_char n] else show_radix r (n div r) @ [digit_char (n mod r)])"

declare show_radix.simps [simp del]

abbreviation show_nat :: "nat \<Rightarrow> string" where
  "show_nat \<equiv> show_radix 10"

text \<open>\<^verbatim>\<open>{:0wx}\<close>: lower-case hexadecimal, padded with zeros to the width.\<close>

definition hex_pad :: "nat \<Rightarrow> nat \<Rightarrow> string" where
  "hex_pad w n = (let s = show_radix 16 n in replicate (w - length s) (CHR ''0'') @ s)"

text \<open>
  \<^verbatim>\<open>from_str_radix\<close> of an unsigned type with \<open>bits\<close> bits: one optional plus sign, at least one digit,
  nothing else, and the value must fit. \<open>None\<close> is any \<^verbatim>\<open>ParseIntError\<close>.
\<close>

definition parse_unsigned :: "nat \<Rightarrow> nat \<Rightarrow> string \<Rightarrow> nat option" where
  "parse_unsigned bits r s =
     (let body = (case s of c # t \<Rightarrow> if c = CHR ''+'' then t else s | [] \<Rightarrow> [])
      in if body = [] then None
         else case from_digits r 0 body of
                None \<Rightarrow> None
              | Some n \<Rightarrow> if n < 2 ^ bits then Some n else None)"

text \<open>\<^verbatim>\<open>parse::<i64>()\<close>: a sign of either kind, and the value must lie in the two's complement range.\<close>

definition parse_i64 :: "string \<Rightarrow> i64 option" where
  "parse_i64 s =
     (let (neg, body) = (case s of
            c # t \<Rightarrow> if c = CHR ''+'' then (False, t) else if c = CHR ''-'' then (True, t) else (False, s)
          | [] \<Rightarrow> (False, []))
      in if body = [] then None
         else case from_digits 10 0 body of
                None \<Rightarrow> None
              | Some n \<Rightarrow>
                  if neg then (if n \<le> 2 ^ 63 then Some (of_int (- int n)) else None)
                  else (if n < 2 ^ 63 then Some (of_nat n) else None))"

text \<open>\<^verbatim>\<open>format!("{value}")\<close> of an \<^verbatim>\<open>i64\<close>.\<close>

definition show_i64 :: "i64 \<Rightarrow> string" where
  "show_i64 v = (if sint v < 0 then CHR ''-'' # show_nat (nat (- sint v)) else show_nat (nat (sint v)))"

lemma digit_val_char: "d < r \<Longrightarrow> r \<le> 36 \<Longrightarrow> digit_val r (digit_char d) = Some d"
  by (auto simp: digit_val_def digit_char_def)

lemma from_digits_append:
  "from_digits r n (s @ t) = (case from_digits r n s of None \<Rightarrow> None | Some m \<Rightarrow> from_digits r m t)"
  by (induction s arbitrary: n) (auto split: option.splits)

lemma from_digits_zeros: "0 < r \<Longrightarrow> from_digits r 0 (replicate k (CHR ''0'') @ s) = from_digits r 0 s"
  by (induction k) (auto simp: digit_val_def code_def)

lemma from_digits_show: "2 \<le> r \<Longrightarrow> r \<le> 36 \<Longrightarrow> from_digits r 0 (show_radix r n) = Some n"
proof (induction r n rule: show_radix.induct)
  case (1 r n)
  then show ?case
    by (cases "n < r") (auto simp: show_radix.simps [of r n] digit_val_char from_digits_append)
qed

lemma show_radix_ne [simp]: "show_radix r n \<noteq> []"
  by (subst show_radix.simps) simp

lemma show_radix_digits: "2 \<le> r \<Longrightarrow> c \<in> set (show_radix r n) \<Longrightarrow> \<exists>d < r. c = digit_char d"
proof (induction r n rule: show_radix.induct)
  case (1 r n)
  then show ?case
    by (cases "n < r") (auto simp: show_radix.simps [of r n] intro: exI [of _ "n mod r"])
qed

lemma code_digit_char: "d < 16 \<Longrightarrow> code (digit_char d) = (if d < 10 then 48 + d else 87 + d)"
  by (auto simp: digit_char_def)

definition is_hex :: "char \<Rightarrow> bool" where
  "is_hex c \<longleftrightarrow> (48 \<le> code c \<and> code c \<le> 57) \<or> (97 \<le> code c \<and> code c \<le> 102)"

lemma is_hex_digit_char: "d < 16 \<Longrightarrow> is_hex (digit_char d)"
  by (auto simp: is_hex_def code_digit_char)

lemma show_radix_hex: "2 \<le> r \<Longrightarrow> r \<le> 16 \<Longrightarrow> c \<in> set (show_radix r n) \<Longrightarrow> is_hex c"
  by (auto dest!: show_radix_digits intro: is_hex_digit_char)

lemma is_hex_zero [simp]: "is_hex (CHR ''0'')"
  by (simp add: is_hex_def code_def)

lemma hex_pad_hex: "c \<in> set (hex_pad w n) \<Longrightarrow> is_hex c"
  using show_radix_hex [of 16 c n] by (auto simp: hex_pad_def Let_def)

text \<open>The separators of the file format are not hexadecimal digits.\<close>

lemma not_hex [simp]:
  "\<not> is_hex tab" "\<not> is_hex newline" "\<not> is_hex carriage" "\<not> is_hex (CHR ''='')" "\<not> is_hex (CHR '','')"
  "\<not> is_hex (CHR '':'')" "\<not> is_hex (CHR ''+'')" "\<not> is_hex (CHR ''-'')"
  by (simp_all add: is_hex_def code_def)

lemma hex_pad_ne [simp]: "hex_pad w n \<noteq> []"
  by (simp add: hex_pad_def Let_def)

lemma length_show_radix: "2 \<le> r \<Longrightarrow> n < r ^ w \<Longrightarrow> 0 < w \<Longrightarrow> length (show_radix r n) \<le> w"
proof (induction r n arbitrary: w rule: show_radix.induct)
  case (1 r n)
  show ?case
  proof (cases "n < r")
    case False
    with 1 obtain v where w: "w = Suc v" "0 < v" by (cases w; cases "w - 1") auto
    with 1 have "n div r < r ^ v" by (simp add: less_mult_imp_div_less mult.commute)
    with 1 False w have "length (show_radix r (n div r)) \<le> v" by simp
    with False w show ?thesis by (simp add: show_radix.simps [of r n])
  qed (use 1 in \<open>simp add: show_radix.simps [of r n]\<close>)
qed

lemma length_hex_pad: "n < 16 ^ w \<Longrightarrow> 0 < w \<Longrightarrow> length (hex_pad w n) = w"
  using length_show_radix [of 16 n w] by (simp add: hex_pad_def Let_def)

lemma hd_not_plus: "(\<And>c. c \<in> set s \<Longrightarrow> is_hex c) \<Longrightarrow> s = c # t \<Longrightarrow> c \<noteq> CHR ''+'' \<and> c \<noteq> CHR ''-''"
  using not_hex by force

lemma parse_unsigned_hex:
  assumes "\<And>c. c \<in> set s \<Longrightarrow> is_hex c" "s \<noteq> []" "from_digits r 0 s = Some n" "n < 2 ^ bits"
  shows "parse_unsigned bits r s = Some n"
  using assms hd_not_plus [of s] by (cases s) (auto simp: parse_unsigned_def)

lemma parse_unsigned_show:
  "2 \<le> r \<Longrightarrow> r \<le> 16 \<Longrightarrow> n < 2 ^ bits \<Longrightarrow> parse_unsigned bits r (show_radix r n) = Some n"
  by (rule parse_unsigned_hex) (auto intro: show_radix_hex simp: from_digits_show)

lemma parse_unsigned_hex_pad: "n < 2 ^ bits \<Longrightarrow> parse_unsigned bits 16 (hex_pad w n) = Some n"
  by (rule parse_unsigned_hex)
    (auto intro: hex_pad_hex simp: hex_pad_def Let_def from_digits_zeros from_digits_show)

lemma parse_i64_show: "parse_i64 (show_i64 v) = Some v"
proof (cases "sint v < 0")
  case True
  have "- (2 ^ 63) \<le> sint v" using sint_ge [of v] by simp
  then have "nat (- sint v) \<le> 2 ^ 63" by simp
  with True show ?thesis by (simp add: parse_i64_def show_i64_def from_digits_show)
next
  case False
  have "sint v < 2 ^ 63" using sint_lt [of v] by simp
  then have "nat (sint v) < 2 ^ 63" using False by (simp add: nat_less_iff)
  moreover obtain c t where "show_nat (nat (sint v)) = c # t" by (cases "show_nat (nat (sint v))") auto
  moreover have "is_hex c"
    using calculation(2) by (intro show_radix_hex [of 10 c "nat (sint v)"]) auto
  then have "c \<noteq> CHR ''+'' \<and> c \<noteq> CHR ''-''"
    using not_hex by auto
  ultimately show ?thesis
    using False from_digits_show [of 10 "nat (sint v)"]
    by (simp add: parse_i64_def show_i64_def)
qed

end
