(* ===== verification/Ieee.thy ===== *)
theory Ieee
  imports Prelude
begin

section \<open>Floating point values by their bits\<close>

text \<open>
  \<^verbatim>\<open>f64\<close> and \<^verbatim>\<open>f32\<close> values are their IEEE 754 bit patterns (\<^verbatim>\<open>to_bits\<close>), so \<^verbatim>\<open>to_bits\<close> and \<^verbatim>\<open>from_bits\<close>
  are the identity. What the crate decides on floats is defined on the bits here: finiteness, the
  comparisons \<open>==\<close>, \<open><\<close> and \<open>\<le>\<close> (false on NaN, equal on the two zeros), the total order of
  \<^verbatim>\<open>total_cmp\<close>, and the conversion from \<^verbatim>\<open>i64\<close>. Rounded arithmetic is not: it is a parameter
  of the model (see \<open>Values\<close>).
\<close>

unbundle bit_operations_syntax

definition f64_exponent :: "f64 \<Rightarrow> nat" where
  "f64_exponent b = unat b div 2 ^ 52 mod 2 ^ 11"

definition f64_magnitude :: "f64 \<Rightarrow> nat" where
  "f64_magnitude b = unat b mod 2 ^ 63"

definition f64_negative :: "f64 \<Rightarrow> bool" where
  "f64_negative b \<longleftrightarrow> 2 ^ 63 \<le> unat b"

definition f64_is_finite :: "f64 \<Rightarrow> bool" where
  "f64_is_finite b \<longleftrightarrow> f64_exponent b \<noteq> 2047"

definition f64_is_nan :: "f64 \<Rightarrow> bool" where
  "f64_is_nan b \<longleftrightarrow> 2047 * 2 ^ 52 < f64_magnitude b"

definition f64_signed :: "f64 \<Rightarrow> int" where
  "f64_signed b = (if f64_negative b then - int (f64_magnitude b) else int (f64_magnitude b))"

definition f64_eq :: "f64 \<Rightarrow> f64 \<Rightarrow> bool" where
  "f64_eq a b \<longleftrightarrow> \<not> f64_is_nan a \<and> \<not> f64_is_nan b \<and> f64_signed a = f64_signed b"

definition f64_lt :: "f64 \<Rightarrow> f64 \<Rightarrow> bool" where
  "f64_lt a b \<longleftrightarrow> \<not> f64_is_nan a \<and> \<not> f64_is_nan b \<and> f64_signed a < f64_signed b"

definition f64_le :: "f64 \<Rightarrow> f64 \<Rightarrow> bool" where
  "f64_le a b \<longleftrightarrow> \<not> f64_is_nan a \<and> \<not> f64_is_nan b \<and> f64_signed a \<le> f64_signed b"

text \<open>The key of \<^verbatim>\<open>f64::total_cmp\<close>: negative values below positive ones, every bit pattern distinct.\<close>

definition f64_total_key :: "f64 \<Rightarrow> int" where
  "f64_total_key b = (if f64_negative b then - int (f64_magnitude b) - 1 else int (f64_magnitude b))"

definition f64_neg :: "f64 \<Rightarrow> f64" where
  "f64_neg b = b XOR (push_bit 63 1)"

definition f32_is_finite :: "f32 \<Rightarrow> bool" where
  "f32_is_finite b \<longleftrightarrow> unat b div 2 ^ 23 mod 2 ^ 8 \<noteq> 255"

definition f32_magnitude :: "f32 \<Rightarrow> nat" where
  "f32_magnitude b = unat b mod 2 ^ 31"

definition f32_is_nan :: "f32 \<Rightarrow> bool" where
  "f32_is_nan b \<longleftrightarrow> 255 * 2 ^ 23 < f32_magnitude b"

definition f32_signed :: "f32 \<Rightarrow> int" where
  "f32_signed b = (if 2 ^ 31 \<le> unat b then - int (f32_magnitude b) else int (f32_magnitude b))"

definition f32_eq :: "f32 \<Rightarrow> f32 \<Rightarrow> bool" where
  "f32_eq a b \<longleftrightarrow> \<not> f32_is_nan a \<and> \<not> f32_is_nan b \<and> f32_signed a = f32_signed b"

text \<open>
  \<^verbatim>\<open>value as f64\<close> for an \<^verbatim>\<open>i64\<close>: rounds to the nearest value, ties to even. With \<open>e\<close> the position of
  the leading bit of the magnitude, the significand has 53 bits; adding it to the exponent field
  lets a carry out of the rounding move into the exponent.
\<close>

fun bit_length :: "nat \<Rightarrow> nat" where
  "bit_length n = (if n = 0 then 0 else Suc (bit_length (n div 2)))"

declare bit_length.simps [simp del]

definition round_shift :: "nat \<Rightarrow> nat \<Rightarrow> nat" where
  "round_shift n k =
     (let q = n div 2 ^ k; r = n mod 2 ^ k; h = 2 ^ (k - 1)
      in if r < h then q else if h < r then Suc q else if even q then q else Suc q)"

definition f64_of_magnitude :: "nat \<Rightarrow> nat" where
  "f64_of_magnitude n =
     (if n = 0 then 0
      else let e = bit_length n - 1;
               m = (if e \<le> 52 then n * 2 ^ (52 - e) else round_shift n (e - 52))
           in (e + 1022) * 2 ^ 52 + m)"

definition f64_of_i64 :: "i64 \<Rightarrow> f64" where
  "f64_of_i64 v =
     (if sint v < 0 then of_nat (2 ^ 63 + f64_of_magnitude (nat (- sint v)))
      else of_nat (f64_of_magnitude (nat (sint v))))"

lemma bit_length_bounds: "0 < n \<Longrightarrow> 2 ^ (bit_length n - 1) \<le> n \<and> n < 2 ^ bit_length n"
proof (induction n rule: bit_length.induct)
  case (1 n)
  show ?case
  proof (cases "n div 2 = 0")
    case True
    with "1.prems" have "n = 1" by simp
    then show ?thesis by (simp add: bit_length.simps)
  next
    case False
    with 1 have IH: "2 ^ (bit_length (n div 2) - 1) \<le> n div 2" "n div 2 < 2 ^ bit_length (n div 2)"
      by auto
    from False obtain k where k: "bit_length (n div 2) = Suc k"
      by (subst (asm) bit_length.simps) auto
    with IH "1.prems" show ?thesis by (simp add: bit_length.simps [of n]) linarith
  qed
qed

lemma bit_length_le: "n < 2 ^ k \<Longrightarrow> bit_length n \<le> k"
proof (rule ccontr)
  assume n: "n < 2 ^ k" and "\<not> bit_length n \<le> k"
  then have "(2::nat) ^ k \<le> 2 ^ (bit_length n - 1)" by (intro power_increasing) auto
  moreover have "0 < n" using \<open>\<not> bit_length n \<le> k\<close> by (cases n) (auto simp: bit_length.simps)
  ultimately show False using n bit_length_bounds [of n] by linarith
qed

lemma round_shift_le: "n < 2 ^ (k + 53) \<Longrightarrow> round_shift n k \<le> 2 ^ 53"
proof -
  assume "n < 2 ^ (k + 53)"
  then have "n div 2 ^ k < 2 ^ 53" by (simp add: less_mult_imp_div_less power_add mult.commute)
  then show ?thesis by (simp add: round_shift_def Let_def)
qed

text \<open>Every \<^verbatim>\<open>i64\<close> converts to a finite float, so an integer stored in a float column passes the checks.\<close>

lemma f64_of_magnitude_bound: "n \<le> 2 ^ 63 \<Longrightarrow> f64_of_magnitude n < 2047 * 2 ^ 52"
proof (cases "n = 0")
  case False
  assume n: "n \<le> 2 ^ 63"
  define e where "e = bit_length n - 1"
  from False have b: "2 ^ e \<le> n" "n < 2 ^ Suc e"
    using bit_length_bounds [of n] by (cases "bit_length n"; simp add: e_def bit_length.simps)+
  have "bit_length n \<le> 64" using n by (intro bit_length_le) simp
  then have e: "e \<le> 63" by (simp add: e_def)
  have "(if e \<le> 52 then n * 2 ^ (52 - e) else round_shift n (e - 52)) \<le> 2 ^ 53"
  proof (cases "e \<le> 52")
    case True
    have "n * 2 ^ (52 - e) \<le> 2 ^ Suc e * 2 ^ (52 - e)" using b by (intro mult_right_mono) auto
    also have "\<dots> = 2 ^ 53" using True by (simp flip: power_add)
    finally show ?thesis using True by simp
  next
    case False
    then have "e - 52 + 53 = Suc e" by simp
    with b have "n < 2 ^ (e - 52 + 53)" by simp
    with False round_shift_le [of n "e - 52"] show ?thesis by simp
  qed
  moreover have "(e + 1022) * 2 ^ 52 \<le> (1085 * 2 ^ 52 :: nat)" using e by (intro mult_right_mono) auto
  ultimately have "(e + 1022) * 2 ^ 52 + (if e \<le> 52 then n * 2 ^ (52 - e) else round_shift n (e - 52))
      \<le> 1085 * 2 ^ 52 + 2 ^ 53"
    by (rule add_mono [rotated])
  also have "\<dots> < (2047 * 2 ^ 52 :: nat)" by simp
  finally show ?thesis using False unfolding f64_of_magnitude_def Let_def e_def by simp
qed (simp add: f64_of_magnitude_def)

lemma f64_exponent_of_nat: "n < 2047 * 2 ^ 52 \<Longrightarrow> f64_exponent (of_nat n) \<noteq> 2047"
proof -
  assume n: "n < 2047 * 2 ^ 52"
  then have "n div 2 ^ 52 < 2047" by (simp add: less_mult_imp_div_less)
  with n show ?thesis by (simp add: f64_exponent_def unat_of_nat)
qed

lemma f64_of_i64_finite: "f64_is_finite (f64_of_i64 v)"
proof -
  have "nat (- sint v) \<le> 2 ^ 63" using sint_ge [of v] by simp
  moreover have "nat (sint v) \<le> 2 ^ 63" using sint_lt [of v] by simp
  moreover have "f64_exponent (of_nat (2 ^ 63 + n)) \<noteq> 2047" if n: "n < 2047 * 2 ^ 52" for n
  proof -
    have "(2 ^ 63 + n) div 2 ^ 52 = 2048 + n div 2 ^ 52" by simp
    moreover have "n div 2 ^ 52 < 2047" using n by (simp add: less_mult_imp_div_less)
    moreover have "2 ^ 63 + n < 2 ^ 64" using n by simp
    ultimately show ?thesis unfolding f64_exponent_def by (subst unat_of_nat) simp
  qed
  ultimately show ?thesis
    using f64_of_magnitude_bound f64_exponent_of_nat
    by (simp add: f64_of_i64_def f64_is_finite_def)
qed

lemma f64_parts: "unat b = (if f64_negative b then 2 ^ 63 else 0) + f64_magnitude b"
proof -
  have "unat b < 2 ^ LENGTH(64)" by (rule unsigned_less)
  then show ?thesis by (auto simp: f64_negative_def f64_magnitude_def mod_if)
qed

lemma f64_magnitude_less: "f64_magnitude b < 2 ^ 63"
  by (simp add: f64_magnitude_def)

lemma f32_magnitude_less: "f32_magnitude b < 2 ^ 31"
  by (simp add: f32_magnitude_def)

text \<open>The key of the total order tells all bit patterns apart.\<close>

lemma f64_total_key_inj: "f64_total_key a = f64_total_key b \<longleftrightarrow> a = b"
  using f64_parts [of a] f64_parts [of b] f64_magnitude_less [of a] f64_magnitude_less [of b]
  by (auto simp: f64_total_key_def word_unat_eq_iff split: if_splits)

text \<open>Away from the two zeros, \<open>==\<close> on finite floats is equality of the bits.\<close>

lemma f64_finite_not_nan: "f64_is_finite b \<Longrightarrow> \<not> f64_is_nan b"
proof -
  assume fin: "f64_is_finite b"
  have m: "f64_magnitude b < 2 ^ 63" by (simp add: f64_magnitude_def)
  have "f64_exponent b = f64_magnitude b div 2 ^ 52"
    unfolding f64_exponent_def by (subst f64_parts) (use m in \<open>auto simp: div_add1_eq\<close>)
  with fin m show ?thesis by (auto simp: f64_is_finite_def f64_is_nan_def)
qed

lemma f64_eq_iff:
  "f64_is_finite a \<Longrightarrow> f64_is_finite b \<Longrightarrow>
     f64_eq a b \<longleftrightarrow> a = b \<or> (f64_magnitude a = 0 \<and> f64_magnitude b = 0)"
  using f64_parts [of a] f64_parts [of b] f64_magnitude_less [of a] f64_magnitude_less [of b]
  by (auto simp: f64_eq_def f64_finite_not_nan f64_signed_def word_unat_eq_iff split: if_splits)

lemma f32_parts: "unat b = (if 2 ^ 31 \<le> unat b then 2 ^ 31 else 0) + f32_magnitude b"
proof -
  have "unat b < 2 ^ LENGTH(32)" by (rule unsigned_less)
  then show ?thesis by (auto simp: f32_magnitude_def mod_if)
qed

lemma f32_finite_not_nan: "f32_is_finite b \<Longrightarrow> \<not> f32_is_nan b"
proof -
  assume fin: "f32_is_finite b"
  have m: "f32_magnitude b < 2 ^ 31" by (simp add: f32_magnitude_def)
  have "unat b div 2 ^ 23 mod 2 ^ 8 = f32_magnitude b div 2 ^ 23"
    by (subst f32_parts) (use m in \<open>auto simp: div_add1_eq\<close>)
  with fin m show ?thesis by (auto simp: f32_is_finite_def f32_is_nan_def)
qed

lemma f32_eq_iff:
  "f32_is_finite a \<Longrightarrow> f32_is_finite b \<Longrightarrow>
     f32_eq a b \<longleftrightarrow> a = b \<or> (f32_magnitude a = 0 \<and> f32_magnitude b = 0)"
  using f32_parts [of a] f32_parts [of b] f32_magnitude_less [of a] f32_magnitude_less [of b]
  by (auto simp: f32_eq_def f32_finite_not_nan f32_signed_def word_unat_eq_iff split: if_splits)

end
