(* ===== verification/Values.thy ===== *)
theory Values
  imports Ordered_Map Rust_Text Ieee
begin

section \<open>Values, identifiers, statements and results\<close>

text \<open>
  The domain types of the crate: values and rows (\<^verbatim>\<open>src/src/value.rs\<close>), query results
  (\<^verbatim>\<open>src/src/query.rs\<close>), identifier normalization (\<^verbatim>\<open>src/src/identifier.rs\<close>) and the statement syntax tree
  (\<^verbatim>\<open>src/src/sql/ast.rs\<close>). The record \<open>platform\<close> collects what the crate takes from the Unicode
  tables, the float formatter and the floating point unit; every theorem of the development holds
  for every platform.
\<close>

subsection \<open>Values and rows\<close>

record point =
  lon :: f64
  lat :: f64

datatype sql_value =
    Null
  | Integer i64
  | Float f64
  | Boolean bool
  | Text string
  | Vector "f32 list"
  | PointV point

type_synonym row = "(string, sql_value) bmap"

text \<open>The derived \<^verbatim>\<open>PartialEq\<close>: floats compare as floats, so zeros are equal and NaN equals nothing.\<close>

fun value_eq :: "sql_value \<Rightarrow> sql_value \<Rightarrow> bool" where
  "value_eq Null Null = True"
| "value_eq (Integer a) (Integer b) = (a = b)"
| "value_eq (Float a) (Float b) = f64_eq a b"
| "value_eq (Boolean a) (Boolean b) = (a = b)"
| "value_eq (Text a) (Text b) = (a = b)"
| "value_eq (Vector a) (Vector b) = list_all2 f32_eq a b"
| "value_eq (PointV p) (PointV q) = (f64_eq (lon p) (lon q) \<and> f64_eq (lat p) (lat q))"
| "value_eq _ _ = False"

subsection \<open>Query results\<close>

record query_result =
  qr_rows :: "row list"
  affected_rows :: nat
  message :: string

definition query_message :: "string \<Rightarrow> query_result" where
  "query_message m = \<lparr>qr_rows = [], affected_rows = 0, message = m\<rparr>"

definition query_affected :: "nat \<Rightarrow> string \<Rightarrow> query_result" where
  "query_affected n m = \<lparr>qr_rows = [], affected_rows = n, message = m\<rparr>"

definition query_rows :: "row list \<Rightarrow> query_result" where
  "query_rows rs = \<lparr>qr_rows = rs, affected_rows = 0, message = show_nat (length rs) @ '' row(s)''\<rparr>"

subsection \<open>Identifiers\<close>

definition normalize_identifier :: "string \<Rightarrow> string" where
  "normalize_identifier input =
     to_ascii_lowercase (trim_matches squote (trim_matches dquote (trim_matches backtick (str_trim input))))"

subsection \<open>The syntax tree\<close>

datatype column_type = IntegerT | FloatT | BooleanT | TextT | VectorT | PointT

record column =
  col_name :: string
  col_ty :: column_type
  col_primary_key :: bool

datatype projection = AllColumns | Columns "string list"

datatype sql_filter =
    Equals string sql_value
  | FullText string string
  | GeoWithin string point f64 bool

datatype sql_order = VectorDistance string "f32 list" bool

datatype parsed_kind =
    KAlterTable | KAnalyze | KAttach | KCreateIndex | KCreateTable | KCreateTrigger | KCreateView
  | KCreateVirtualTable | KDelete | KDetach | KDropIndex | KDropTable | KDropTrigger | KDropView
  | KInsert | KPragma | KReindex | KRelease | KReplace | KRollbackTo | KSavepoint | KSelect
  | KUpdate | KVacuum | KValues | KWith

datatype statement =
    Begin
  | Commit
  | Rollback
  | Explain statement
  | ParsedOnly parsed_kind string
  | CreateTable string "column list"
  | CreateIndex string string string bool
  | Insert string "string list option" "sql_value list"
  | Select string projection "sql_filter option" "sql_order option" "nat option"
  | Update string "(string \<times> sql_value) list" "sql_filter option"
  | Delete string "sql_filter option"

fun kind_as_str :: "parsed_kind \<Rightarrow> string" where
  "kind_as_str KAlterTable = ''ALTER TABLE''"
| "kind_as_str KAnalyze = ''ANALYZE''"
| "kind_as_str KAttach = ''ATTACH''"
| "kind_as_str KCreateIndex = ''CREATE INDEX''"
| "kind_as_str KCreateTable = ''CREATE TABLE''"
| "kind_as_str KCreateTrigger = ''CREATE TRIGGER''"
| "kind_as_str KCreateView = ''CREATE VIEW''"
| "kind_as_str KCreateVirtualTable = ''CREATE VIRTUAL TABLE''"
| "kind_as_str KDelete = ''DELETE''"
| "kind_as_str KDetach = ''DETACH''"
| "kind_as_str KDropIndex = ''DROP INDEX''"
| "kind_as_str KDropTable = ''DROP TABLE''"
| "kind_as_str KDropTrigger = ''DROP TRIGGER''"
| "kind_as_str KDropView = ''DROP VIEW''"
| "kind_as_str KInsert = ''INSERT''"
| "kind_as_str KPragma = ''PRAGMA''"
| "kind_as_str KReindex = ''REINDEX''"
| "kind_as_str KRelease = ''RELEASE''"
| "kind_as_str KReplace = ''REPLACE''"
| "kind_as_str KRollbackTo = ''ROLLBACK TO''"
| "kind_as_str KSavepoint = ''SAVEPOINT''"
| "kind_as_str KSelect = ''SELECT''"
| "kind_as_str KUpdate = ''UPDATE''"
| "kind_as_str KVacuum = ''VACUUM''"
| "kind_as_str KValues = ''VALUES''"
| "kind_as_str KWith = ''WITH''"

definition column_type_parse :: "string \<Rightarrow> column_type result" where
  "column_type_parse input =
     (let s = to_ascii_lowercase (str_trim input)
      in if s = ''int'' \<or> s = ''integer'' then Ok IntegerT
         else if s = ''float'' \<or> s = ''real'' \<or> s = ''double'' then Ok FloatT
         else if s = ''bool'' \<or> s = ''boolean'' then Ok BooleanT
         else if s = ''text'' \<or> s = ''string'' then Ok TextT
         else if s = ''vector'' then Ok VectorT
         else if s = ''point'' \<or> s = ''geo'' \<or> s = ''geography'' \<or> s = ''coordinate'' then Ok PointT
         else Err (Parse (''unknown column type '' @ s)))"

fun column_type_as_str :: "column_type \<Rightarrow> string" where
  "column_type_as_str IntegerT = ''integer''"
| "column_type_as_str FloatT = ''float''"
| "column_type_as_str BooleanT = ''boolean''"
| "column_type_as_str TextT = ''text''"
| "column_type_as_str VectorT = ''vector''"
| "column_type_as_str PointT = ''point''"

fun mutates_catalog :: "statement \<Rightarrow> bool" where
  "mutates_catalog (CreateTable _ _) = True"
| "mutates_catalog (CreateIndex _ _ _ _) = True"
| "mutates_catalog (Insert _ _ _) = True"
| "mutates_catalog (Update _ _ _) = True"
| "mutates_catalog (Delete _ _) = True"
| "mutates_catalog _ = False"

subsection \<open>The platform\<close>

text \<open>
  Functions of the Rust standard library whose result rests on data outside the crate: the Unicode
  tables (\<^verbatim>\<open>char::is_alphanumeric\<close>, \<^verbatim>\<open>str::to_lowercase\<close>), the \<^verbatim>\<open>Debug\<close> text of a value (shortest float
  digits), decimal to float conversion, and rounded floating point arithmetic. \<open>f64_sum\<close> is
  \<^verbatim>\<open>Iterator::sum\<close> over \<^verbatim>\<open>f64\<close>. \<open>overflow_checks\<close> is the setting of the build of that name: when it is on,
  as in a debug build, an addition that leaves its type panics; when it is off, as in a release build, it wraps.
\<close>

record platform =
  char_is_alphanumeric :: "string \<Rightarrow> bool"
  str_to_lowercase :: "string \<Rightarrow> string"
  debug_value :: "sql_value \<Rightarrow> string"
  str_parse_f64 :: "string \<Rightarrow> f64 option"
  str_parse_f32 :: "string \<Rightarrow> f32 option"
  f64_of_f32 :: "f32 \<Rightarrow> f64"
  f64_add :: "f64 \<Rightarrow> f64 \<Rightarrow> f64"
  f64_sub :: "f64 \<Rightarrow> f64 \<Rightarrow> f64"
  f64_mul :: "f64 \<Rightarrow> f64 \<Rightarrow> f64"
  f64_div :: "f64 \<Rightarrow> f64 \<Rightarrow> f64"
  f64_sum :: "f64 list \<Rightarrow> f64"
  f64_sqrt :: "f64 \<Rightarrow> f64"
  f64_sin :: "f64 \<Rightarrow> f64"
  f64_cos :: "f64 \<Rightarrow> f64"
  f64_atan2 :: "f64 \<Rightarrow> f64 \<Rightarrow> f64"
  f64_powi :: "f64 \<Rightarrow> int \<Rightarrow> f64"
  f64_to_radians :: "f64 \<Rightarrow> f64"
  overflow_checks :: bool

text \<open>\<open>n + 1\<close> on a row identifier.\<close>

definition next_id :: "platform \<Rightarrow> u64 \<Rightarrow> u64 result" where
  "next_id P n = (if overflow_checks P \<and> n = - 1 then Panic ''attempt to add with overflow'' else Ok (n + 1))"

lemma next_id_room [simp]: "n \<noteq> - 1 \<Longrightarrow> next_id P n = Ok (n + 1)"
  by (simp add: next_id_def)

subsection \<open>Properties\<close>

lemma str_trim_ascii:
  assumes "ascii s" "s = [] \<or> \<not> is_whitespace [hd s] \<and> \<not> is_whitespace [last s]"
  shows "str_trim s = s"
proof -
  have "dropWhile is_whitespace (map (\<lambda>c. [c]) s) = map (\<lambda>c. [c]) s"
    using assms(2) by (intro dropWhile_id) (auto simp: hd_map)
  moreover have "dropWhileEnd is_whitespace (map (\<lambda>c. [c]) s) = map (\<lambda>c. [c]) s"
    using assms(2) by (intro dropWhileEnd_id) (auto simp: last_map)
  moreover have "concat (map (\<lambda>c. [c]) s) = s" by (induction s) auto
  ultimately show ?thesis using assms(1) by (simp add: str_trim_def utf8_chars_ascii)
qed

lemma column_type_parse_as_str: "column_type_parse (column_type_as_str ty) = Ok ty"
proof (cases ty)
qed (simp_all add: column_type_parse_def str_trim_ascii is_whitespace_def code_def
      to_ascii_lowercase_def ascii_lower_def)

subsection \<open>A concrete platform\<close>

text \<open>
  An instance of the platform record for the examples: ASCII letters and digits, ASCII lower case, and
  constant floating point operations. No theorem depends on it; the examples evaluate with it.
\<close>

definition demo_platform :: platform where
  "demo_platform =
     \<lparr>char_is_alphanumeric = (\<lambda>ch. case ch of
          [c] \<Rightarrow> (48 \<le> code c \<and> code c \<le> 57) \<or> (65 \<le> code c \<and> code c \<le> 90) \<or> (97 \<le> code c \<and> code c \<le> 122)
        | _ \<Rightarrow> False),
      str_to_lowercase = to_ascii_lowercase, debug_value = (\<lambda>_. ''?''),
      str_parse_f64 = (\<lambda>_. None), str_parse_f32 = (\<lambda>_. None), f64_of_f32 = (\<lambda>_. 0),
      f64_add = (\<lambda>a b. a), f64_sub = (\<lambda>a b. a), f64_mul = (\<lambda>a b. a), f64_div = (\<lambda>a b. a),
      f64_sum = (\<lambda>_. 0), f64_sqrt = (\<lambda>a. a), f64_sin = (\<lambda>a. a), f64_cos = (\<lambda>a. a),
      f64_atan2 = (\<lambda>a b. a), f64_powi = (\<lambda>a n. a), f64_to_radians = (\<lambda>a. a), overflow_checks = True\<rparr>"

end
