(* ===== verification/Codec.thy ===== *)
theory Codec
  imports Values
begin

section \<open>The value codec of the database file\<close>

text \<open>
  \<^verbatim>\<open>src/src/storage/codec.rs\<close>: values as tagged text (integers in decimal, floats by their bits in
  hexadecimal, strings as hexadecimal bytes), and back. The locale \<open>codec\<close> states the contract the
  catalog and the indexes rely on (decoding undoes encoding on valid values) and \<open>field_codec\<close> adds
  that encoded fields do not contain the separators they are joined with.
\<close>

subsection \<open>Encoding\<close>

definition encode_string :: "string \<Rightarrow> string" where
  "encode_string input = concat (map (\<lambda>b. hex_pad 2 (code b)) input)"

fun encode_value :: "sql_value \<Rightarrow> string" where
  "encode_value Null = ''N''"
| "encode_value (Integer v) = ''I:'' @ show_i64 v"
| "encode_value (Float v) = ''F:'' @ hex_pad 16 (unat v)"
| "encode_value (Boolean v) = ''B:'' @ (if v then ''1'' else ''0'')"
| "encode_value (Text v) = ''T:'' @ encode_string v"
| "encode_value (Vector vs) = ''V:'' @ join '','' (map (\<lambda>v. hex_pad 8 (unat v)) vs)"
| "encode_value (PointV p) = ''P:'' @ hex_pad 16 (unat (lon p)) @ '','' @ hex_pad 16 (unat (lat p))"

subsection \<open>Decoding\<close>

text \<open>One step of the loop in \<^verbatim>\<open>decode_string\<close>: two bytes of text to one byte.\<close>

definition decode_byte :: "string \<Rightarrow> char result" where
  "decode_byte chunk =
     (if \<not> utf8_valid chunk then Err (Execution ''invalid hex string'')
      else case parse_unsigned 8 16 chunk of
             None \<Rightarrow> Err (Execution ''invalid hex string'')
           | Some n \<Rightarrow> Ok (char_of n))"

definition decode_string :: "string \<Rightarrow> string result" where
  "decode_string input =
     (if odd (length input) then Err (Execution ''invalid hex string length'')
      else rbind (rmap decode_byte (chunks 2 input))
             (\<lambda>bytes. if utf8_valid bytes then Ok bytes else Err (Execution ''invalid utf-8 string'')))"

definition decode_component :: "string \<Rightarrow> f32 result" where
  "decode_component part =
     (case parse_unsigned 32 16 part of
        None \<Rightarrow> Err (Execution ''invalid vector in database file'')
      | Some n \<Rightarrow> Ok (of_nat n))"

definition decode_vector :: "string \<Rightarrow> sql_value result" where
  "decode_vector body =
     rbind (if body = [] then Ok [] else rmap decode_component (split_char (CHR '','') body))
       (\<lambda>values. Ok (Vector values))"

definition decode_point :: "string \<Rightarrow> sql_value result" where
  "decode_point body =
     rbind (ok_or (Execution ''invalid point in database file'') (split_once (CHR '','') body))
       (\<lambda>(lo, la).
          rbind (ok_or (Execution ''invalid point lon'') (parse_unsigned 64 16 lo)) (\<lambda>x.
          rbind (ok_or (Execution ''invalid point lat'') (parse_unsigned 64 16 la)) (\<lambda>y.
            Ok (PointV \<lparr>lon = of_nat x, lat = of_nat y\<rparr>))))"

definition decode_value :: "string \<Rightarrow> sql_value result" where
  "decode_value input =
     (let (kind, body) = (case split_once (CHR '':'') input of None \<Rightarrow> (input, []) | Some kb \<Rightarrow> kb)
      in if kind = ''N'' then Ok Null
         else if kind = ''I'' then
           (case parse_i64 body of
              None \<Rightarrow> Err (Execution ''invalid integer in database file'')
            | Some v \<Rightarrow> Ok (Integer v))
         else if kind = ''F'' then
           (case parse_unsigned 64 16 body of
              None \<Rightarrow> Err (Execution ''invalid float in database file'')
            | Some n \<Rightarrow> Ok (Float (of_nat n)))
         else if kind = ''B'' then
           (if body = ''0'' then Ok (Boolean False)
            else if body = ''1'' then Ok (Boolean True)
            else Err (Execution ''invalid boolean in database file''))
         else if kind = ''T'' then rbind (decode_string body) (\<lambda>s. Ok (Text s))
         else if kind = ''V'' then decode_vector body
         else if kind = ''P'' then decode_point body
         else Err (Execution ''unknown value kind in database file''))"

text \<open>A value the crate can hold: every Rust \<^verbatim>\<open>String\<close> is valid UTF-8.\<close>

fun value_valid :: "sql_value \<Rightarrow> bool" where
  "value_valid (Text s) = utf8_valid s"
| "value_valid _ = True"

subsection \<open>The contract\<close>

locale codec =
  fixes enc :: "'a \<Rightarrow> string"
    and dec :: "string \<Rightarrow> 'a result"
    and valid :: "'a \<Rightarrow> bool"
  assumes dec_enc: "valid x \<Longrightarrow> dec (enc x) = Ok x"
begin

lemma enc_inj: "valid x \<Longrightarrow> valid y \<Longrightarrow> enc x = enc y \<longleftrightarrow> x = y"
  by (metis dec_enc result.inject(1))

lemma rmap_dec_enc: "\<forall>x \<in> set xs. valid x \<Longrightarrow> rmap dec (map enc xs) = Ok xs"
  by (induction xs) (auto simp: dec_enc)

end

locale field_codec = codec +
  fixes sep :: char
  assumes enc_no_sep: "sep \<notin> set (enc x)"
begin

lemma split_join_enc: "xs \<noteq> [] \<Longrightarrow> split_char sep (join [sep] (map enc xs)) = map enc xs"
  by (rule split_char_join) (auto simp: enc_no_sep)

lemma dec_joined:
  "xs \<noteq> [] \<Longrightarrow> \<forall>x \<in> set xs. valid x \<Longrightarrow> rmap dec (split_char sep (join [sep] (map enc xs))) = Ok xs"
  by (simp add: split_join_enc rmap_dec_enc)

lemma split_once_enc: "split_once sep (enc x @ sep # s) = Some (enc x, s)"
  by (rule split_once_first) (rule enc_no_sep)

end

subsection \<open>The codec keeps it\<close>

lemma code_less: "code c < 256"
  by (simp add: code_def)

lemma char_of_code [simp]: "char_of (code c) = c"
  by (simp add: code_def)

lemma is_hex_ascii: "is_hex c \<Longrightarrow> code c < 128"
  by (auto simp: is_hex_def)

lemma decode_byte_hex: "decode_byte (hex_pad 2 (code b)) = Ok b"
proof -
  have "ascii (hex_pad 2 (code b))"
    by (auto simp: ascii_def dest: hex_pad_hex is_hex_ascii)
  with code_less [of b] show ?thesis
    by (simp add: decode_byte_def ascii_utf8_valid parse_unsigned_hex_pad)
qed

lemma length_byte_hex [simp]: "length (hex_pad 2 (code b)) = 2"
  using code_less [of b] by (simp add: length_hex_pad)

lemma chunks_encode_string: "chunks 2 (encode_string s) = map (\<lambda>b. hex_pad 2 (code b)) s"
  by (induction s) (simp_all add: encode_string_def chunks.simps [of 2 "_ @ _"])

lemma length_encode_string: "length (encode_string s) = 2 * length s"
  by (induction s) (simp_all add: encode_string_def)

lemma encode_string_hex: "c \<in> set (encode_string s) \<Longrightarrow> is_hex c"
  by (auto simp: encode_string_def dest: hex_pad_hex)

interpretation byte_codec: codec "\<lambda>b. hex_pad 2 (code b)" decode_byte "\<lambda>_. True"
  by unfold_locales (simp add: decode_byte_hex)

lemma decode_encode_string: "utf8_valid s \<Longrightarrow> decode_string (encode_string s) = Ok s"
  by (simp add: decode_string_def length_encode_string chunks_encode_string byte_codec.rmap_dec_enc)

interpretation string_codec: codec encode_string decode_string utf8_valid
  by unfold_locales (rule decode_encode_string)

lemma parse_unat_hex:
  fixes w :: "'a::len word"
  shows "parse_unsigned LENGTH('a) 16 (hex_pad k (unat w)) = Some (unat w)"
  by (intro parse_unsigned_hex_pad unsigned_less)

lemma parse_f64_hex [simp]: "parse_unsigned 64 16 (hex_pad k (unat (w :: f64))) = Some (unat w)"
  using parse_unat_hex [of k w] by simp

lemma hex_pad_no_comma: "CHR '','' \<notin> set (hex_pad k n)"
  using hex_pad_hex not_hex by blast

interpretation component_codec:
  field_codec "\<lambda>v. hex_pad 8 (unat v)" decode_component "\<lambda>_. True" "CHR '',''"
proof unfold_locales
  fix v :: f32
  show "decode_component (hex_pad 8 (unat v)) = Ok v"
    using parse_unat_hex [of 8 v] by (simp add: decode_component_def)
qed (rule hex_pad_no_comma)

lemma join_hex_ne: "vs \<noteq> [] \<Longrightarrow> join '','' (map (\<lambda>v. hex_pad 8 (unat v)) vs) \<noteq> []"
  by (cases vs rule: list.exhaust; cases "tl vs") auto

lemma decode_vector_join: "decode_vector (join '','' (map (\<lambda>v. hex_pad 8 (unat v)) vs)) = Ok (Vector vs)"
proof (cases "vs = []")
  case False
  then show ?thesis
    using component_codec.dec_joined [of vs] join_hex_ne [of vs] by (simp add: decode_vector_def)
qed (simp add: decode_vector_def)

lemma decode_point_hex:
  "decode_point (hex_pad 16 (unat (lon p)) @ '','' @ hex_pad 16 (unat (lat p))) = Ok (PointV p)"
  using split_once_first [OF hex_pad_no_comma]
  by (simp add: decode_point_def)

lemma decode_value_tag:
  "decode_value (k # CHR '':'' # body) =
     (if k = CHR '':'' then Err (Execution ''unknown value kind in database file'')
      else if k = CHR ''N'' then Ok Null
      else if k = CHR ''I'' then
        (case parse_i64 body of
           None \<Rightarrow> Err (Execution ''invalid integer in database file'') | Some v \<Rightarrow> Ok (Integer v))
      else if k = CHR ''F'' then
        (case parse_unsigned 64 16 body of
           None \<Rightarrow> Err (Execution ''invalid float in database file'') | Some n \<Rightarrow> Ok (Float (of_nat n)))
      else if k = CHR ''B'' then
        (if body = ''0'' then Ok (Boolean False) else if body = ''1'' then Ok (Boolean True)
         else Err (Execution ''invalid boolean in database file''))
      else if k = CHR ''T'' then rbind (decode_string body) (\<lambda>s. Ok (Text s))
      else if k = CHR ''V'' then decode_vector body
      else if k = CHR ''P'' then decode_point body
      else Err (Execution ''unknown value kind in database file''))"
  by (simp add: decode_value_def)

lemma decode_encode_value: "value_valid v \<Longrightarrow> decode_value (encode_value v) = Ok v"
proof (cases v)
  case Null
  then show ?thesis by (simp add: decode_value_def)
qed (simp_all add: decode_value_tag parse_i64_show decode_encode_string decode_vector_join decode_point_hex [simplified])

interpretation value_codec: codec encode_value decode_value value_valid
  by unfold_locales (rule decode_encode_value)

text \<open>No separator of the file format occurs in an encoded string or value.\<close>

definition field_char :: "char \<Rightarrow> bool" where
  "field_char c \<longleftrightarrow> c \<noteq> tab \<and> c \<noteq> newline \<and> c \<noteq> carriage \<and> c \<noteq> CHR ''=''"

lemma hex_field_char: "is_hex c \<Longrightarrow> field_char c"
  using not_hex by (auto simp: field_char_def)

lemma show_i64_field_char: "c \<in> set (show_i64 v) \<Longrightarrow> field_char c"
  using show_radix_hex [of 10 c] by (auto simp: show_i64_def hex_field_char field_char_def split: if_splits)

lemma set_join: "c \<in> set (join sep ss) \<Longrightarrow> c \<in> set sep \<or> (\<exists>s \<in> set ss. c \<in> set s)"
  by (induction sep ss rule: join.induct) auto

lemma encode_value_field_char: "c \<in> set (encode_value v) \<Longrightarrow> field_char c"
  by (cases v)
    (auto simp: field_char_def hex_field_char
       dest!: set_join show_i64_field_char encode_string_hex hex_pad_hex hex_field_char split: if_splits)

lemma encode_string_field_char: "c \<in> set (encode_string s) \<Longrightarrow> field_char c"
  by (auto dest: encode_string_hex hex_field_char)

subsection \<open>Properties\<close>

text \<open>C34: Every value survives the file format: reading the text written for a value gives the value back,
  bit for bit for floats, vectors and points.\<close>

theorem value_roundtrip: "value_valid v \<Longrightarrow> decode_value (encode_value v) = Ok v"
  by (rule decode_encode_value)

theorem value_roundtrip_witness: "decode_value (encode_value (Text ''a:b'')) = Ok (Text ''a:b'')"
  using value_roundtrip [of "Text ''a:b''"] by (simp add: code_def)

end
