(* ===== verification/Options.thy ===== *)
theory Options
  imports Values
begin

section \<open>Runtime options\<close>

text \<open>
  The option types of \<^verbatim>\<open>src/src/logging.rs\<close> (\<^verbatim>\<open>DatabaseOptions\<close>, its builders and \<^verbatim>\<open>validate\<close>) and the
  table-level part of them (\<^verbatim>\<open>TableRuntimeOptions\<close> of \<^verbatim>\<open>src/src/storage/table.rs\<close>). \<^verbatim>\<open>usize\<close> settings are
  natural numbers, durations are nanoseconds, and a path is split the way \<^verbatim>\<open>Path::with_extension\<close>
  sees it: parent directory, file stem and extension.
\<close>

datatype wal_mode = WalDisabled | WalRedoLog
datatype fsync_mode = FsyncAlways | FsyncDataOnly | FsyncNever
datatype sql_dialect = Fsql | Sqlite | PostgreSql
datatype fulltext_tokenizer = SimpleTok | WhitespaceTok | ExactTok
datatype vector_metric = Euclidean | Cosine | DotProduct
datatype geo_system = Wgs84 | Cartesian

record path =
  path_parent :: string
  path_stem :: string
  path_extension :: "string option"

record vector_index_options =
  metric :: vector_metric
  dimensions :: "nat option"
  ef_search :: nat
  hnsw_m :: nat

record database_options =
  page_size :: nat
  cache_capacity :: nat
  wal_mode :: wal_mode
  fsync_mode :: fsync_mode
  db_worker_threads :: nat
  sql_dialect :: sql_dialect
  db_tokenizer :: fulltext_tokenizer
  db_vector_index :: vector_index_options
  db_geo :: geo_system
  slow_sql_threshold :: "nat option"
  slow_sql_log_path :: "path option"
  error_log_path :: "path option"
  binlog_path :: "path option"
  redolog_path :: "path option"
  undolog_path :: "path option"

record table_options =
  fulltext_tokenizer :: fulltext_tokenizer
  vector_index :: vector_index_options
  geo_coordinate_system :: geo_system
  worker_threads :: nat

definition vector_index_default :: vector_index_options where
  "vector_index_default = \<lparr>metric = Euclidean, dimensions = None, ef_search = 128, hnsw_m = 16\<rparr>"

definition database_options_default :: database_options where
  "database_options_default =
     \<lparr>page_size = 4096, cache_capacity = 128, wal_mode = WalDisabled, fsync_mode = FsyncAlways,
      db_worker_threads = 1, sql_dialect = Fsql, db_tokenizer = SimpleTok,
      db_vector_index = vector_index_default, db_geo = Wgs84, slow_sql_threshold = None,
      slow_sql_log_path = None, error_log_path = None, binlog_path = None, redolog_path = None,
      undolog_path = None\<rparr>"

definition table_options_default :: table_options where
  "table_options_default =
     \<lparr>fulltext_tokenizer = SimpleTok, vector_index = vector_index_default,
      geo_coordinate_system = Wgs84, worker_threads = 1\<rparr>"

definition table_runtime_options :: "database_options \<Rightarrow> table_options" where
  "table_runtime_options opts =
     \<lparr>fulltext_tokenizer = db_tokenizer opts, vector_index = db_vector_index opts,
      geo_coordinate_system = db_geo opts, worker_threads = db_worker_threads opts\<rparr>"

text \<open>\<^verbatim>\<open>usize::is_power_of_two\<close>.\<close>

fun is_power_of_two :: "nat \<Rightarrow> bool" where
  "is_power_of_two n = (if n = 0 then False else if n = 1 then True else even n \<and> is_power_of_two (n div 2))"

declare is_power_of_two.simps [simp del]

definition options_validate :: "database_options \<Rightarrow> unit result" where
  "options_validate opts =
     (if \<not> is_power_of_two (page_size opts) \<or> \<not> (512 \<le> page_size opts \<and> page_size opts \<le> 65536)
      then Err (Execution ''page size must be a power of two between 512 and 65536'')
      else if db_worker_threads opts = 0
      then Err (Execution ''worker thread count must be greater than zero'')
      else if dimensions (db_vector_index opts) = Some 0
      then Err (Execution ''vector dimensions must be greater than zero'')
      else if ef_search (db_vector_index opts) = 0
      then Err (Execution ''vector ef_search must be greater than zero'')
      else if hnsw_m (db_vector_index opts) = 0
      then Err (Execution ''vector m must be greater than zero'')
      else Ok ())"

subsection \<open>Builders\<close>

definition with_page_size :: "nat \<Rightarrow> database_options \<Rightarrow> database_options" where
  "with_page_size n opts = opts\<lparr>page_size := n\<rparr>"

definition with_cache_capacity :: "nat \<Rightarrow> database_options \<Rightarrow> database_options" where
  "with_cache_capacity n opts = opts\<lparr>cache_capacity := n\<rparr>"

definition with_wal_mode :: "wal_mode \<Rightarrow> database_options \<Rightarrow> database_options" where
  "with_wal_mode w opts = opts\<lparr>wal_mode := w\<rparr>"

definition with_fsync_mode :: "fsync_mode \<Rightarrow> database_options \<Rightarrow> database_options" where
  "with_fsync_mode f opts = opts\<lparr>fsync_mode := f\<rparr>"

definition with_worker_threads :: "nat \<Rightarrow> database_options \<Rightarrow> database_options" where
  "with_worker_threads n opts = opts\<lparr>db_worker_threads := n\<rparr>"

definition with_sql_dialect :: "sql_dialect \<Rightarrow> database_options \<Rightarrow> database_options" where
  "with_sql_dialect d opts = opts\<lparr>sql_dialect := d\<rparr>"

definition with_fulltext_tokenizer :: "fulltext_tokenizer \<Rightarrow> database_options \<Rightarrow> database_options" where
  "with_fulltext_tokenizer k opts = opts\<lparr>db_tokenizer := k\<rparr>"

definition with_vector_index :: "vector_index_options \<Rightarrow> database_options \<Rightarrow> database_options" where
  "with_vector_index v opts = opts\<lparr>db_vector_index := v\<rparr>"

definition with_geo_coordinate_system :: "geo_system \<Rightarrow> database_options \<Rightarrow> database_options" where
  "with_geo_coordinate_system g opts = opts\<lparr>db_geo := g\<rparr>"

definition with_slow_sql_log :: "path \<Rightarrow> nat \<Rightarrow> database_options \<Rightarrow> database_options" where
  "with_slow_sql_log p threshold opts = opts\<lparr>slow_sql_log_path := Some p, slow_sql_threshold := Some threshold\<rparr>"

definition with_error_log :: "path \<Rightarrow> database_options \<Rightarrow> database_options" where
  "with_error_log p opts = opts\<lparr>error_log_path := Some p\<rparr>"

definition with_binlog :: "path \<Rightarrow> database_options \<Rightarrow> database_options" where
  "with_binlog p opts = opts\<lparr>binlog_path := Some p\<rparr>"

definition with_redolog :: "path \<Rightarrow> database_options \<Rightarrow> database_options" where
  "with_redolog p opts = opts\<lparr>redolog_path := Some p, wal_mode := WalRedoLog\<rparr>"

definition with_undolog :: "path \<Rightarrow> database_options \<Rightarrow> database_options" where
  "with_undolog p opts = opts\<lparr>undolog_path := Some p\<rparr>"

subsection \<open>Properties\<close>

lemma is_power_of_two_iff: "is_power_of_two n \<longleftrightarrow> (\<exists>k. n = 2 ^ k)"
proof (induction n rule: is_power_of_two.induct)
  case (1 n)
  consider "n = 0" | "n = 1" | "1 < n" by linarith
  then show ?case
  proof cases
    case 3
    have "even n \<and> (\<exists>k. n div 2 = 2 ^ k) \<longleftrightarrow> (\<exists>k. n = 2 ^ k)"
    proof
      assume "even n \<and> (\<exists>k. n div 2 = 2 ^ k)"
      then obtain k where "n = 2 ^ Suc k" by (auto elim: evenE)
      then show "\<exists>k. n = 2 ^ k" by blast
    next
      assume "\<exists>k. n = 2 ^ k"
      then obtain k where "n = 2 ^ k" by blast
      with 3 show "even n \<and> (\<exists>k. n div 2 = 2 ^ k)" by (cases k) auto
    qed
    with 3 1 show ?thesis by (simp add: is_power_of_two.simps [of n])
  next
    case 1
    then show ?thesis by (simp add: is_power_of_two.simps)
  next
    case 2
    then have "n = 2 ^ 0" by simp
    with 2 show ?thesis by (auto simp: is_power_of_two.simps intro: exI [of _ "0::nat"])
  qed
qed

lemma options_validate_iff:
  "options_validate opts = Ok () \<longleftrightarrow>
     (\<exists>k. 9 \<le> k \<and> k \<le> 16 \<and> page_size opts = 2 ^ k) \<and> 0 < db_worker_threads opts \<and>
     dimensions (db_vector_index opts) \<noteq> Some 0 \<and> 0 < ef_search (db_vector_index opts) \<and>
     0 < hnsw_m (db_vector_index opts)"
proof -
  have "(\<exists>k. page_size opts = 2 ^ k) \<and> 512 \<le> page_size opts \<and> page_size opts \<le> 65536 \<longleftrightarrow>
      (\<exists>k. 9 \<le> k \<and> k \<le> 16 \<and> page_size opts = 2 ^ k)"
  proof -
    have "(512::nat) \<le> 2 ^ k \<and> (2::nat) ^ k \<le> 65536 \<longleftrightarrow> 9 \<le> k \<and> k \<le> 16" for k
      using power_increasing_iff [of "2::nat" 9 k] power_increasing_iff [of "2::nat" k 16] by simp
    then show ?thesis by metis
  qed
  then show ?thesis by (auto simp: options_validate_def is_power_of_two_iff)
qed

lemma options_default_valid: "options_validate database_options_default = Ok ()"
  by (auto simp: options_validate_iff database_options_default_def vector_index_default_def
      intro!: exI [of _ 12])

text \<open>Options are accepted exactly when the page size is a power of two from 512 to 65536, there is a
  worker thread, a required vector dimension is positive and the index parameters are positive.\<close>

theorem options_accepted_iff:
  "options_validate opts = Ok () \<longleftrightarrow>
     (\<exists>k. 9 \<le> k \<and> k \<le> 16 \<and> page_size opts = 2 ^ k) \<and> 0 < db_worker_threads opts \<and>
     dimensions (db_vector_index opts) \<noteq> Some 0 \<and> 0 < ef_search (db_vector_index opts) \<and>
     0 < hnsw_m (db_vector_index opts)"
  by (rule options_validate_iff)

end
