(* ===== verification/Table.thy ===== *)
theory Table
  imports Codec Options
begin

section \<open>Tables\<close>

text \<open>
  \<^verbatim>\<open>src/src/storage/table.rs\<close>: a table's columns, rows and indexes, and every operation on them. An
  operation that mutates the table returns the outcome together with the table it leaves behind, also
  when it fails, as \<^verbatim>\<open>&mut self\<close> does. Row identifiers are \<^verbatim>\<open>u64\<close> values, so \<open>next_row_id + 1\<close> wraps
  (as in a release build). The primary key index maps an encoded key to a row, a secondary index an
  encoded value to a set of rows, a full-text index a token to a set of rows.
\<close>

record index =
  ix_column :: string
  ix_map :: "(string, u64 list) bmap"

record fulltext_index =
  ft_column :: string
  ft_map :: "(string, u64 list) bmap"

datatype access_path = TableScan | PrimaryKeyPath | SecondaryIndexPath string | FullTextIndexPath string

record table =
  tname :: string
  columns :: "column list"
  rows :: "(u64, row) bmap"
  next_row_id :: u64
  primary_key :: "string option"
  primary :: "(string, u64) bmap"
  indexes :: "(string, index) bmap"
  fulltext_indexes :: "(string, fulltext_index) bmap"

subsection \<open>Index keys and tokens\<close>

fun index_key :: "sql_value \<Rightarrow> string result" where
  "index_key Null = Ok ''N''"
| "index_key (Integer v) = Ok (''I:'' @ show_i64 v)"
| "index_key (Float v) =
     (if f64_is_finite v then Ok (''F:'' @ hex_pad 16 (unat v))
      else Err (Execution ''non-finite value cannot be indexed''))"
| "index_key (Boolean v) = Ok (''B:'' @ (if v then ''1'' else ''0''))"
| "index_key (Text v) = Ok (''T:'' @ encode_string v)"
| "index_key (Vector vs) =
     (if list_all f32_is_finite vs then Ok (''V:'' @ join '','' (map (\<lambda>v. hex_pad 8 (unat v)) vs))
      else Err (Execution ''non-finite value cannot be indexed''))"
| "index_key (PointV p) =
     (if f64_is_finite (lon p) \<and> f64_is_finite (lat p)
      then Ok (''P:'' @ hex_pad 16 (unat (lon p)) @ '','' @ hex_pad 16 (unat (lat p)))
      else Err (Execution ''non-finite value cannot be indexed''))"

definition tokenize :: "platform \<Rightarrow> string \<Rightarrow> fulltext_tokenizer \<Rightarrow> string list" where
  "tokenize P input tokenizer =
     (case tokenizer of
        SimpleTok \<Rightarrow>
          map (str_to_lowercase P)
            (filter (\<lambda>tok. tok \<noteq> [])
              (map concat (split_pred (\<lambda>ch. \<not> char_is_alphanumeric P ch) (utf8_chars input))))
      | WhitespaceTok \<Rightarrow>
          map (str_to_lowercase P) (filter (\<lambda>tok. tok \<noteq> []) (split_whitespace input))
      | ExactTok \<Rightarrow>
          (let tok = str_to_lowercase P (str_trim input) in if tok = [] then [] else [tok]))"

subsection \<open>Distances\<close>

definition dot_product :: "platform \<Rightarrow> f32 list \<Rightarrow> f32 list \<Rightarrow> f64" where
  "dot_product P left right =
     f64_sum P (map (\<lambda>(l, r). f64_mul P (f64_of_f32 P l) (f64_of_f32 P r)) (zip left right))"

definition vector_distance :: "platform \<Rightarrow> f32 list \<Rightarrow> f32 list \<Rightarrow> vector_metric \<Rightarrow> f64 result" where
  "vector_distance P left right m =
     (if length left \<noteq> length right then Err (Execution ''vector dimensions do not match'')
      else case m of
        Euclidean \<Rightarrow>
          Ok (f64_sqrt P (f64_sum P (map (\<lambda>(l, r).
            let delta = f64_sub P (f64_of_f32 P l) (f64_of_f32 P r) in f64_mul P delta delta) (zip left right))))
      | Cosine \<Rightarrow>
          (let dot = dot_product P left right;
               left_norm = f64_sqrt P (dot_product P left left);
               right_norm = f64_sqrt P (dot_product P right right)
           in if f64_eq left_norm 0 \<or> f64_eq right_norm 0
              then Err (Execution ''cosine vector distance requires non-zero vectors'')
              else Ok (f64_sub P 0x3FF0000000000000 (f64_div P dot (f64_mul P left_norm right_norm))))
      | DotProduct \<Rightarrow> Ok (f64_neg (dot_product P left right)))"

definition haversine_meters :: "platform \<Rightarrow> point \<Rightarrow> point \<Rightarrow> f64" where
  "haversine_meters P left right =
     (let one = 0x3FF0000000000000; two = 0x4000000000000000;
          lat1 = f64_to_radians P (lat left);
          lat2 = f64_to_radians P (lat right);
          delta_lat = f64_to_radians P (f64_sub P (lat right) (lat left));
          delta_lon = f64_to_radians P (f64_sub P (lon right) (lon left));
          a = f64_add P (f64_powi P (f64_sin P (f64_div P delta_lat two)) 2)
                (f64_mul P (f64_mul P (f64_cos P lat1) (f64_cos P lat2))
                  (f64_powi P (f64_sin P (f64_div P delta_lon two)) 2));
          c = f64_mul P two (f64_atan2 P (f64_sqrt P a) (f64_sqrt P (f64_sub P one a)))
      in f64_mul P 0x41584DAE00000000 c)"

definition geo_distance :: "platform \<Rightarrow> point \<Rightarrow> point \<Rightarrow> geo_system \<Rightarrow> f64" where
  "geo_distance P left right g =
     (case g of
        Wgs84 \<Rightarrow> haversine_meters P left right
      | Cartesian \<Rightarrow>
          (let delta_x = f64_sub P (lon right) (lon left);
               delta_y = f64_sub P (lat right) (lat left)
           in f64_sqrt P (f64_add P (f64_mul P delta_x delta_x) (f64_mul P delta_y delta_y))))"

subsection \<open>Creating a table\<close>

fun new_loop :: "string list \<Rightarrow> string option \<Rightarrow> column list \<Rightarrow> string option result" where
  "new_loop seen pk [] = Ok pk"
| "new_loop seen pk (c # cs) =
     (if col_name c \<in> set seen then Err (Execution (''duplicate column '' @ col_name c))
      else if col_primary_key c then
        (if pk \<noteq> None then Err (Execution ''only one primary key is supported'')
         else new_loop (col_name c # seen) (Some (col_name c)) cs)
      else new_loop (col_name c # seen) pk cs)"

definition table_new :: "string \<Rightarrow> column list \<Rightarrow> table result" where
  "table_new nm cols =
     rbind (new_loop [] None cols) (\<lambda>pk.
       Ok \<lparr>tname = nm, columns = cols, rows = [], next_row_id = 1, primary_key = pk, primary = [],
          indexes = [], fulltext_indexes = []\<rparr>)"

subsection \<open>Column lookup and value checks\<close>

definition table_column :: "table \<Rightarrow> string \<Rightarrow> column result" where
  "table_column t nm =
     (let normalized = normalize_identifier nm
      in ok_or (Execution (''unknown column '' @ normalized))
           (find (\<lambda>c. col_name c = normalized) (columns t)))"

definition vector_dimension_error :: "string \<Rightarrow> nat \<Rightarrow> sql_value result" where
  "vector_dimension_error col expected =
     Err (Execution (''vector column '' @ col @ '' requires '' @ show_nat expected @ '' dimension(s)''))"

definition type_error :: "platform \<Rightarrow> column \<Rightarrow> sql_value \<Rightarrow> sql_value result" where
  "type_error P c v =
     Err (Execution (''value '' @ debug_value P v @ '' does not match column '' @ col_name c @
            '' type '' @ column_type_as_str (col_ty c)))"

definition validate_value_with_options :: "platform \<Rightarrow> column \<Rightarrow> sql_value \<Rightarrow> table_options \<Rightarrow> sql_value result" where
  "validate_value_with_options P c v opts =
     (case v of
        Null \<Rightarrow> Ok Null
      | Integer i \<Rightarrow>
          if col_ty c = IntegerT then Ok (Integer i)
          else if col_ty c = FloatT then Ok (Float (f64_of_i64 i))
          else type_error P c v
      | Float f \<Rightarrow> if col_ty c = FloatT \<and> f64_is_finite f then Ok (Float f) else type_error P c v
      | Boolean b \<Rightarrow> if col_ty c = BooleanT then Ok (Boolean b) else type_error P c v
      | Text s \<Rightarrow> if col_ty c = TextT then Ok (Text s) else type_error P c v
      | Vector xs \<Rightarrow>
          if col_ty c = VectorT \<and> list_all f32_is_finite xs then
            (case dimensions (vector_index opts) of
               Some expected \<Rightarrow>
                 if length xs \<noteq> expected then vector_dimension_error (col_name c) expected else Ok (Vector xs)
             | None \<Rightarrow> Ok (Vector xs))
          else type_error P c v
      | PointV p \<Rightarrow>
          if col_ty c = PointT \<and> f64_is_finite (lon p) \<and> f64_is_finite (lat p) then Ok (PointV p)
          else type_error P c v)"

subsection \<open>Rebuilding the indexes\<close>

text \<open>
  \<^verbatim>\<open>rebuild_indexes_with_options\<close> empties every map and then enters the rows in ascending order of their
  identifiers: the primary key, each secondary index, each full-text index. It stops at the first row
  it cannot enter and leaves the maps as far as they were built.
\<close>

definition clear_indexes :: "table \<Rightarrow> table" where
  "clear_indexes t =
     t\<lparr>primary := [],
       indexes := map (\<lambda>e. (fst e, (snd e)\<lparr>ix_map := []\<rparr>)) (indexes t),
       fulltext_indexes := map (\<lambda>e. (fst e, (snd e)\<lparr>ft_map := []\<rparr>)) (fulltext_indexes t)\<rparr>"

definition indexes_for_encoding :: "table \<Rightarrow> (string \<times> string) list" where
  "indexes_for_encoding t = map (\<lambda>e. (fst e, ix_column (snd e))) (indexes t)"

definition fulltext_indexes_for_encoding :: "table \<Rightarrow> (string \<times> string) list" where
  "fulltext_indexes_for_encoding t = map (\<lambda>e. (fst e, ft_column (snd e))) (fulltext_indexes t)"

definition index_primary :: "u64 \<Rightarrow> row \<Rightarrow> table \<Rightarrow> unit result \<times> table" where
  "index_primary rid r t =
     (case primary_key t of
        None \<Rightarrow> (Ok (), t)
      | Some pk \<Rightarrow>
          (case bm_get r pk of
             None \<Rightarrow> (Err (Execution ''primary key value missing''), t)
           | Some v \<Rightarrow>
               if v = Null then (Err (Execution ''primary key cannot be null''), t)
               else (case index_key v of
                   Err e \<Rightarrow> (Err e, t)
                 | Panic m \<Rightarrow> (Panic m, t)
                 | Ok key \<Rightarrow>
                     (let t' = t\<lparr>primary := bm_insert key rid (primary t)\<rparr>
                      in if bm_get (primary t) key \<noteq> None
                         then (Err (Execution ''duplicate primary key''), t') else (Ok (), t')))))"

fun index_secondary :: "u64 \<Rightarrow> row \<Rightarrow> (string \<times> string) list \<Rightarrow> table \<Rightarrow> unit result \<times> table" where
  "index_secondary rid r [] t = (Ok (), t)"
| "index_secondary rid r ((nm, col) # cols) t =
     (case bm_get r col of
        None \<Rightarrow> index_secondary rid r cols t
      | Some v \<Rightarrow>
          (case index_key v of
             Err e \<Rightarrow> (Err e, t)
           | Panic m \<Rightarrow> (Panic m, t)
           | Ok key \<Rightarrow>
               (case bm_get (indexes t) nm of
                  None \<Rightarrow> (Panic ''index exists'', t)
                | Some ix \<Rightarrow>
                    index_secondary rid r cols
                      (t\<lparr>indexes := bm_insert nm (ix\<lparr>ix_map := bm_add key rid (ix_map ix)\<rparr>) (indexes t)\<rparr>))))"

fun index_fulltext ::
  "platform \<Rightarrow> fulltext_tokenizer \<Rightarrow> u64 \<Rightarrow> row \<Rightarrow> (string \<times> string) list \<Rightarrow> table \<Rightarrow> unit result \<times> table"
where
  "index_fulltext P tk rid r [] t = (Ok (), t)"
| "index_fulltext P tk rid r ((nm, col) # cols) t =
     (case bm_get r col of
        Some (Text s) \<Rightarrow>
          (case bm_get (fulltext_indexes t) nm of
             None \<Rightarrow> (Panic ''full-text index exists'', t)
           | Some ft \<Rightarrow>
               index_fulltext P tk rid r cols
                 (t\<lparr>fulltext_indexes := bm_insert nm
                      (ft\<lparr>ft_map := foldl (\<lambda>m tok. bm_add tok rid m) (ft_map ft) (tokenize P s tk)\<rparr>)
                      (fulltext_indexes t)\<rparr>))
      | _ \<Rightarrow> index_fulltext P tk rid r cols t)"

fun rebuild_rows ::
  "platform \<Rightarrow> fulltext_tokenizer \<Rightarrow> (string \<times> string) list \<Rightarrow> (string \<times> string) list \<Rightarrow>
   (u64 \<times> row) list \<Rightarrow> table \<Rightarrow> unit result \<times> table"
where
  "rebuild_rows P tk ixs fts [] t = (Ok (), t)"
| "rebuild_rows P tk ixs fts ((rid, r) # rs) t =
     sbind (index_primary rid r t) (\<lambda>_ t1.
     sbind (index_secondary rid r ixs t1) (\<lambda>_ t2.
     sbind (index_fulltext P tk rid r fts t2) (\<lambda>_ t3.
       rebuild_rows P tk ixs fts rs t3)))"

definition rebuild_indexes_with_options :: "platform \<Rightarrow> table_options \<Rightarrow> table \<Rightarrow> unit result \<times> table" where
  "rebuild_indexes_with_options P opts t =
     rebuild_rows P (fulltext_tokenizer opts) (indexes_for_encoding t) (fulltext_indexes_for_encoding t)
       (rows t) (clear_indexes t)"

definition rebuild_indexes :: "platform \<Rightarrow> table \<Rightarrow> unit result \<times> table" where
  "rebuild_indexes P t = rebuild_indexes_with_options P table_options_default t"

subsection \<open>Creating an index\<close>

definition add_persisted_index :: "string \<Rightarrow> string \<Rightarrow> table \<Rightarrow> table" where
  "add_persisted_index nm col t = t\<lparr>indexes := bm_insert nm \<lparr>ix_column = col, ix_map = []\<rparr> (indexes t)\<rparr>"

definition add_persisted_fulltext_index :: "string \<Rightarrow> string \<Rightarrow> table \<Rightarrow> table" where
  "add_persisted_fulltext_index nm col t =
     t\<lparr>fulltext_indexes := bm_insert nm \<lparr>ft_column = col, ft_map = []\<rparr> (fulltext_indexes t)\<rparr>"

definition create_index :: "platform \<Rightarrow> string \<Rightarrow> string \<Rightarrow> table \<Rightarrow> unit result \<times> table" where
  "create_index P nm col t =
     (case table_column t col of
        Err e \<Rightarrow> (Err e, t)
      | Panic m \<Rightarrow> (Panic m, t)
      | Ok _ \<Rightarrow>
          if bm_get (indexes t) nm \<noteq> None \<or> bm_get (fulltext_indexes t) nm \<noteq> None
          then (Err (Execution (''index '' @ nm @ '' already exists'')), t)
          else rebuild_indexes P (t\<lparr>indexes := bm_insert nm \<lparr>ix_column = col, ix_map = []\<rparr> (indexes t)\<rparr>))"

definition create_fulltext_index_with_options ::
  "platform \<Rightarrow> string \<Rightarrow> string \<Rightarrow> table_options \<Rightarrow> table \<Rightarrow> unit result \<times> table"
where
  "create_fulltext_index_with_options P nm col opts t =
     (case table_column t col of
        Err e \<Rightarrow> (Err e, t)
      | Panic m \<Rightarrow> (Panic m, t)
      | Ok c \<Rightarrow>
          if col_ty c \<noteq> TextT
          then (Err (Execution ''full-text indexes can only be created on text columns''), t)
          else if bm_get (indexes t) nm \<noteq> None \<or> bm_get (fulltext_indexes t) nm \<noteq> None
          then (Err (Execution (''index '' @ nm @ '' already exists'')), t)
          else rebuild_indexes_with_options P opts
                 (t\<lparr>fulltext_indexes := bm_insert nm \<lparr>ft_column = col, ft_map = []\<rparr> (fulltext_indexes t)\<rparr>))"

subsection \<open>Inserting a row\<close>

definition primary_key_column :: "table \<Rightarrow> string option" where
  "primary_key_column t = primary_key t"

definition validate_primary_insert :: "table \<Rightarrow> row \<Rightarrow> unit result" where
  "validate_primary_insert t r =
     (case primary_key t of
        None \<Rightarrow> Ok ()
      | Some pk \<Rightarrow>
          rbind (ok_or (Execution ''primary key value missing'') (bm_get r pk)) (\<lambda>v.
            if v = Null then Err (Execution ''primary key cannot be null'')
            else rbind (index_key v) (\<lambda>key.
              if bm_get (primary t) key \<noteq> None then Err (Execution ''duplicate primary key'') else Ok ())))"

fun fill_row :: "platform \<Rightarrow> table \<Rightarrow> table_options \<Rightarrow> (string \<times> sql_value) list \<Rightarrow> row \<Rightarrow> row result" where
  "fill_row P t opts [] r = Ok r"
| "fill_row P t opts ((nm, v) # rest) r =
     rbind (table_column t nm) (\<lambda>c.
     rbind (validate_value_with_options P c v opts) (\<lambda>v'.
       fill_row P t opts rest (bm_insert (col_name c) v' r)))"

definition insert_with_options ::
  "platform \<Rightarrow> string list option \<Rightarrow> sql_value list \<Rightarrow> table_options \<Rightarrow> table \<Rightarrow> unit result \<times> table"
where
  "insert_with_options P cols vals opts t =
     (let blank = bm_from (map (\<lambda>c. (col_name c, Null)) (columns t));
          targets = (case cols of Some cs \<Rightarrow> cs | None \<Rightarrow> map col_name (columns t))
      in if length targets \<noteq> length vals
         then (Err (Execution (''expected '' @ show_nat (length targets) @ '' value(s), got '' @
                 show_nat (length vals))), t)
         else case rbind (fill_row P t opts (zip targets vals) blank) (\<lambda>r.
                     rbind (validate_primary_insert t r) (\<lambda>_. Ok r)) of
                Err e \<Rightarrow> (Err e, t)
              | Panic m \<Rightarrow> (Panic m, t)
              | Ok r \<Rightarrow>
                  (case next_id P (next_row_id t) of
                     Err e \<Rightarrow> (Err e, t)
                   | Panic m \<Rightarrow> (Panic m, t)
                   | Ok n \<Rightarrow>
                       rebuild_indexes_with_options P opts
                         (t\<lparr>next_row_id := n, rows := bm_insert (next_row_id t) r (rows t)\<rparr>)))"

subsection \<open>Filters\<close>

fun validate_columns :: "table \<Rightarrow> string list \<Rightarrow> unit result" where
  "validate_columns t [] = Ok ()"
| "validate_columns t (c # cs) = rbind (table_column t c) (\<lambda>_. validate_columns t cs)"

definition validate_projection :: "table \<Rightarrow> projection \<Rightarrow> unit result" where
  "validate_projection t p = (case p of Columns cs \<Rightarrow> validate_columns t cs | AllColumns \<Rightarrow> Ok ())"

definition normalize_filter ::
  "platform \<Rightarrow> table \<Rightarrow> sql_filter option \<Rightarrow> table_options \<Rightarrow> sql_filter option result"
where
  "normalize_filter P t f opts =
     (case f of
        Some (Equals nm v) \<Rightarrow>
          rbind (table_column t nm) (\<lambda>c.
          rbind (validate_value_with_options P c v opts) (\<lambda>v'. Ok (Some (Equals (col_name c) v'))))
      | Some (FullText nm q) \<Rightarrow>
          rbind (table_column t nm) (\<lambda>c.
            if col_ty c \<noteq> TextT then Err (Execution ''MATCH requires a text column'')
            else Ok (Some (FullText (col_name c) q)))
      | Some (GeoWithin nm p m incl) \<Rightarrow>
          rbind (table_column t nm) (\<lambda>c.
            if col_ty c \<noteq> PointT then Err (Execution ''GEO_DISTANCE requires a point column'')
            else Ok (Some (GeoWithin (col_name c) p m incl)))
      | None \<Rightarrow> Ok None)"

definition text_matches :: "platform \<Rightarrow> fulltext_tokenizer \<Rightarrow> string list \<Rightarrow> sql_value option \<Rightarrow> bool" where
  "text_matches P tk toks v =
     (case v of Some (Text s) \<Rightarrow> list_all (\<lambda>tok. tok \<in> set (tokenize P s tk)) toks | _ \<Rightarrow> False)"

definition geo_matches :: "platform \<Rightarrow> geo_system \<Rightarrow> point \<Rightarrow> f64 \<Rightarrow> bool \<Rightarrow> sql_value option \<Rightarrow> bool" where
  "geo_matches P g p m incl v =
     (case v of
        Some (PointV cand) \<Rightarrow>
          (let distance = geo_distance P cand p g
           in (incl \<and> f64_le distance m) \<or> (\<not> incl \<and> f64_lt distance m))
      | _ \<Rightarrow> False)"

definition option_value_eq :: "sql_value option \<Rightarrow> sql_value \<Rightarrow> bool" where
  "option_value_eq v w = (case v of Some u \<Rightarrow> value_eq u w | None \<Rightarrow> False)"

definition match_fulltext ::
  "platform \<Rightarrow> table \<Rightarrow> string \<Rightarrow> string \<Rightarrow> table_options \<Rightarrow> (u64 list \<times> access_path) result"
where
  "match_fulltext P t col q opts =
     (let toks = tokenize P q (fulltext_tokenizer opts)
      in if toks = [] then Ok ([], TableScan)
         else case find (\<lambda>e. ft_column (snd e) = col) (fulltext_indexes t) of
           Some (nm, ft) \<Rightarrow>
             Ok (foldl bs_inter (bm_post (ft_map ft) (hd toks)) (map (bm_post (ft_map ft)) (tl toks)),
                 FullTextIndexPath nm)
         | None \<Rightarrow>
             Ok (map fst (filter (\<lambda>e. text_matches P (fulltext_tokenizer opts) toks (bm_get (snd e) col)) (rows t)),
                 TableScan))"

definition matching_row_ids ::
  "platform \<Rightarrow> table \<Rightarrow> sql_filter option \<Rightarrow> table_options \<Rightarrow> (u64 list \<times> access_path) result"
where
  "matching_row_ids P t f opts =
     (case f of
        None \<Rightarrow> Ok (map fst (rows t), TableScan)
      | Some (Equals col v) \<Rightarrow>
          rbind (index_key v) (\<lambda>key.
            if primary_key t = Some col then
              Ok (case bm_get (primary t) key of None \<Rightarrow> [] | Some rid \<Rightarrow> [rid], PrimaryKeyPath)
            else case find (\<lambda>e. ix_column (snd e) = col) (indexes t) of
                Some (nm, ix) \<Rightarrow> Ok (bm_post (ix_map ix) key, SecondaryIndexPath nm)
              | None \<Rightarrow>
                  Ok (map fst (filter (\<lambda>e. option_value_eq (bm_get (snd e) col) v) (rows t)), TableScan))
      | Some (FullText col q) \<Rightarrow> match_fulltext P t col q opts
      | Some (GeoWithin col p m incl) \<Rightarrow>
          Ok (map fst (filter (\<lambda>e.
                geo_matches P (geo_coordinate_system opts) p m incl (bm_get (snd e) col)) (rows t)), TableScan))"

definition explain_filter ::
  "platform \<Rightarrow> table \<Rightarrow> sql_filter option \<Rightarrow> table_options \<Rightarrow> access_path result"
where
  "explain_filter P t f opts =
     rbind (normalize_filter P t f opts) (\<lambda>f'. rbind (matching_row_ids P t f' opts) (\<lambda>r. Ok (snd r)))"

definition matching_row_ids_for_lock ::
  "platform \<Rightarrow> table \<Rightarrow> sql_filter option \<Rightarrow> table_options \<Rightarrow> u64 list result"
where
  "matching_row_ids_for_lock P t f opts =
     rbind (normalize_filter P t f opts) (\<lambda>f'. rbind (matching_row_ids P t f' opts) (\<lambda>r. Ok (fst r)))"

subsection \<open>Reading rows\<close>

definition project_row :: "row \<Rightarrow> projection \<Rightarrow> row" where
  "project_row r p =
     (case p of
        AllColumns \<Rightarrow> r
      | Columns cs \<Rightarrow> bm_from (List.map_filter (\<lambda>c. map_option (Pair c) (bm_get r c)) cs))"

fun vector_scores_chunk ::
  "platform \<Rightarrow> (u64, row) bmap \<Rightarrow> string \<Rightarrow> f32 list \<Rightarrow> vector_metric \<Rightarrow> u64 list \<Rightarrow> (f64 \<times> u64) list result"
where
  "vector_scores_chunk P rs col target m [] = Ok []"
| "vector_scores_chunk P rs col target m (rid # rids) =
     (case Option.bind (bm_get rs rid) (\<lambda>r. bm_get r col) of
        Some (Vector v) \<Rightarrow>
          rbind (vector_distance P v target m) (\<lambda>d.
          rbind (vector_scores_chunk P rs col target m rids) (\<lambda>rest. Ok ((d, rid) # rest)))
      | _ \<Rightarrow> vector_scores_chunk P rs col target m rids)"

definition vector_scores ::
  "platform \<Rightarrow> (u64, row) bmap \<Rightarrow> u64 list \<Rightarrow> string \<Rightarrow> f32 list \<Rightarrow> table_options \<Rightarrow> (f64 \<times> u64) list result"
where
  "vector_scores P rs rids col target opts =
     (let m = metric (vector_index opts)
      in if worker_threads opts \<le> 1 \<or> length rids < 2 then vector_scores_chunk P rs col target m rids
         else let workers = min (worker_threads opts) (length rids);
                  chunk_size = (length rids + workers - 1) div workers
              in rbind (rmap (vector_scores_chunk P rs col target m) (chunks chunk_size rids))
                   (\<lambda>parts. Ok (concat parts)))"

definition sort_scores :: "bool \<Rightarrow> (f64 \<times> u64) list \<Rightarrow> (f64 \<times> u64) list" where
  "sort_scores descending scored =
     (if descending then sort_key (\<lambda>s. (- f64_total_key (fst s), - uint (snd s))) scored
      else sort_key (\<lambda>s. (f64_total_key (fst s), uint (snd s))) scored)"

definition order_rows ::
  "platform \<Rightarrow> table \<Rightarrow> u64 list \<Rightarrow> sql_order option \<Rightarrow> table_options \<Rightarrow> u64 list result"
where
  "order_rows P t rids ord opts =
     (case ord of
        None \<Rightarrow> Ok rids
      | Some (VectorDistance nm target descending) \<Rightarrow>
          rbind (table_column t nm) (\<lambda>c.
            if col_ty c \<noteq> VectorT
            then Err (Execution ''vector distance ordering requires a vector column'')
            else case dimensions (vector_index opts) of
                Some expected \<Rightarrow>
                  if length target \<noteq> expected
                  then Err (Execution (''query vector dimensions must be '' @ show_nat expected))
                  else rbind (vector_scores P (rows t) rids nm target opts)
                         (\<lambda>scored. Ok (map snd (sort_scores descending scored)))
              | None \<Rightarrow>
                  rbind (vector_scores P (rows t) rids nm target opts)
                    (\<lambda>scored. Ok (map snd (sort_scores descending scored)))))"

definition select_with_options ::
  "platform \<Rightarrow> table \<Rightarrow> projection \<Rightarrow> sql_filter option \<Rightarrow> sql_order option \<Rightarrow> nat option \<Rightarrow> table_options \<Rightarrow>
   row list result"
where
  "select_with_options P t p f ord lim opts =
     rbind (validate_projection t p) (\<lambda>_.
     rbind (normalize_filter P t f opts) (\<lambda>f'.
     rbind (matching_row_ids P t f' opts) (\<lambda>(rids, _).
     rbind (order_rows P t rids ord opts) (\<lambda>ordered.
       let limited = (case lim of None \<Rightarrow> ordered | Some n \<Rightarrow> take n ordered)
       in Ok (List.map_filter (\<lambda>rid. map_option (\<lambda>r. project_row r p) (bm_get (rows t) rid)) limited)))))"

subsection \<open>Updating and deleting rows\<close>

fun normalize_assignments ::
  "platform \<Rightarrow> table \<Rightarrow> table_options \<Rightarrow> (string \<times> sql_value) list \<Rightarrow> (string \<times> sql_value) list result"
where
  "normalize_assignments P t opts [] = Ok []"
| "normalize_assignments P t opts ((nm, v) # rest) =
     rbind (table_column t nm) (\<lambda>c.
     rbind (validate_value_with_options P c v opts) (\<lambda>v'.
     rbind (normalize_assignments P t opts rest) (\<lambda>ns. Ok ((col_name c, v') # ns))))"

definition assign_row :: "(string \<times> sql_value) list \<Rightarrow> row \<Rightarrow> row" where
  "assign_row asg r = foldl (\<lambda>r e. bm_insert (fst e) (snd e) r) r asg"

fun update_rows :: "(string \<times> sql_value) list \<Rightarrow> u64 list \<Rightarrow> (u64, row) bmap \<Rightarrow> (u64, row) bmap result" where
  "update_rows asg [] rs = Ok rs"
| "update_rows asg (rid # rids) rs =
     (case bm_get rs rid of
        None \<Rightarrow> Panic ''matched row id exists''
      | Some r \<Rightarrow> update_rows asg rids (bm_insert rid (assign_row asg r) rs))"

definition update_with_options ::
  "platform \<Rightarrow> (string \<times> sql_value) list \<Rightarrow> sql_filter option \<Rightarrow> table_options \<Rightarrow> table \<Rightarrow> nat result \<times> table"
where
  "update_with_options P asg f opts t =
     (case rbind (normalize_filter P t f opts) (\<lambda>f'.
           rbind (matching_row_ids P t f' opts) (\<lambda>(rids, _).
           rbind (normalize_assignments P t opts asg) (\<lambda>normalized.
           rbind (update_rows normalized rids (rows t)) (\<lambda>updated. Ok (length rids, updated))))) of
        Err e \<Rightarrow> (Err e, t)
      | Panic m \<Rightarrow> (Panic m, t)
      | Ok (n, updated) \<Rightarrow>
          (case rebuild_indexes_with_options P opts (t\<lparr>rows := updated\<rparr>) of
             (Ok _, t') \<Rightarrow> (Ok n, t')
           | (Err e, t') \<Rightarrow> (Err e, snd (rebuild_indexes_with_options P opts (t'\<lparr>rows := rows t\<rparr>)))
           | (Panic m, t') \<Rightarrow> (Panic m, t')))"

definition delete_with_options ::
  "platform \<Rightarrow> sql_filter option \<Rightarrow> table_options \<Rightarrow> table \<Rightarrow> nat result \<times> table"
where
  "delete_with_options P f opts t =
     (case rbind (normalize_filter P t f opts) (\<lambda>f'. matching_row_ids P t f' opts) of
        Err e \<Rightarrow> (Err e, t)
      | Panic m \<Rightarrow> (Panic m, t)
      | Ok (rids, _) \<Rightarrow>
          sbind (rebuild_indexes_with_options P opts (t\<lparr>rows := foldl (\<lambda>rs rid. bm_remove rid rs) (rows t) rids\<rparr>))
            (\<lambda>_ t'. (Ok (length rids), t')))"

end
