(* ===== verification/Table_Rebuild.thy ===== *)
theory Table_Rebuild
  imports Table
begin

section \<open>What the indexes of a table hold\<close>

text \<open>
  The contents of the three kinds of index as functions of the rows, and the main fact about
  \<open>rebuild_indexes_with_options\<close>: it succeeds exactly when every row has its own non-null primary key and
  every indexed value has a key, and then the maps are those functions of the rows. Whatever the
  outcome, it changes nothing but the contents of the maps.
\<close>

subsection \<open>Index contents as functions of the rows\<close>

definition row_key :: "string \<Rightarrow> row \<Rightarrow> string option" where
  "row_key pk r =
     (case bm_get r pk of
        None \<Rightarrow> None
      | Some v \<Rightarrow> if v = Null then None else (case index_key v of Ok k \<Rightarrow> Some k | _ \<Rightarrow> None))"

definition primary_step :: "string option \<Rightarrow> u64 \<times> row \<Rightarrow> (string, u64) bmap \<Rightarrow> (string, u64) bmap" where
  "primary_step pk e m =
     (case Option.bind pk (\<lambda>c. row_key c (snd e)) of None \<Rightarrow> m | Some k \<Rightarrow> bm_insert k (fst e) m)"

definition secondary_step :: "string \<Rightarrow> u64 \<times> row \<Rightarrow> (string, u64 list) bmap \<Rightarrow> (string, u64 list) bmap" where
  "secondary_step col e m =
     (case bm_get (snd e) col of
        None \<Rightarrow> m
      | Some v \<Rightarrow> (case index_key v of Ok k \<Rightarrow> bm_add k (fst e) m | _ \<Rightarrow> m))"

definition fulltext_step ::
  "platform \<Rightarrow> fulltext_tokenizer \<Rightarrow> string \<Rightarrow> u64 \<times> row \<Rightarrow> (string, u64 list) bmap \<Rightarrow> (string, u64 list) bmap"
where
  "fulltext_step P tk col e m =
     (case bm_get (snd e) col of
        Some (Text s) \<Rightarrow> foldl (\<lambda>m tok. bm_add tok (fst e) m) m (tokenize P s tk)
      | _ \<Rightarrow> m)"

definition index_with :: "(string \<Rightarrow> (string, u64 list) bmap \<Rightarrow> (string, u64 list) bmap) \<Rightarrow>
  (string, index) bmap \<Rightarrow> (string, index) bmap" where
  "index_with f ixs = map (\<lambda>e. (fst e, (snd e)\<lparr>ix_map := f (ix_column (snd e)) (ix_map (snd e))\<rparr>)) ixs"

definition fulltext_with :: "(string \<Rightarrow> (string, u64 list) bmap \<Rightarrow> (string, u64 list) bmap) \<Rightarrow>
  (string, fulltext_index) bmap \<Rightarrow> (string, fulltext_index) bmap" where
  "fulltext_with f fts = map (\<lambda>e. (fst e, (snd e)\<lparr>ft_map := f (ft_column (snd e)) (ft_map (snd e))\<rparr>)) fts"

definition enter_row :: "platform \<Rightarrow> fulltext_tokenizer \<Rightarrow> table \<Rightarrow> u64 \<times> row \<Rightarrow> table" where
  "enter_row P tk t e =
     t\<lparr>primary := primary_step (primary_key t) e (primary t),
       indexes := index_with (\<lambda>col. secondary_step col e) (indexes t),
       fulltext_indexes := fulltext_with (\<lambda>col. fulltext_step P tk col e) (fulltext_indexes t)\<rparr>"

definition reindexed :: "platform \<Rightarrow> fulltext_tokenizer \<Rightarrow> table \<Rightarrow> table" where
  "reindexed P tk t = foldl (enter_row P tk) (clear_indexes t) (rows t)"

definition indexable_row :: "table \<Rightarrow> row \<Rightarrow> bool" where
  "indexable_row t r \<longleftrightarrow>
     (\<forall>e \<in> set (indexes t). \<forall>v. bm_get r (ix_column (snd e)) = Some v \<longrightarrow> is_ok (index_key v))"

definition keyed_rows :: "table \<Rightarrow> (u64 \<times> row) list \<Rightarrow> bool" where
  "keyed_rows t rs \<longleftrightarrow>
     (\<forall>pk. primary_key t = Some pk \<longrightarrow>
        (\<forall>e \<in> set rs. row_key pk (snd e) \<noteq> None) \<and> distinct (map (\<lambda>e. row_key pk (snd e)) rs))"

definition rows_indexable :: "table \<Rightarrow> bool" where
  "rows_indexable t \<longleftrightarrow> keyed_rows t (rows t) \<and> (\<forall>e \<in> set (rows t). indexable_row t (snd e))"

text \<open>The shape of a table: two tables with the same cleared form differ in the index maps only.\<close>

definition same_shape :: "table \<Rightarrow> table \<Rightarrow> bool" where
  "same_shape t t' \<longleftrightarrow> clear_indexes t = clear_indexes t'"

definition indexes_ok :: "table \<Rightarrow> bool" where
  "indexes_ok t \<longleftrightarrow> bm_ok (indexes t) \<and> bm_ok (fulltext_indexes t)"

subsection \<open>Index keys\<close>

lemma index_key_cases:
  obtains k where "index_key v = Ok k" | "index_key v = Err (Execution ''non-finite value cannot be indexed'')"
  by (cases v; simp; metis)

lemma index_key_not_Panic [simp]: "index_key v \<noteq> Panic m"
  by (cases v) auto

subsection \<open>Shapes\<close>

lemma same_shape_refl [simp, intro]: "same_shape t t"
  by (simp add: same_shape_def)

lemma same_shape_sym: "same_shape t t' \<Longrightarrow> same_shape t' t"
  by (simp add: same_shape_def)

lemma same_shape_trans [trans]: "same_shape t t' \<Longrightarrow> same_shape t' t'' \<Longrightarrow> same_shape t t''"
  by (simp add: same_shape_def)

lemma clear_clear [simp]: "clear_indexes (clear_indexes t) = clear_indexes t"
  by (simp add: clear_indexes_def comp_def)

lemma same_shape_clear [simp, intro]: "same_shape (clear_indexes t) t" "same_shape t (clear_indexes t)"
  by (simp_all add: same_shape_def)

lemma clear_fields [frame_simps]:
  "rows (clear_indexes t) = rows t" "columns (clear_indexes t) = columns t" "tname (clear_indexes t) = tname t"
  "next_row_id (clear_indexes t) = next_row_id t" "primary_key (clear_indexes t) = primary_key t"
  by (simp_all add: clear_indexes_def)

lemma clear_encoding [frame_simps]:
  "indexes_for_encoding (clear_indexes t) = indexes_for_encoding t"
  "fulltext_indexes_for_encoding (clear_indexes t) = fulltext_indexes_for_encoding t"
  by (simp_all add: clear_indexes_def indexes_for_encoding_def fulltext_indexes_for_encoding_def)

lemma same_shape_fields:
  assumes "same_shape t t'"
  shows "rows t = rows t'" "columns t = columns t'" "tname t = tname t'" "next_row_id t = next_row_id t'"
    "primary_key t = primary_key t'" "indexes_for_encoding t = indexes_for_encoding t'"
    "fulltext_indexes_for_encoding t = fulltext_indexes_for_encoding t'"
  using assms unfolding same_shape_def by (metis clear_fields clear_encoding)+

lemma index_names: "map fst (indexes t) = map fst (indexes_for_encoding t)"
  "map fst (fulltext_indexes t) = map fst (fulltext_indexes_for_encoding t)"
  by (simp_all add: indexes_for_encoding_def fulltext_indexes_for_encoding_def)

lemma same_shape_indexes_ok: "same_shape t t' \<Longrightarrow> indexes_ok t = indexes_ok t'"
  by (simp add: indexes_ok_def bm_ok_def index_names same_shape_fields)

lemma clear_primary [simp]: "clear_indexes (t\<lparr>primary := m\<rparr>) = clear_indexes t"
  by (simp add: clear_indexes_def)

lemma clear_index_with [simp]:
  "clear_indexes (t\<lparr>indexes := index_with f (indexes t)\<rparr>) = clear_indexes t"
  "clear_indexes (t\<lparr>fulltext_indexes := fulltext_with g (fulltext_indexes t)\<rparr>) = clear_indexes t"
  by (simp_all add: clear_indexes_def index_with_def fulltext_with_def comp_def)

lemma enter_row_shape [simp, intro]: "same_shape (enter_row P tk t e) t"
  by (simp add: same_shape_def enter_row_def clear_indexes_def index_with_def fulltext_with_def comp_def)

lemma indexable_row_encoding:
  "indexable_row t r \<longleftrightarrow>
     (\<forall>e \<in> set (indexes_for_encoding t). \<forall>v. bm_get r (snd e) = Some v \<longrightarrow> is_ok (index_key v))"
  by (simp add: indexable_row_def indexes_for_encoding_def)

lemma same_shape_indexable: "same_shape t t' \<Longrightarrow> indexable_row t r = indexable_row t' r"
  by (simp add: indexable_row_encoding same_shape_fields)

lemma same_shape_rows_indexable: "same_shape t t' \<Longrightarrow> rows_indexable t = rows_indexable t'"
  by (simp add: rows_indexable_def keyed_rows_def same_shape_indexable same_shape_fields)

subsection \<open>Entering one row\<close>

lemma bm_insert_middle: "bm_ok (xs @ (k, v) # ys) \<Longrightarrow> bm_insert k w (xs @ (k, v) # ys) = xs @ (k, w) # ys"
  by (induction xs) (auto simp: bm_ok_Cons)

lemma map_of_middle: "bm_ok (xs @ (k, v) # ys) \<Longrightarrow> ((bm_get ys)(k \<mapsto> v) ++ bm_get xs) k = Some v"
  using bm_get_iff [of "xs @ (k, v) # ys" k v] by simp

lemma bm_ok_replace: "map fst m = map fst m' \<Longrightarrow> bm_ok m = bm_ok m'"
  by (simp add: bm_ok_def)

lemma index_with_Nil [simp]: "index_with f [] = []" "fulltext_with f [] = []"
  by (simp_all add: index_with_def fulltext_with_def)

lemma index_with_Cons:
  "index_with f (e # es) = (fst e, (snd e)\<lparr>ix_map := f (ix_column (snd e)) (ix_map (snd e))\<rparr>) # index_with f es"
  "fulltext_with g (d # ds) = (fst d, (snd d)\<lparr>ft_map := g (ft_column (snd d)) (ft_map (snd d))\<rparr>) # fulltext_with g ds"
  by (simp_all add: index_with_def fulltext_with_def)

lemma map_fst_index_with [simp]: "map fst (index_with f es) = map fst es" "map fst (fulltext_with g ds) = map fst ds"
  by (simp_all add: index_with_def fulltext_with_def comp_def)

lemma index_secondary_enters:
  assumes "bm_ok (indexes t)" "indexes t = xs @ ys"
    and "\<forall>e \<in> set ys. \<forall>v. bm_get r (ix_column (snd e)) = Some v \<longrightarrow> is_ok (index_key v)"
  shows "index_secondary rid r (map (\<lambda>e. (fst e, ix_column (snd e))) ys) t =
    (Ok (), t\<lparr>indexes := xs @ index_with (\<lambda>col. secondary_step col (rid, r)) ys\<rparr>)"
  using assms
proof (induction ys arbitrary: xs t)
  case (Cons e ys)
  obtain nm ix where e: "e = (nm, ix)" by (cases e)
  define ix' where "ix' = ix\<lparr>ix_map := secondary_step (ix_column ix) (rid, r) (ix_map ix)\<rparr>"
  define t' where "t' = t\<lparr>indexes := xs @ (nm, ix') # ys\<rparr>"
  have ok: "bm_ok (indexes t')"
    using Cons.prems(1,2) e by (subst bm_ok_replace [of _ "indexes t"]) (auto simp: t'_def)
  have step: "index_secondary rid r (map (\<lambda>e. (fst e, ix_column (snd e))) (e # ys)) t =
      index_secondary rid r (map (\<lambda>e. (fst e, ix_column (snd e))) ys) t'"
  proof (cases "bm_get r (ix_column ix)")
    case None
    then have "t' = t" using Cons.prems(2) e by (simp add: t'_def ix'_def secondary_step_def)
    with None show ?thesis by (simp add: e)
  next
    case (Some v)
    then obtain k where "index_key v = Ok k" using Cons.prems(3) e by (cases v rule: index_key_cases) auto
    with Some Cons.prems(1,2) e show ?thesis
      by (simp add: t'_def ix'_def secondary_step_def bm_insert_middle map_of_middle)
  qed
  have "index_secondary rid r (map (\<lambda>e. (fst e, ix_column (snd e))) ys) t' =
      (Ok (), t'\<lparr>indexes := (xs @ [(nm, ix')]) @ index_with (\<lambda>col. secondary_step col (rid, r)) ys\<rparr>)"
    using ok Cons.prems(3) by (intro Cons.IH) (auto simp: t'_def)
  with step show ?case by (simp add: t'_def e ix'_def index_with_Cons)
qed simp

lemma index_secondary_fails:
  assumes "bm_ok (indexes t)" "indexes t = xs @ ys"
    and "\<not> (\<forall>e \<in> set ys. \<forall>v. bm_get r (ix_column (snd e)) = Some v \<longrightarrow> is_ok (index_key v))"
  shows "\<exists>e t'. index_secondary rid r (map (\<lambda>e. (fst e, ix_column (snd e))) ys) t = (Err e, t') \<and> same_shape t' t"
  using assms
proof (induction ys arbitrary: xs t)
  case (Cons e ys)
  obtain nm ix where e: "e = (nm, ix)" by (cases e)
  show ?case
  proof (cases "bm_get r (ix_column ix)")
    case None
    have "\<exists>er t'. index_secondary rid r (map (\<lambda>e. (fst e, ix_column (snd e))) ys) t = (Err er, t') \<and> same_shape t' t"
      using Cons.prems None e by (intro Cons.IH [of _ "xs @ [e]"]) auto
    with None show ?thesis by (simp add: e)
  next
    case (Some v)
    show ?thesis
    proof (cases v rule: index_key_cases)
      case (1 k)
      define t' where "t' = t\<lparr>indexes := xs @ (nm, ix\<lparr>ix_map := bm_add k rid (ix_map ix)\<rparr>) # ys\<rparr>"
      have ok: "bm_ok (indexes t')"
        using Cons.prems(1,2) e by (subst bm_ok_replace [of _ "indexes t"]) (auto simp: t'_def)
      have "\<exists>er t''. index_secondary rid r (map (\<lambda>e. (fst e, ix_column (snd e))) ys) t' = (Err er, t'') \<and>
          same_shape t'' t'"
        using Cons.prems 1 Some e ok by (intro Cons.IH) (auto simp: t'_def)
      moreover have "same_shape t' t" using Cons.prems(2) e by (simp add: t'_def same_shape_def clear_indexes_def)
      ultimately show ?thesis using 1 Some Cons.prems(1,2) e
        by (auto simp: t'_def bm_insert_middle map_of_middle intro: same_shape_trans)
    qed (use Some e in simp)
  qed
qed simp

lemma fulltext_step_text: "bm_get r col = Some (Text s) \<Longrightarrow>
    fulltext_step P tk col (rid, r) m = foldl (\<lambda>m tok. bm_add tok rid m) m (tokenize P s tk)"
  by (simp add: fulltext_step_def)

lemma fulltext_step_other: "\<not> (\<exists>s. bm_get r col = Some (Text s)) \<Longrightarrow> fulltext_step P tk col (rid, r) m = m"
  by (auto simp: fulltext_step_def split: option.splits sql_value.splits)

lemma index_fulltext_enters:
  assumes "bm_ok (fulltext_indexes t)" "fulltext_indexes t = xs @ ys"
  shows "index_fulltext P tk rid r (map (\<lambda>e. (fst e, ft_column (snd e))) ys) t =
    (Ok (), t\<lparr>fulltext_indexes := xs @ fulltext_with (\<lambda>col. fulltext_step P tk col (rid, r)) ys\<rparr>)"
  using assms
proof (induction ys arbitrary: xs t)
  case (Cons e ys)
  obtain nm ft where e: "e = (nm, ft)" by (cases e)
  define ft' where "ft' = ft\<lparr>ft_map := fulltext_step P tk (ft_column ft) (rid, r) (ft_map ft)\<rparr>"
  define t' where "t' = t\<lparr>fulltext_indexes := xs @ (nm, ft') # ys\<rparr>"
  have ok: "bm_ok (fulltext_indexes t')"
    using Cons.prems(1,2) e by (subst bm_ok_replace [of _ "fulltext_indexes t"]) (auto simp: t'_def)
  have step: "index_fulltext P tk rid r (map (\<lambda>e. (fst e, ft_column (snd e))) (e # ys)) t =
      index_fulltext P tk rid r (map (\<lambda>e. (fst e, ft_column (snd e))) ys) t'"
  proof (cases "\<exists>s. bm_get r (ft_column ft) = Some (Text s)")
    case True
    then obtain s where "bm_get r (ft_column ft) = Some (Text s)" by blast
    with Cons.prems(1,2) e show ?thesis
      by (simp add: t'_def ft'_def bm_insert_middle map_of_middle fulltext_step_text)
  next
    case False
    then have "t' = t" using Cons.prems(2) e by (simp add: t'_def ft'_def fulltext_step_other)
    with False show ?thesis by (auto simp: e split: option.splits sql_value.splits)
  qed
  have "index_fulltext P tk rid r (map (\<lambda>e. (fst e, ft_column (snd e))) ys) t' =
      (Ok (), t'\<lparr>fulltext_indexes := (xs @ [(nm, ft')]) @ fulltext_with (\<lambda>col. fulltext_step P tk col (rid, r)) ys\<rparr>)"
    using ok by (intro Cons.IH) (auto simp: t'_def)
  with step show ?case by (simp add: t'_def e ft'_def index_with_Cons)
qed simp

definition key_enters :: "table \<Rightarrow> row \<Rightarrow> bool" where
  "key_enters t r \<longleftrightarrow>
     (\<forall>pk. primary_key t = Some pk \<longrightarrow> (\<exists>k. row_key pk r = Some k \<and> bm_get (primary t) k = None))"

lemma index_primary_enters:
  assumes "key_enters t r"
  shows "index_primary rid r t = (Ok (), t\<lparr>primary := primary_step (primary_key t) (rid, r) (primary t)\<rparr>)"
proof (cases "primary_key t")
  case (Some pk)
  with assms obtain k where k: "row_key pk r = Some k" "bm_get (primary t) k = None"
    by (auto simp: key_enters_def)
  then obtain v where "bm_get r pk = Some v" "v \<noteq> Null" "index_key v = Ok k"
    by (auto simp: row_key_def split: option.splits if_splits result.splits)
  with Some k show ?thesis by (simp add: index_primary_def primary_step_def)
qed (simp add: index_primary_def primary_step_def)

lemma index_primary_fails:
  "\<not> key_enters t r \<Longrightarrow> \<exists>e t'. index_primary rid r t = (Err e, t') \<and> same_shape t' t"
  by (cases "primary_key t")
    (fastforce simp: key_enters_def index_primary_def row_key_def Let_def same_shape_def
      split: option.split if_split result.split)+

subsection \<open>Entering all rows\<close>

definition row_enters :: "table \<Rightarrow> row \<Rightarrow> bool" where
  "row_enters t r \<longleftrightarrow> key_enters t r \<and> indexable_row t r"

fun rows_enter :: "platform \<Rightarrow> fulltext_tokenizer \<Rightarrow> table \<Rightarrow> (u64 \<times> row) list \<Rightarrow> bool" where
  "rows_enter P tk t [] = True"
| "rows_enter P tk t (e # es) = (row_enters t (snd e) \<and> rows_enter P tk (enter_row P tk t e) es)"

abbreviation enter_rest :: "platform \<Rightarrow> fulltext_tokenizer \<Rightarrow> u64 \<times> row \<Rightarrow> table \<Rightarrow> unit result \<times> table" where
  "enter_rest P tk e t \<equiv>
     sbind (index_primary (fst e) (snd e) t) (\<lambda>_ t1.
     sbind (index_secondary (fst e) (snd e) (indexes_for_encoding t) t1) (\<lambda>_ t2.
       index_fulltext P tk (fst e) (snd e) (fulltext_indexes_for_encoding t) t2))"

lemma enter_rest_ok:
  assumes "indexes_ok t" "row_enters t (snd e)"
  shows "enter_rest P tk e t = (Ok (), enter_row P tk t e)"
proof -
  define t1 where "t1 = t\<lparr>primary := primary_step (primary_key t) e (primary t)\<rparr>"
  define t2 where "t2 = t1\<lparr>indexes := index_with (\<lambda>col. secondary_step col e) (indexes t)\<rparr>"
  have 1: "index_primary (fst e) (snd e) t = (Ok (), t1)"
    using assms(2) by (simp add: t1_def row_enters_def index_primary_enters)
  have 2: "index_secondary (fst e) (snd e) (indexes_for_encoding t) t1 = (Ok (), t2)"
    using assms index_secondary_enters [of t1 "[]" "indexes t" "snd e" "fst e"]
    by (simp add: t1_def t2_def indexes_for_encoding_def indexes_ok_def row_enters_def indexable_row_def)
  have 3: "index_fulltext P tk (fst e) (snd e) (fulltext_indexes_for_encoding t) t2 = (Ok (), enter_row P tk t e)"
    using assms index_fulltext_enters [of t2 "[]" "fulltext_indexes t" P tk "fst e" "snd e"]
    by (simp add: t1_def t2_def fulltext_indexes_for_encoding_def indexes_ok_def enter_row_def)
  from 1 2 3 show ?thesis by simp
qed

lemma enter_rest_fails:
  assumes "indexes_ok t" "\<not> row_enters t (snd e)"
  shows "\<exists>er t'. enter_rest P tk e t = (Err er, t') \<and> same_shape t' t"
proof (cases "key_enters t (snd e)")
  case True
  define t1 where "t1 = t\<lparr>primary := primary_step (primary_key t) e (primary t)\<rparr>"
  have 1: "index_primary (fst e) (snd e) t = (Ok (), t1)"
    using True by (simp add: t1_def index_primary_enters)
  have "\<exists>er t'. index_secondary (fst e) (snd e) (map (\<lambda>e. (fst e, ix_column (snd e))) (indexes t)) t1 =
      (Err er, t') \<and> same_shape t' t1"
    using assms True by (intro index_secondary_fails [of _ "[]"])
      (auto simp: t1_def indexes_ok_def row_enters_def indexable_row_def)
  moreover have "same_shape t1 t" by (simp add: t1_def same_shape_def)
  ultimately show ?thesis using 1 by (auto simp: indexes_for_encoding_def intro: same_shape_trans)
next
  case False
  then obtain er t' where "index_primary (fst e) (snd e) t = (Err er, t')" "same_shape t' t"
    using index_primary_fails by blast
  then show ?thesis by simp
qed

lemma sbind_assoc: "sbind (sbind r f) g = sbind r (\<lambda>x s. sbind (f x s) g)"
  by (cases r; cases "fst r"; simp)

lemma rebuild_rows_Cons:
  "rebuild_rows P tk (indexes_for_encoding t) (fulltext_indexes_for_encoding t) (e # es) t =
     sbind (enter_rest P tk e t) (\<lambda>_ t'.
       rebuild_rows P tk (indexes_for_encoding t) (fulltext_indexes_for_encoding t) es t')"
  by (cases e) (simp add: sbind_assoc)

lemma enter_row_indexes_ok [simp]: "indexes_ok (enter_row P tk t e) = indexes_ok t"
  using same_shape_indexes_ok [OF enter_row_shape] .

lemma rebuild_rows_ok:
  assumes "indexes_ok t" "rows_enter P tk t es"
  shows "rebuild_rows P tk (indexes_for_encoding t) (fulltext_indexes_for_encoding t) es t =
    (Ok (), foldl (enter_row P tk) t es)"
  using assms
proof (induction es arbitrary: t)
  case (Cons e es)
  have "rebuild_rows P tk (indexes_for_encoding t) (fulltext_indexes_for_encoding t) (e # es) t =
      rebuild_rows P tk (indexes_for_encoding t) (fulltext_indexes_for_encoding t) es (enter_row P tk t e)"
    using Cons.prems by (subst rebuild_rows_Cons) (simp add: enter_rest_ok)
  also have "\<dots> = (Ok (), foldl (enter_row P tk) (enter_row P tk t e) es)"
    using Cons.IH [of "enter_row P tk t e"] Cons.prems same_shape_fields [OF enter_row_shape [of P tk t e]]
    by simp
  finally show ?case by simp
qed simp

lemma rebuild_rows_fails:
  assumes "indexes_ok t" "\<not> rows_enter P tk t es"
  shows "\<exists>er t'. rebuild_rows P tk (indexes_for_encoding t) (fulltext_indexes_for_encoding t) es t = (Err er, t') \<and>
    same_shape t' t"
  using assms
proof (induction es arbitrary: t)
  case (Cons e es)
  show ?case
  proof (cases "row_enters t (snd e)")
    case True
    then have "\<exists>er t'. rebuild_rows P tk (indexes_for_encoding (enter_row P tk t e))
        (fulltext_indexes_for_encoding (enter_row P tk t e)) es (enter_row P tk t e) = (Err er, t') \<and>
        same_shape t' (enter_row P tk t e)"
      using Cons.prems by (intro Cons.IH) auto
    with True Cons.prems(1) show ?thesis
      by (subst rebuild_rows_Cons)
        (auto simp: enter_rest_ok same_shape_fields [OF enter_row_shape [of P tk t e]]
          intro: same_shape_trans [OF _ enter_row_shape])
  next
    case False
    with Cons.prems(1) obtain er t' where "enter_rest P tk e t = (Err er, t')" "same_shape t' t"
      using enter_rest_fails by blast
    then show ?thesis by (subst rebuild_rows_Cons) simp
  qed
qed simp

lemma foldl_enter_row_shape: "same_shape (foldl (enter_row P tk) t es) t"
  by (induction es arbitrary: t) (auto intro: same_shape_trans)

lemma enter_row_primary_key [simp]: "primary_key (enter_row P tk t e) = primary_key t"
  by (simp add: enter_row_def)

lemma enter_row_indexable [simp]: "indexable_row (enter_row P tk t e) r = indexable_row t r"
  by (rule same_shape_indexable) simp

lemma primary_step_get:
  "bm_get (primary_step pk e m) k =
     (if Option.bind pk (\<lambda>c. row_key c (snd e)) = Some k then Some (fst e) else bm_get m k)"
  by (simp add: primary_step_def split: option.split)

lemma rows_enter_iff:
  "rows_enter P tk t es \<longleftrightarrow>
     (\<forall>e \<in> set es. indexable_row t (snd e)) \<and> keyed_rows t es \<and>
     (\<forall>pk. primary_key t = Some pk \<longrightarrow> (\<forall>e \<in> set es. \<forall>k. row_key pk (snd e) = Some k \<longrightarrow> bm_get (primary t) k = None))"
proof (induction es arbitrary: t)
  case (Cons e es)
  show ?case
  proof (cases "primary_key t")
    case None
    then show ?thesis by (simp add: Cons.IH row_enters_def key_enters_def keyed_rows_def)
  next
    case (Some pk)
    show ?thesis
    proof (cases "row_key pk (snd e)")
      case None
      with Some show ?thesis by (simp add: row_enters_def key_enters_def keyed_rows_def)
    next
      case key: (Some k)
      have "primary (enter_row P tk t e) = bm_insert k (fst e) (primary t)"
        using Some key by (simp add: enter_row_def primary_step_def)
      with Some key show ?thesis
        by (auto simp: Cons.IH row_enters_def key_enters_def keyed_rows_def image_iff split: if_splits) force
    qed
  qed
qed (simp add: keyed_rows_def)

lemma rows_enter_clear: "rows_enter P tk (clear_indexes t) (rows t) \<longleftrightarrow> rows_indexable t"
  using same_shape_indexable [OF same_shape_clear(1)]
  by (auto simp: rows_enter_iff rows_indexable_def keyed_rows_def frame_simps) (auto simp: clear_indexes_def)

subsection \<open>The outcome of a rebuild\<close>

lemma rebuild_unfold:
  "rebuild_indexes_with_options P opts t =
     rebuild_rows P (fulltext_tokenizer opts) (indexes_for_encoding (clear_indexes t))
       (fulltext_indexes_for_encoding (clear_indexes t)) (rows t) (clear_indexes t)"
  by (simp add: rebuild_indexes_with_options_def frame_simps)

lemma clear_indexes_ok [simp]: "indexes_ok (clear_indexes t) = indexes_ok t"
  by (rule same_shape_indexes_ok) simp

lemma rebuild_ok:
  "indexes_ok t \<Longrightarrow> rows_indexable t \<Longrightarrow>
     rebuild_indexes_with_options P opts t = (Ok (), reindexed P (fulltext_tokenizer opts) t)"
  unfolding rebuild_unfold reindexed_def by (rule rebuild_rows_ok) (simp_all add: rows_enter_clear)

lemma rebuild_fails:
  assumes "indexes_ok t" "\<not> rows_indexable t"
  obtains e t' where "rebuild_indexes_with_options P opts t = (Err e, t')" "same_shape t' t"
proof -
  have "\<exists>e t'. rebuild_indexes_with_options P opts t = (Err e, t') \<and> same_shape t' (clear_indexes t)"
    unfolding rebuild_unfold by (rule rebuild_rows_fails) (use assms in \<open>simp_all add: rows_enter_clear\<close>)
  then show thesis using that same_shape_clear(1) same_shape_trans by blast
qed

lemma reindexed_shape [simp, intro]: "same_shape (reindexed P tk t) t"
  unfolding reindexed_def by (rule same_shape_trans [OF foldl_enter_row_shape]) simp

lemma rebuild_Ok_iff:
  "indexes_ok t \<Longrightarrow> rebuild_indexes_with_options P opts t = (Ok (), t') \<longleftrightarrow>
     rows_indexable t \<and> t' = reindexed P (fulltext_tokenizer opts) t"
  by (cases "rows_indexable t") (auto simp: rebuild_ok elim: rebuild_fails [where P = P and opts = opts])

lemma rebuild_shape: "indexes_ok t \<Longrightarrow> same_shape (snd (rebuild_indexes_with_options P opts t)) t"
  by (cases "rows_indexable t") (auto simp: rebuild_ok elim: rebuild_fails [where P = P and opts = opts])

lemma rebuild_no_panic: "indexes_ok t \<Longrightarrow> \<not> is_panic (fst (rebuild_indexes_with_options P opts t))"
  by (cases "rows_indexable t") (auto simp: rebuild_ok elim: rebuild_fails [where P = P and opts = opts])

lemma rebuild_same_shape:
  "same_shape t t' \<Longrightarrow> rebuild_indexes_with_options P opts t = rebuild_indexes_with_options P opts t'"
  using same_shape_fields(1) [of t t'] by (simp add: rebuild_unfold same_shape_def)

lemma reindexed_same_shape: "same_shape t t' \<Longrightarrow> reindexed P tk t = reindexed P tk t'"
  using same_shape_fields(1) [of t t'] by (simp add: reindexed_def same_shape_def)

subsection \<open>Reading the rebuilt maps\<close>

text \<open>
  The postings of a secondary index are the rows with that key, those of a full-text index the rows
  with that token, and the primary map sends a key to its row. All three as sets; the lists are
  strictly ascending.
\<close>

lemma foldl_enter_row_fields:
  "primary (foldl (enter_row P tk) t es) = foldl (\<lambda>m e. primary_step (primary_key t) e m) (primary t) es"
  "indexes (foldl (enter_row P tk) t es) =
     index_with (\<lambda>col m. foldl (\<lambda>m e. secondary_step col e m) m es) (indexes t)"
  "fulltext_indexes (foldl (enter_row P tk) t es) =
     fulltext_with (\<lambda>col m. foldl (\<lambda>m e. fulltext_step P tk col e m) m es) (fulltext_indexes t)"
  by (induction es arbitrary: t)
    (simp_all add: enter_row_def index_with_def fulltext_with_def comp_def)

definition primary_of :: "string option \<Rightarrow> (u64 \<times> row) list \<Rightarrow> (string, u64) bmap" where
  "primary_of pk rs = foldl (\<lambda>m e. primary_step pk e m) [] rs"

definition secondary_of :: "string \<Rightarrow> (u64 \<times> row) list \<Rightarrow> (string, u64 list) bmap" where
  "secondary_of col rs = foldl (\<lambda>m e. secondary_step col e m) [] rs"

definition fulltext_of ::
  "platform \<Rightarrow> fulltext_tokenizer \<Rightarrow> string \<Rightarrow> (u64 \<times> row) list \<Rightarrow> (string, u64 list) bmap"
where
  "fulltext_of P tk col rs = foldl (\<lambda>m e. fulltext_step P tk col e m) [] rs"

lemma reindexed_fields:
  "primary (reindexed P tk t) = primary_of (primary_key t) (rows t)"
  "indexes (reindexed P tk t) =
     map (\<lambda>e. (fst e, \<lparr>ix_column = ix_column (snd e), ix_map = secondary_of (ix_column (snd e)) (rows t)\<rparr>)) (indexes t)"
  "fulltext_indexes (reindexed P tk t) =
     map (\<lambda>e. (fst e, \<lparr>ft_column = ft_column (snd e), ft_map = fulltext_of P tk (ft_column (snd e)) (rows t)\<rparr>))
       (fulltext_indexes t)"
  by (auto simp: reindexed_def foldl_enter_row_fields primary_of_def secondary_of_def fulltext_of_def
      index_with_def fulltext_with_def clear_indexes_def)

lemma primary_of_ok [simp]: "bm_ok (primary_of pk rs)"
proof -
  have "bm_ok m \<Longrightarrow> bm_ok (foldl (\<lambda>m e. primary_step pk e m) m rs)" for m
    by (induction rs arbitrary: m) (auto simp: primary_step_def split: option.split)
  then show ?thesis by (simp add: primary_of_def)
qed

lemma primary_of_get:
  assumes "distinct (map (\<lambda>e. row_key pk (snd e)) rs)"
  shows "bm_get (primary_of (Some pk) rs) k = Some rid \<longleftrightarrow> (\<exists>r. (rid, r) \<in> set rs \<and> row_key pk r = Some k)"
proof -
  have "distinct (map (\<lambda>e. row_key pk (snd e)) rs) \<Longrightarrow> (\<forall>e \<in> set rs. row_key pk (snd e) = Some k \<longrightarrow> bm_get m k = None) \<Longrightarrow>
      bm_get (foldl (\<lambda>m e. primary_step (Some pk) e m) m rs) k = Some rid \<longleftrightarrow>
      bm_get m k = Some rid \<or> (\<exists>r. (rid, r) \<in> set rs \<and> row_key pk r = Some k)" for m
  proof (induction rs arbitrary: m)
    case (Cons e rs)
    have "distinct (map (\<lambda>e. row_key pk (snd e)) rs)" using Cons.prems(1) by simp
    moreover have "\<forall>e' \<in> set rs. row_key pk (snd e') = Some k \<longrightarrow> bm_get (primary_step (Some pk) e m) k = None"
      using Cons.prems by (auto simp: primary_step_get image_iff)
    ultimately show ?case
      using Cons.prems Cons.IH [of "primary_step (Some pk) e m"] by (cases e) (auto simp: primary_step_get)
  qed simp
  then show ?thesis using assms by (simp add: primary_of_def)
qed

lemma foldl_add_tokens:
  "set (bm_post (foldl (\<lambda>m tok. bm_add tok x m) m toks) k) =
     set (bm_post m k) \<union> (if k \<in> set toks then {x} else {})"
  by (induction toks arbitrary: m) auto

lemma secondary_of_post:
  "set (bm_post (secondary_of col rs) k) =
     {rid. \<exists>r v. (rid, r) \<in> set rs \<and> bm_get r col = Some v \<and> index_key v = Ok k}"
proof -
  have "set (bm_post (foldl (\<lambda>m e. secondary_step col e m) m rs) k) = set (bm_post m k) \<union>
      {rid. \<exists>r v. (rid, r) \<in> set rs \<and> bm_get r col = Some v \<and> index_key v = Ok k}" for m
  proof (induction rs arbitrary: m)
    case (Cons e rs)
    then show ?case
      by (cases e; cases "bm_get (snd e) col")
        (auto simp: secondary_step_def split: result.splits if_splits)
  qed simp
  then show ?thesis by (simp add: secondary_of_def)
qed

lemma fulltext_of_post:
  "set (bm_post (fulltext_of P tk col rs) k) =
     {rid. \<exists>r s. (rid, r) \<in> set rs \<and> bm_get r col = Some (Text s) \<and> k \<in> set (tokenize P s tk)}"
proof -
  have "set (bm_post (foldl (\<lambda>m e. fulltext_step P tk col e m) m rs) k) = set (bm_post m k) \<union>
      {rid. \<exists>r s. (rid, r) \<in> set rs \<and> bm_get r col = Some (Text s) \<and> k \<in> set (tokenize P s tk)}" for m
  proof (induction rs arbitrary: m)
    case (Cons e rs)
    have "set (bm_post (fulltext_step P tk col e m) k) = set (bm_post m k) \<union>
        {rid. \<exists>s. rid = fst e \<and> bm_get (snd e) col = Some (Text s) \<and> k \<in> set (tokenize P s tk)}"
      by (auto simp: fulltext_step_def foldl_add_tokens split: option.splits sql_value.splits if_splits)
    with Cons.IH [of "fulltext_step P tk col e m"] show ?case by (cases e) auto
  qed simp
  then show ?thesis by (simp add: fulltext_of_def)
qed

definition postings_ok :: "(string, u64 list) bmap \<Rightarrow> bool" where
  "postings_ok m \<longleftrightarrow> (\<forall>k. bs_ok (bm_post m k))"

lemma postings_ok_add [simp]: "postings_ok m \<Longrightarrow> postings_ok (bm_add k x m)"
  by (simp add: postings_ok_def)

lemma postings_ok_tokens: "postings_ok m \<Longrightarrow> postings_ok (foldl (\<lambda>m tok. bm_add tok x m) m toks)"
  by (induction toks arbitrary: m) auto

lemma secondary_of_ok [simp]: "postings_ok (secondary_of col rs)"
proof -
  have "postings_ok m \<Longrightarrow> postings_ok (foldl (\<lambda>m e. secondary_step col e m) m rs)" for m
    by (induction rs arbitrary: m) (auto simp: secondary_step_def split: option.split result.split)
  then show ?thesis by (simp add: secondary_of_def postings_ok_def)
qed

lemma fulltext_of_ok [simp]: "postings_ok (fulltext_of P tk col rs)"
proof -
  have "postings_ok m \<Longrightarrow> postings_ok (foldl (\<lambda>m e. fulltext_step P tk col e m) m rs)" for m
    by (induction rs arbitrary: m)
      (auto simp: fulltext_step_def postings_ok_tokens split: option.split sql_value.split)
  then show ?thesis by (simp add: fulltext_of_def postings_ok_def)
qed

subsection \<open>Properties\<close>

lemma reindexed_index: "(nm, ix) \<in> set (indexes (reindexed P tk t)) \<Longrightarrow> ix_map ix = secondary_of (ix_column ix) (rows t)"
  by (auto simp: reindexed_fields)

lemma reindexed_fulltext:
  "(nm, ft) \<in> set (fulltext_indexes (reindexed P tk t)) \<Longrightarrow> ft_map ft = fulltext_of P tk (ft_column ft) (rows t)"
  by (auto simp: reindexed_fields)

text \<open>C10: A rebuild that succeeds makes every index say what the rows say: the primary key map sends a key
  to the one row that has it, a secondary index lists exactly the rows whose value has the key, a
  full-text index exactly the rows whose text has the token, each list strictly ascending. Rows and schema
  stay as they were.\<close>

theorem rebuild_correct:
  assumes "indexes_ok t" "rebuild_indexes_with_options P opts t = (Ok (), t')"
  shows "rows t' = rows t \<and> columns t' = columns t \<and>
    (\<forall>pk k rid. primary_key t = Some pk \<longrightarrow>
       (bm_get (primary t') k = Some rid \<longleftrightarrow> (\<exists>r. (rid, r) \<in> set (rows t) \<and> row_key pk r = Some k))) \<and>
    (\<forall>nm ix k. (nm, ix) \<in> set (indexes t') \<longrightarrow>
       bs_ok (bm_post (ix_map ix) k) \<and>
       set (bm_post (ix_map ix) k) =
         {rid. \<exists>r v. (rid, r) \<in> set (rows t) \<and> bm_get r (ix_column ix) = Some v \<and> index_key v = Ok k}) \<and>
    (\<forall>nm ft tok. (nm, ft) \<in> set (fulltext_indexes t') \<longrightarrow>
       bs_ok (bm_post (ft_map ft) tok) \<and>
       set (bm_post (ft_map ft) tok) =
         {rid. \<exists>r s. (rid, r) \<in> set (rows t) \<and> bm_get r (ft_column ft) = Some (Text s) \<and>
            tok \<in> set (tokenize P s (fulltext_tokenizer opts))})"
proof -
  have t': "t' = reindexed P (fulltext_tokenizer opts) t" and ok: "rows_indexable t"
    using assms by (simp_all add: rebuild_Ok_iff)
  have dist: "primary_key t = Some pk \<Longrightarrow> distinct (map (\<lambda>e. row_key pk (snd e)) (rows t))" for pk
    using ok by (simp add: rows_indexable_def keyed_rows_def)
  have shape: "rows t' = rows t" "columns t' = columns t"
    unfolding t' using same_shape_fields [OF reindexed_shape] by blast+
  show ?thesis
    using primary_of_get [OF dist] secondary_of_ok fulltext_of_ok shape unfolding t'
    by (auto simp: reindexed_index reindexed_fulltext secondary_of_post fulltext_of_post postings_ok_def reindexed_fields(1))
qed

definition demo_columns :: "column list" where
  "demo_columns =
     [\<lparr>col_name = ''id'', col_ty = IntegerT, col_primary_key = True\<rparr>,
      \<lparr>col_name = ''name'', col_ty = TextT, col_primary_key = False\<rparr>]"

definition demo_table :: table where
  "demo_table = \<lparr>tname = ''t'', columns = demo_columns, rows = [], next_row_id = 1, primary_key = Some ''id'',
     primary = [], indexes = [], fulltext_indexes = []\<rparr>"

definition demo_indexed :: table where
  "demo_indexed = add_persisted_index ''i'' ''name'' (demo_table\<lparr>rows := [(1, [(''id'', Integer 7), (''name'', Text [])])],
     next_row_id := 2\<rparr>)"

theorem rebuild_correct_witness:
  "rows (snd (rebuild_indexes_with_options demo_platform table_options_default demo_indexed)) = rows demo_indexed"
proof -
  have ok: "indexes_ok demo_indexed"
    by (simp add: indexes_ok_def demo_indexed_def demo_table_def add_persisted_index_def bm_ok_def)
  have "rows_indexable demo_indexed"
    by (simp add: rows_indexable_def keyed_rows_def indexable_row_def demo_indexed_def demo_table_def
        add_persisted_index_def row_key_def)
  then have "rebuild_indexes_with_options demo_platform table_options_default demo_indexed =
      (Ok (), reindexed demo_platform (fulltext_tokenizer table_options_default) demo_indexed)"
    using ok by (rule rebuild_ok [rotated])
  with rebuild_correct [OF ok this] show ?thesis by simp
qed

text \<open>C32: A rebuild fails exactly when some row has no usable primary key, two rows share one, or an
  indexed value is not finite; it then reports an error, and rows, schema and index definitions are
  untouched. It never panics.\<close>

theorem rebuild_error_iff:
  assumes "indexes_ok t"
  shows "(is_err (fst (rebuild_indexes_with_options P opts t)) \<longleftrightarrow> \<not> rows_indexable t) \<and>
    \<not> is_panic (fst (rebuild_indexes_with_options P opts t)) \<and>
    clear_indexes (snd (rebuild_indexes_with_options P opts t)) = clear_indexes t"
proof (intro conjI)
  show "is_err (fst (rebuild_indexes_with_options P opts t)) \<longleftrightarrow> \<not> rows_indexable t"
    using assms by (cases "rows_indexable t") (auto simp: rebuild_ok elim: rebuild_fails [where P = P and opts = opts])
  show "\<not> is_panic (fst (rebuild_indexes_with_options P opts t))" by (rule rebuild_no_panic [OF assms])
  show "clear_indexes (snd (rebuild_indexes_with_options P opts t)) = clear_indexes t"
    using rebuild_shape [OF assms] by (simp add: same_shape_def)
qed

definition demo_duplicate :: table where
  "demo_duplicate = demo_table\<lparr>rows := [(1, [(''id'', Integer 7)]), (2, [(''id'', Integer 7)])]\<rparr>"

theorem rebuild_error_iff_witness:
  "is_err (fst (rebuild_indexes_with_options demo_platform table_options_default demo_duplicate))"
proof -
  have "indexes_ok demo_duplicate" by (simp add: indexes_ok_def demo_duplicate_def demo_table_def)
  then show ?thesis
    using rebuild_error_iff [of demo_duplicate demo_platform table_options_default]
    by (simp add: rows_indexable_def keyed_rows_def demo_duplicate_def demo_table_def row_key_def)
qed

end
