(* ===== verification/Table_Query.thy ===== *)
theory Table_Query
  imports Table_Rebuild
begin

section \<open>Typed tables and index access\<close>

text \<open>
  The invariant of a table (\<open>table_ok\<close>): a schema \<open>Table::new\<close> accepts, rows that hold a value of
  the right type for every column, unique primary keys, row identifiers below \<open>next_row_id\<close>, and index
  maps that are what the rows say. Under it, answering a filter through the primary key, a secondary
  or a full-text index gives the rows a scan of the table would give, in the same order.
\<close>

subsection \<open>The invariant\<close>

fun value_fits :: "column_type \<Rightarrow> sql_value \<Rightarrow> bool" where
  "value_fits ty Null = True"
| "value_fits ty (Integer i) = (ty = IntegerT)"
| "value_fits ty (Float f) = (ty = FloatT \<and> f64_is_finite f)"
| "value_fits ty (Boolean b) = (ty = BooleanT)"
| "value_fits ty (Text s) = (ty = TextT \<and> utf8_valid s)"
| "value_fits ty (Vector vs) = (ty = VectorT \<and> list_all f32_is_finite vs)"
| "value_fits ty (PointV p) = (ty = PointT \<and> f64_is_finite (lon p) \<and> f64_is_finite (lat p))"

definition row_typed :: "column list \<Rightarrow> row \<Rightarrow> bool" where
  "row_typed cols r \<longleftrightarrow>
     bm_ok r \<and> fst ` set r = col_name ` set cols \<and>
     (\<forall>c \<in> set cols. \<forall>v. bm_get r (col_name c) = Some v \<longrightarrow> value_fits (col_ty c) v)"

definition schema_ok :: "table \<Rightarrow> bool" where
  "schema_ok t \<longleftrightarrow> new_loop [] None (columns t) = Ok (primary_key t)"

definition data_ok :: "table \<Rightarrow> bool" where
  "data_ok t \<longleftrightarrow>
     schema_ok t \<and> bm_ok (rows t) \<and> indexes_ok t \<and>
     (\<forall>e \<in> set (rows t). row_typed (columns t) (snd e) \<and> fst e < next_row_id t) \<and>
     keyed_rows t (rows t)"

definition table_ok :: "platform \<Rightarrow> fulltext_tokenizer \<Rightarrow> table \<Rightarrow> bool" where
  "table_ok P tk t \<longleftrightarrow> data_ok t \<and> reindexed P tk t = t"

subsection \<open>Schemas\<close>

lemma new_loop_Ok:
  "new_loop seen pk cs = Ok pk' \<Longrightarrow>
     distinct (map col_name cs) \<and> set seen \<inter> col_name ` set cs = {} \<and>
     (pk' = pk \<or> (\<exists>c \<in> set cs. pk' = Some (col_name c)))"
  by (induction cs arbitrary: seen pk) (fastforce split: if_splits)+

lemma schema_distinct: "schema_ok t \<Longrightarrow> distinct (map col_name (columns t))"
  by (auto simp: schema_ok_def dest: new_loop_Ok)

lemma schema_primary: "schema_ok t \<Longrightarrow> primary_key t = Some pk \<Longrightarrow> pk \<in> col_name ` set (columns t)"
  by (auto simp: schema_ok_def dest: new_loop_Ok)

lemma table_column_Ok: "table_column t nm = Ok c \<Longrightarrow> c \<in> set (columns t) \<and> col_name c = normalize_identifier nm"
  by (auto simp: table_column_def Let_def outcome_simps find_Some_iff)

lemma table_column_no_panic [simp]: "table_column t nm \<noteq> Panic m"
  by (simp add: table_column_def Let_def outcome_simps)

lemma table_column_shape: "columns t = columns t' \<Longrightarrow> table_column t nm = table_column t' nm"
  by (simp add: table_column_def)

subsection \<open>Values\<close>

lemma value_fits_indexable: "value_fits ty v \<Longrightarrow> is_ok (index_key v)"
  by (cases v) auto

lemma value_fits_valid: "value_fits ty v \<Longrightarrow> value_valid v"
  by (cases v) auto

lemma validate_value_fits:
  "validate_value_with_options P c v opts = Ok v' \<Longrightarrow> value_valid v \<Longrightarrow> value_fits (col_ty c) v'"
  by (cases v)
    (auto simp: validate_value_with_options_def type_error_def vector_dimension_error_def f64_of_i64_finite
      split: if_splits option.splits)

lemma validate_value_no_panic [simp]: "validate_value_with_options P c v opts \<noteq> Panic m"
  by (cases v) (auto simp: validate_value_with_options_def type_error_def vector_dimension_error_def split: option.splits)

lemma row_typed_value:
  assumes "row_typed cols r" "bm_get r col = Some v"
  obtains c where "c \<in> set cols" "col_name c = col" "value_fits (col_ty c) v"
proof -
  have "col \<in> fst ` set r" using assms(2) by (metis bm_get_dom option.distinct(1))
  then obtain c where "c \<in> set cols" "col_name c = col" using assms(1) by (auto simp: row_typed_def)
  with assms that show thesis by (auto simp: row_typed_def)
qed

lemma row_typed_indexable: "row_typed cols r \<Longrightarrow> indexable_row t r"
  by (auto simp: indexable_row_def intro: value_fits_indexable elim: row_typed_value)

lemma data_ok_indexable: "data_ok t \<Longrightarrow> rows_indexable t"
  by (auto simp: data_ok_def rows_indexable_def row_typed_indexable)

lemma data_ok_indexes_ok: "data_ok t \<Longrightarrow> indexes_ok t"
  by (simp add: data_ok_def)

lemma data_ok_shape: "same_shape t t' \<Longrightarrow> data_ok t = data_ok t'"
  by (simp add: data_ok_def schema_ok_def keyed_rows_def same_shape_fields same_shape_indexes_ok)

lemma table_ok_reindexed: "data_ok t \<Longrightarrow> table_ok P tk (reindexed P tk t)"
  using data_ok_shape [OF reindexed_shape [of P tk t]] reindexed_same_shape [OF reindexed_shape [of P tk t]]
  by (simp add: table_ok_def)

lemma table_ok_data: "table_ok P tk t \<Longrightarrow> data_ok t"
  by (simp add: table_ok_def)

lemma rebuild_data_ok:
  "data_ok t \<Longrightarrow> rebuild_indexes_with_options P opts t = (Ok (), reindexed P (fulltext_tokenizer opts) t)"
  by (simp add: rebuild_ok data_ok_indexable data_ok_indexes_ok)

subsection \<open>Keys of different values differ\<close>

lemma hex64_inj [simp]: "hex_pad 16 (unat (a :: f64)) = hex_pad 16 (unat b) \<longleftrightarrow> a = b"
  by (metis option.inject parse_f64_hex word_unat_eq_iff)

lemma show_i64_inj [simp]: "show_i64 a = show_i64 b \<longleftrightarrow> a = b"
  by (metis option.inject parse_i64_show)

lemma encode_string_inj [simp]: "encode_string a = encode_string b \<longleftrightarrow> a = b"
proof
  assume "encode_string a = encode_string b"
  then have "rmap decode_byte (map (\<lambda>b. hex_pad 2 (code b)) a) = rmap decode_byte (map (\<lambda>b. hex_pad 2 (code b)) b)"
    by (simp flip: chunks_encode_string)
  then have "Ok (map id a) = Ok (map id b)"
    using rmap_map_Ok [of a decode_byte "\<lambda>b. hex_pad 2 (code b)" id]
      rmap_map_Ok [of b decode_byte "\<lambda>b. hex_pad 2 (code b)" id] by (simp add: decode_byte_hex)
  then show "a = b" by simp
qed simp

lemma join_hex_inj [simp]:
  "join '','' (map (\<lambda>v. hex_pad 8 (unat v)) vs) = join '','' (map (\<lambda>v. hex_pad 8 (unat v)) ws) \<longleftrightarrow> (vs :: f32 list) = ws"
  by (metis decode_vector_join result.inject(1) sql_value.inject(5))

lemma hex_point_inj [simp]:
  "hex_pad 16 (unat (lon p)) @ CHR '','' # hex_pad 16 (unat (lat p)) =
   hex_pad 16 (unat (lon q)) @ CHR '','' # hex_pad 16 (unat (lat q)) \<longleftrightarrow> (p :: point) = q"
  using decode_point_hex [of p] decode_point_hex [of q] by (metis append_Cons append_Nil result.inject(1) sql_value.inject(6))

lemma index_key_encode: "index_key v = Ok k \<Longrightarrow> k = encode_value v"
  by (cases v; simp split: if_splits)

lemma encode_value_inj: "encode_value u = encode_value v \<Longrightarrow> u = v"
proof (induction u)
  case (Text s)
  then show ?case by (cases v) auto
next
  case (Vector vs)
  then show ?case by (cases v) auto
next
  case (PointV p)
  then show ?case by (cases v) auto
qed (cases v; auto split: if_splits)+

lemma index_key_inj: "index_key u = Ok k \<Longrightarrow> index_key v = Ok k \<Longrightarrow> u = v"
  using index_key_encode encode_value_inj by metis

text \<open>
  A value without a floating point zero: only there do the derived \<^verbatim>\<open>PartialEq\<close> (on which the scan
  relies) and the bit patterns (on which the index keys rely) disagree.
\<close>

fun zero_free :: "sql_value \<Rightarrow> bool" where
  "zero_free (Float f) = (f64_magnitude f \<noteq> 0)"
| "zero_free (Vector vs) = list_all (\<lambda>v. f32_magnitude v \<noteq> 0) vs"
| "zero_free (PointV p) = (f64_magnitude (lon p) \<noteq> 0 \<and> f64_magnitude (lat p) \<noteq> 0)"
| "zero_free _ = True"

lemma list_all2_f32_eq:
  "list_all f32_is_finite us \<Longrightarrow> list_all f32_is_finite vs \<Longrightarrow> list_all (\<lambda>v. f32_magnitude v \<noteq> 0) vs \<Longrightarrow>
     list_all2 f32_eq us vs \<longleftrightarrow> us = vs"
proof (induction us arbitrary: vs)
  case (Cons u us)
  then show ?case by (cases vs) (auto simp: f32_eq_iff)
qed auto

lemma value_eq_iff_key:
  assumes "is_ok (index_key u)" "index_key v = Ok k" "zero_free v"
  shows "value_eq u v \<longleftrightarrow> index_key u = Ok k"
proof -
  have "value_eq u v \<longleftrightarrow> u = v"
    using assms by (cases u; cases v) (auto simp: f64_eq_iff list_all2_f32_eq split: if_splits)
  then show ?thesis using assms(2) index_key_inj by auto
qed

subsection \<open>The contract of an index\<close>

text \<open>
  An index sends a key to the ascending list of the rows that have it. From that alone: a lookup is
  a scan, and the intersection of several lookups is the scan for rows that have all the keys.
\<close>

lemma bm_ok_ids: "bm_ok rs \<Longrightarrow> bs_ok (map fst rs)"
  by (simp add: bm_ok_def bs_ok_def)

lemma bm_ok_scan: "bm_ok rs \<Longrightarrow> bs_ok (map fst (filter Q rs))"
  by (rule bm_ok_ids) (rule bm_ok_filter)

locale posting_index =
  fixes post :: "(u64 \<times> row) list \<Rightarrow> string \<Rightarrow> u64 list"
    and has :: "row \<Rightarrow> string \<Rightarrow> bool"
  assumes post_ok: "bs_ok (post rs k)"
    and post_set: "set (post rs k) = {rid. \<exists>r. (rid, r) \<in> set rs \<and> has r k}"
begin

lemma post_scan: "bm_ok rs \<Longrightarrow> post rs k = map fst (filter (\<lambda>e. has (snd e) k) rs)"
  by (rule bs_ext) (auto simp: post_ok post_set bm_ok_scan image_iff)

lemma fold_scan:
  assumes "bm_ok rs"
  shows "foldl bs_inter (map fst (filter Q rs)) (map (post rs) ks) =
    map fst (filter (\<lambda>e. Q e \<and> (\<forall>k \<in> set ks. has (snd e) k)) rs)"
proof (induction ks arbitrary: Q)
  case (Cons k ks)
  have "bs_inter (map fst (filter Q rs)) (post rs k) = map fst (filter (\<lambda>e. Q e \<and> has (snd e) k) rs)"
    using assms by (intro bs_ext) (auto simp: post_set bm_ok_scan image_iff simp flip: bm_get_iff)
  then show ?case using Cons.IH by (simp add: conj_assoc)
qed simp

lemma inter_scan:
  "bm_ok rs \<Longrightarrow> foldl bs_inter (post rs k) (map (post rs) ks) =
     map fst (filter (\<lambda>e. \<forall>k' \<in> set (k # ks). has (snd e) k') rs)"
  by (simp add: post_scan [of rs k] fold_scan)

end

definition has_key :: "string \<Rightarrow> row \<Rightarrow> string \<Rightarrow> bool" where
  "has_key col r k \<longleftrightarrow> (\<exists>v. bm_get r col = Some v \<and> index_key v = Ok k)"

definition has_token :: "platform \<Rightarrow> fulltext_tokenizer \<Rightarrow> string \<Rightarrow> row \<Rightarrow> string \<Rightarrow> bool" where
  "has_token P tk col r k \<longleftrightarrow> (\<exists>s. bm_get r col = Some (Text s) \<and> k \<in> set (tokenize P s tk))"

interpretation sec_ix: posting_index "\<lambda>rs. bm_post (secondary_of col rs)" "has_key col" for col
  by unfold_locales (use secondary_of_ok in \<open>auto simp: secondary_of_post has_key_def postings_ok_def\<close>)

interpretation ft_ix: posting_index "\<lambda>rs. bm_post (fulltext_of P tk col rs)" "has_token P tk col" for P tk col
  by unfold_locales (use fulltext_of_ok in \<open>auto simp: fulltext_of_post has_token_def postings_ok_def\<close>)

subsection \<open>Filters as scans\<close>

text \<open>The meaning of a filter on one row, and the reference answer: the matching rows in ascending order.\<close>

fun row_satisfies :: "platform \<Rightarrow> table_options \<Rightarrow> sql_filter option \<Rightarrow> row \<Rightarrow> bool" where
  "row_satisfies P opts None r = True"
| "row_satisfies P opts (Some (Equals col v)) r = option_value_eq (bm_get r col) v"
| "row_satisfies P opts (Some (FullText col q)) r =
     (let toks = tokenize P q (fulltext_tokenizer opts)
      in toks \<noteq> [] \<and> text_matches P (fulltext_tokenizer opts) toks (bm_get r col))"
| "row_satisfies P opts (Some (GeoWithin col p m incl)) r =
     geo_matches P (geo_coordinate_system opts) p m incl (bm_get r col)"

definition scan_row_ids :: "platform \<Rightarrow> table_options \<Rightarrow> table \<Rightarrow> sql_filter option \<Rightarrow> u64 list" where
  "scan_row_ids P opts t f = map fst (filter (\<lambda>e. row_satisfies P opts f (snd e)) (rows t))"

fun filter_zero_free :: "sql_filter option \<Rightarrow> bool" where
  "filter_zero_free (Some (Equals col v)) = zero_free v"
| "filter_zero_free _ = True"

fun filter_value_ok :: "sql_filter option \<Rightarrow> bool" where
  "filter_value_ok (Some (Equals col v)) = is_ok (index_key v)"
| "filter_value_ok _ = True"

lemma find_SomeD: "find Q xs = Some x \<Longrightarrow> x \<in> set xs \<and> Q x"
  by (auto simp: find_Some_iff)

lemma find_index:
  assumes fresh: "reindexed P tk t = t" and found: "find (\<lambda>e. ix_column (snd e) = col) (indexes t) = Some (nm, ix)"
  shows "ix_map ix = secondary_of col (rows t)"
proof -
  have "(nm, ix) \<in> set (indexes (reindexed P tk t))" "ix_column ix = col"
    using find_SomeD [OF found] by (simp_all add: fresh)
  then show ?thesis unfolding reindexed_fields by auto
qed

lemma find_fulltext:
  assumes fresh: "reindexed P tk t = t"
    and found: "find (\<lambda>e. ft_column (snd e) = col) (fulltext_indexes t) = Some (nm, ft)"
  shows "ft_map ft = fulltext_of P tk col (rows t)"
proof -
  have "(nm, ft) \<in> set (fulltext_indexes (reindexed P tk t))" "ft_column ft = col"
    using find_SomeD [OF found] by (simp_all add: fresh)
  then show ?thesis unfolding reindexed_fields by auto
qed

lemma text_matches_iff: "text_matches P tk toks (bm_get r col) \<and> toks \<noteq> [] \<longleftrightarrow>
    toks \<noteq> [] \<and> (\<forall>tok \<in> set toks. has_token P tk col r tok)"
  by (cases toks) (auto simp: text_matches_def has_token_def list_all_iff split: option.splits sql_value.splits)

lemma match_fulltext_scan:
  assumes ok: "table_ok P (fulltext_tokenizer opts) t"
  shows "\<exists>path. match_fulltext P t col q opts = Ok (scan_row_ids P opts t (Some (FullText col q)), path)"
proof -
  define toks where "toks = tokenize P q (fulltext_tokenizer opts)"
  have rows: "bm_ok (rows t)" using ok by (simp add: table_ok_def data_ok_def)
  show ?thesis
  proof (cases "find (\<lambda>e. ft_column (snd e) = col) (fulltext_indexes t)")
    case None
    then show ?thesis by (simp add: match_fulltext_def scan_row_ids_def flip: toks_def)
  next
    case (Some e)
    obtain nm ft where e: "e = (nm, ft)" by (cases e)
    have map: "ft_map ft = fulltext_of P (fulltext_tokenizer opts) col (rows t)"
      using find_fulltext ok Some e by (auto simp: table_ok_def)
    have "foldl bs_inter (bm_post (ft_map ft) (hd toks)) (map (bm_post (ft_map ft)) (tl toks)) =
        map fst (filter (\<lambda>e. \<forall>tok \<in> set toks. has_token P (fulltext_tokenizer opts) col (snd e) tok) (rows t))"
      if "toks \<noteq> []"
      using ft_ix.inter_scan [OF rows, of P "fulltext_tokenizer opts" col "hd toks" "tl toks"] that
      by (simp add: map del: set_simps)
    with Some e show ?thesis
      by (auto simp: match_fulltext_def scan_row_ids_def text_matches_iff conj_commute [of "toks \<noteq> []"] simp flip: toks_def)
  qed
qed

lemma primary_scan:
  assumes ok: "table_ok P tk t" and pk: "primary_key t = Some pk"
    and key: "index_key v = Ok k" and nz: "zero_free v"
  shows "(case bm_get (primary t) k of None \<Rightarrow> [] | Some rid \<Rightarrow> [rid]) =
    map fst (filter (\<lambda>e. option_value_eq (bm_get (snd e) pk) v) (rows t))"
proof (rule bs_ext)
  have d: "data_ok t" and fresh: "primary t = primary_of (Some pk) (rows t)"
    using ok pk reindexed_fields(1) [of P tk t] by (auto simp: table_ok_def)
  have rk: "option_value_eq (bm_get r pk) v \<longleftrightarrow> row_key pk r = Some k" if "(rid, r) \<in> set (rows t)" for rid r
  proof -
    have typed: "row_typed (columns t) r" using d that by (fastforce simp: data_ok_def)
    have "row_key pk r \<noteq> None" using d that pk by (fastforce simp: data_ok_def keyed_rows_def)
    then obtain u where u: "bm_get r pk = Some u" "u \<noteq> Null" by (auto simp: row_key_def split: option.splits if_splits)
    then have "is_ok (index_key u)" using typed by (auto intro: value_fits_indexable elim: row_typed_value)
    with u key nz show ?thesis
      by (auto simp: option_value_eq_def row_key_def value_eq_iff_key split: result.splits)
  qed
  have dist: "distinct (map (\<lambda>e. row_key pk (snd e)) (rows t))"
    using d pk by (simp add: data_ok_def keyed_rows_def)
  show "set (case bm_get (primary t) k of None \<Rightarrow> [] | Some rid \<Rightarrow> [rid]) =
      set (map fst (filter (\<lambda>e. option_value_eq (bm_get (snd e) pk) v) (rows t)))"
    using primary_of_get [OF dist, of k] rk fresh by (auto simp: image_iff split: option.splits) force+
  show "bs_ok (map fst (filter (\<lambda>e. option_value_eq (bm_get (snd e) pk) v) (rows t)))"
    using d by (simp add: bm_ok_scan data_ok_def)
qed (simp add: bs_ok_def split: option.split)

lemma secondary_scan:
  assumes ok: "table_ok P tk t" and ix: "find (\<lambda>e. ix_column (snd e) = col) (indexes t) = Some (nm, ix)"
    and key: "index_key v = Ok k" and nz: "zero_free v"
  shows "bm_post (ix_map ix) k = map fst (filter (\<lambda>e. option_value_eq (bm_get (snd e) col) v) (rows t))"
proof -
  have d: "data_ok t" and m: "ix_map ix = secondary_of col (rows t)"
    using ok find_index [OF _ ix] by (auto simp: table_ok_def)
  have "has_key col (snd e) k \<longleftrightarrow> option_value_eq (bm_get (snd e) col) v" if "e \<in> set (rows t)" for e
  proof (cases "bm_get (snd e) col")
    case (Some u)
    have "row_typed (columns t) (snd e)" using d that by (simp add: data_ok_def)
    then have "is_ok (index_key u)" using Some by (auto intro: value_fits_indexable elim: row_typed_value)
    with Some key nz show ?thesis by (simp add: has_key_def option_value_eq_def value_eq_iff_key)
  qed (simp add: has_key_def option_value_eq_def)
  then show ?thesis
    using d by (simp add: m sec_ix.post_scan data_ok_def cong: filter_cong)
qed

lemma matching_is_scan:
  assumes ok: "table_ok P (fulltext_tokenizer opts) t" and v: "filter_value_ok f" and nz: "filter_zero_free f"
  shows "\<exists>path. matching_row_ids P t f opts = Ok (scan_row_ids P opts t f, path)"
proof (cases "(P, opts, f, [] :: row)" rule: row_satisfies.cases)
  case (2 P' opts' col w r)
  then have f: "f = Some (Equals col w)" and eq: "P' = P" "opts' = opts" by auto
  obtain k where k: "index_key w = Ok k" using v f by (cases w rule: index_key_cases) auto
  have z: "zero_free w" using nz f by simp
  show ?thesis
  proof (cases "primary_key t = Some col")
    case True
    with f k primary_scan [OF ok True k z] show ?thesis by (simp add: matching_row_ids_def scan_row_ids_def)
  next
    case False
    with f k secondary_scan [OF ok _ k z] show ?thesis
      by (auto simp: matching_row_ids_def scan_row_ids_def split: option.split)
  qed
qed (use match_fulltext_scan [OF ok] in \<open>auto simp: matching_row_ids_def scan_row_ids_def\<close>)

subsection \<open>Properties\<close>

lemma validate_value_indexable: "validate_value_with_options P c v opts = Ok v' \<Longrightarrow> is_ok (index_key v')"
  by (cases v)
    (auto simp: validate_value_with_options_def type_error_def vector_dimension_error_def f64_of_i64_finite
      split: if_splits option.splits)

lemma normalize_filter_value_ok: "normalize_filter P t f opts = Ok f' \<Longrightarrow> filter_value_ok f'"
  by (auto simp: normalize_filter_def outcome_simps dest: validate_value_indexable
      split: option.splits sql_filter.splits if_splits)

lemma demo_table_ok: "table_ok P tk demo_table"
  by (simp add: table_ok_def data_ok_def schema_ok_def demo_table_def demo_columns_def indexes_ok_def keyed_rows_def
      reindexed_def clear_indexes_def)

text \<open>Two values with the same index key are the same value, so an index never mixes up rows.\<close>

theorem index_key_injective: "index_key u = Ok k \<Longrightarrow> index_key v = Ok k \<Longrightarrow> u = v"
  by (rule index_key_inj)

theorem index_key_injective_witness: "index_key (Integer 1) \<noteq> index_key (Text ''1'')"
proof
  assume "index_key (Integer 1) = index_key (Text ''1'')"
  then have "Integer 1 = Text ''1''"
    by (intro index_key_injective [of "Integer 1" "''I:'' @ show_i64 1" "Text ''1''"]) simp_all
  then show False by simp
qed

text \<open>C5: Answering a filter through the primary key, a secondary index or a full-text index gives exactly
  the rows that a scan of the whole table with the filter's meaning gives, in ascending order. The
  compared value must be free of floating point zeros, where the two differ.\<close>

theorem index_access_is_scan:
  assumes "table_ok P (fulltext_tokenizer opts) t" "normalize_filter P t f opts = Ok f'" "filter_zero_free f'"
  shows "\<exists>path. matching_row_ids P t f' opts = Ok (scan_row_ids P opts t f', path)"
  using matching_is_scan [OF assms(1) normalize_filter_value_ok [OF assms(2)] assms(3)] .

theorem index_access_is_scan_witness:
  "\<exists>path. matching_row_ids demo_platform demo_table (Some (Equals ''id'' (Integer 7))) table_options_default =
     Ok (scan_row_ids demo_platform table_options_default demo_table (Some (Equals ''id'' (Integer 7))), path)"
proof (rule index_access_is_scan [OF demo_table_ok, where f = "Some (Equals ''id'' (Integer 7))"])
  have "normalize_identifier ''id'' = ''id''"
    by (simp add: normalize_identifier_def str_trim_ascii is_whitespace_def code_def trim_matches_def dropWhileEnd_def
        to_ascii_lowercase_def ascii_lower_def)
  then show "normalize_filter demo_platform demo_table (Some (Equals ''id'' (Integer 7))) table_options_default =
      Ok (Some (Equals ''id'' (Integer 7)))"
    by (simp add: normalize_filter_def table_column_def demo_table_def demo_columns_def validate_value_with_options_def)
qed simp

end
