(* ===== verification/Table_Ops.thy ===== *)
theory Table_Ops
  imports Table_Query
begin

section \<open>The operations of a table keep its invariant\<close>

text \<open>
  Every operation either succeeds with the rows its specification names and freshly built indexes,
  or returns an error and leaves the table exactly as it was; none panics.
\<close>

subsection \<open>Creating tables and columns\<close>

lemma new_loop_no_panic [simp]: "new_loop seen pk cs \<noteq> Panic m"
  by (induction cs arbitrary: seen pk) auto

lemma new_loop_iff:
  "is_ok (new_loop seen pk cs) \<longleftrightarrow>
     distinct (map col_name cs) \<and> set seen \<inter> col_name ` set cs = {} \<and>
     length (filter col_primary_key cs) + (if pk = None then 0 else 1) \<le> 1"
proof (induction cs arbitrary: seen pk)
  case (Cons c cs)
  show ?case
    using Cons.IH [of "col_name c # seen" pk] Cons.IH [of "col_name c # seen" "Some (col_name c)"]
    by (cases pk) auto
qed auto

lemma table_ok_new: "table_new nm cols = Ok t \<Longrightarrow> table_ok P tk t"
  by (auto simp: table_new_def outcome_simps table_ok_def data_ok_def schema_ok_def indexes_ok_def
      keyed_rows_def reindexed_def clear_indexes_def)

lemma blank_typed: "row_typed cols (bm_from (map (\<lambda>c. (col_name c, Null)) cols))"
proof -
  let ?r = "bm_from (map (\<lambda>c. (col_name c, Null)) cols)"
  have get: "bm_get ?r k = (if k \<in> col_name ` set cols then Some Null else None)" for k
    unfolding bm_from_get by (induction cols) (auto simp: map_add_def split: option.splits)
  then have "fst ` set ?r = col_name ` set cols"
    by (metis (mono_tags, lifting) bm_get_dom option.distinct(1) subsetI subset_antisym)
  with get show ?thesis by (auto simp: row_typed_def split: if_splits)
qed

lemma row_typed_insert:
  assumes "row_typed cols r" "c \<in> set cols" "value_fits (col_ty c) v" "distinct (map col_name cols)"
  shows "row_typed cols (bm_insert (col_name c) v r)"
  using assms by (auto simp: row_typed_def distinct_map inj_on_def)

lemma fill_row_typed:
  assumes "fill_row P t opts es r = Ok r'" "row_typed (columns t) r" "schema_ok t"
    and "\<forall>e \<in> set es. value_valid (snd e)"
  shows "row_typed (columns t) r'"
  using assms
proof (induction es arbitrary: r)
  case (Cons e es)
  obtain nm v where e: "e = (nm, v)" by (cases e)
  from Cons.prems(1) obtain c v' where c: "table_column t nm = Ok c"
    and v': "validate_value_with_options P c v opts = Ok v'"
    and rest: "fill_row P t opts es (bm_insert (col_name c) v' r) = Ok r'"
    by (auto simp: e outcome_simps)
  have "row_typed (columns t) (bm_insert (col_name c) v' r)"
    using Cons.prems e c v' by (intro row_typed_insert)
      (auto dest: table_column_Ok intro: validate_value_fits schema_distinct)
  with Cons.IH rest Cons.prems show ?case by simp
qed simp

lemma fill_row_no_panic [simp]: "fill_row P t opts es r \<noteq> Panic m"
  by (induction P t opts es r rule: fill_row.induct) (auto simp: outcome_simps)

lemma validate_primary_no_panic [simp]: "validate_primary_insert t r \<noteq> Panic m"
  by (auto simp: validate_primary_insert_def outcome_simps split: option.split)

subsection \<open>Inserting a row\<close>

definition insert_row :: "platform \<Rightarrow> string list option \<Rightarrow> sql_value list \<Rightarrow> table_options \<Rightarrow> table \<Rightarrow> row result" where
  "insert_row P cols vals opts t =
     (let targets = (case cols of Some cs \<Rightarrow> cs | None \<Rightarrow> map col_name (columns t))
      in if length targets \<noteq> length vals
         then Err (Execution (''expected '' @ show_nat (length targets) @ '' value(s), got '' @ show_nat (length vals)))
         else rbind (fill_row P t opts (zip targets vals) (bm_from (map (\<lambda>c. (col_name c, Null)) (columns t))))
                (\<lambda>r. rbind (validate_primary_insert t r) (\<lambda>_. Ok r)))"

definition with_row :: "row \<Rightarrow> table \<Rightarrow> table" where
  "with_row r t = t\<lparr>next_row_id := next_row_id t + 1, rows := bm_insert (next_row_id t) r (rows t)\<rparr>"

lemma insert_unfold:
  assumes "next_row_id t \<noteq> - 1"
  shows "insert_with_options P cols vals opts t =
     (case insert_row P cols vals opts t of
        Err e \<Rightarrow> (Err e, t)
      | Panic m \<Rightarrow> (Panic m, t)
      | Ok r \<Rightarrow> rebuild_indexes_with_options P opts (with_row r t))"
  using assms by (simp add: insert_with_options_def insert_row_def with_row_def Let_def split: result.split)

lemma insert_row_no_panic [simp]: "insert_row P cols vals opts t \<noteq> Panic m"
  by (auto simp: insert_row_def Let_def outcome_simps)

lemma insert_row_typed:
  assumes "insert_row P cols vals opts t = Ok r" "schema_ok t" "list_all value_valid vals"
  shows "row_typed (columns t) r"
  using assms blank_typed [of "columns t"]
  by (auto simp: insert_row_def Let_def outcome_simps list_all_iff
      dest!: set_zip_rightD split: if_splits intro: fill_row_typed)

lemma insert_row_key:
  assumes "insert_row P cols vals opts t = Ok r" "primary_key t = Some pk"
  obtains k where "row_key pk r = Some k" "bm_get (primary t) k = None"
proof -
  from assms have "validate_primary_insert t r = Ok ()"
    by (auto simp: insert_row_def Let_def outcome_simps split: if_splits)
  with assms(2) that show thesis
    by (auto simp: validate_primary_insert_def row_key_def outcome_simps split: if_splits option.splits)
qed

lemma next_row_id_fresh: "data_ok t \<Longrightarrow> next_row_id t \<notin> fst ` set (rows t)"
  by (auto simp: data_ok_def)

lemma with_row_rows: "data_ok t \<Longrightarrow> rows (with_row r t) = rows t @ [(next_row_id t, r)]"
  by (simp add: with_row_def) (rule bm_insert_snoc, auto simp: data_ok_def)

lemma u64_Suc: "(m :: u64) \<noteq> - 1 \<Longrightarrow> unat (m + 1) = Suc (unat m)"
  by (metis add.commute add_eq_0_iff unatSuc)

lemma u64_less_Suc: "(m :: u64) \<noteq> - 1 \<Longrightarrow> n \<le> m \<Longrightarrow> n < m + 1"
  by (simp add: word_less_nat_alt word_le_nat_alt u64_Suc)

lemma with_row_data_ok:
  assumes ok: "table_ok P tk t" and r: "insert_row P cols vals opts t = Ok r"
    and valid: "list_all value_valid vals" and room: "next_row_id t \<noteq> - 1"
  shows "data_ok (with_row r t)"
proof -
  have d: "data_ok t" and fresh: "primary t = primary_of (primary_key t) (rows t)"
    using ok reindexed_fields(1) [of P tk t] by (auto simp: table_ok_def)
  then have schema: "schema_ok t" and keyed: "keyed_rows t (rows t)" by (auto simp: data_ok_def)
  have "keyed_rows t (rows t @ [(next_row_id t, r)])"
    unfolding keyed_rows_def
  proof (intro allI impI conjI)
    fix pk assume pk: "primary_key t = Some pk"
    obtain k where k: "row_key pk r = Some k" "bm_get (primary t) k = None" using insert_row_key [OF r pk] .
    have dist: "distinct (map (\<lambda>e. row_key pk (snd e)) (rows t))"
      and all: "\<forall>e \<in> set (rows t). row_key pk (snd e) \<noteq> None" using keyed pk by (auto simp: keyed_rows_def)
    have "\<forall>e \<in> set (rows t). row_key pk (snd e) \<noteq> Some k"
      using primary_of_get [OF dist, of k] k(2) fresh pk by (metis option.distinct(1) prod.collapse)
    with dist k show "distinct (map (\<lambda>e. row_key pk (snd e)) (rows t @ [(next_row_id t, r)]))" by force
    from all k show "\<forall>e \<in> set (rows t @ [(next_row_id t, r)]). row_key pk (snd e) \<noteq> None" by auto
  qed
  moreover have "row_typed (columns t) r" by (rule insert_row_typed [OF r schema valid])
  moreover have "next_row_id t < next_row_id t + 1" using room by (simp add: u64_less_Suc)
  ultimately show ?thesis
    using d room with_row_rows [OF d, of r]
    by (auto simp: data_ok_def with_row_def schema_ok_def indexes_ok_def keyed_rows_def bm_ok_append bm_ok_Cons intro: u64_less_Suc)
qed

text \<open>What an insertion does: the row is rejected and nothing changes, or it is appended.\<close>

lemma insert_outcome:
  assumes ok: "table_ok P (fulltext_tokenizer opts) t"
    and valid: "list_all value_valid vals" and room: "next_row_id t \<noteq> - 1"
  shows "insert_with_options P cols vals opts t =
    (case insert_row P cols vals opts t of
       Ok r \<Rightarrow> (Ok (), reindexed P (fulltext_tokenizer opts) (with_row r t))
     | Err e \<Rightarrow> (Err e, t)
     | Panic m \<Rightarrow> (Panic m, t))"
  using with_row_data_ok [OF ok _ valid room] by (auto simp: insert_unfold [OF room] rebuild_data_ok split: result.split)

subsection \<open>Matched rows\<close>

lemma normalize_filter_no_panic [simp]: "normalize_filter P t f opts \<noteq> Panic m"
  by (auto simp: normalize_filter_def outcome_simps split: option.split sql_filter.split)

lemma match_fulltext_no_panic [simp]: "match_fulltext P t col q opts \<noteq> Panic m"
  by (auto simp: match_fulltext_def Let_def split: option.split)

lemma matching_no_panic [simp]: "matching_row_ids P t f opts \<noteq> Panic m"
  by (auto simp: matching_row_ids_def outcome_simps split: option.split sql_filter.split)

lemma match_fulltext_ids:
  assumes "table_ok P (fulltext_tokenizer opts) t" "match_fulltext P t col q opts = Ok (rids, path)"
  shows "bs_ok rids \<and> set rids \<subseteq> fst ` set (rows t)"
  using match_fulltext_scan [OF assms(1), of col q] assms
  by (auto simp: scan_row_ids_def table_ok_def data_ok_def bm_ok_scan)

lemma matching_ids:
  assumes ok: "table_ok P (fulltext_tokenizer opts) t" and m: "matching_row_ids P t f opts = Ok (rids, path)"
  shows "bs_ok rids \<and> set rids \<subseteq> fst ` set (rows t)"
proof -
  have rows: "bm_ok (rows t)" using ok by (simp add: table_ok_def data_ok_def)
  have scan: "bs_ok (map fst (filter Q (rows t)))" for Q using rows by (rule bm_ok_scan)
  have fresh: "primary t = primary_of (primary_key t) (rows t)" "reindexed P (fulltext_tokenizer opts) t = t"
    using ok reindexed_fields(1) [of P "fulltext_tokenizer opts" t] by (auto simp: table_ok_def)
  show ?thesis
  proof (cases "(P, opts, f, [] :: row)" rule: row_satisfies.cases)
    case 1
    with m rows show ?thesis by (auto simp: matching_row_ids_def bm_ok_ids)
  next
    case (2 P' opts' col v r)
    then have f: "f = Some (Equals col v)" by simp
    with m obtain k where k: "index_key v = Ok k" by (auto simp: matching_row_ids_def outcome_simps)
    have dist: "primary_key t = Some col \<Longrightarrow> distinct (map (\<lambda>e. row_key col (snd e)) (rows t))"
      using ok by (simp add: table_ok_def data_ok_def keyed_rows_def)
    show ?thesis
    proof (cases "primary_key t = Some col")
      case True
      have "bm_get (primary t) k = Some rid \<Longrightarrow> rid \<in> fst ` set (rows t)" for rid
        using primary_of_get [OF dist [OF True], of k rid] fresh(1) True by force
      with m f k True show ?thesis by (force simp: matching_row_ids_def bs_ok_def split: option.splits)
    next
      case False
      show ?thesis
      proof (cases "find (\<lambda>e. ix_column (snd e) = col) (indexes t)")
        case None
        with m f k False scan show ?thesis by (auto simp: matching_row_ids_def)
      next
        case (Some e)
        then have "ix_map (snd e) = secondary_of col (rows t)"
          using find_index [OF fresh(2), of col "fst e" "snd e"] by simp
        with m f k False Some have "rids = bm_post (secondary_of col (rows t)) k"
          by (cases e) (auto simp: matching_row_ids_def)
        then show ?thesis by (force simp: sec_ix.post_ok sec_ix.post_set)
      qed
    qed
  next
    case (3 P' opts' col q r)
    with m show ?thesis using match_fulltext_ids [OF ok] by (simp add: matching_row_ids_def)
  next
    case 4
    with m scan show ?thesis by (auto simp: matching_row_ids_def)
  qed
qed

subsection \<open>Updating rows\<close>

definition updated :: "(string \<times> sql_value) list \<Rightarrow> u64 list \<Rightarrow> (u64, row) bmap \<Rightarrow> (u64, row) bmap" where
  "updated asg rids rs = map (\<lambda>e. (fst e, if fst e \<in> set rids then assign_row asg (snd e) else snd e)) rs"

lemma bm_insert_present:
  "bm_ok m \<Longrightarrow> bm_get m k = Some v \<Longrightarrow> bm_insert k w m = map (\<lambda>e. (fst e, if fst e = k then w else snd e)) m"
proof (induction m)
  case (Cons e m)
  show ?case
  proof (cases "fst e = k")
    case True
    then have "\<forall>e' \<in> set m. fst e' \<noteq> k" using Cons.prems by (auto simp: bm_ok_Cons)
    then have "map (\<lambda>e. (fst e, if fst e = k then w else snd e)) m = m" by (intro map_idI) auto
    with True show ?thesis by (cases e) simp
  next
    case False
    then have "bm_get m k = Some v" using Cons.prems by (cases e) auto
    moreover from this have "fst e < k" using Cons.prems by (auto simp: bm_ok_Cons dest!: map_of_SomeD)
    ultimately show ?thesis using Cons False by (simp add: bm_ok_Cons)
  qed
qed simp

lemma updated_ok [simp]: "bm_ok (updated asg rids rs) = bm_ok rs"
  by (simp add: updated_def bm_ok_map_values)

lemma update_rows_updated:
  assumes "bm_ok rs" "distinct rids" "set rids \<subseteq> fst ` set rs"
  shows "update_rows asg rids rs = Ok (updated asg rids rs)"
  using assms
proof (induction rids arbitrary: rs)
  case (Cons rid rids)
  then obtain r where r: "bm_get rs rid = Some r" using bm_get_dom [of rs rid] by auto
  define rs' where "rs' = map (\<lambda>e. (fst e, if fst e = rid then assign_row asg r else snd e)) rs"
  have ok: "bm_ok rs'" using Cons.prems(1) by (simp add: rs'_def bm_ok_map_values)
  have "update_rows asg (rid # rids) rs = update_rows asg rids rs'"
    using r Cons.prems(1) by (simp add: bm_insert_present rs'_def)
  also have "\<dots> = Ok (updated asg rids rs')"
    using Cons.prems ok by (intro Cons.IH) (auto simp: rs'_def image_image)
  also have "updated asg rids rs' = updated asg (rid # rids) rs"
    unfolding updated_def rs'_def map_map
  proof (rule map_cong)
    fix e assume "e \<in> set rs"
    then have "fst e = rid \<Longrightarrow> snd e = r" using r Cons.prems(1)
      by (metis bm_get_iff option.inject prod.collapse)
    with Cons.prems(2) show "((\<lambda>e. (fst e, if fst e \<in> set rids then assign_row asg (snd e) else snd e)) \<circ>
        (\<lambda>e. (fst e, if fst e = rid then assign_row asg r else snd e))) e =
        (fst e, if fst e \<in> set (rid # rids) then assign_row asg (snd e) else snd e)" by auto
  qed simp
  finally show ?case .
qed (simp add: updated_def)

lemma normalize_assignments_no_panic [simp]: "normalize_assignments P t opts asg \<noteq> Panic m"
  by (induction P t opts asg rule: normalize_assignments.induct) (auto simp: outcome_simps)

lemma normalize_assignments_fit:
  "normalize_assignments P t opts asg = Ok ns \<Longrightarrow> \<forall>e \<in> set asg. value_valid (snd e) \<Longrightarrow>
     \<forall>n \<in> set ns. \<exists>c \<in> set (columns t). fst n = col_name c \<and> value_fits (col_ty c) (snd n)"
proof (induction P t opts asg arbitrary: ns rule: normalize_assignments.induct)
  case (2 P t opts nm v rest)
  then show ?case by (fastforce simp: outcome_simps dest: table_column_Ok intro: validate_value_fits)
qed simp

lemma assign_row_typed:
  "row_typed cols r \<Longrightarrow> distinct (map col_name cols) \<Longrightarrow>
     \<forall>n \<in> set ns. \<exists>c \<in> set cols. fst n = col_name c \<and> value_fits (col_ty c) (snd n) \<Longrightarrow>
     row_typed cols (assign_row ns r)"
  unfolding assign_row_def by (induction ns arbitrary: r) (auto simp: row_typed_insert)

definition update_plan ::
  "platform \<Rightarrow> (string \<times> sql_value) list \<Rightarrow> sql_filter option \<Rightarrow> table_options \<Rightarrow> table \<Rightarrow>
   (u64 list \<times> (string \<times> sql_value) list) result"
where
  "update_plan P asg f opts t =
     rbind (normalize_filter P t f opts) (\<lambda>f'.
     rbind (matching_row_ids P t f' opts) (\<lambda>(rids, _).
     rbind (normalize_assignments P t opts asg) (\<lambda>ns. Ok (rids, ns))))"

lemma update_plan_no_panic [simp]: "update_plan P asg f opts t \<noteq> Panic m"
  by (auto simp: update_plan_def outcome_simps)

lemma update_plan_ids:
  "table_ok P (fulltext_tokenizer opts) t \<Longrightarrow> update_plan P asg f opts t = Ok (rids, ns) \<Longrightarrow>
     distinct rids \<and> set rids \<subseteq> fst ` set (rows t)"
  by (auto simp: update_plan_def outcome_simps dest!: matching_ids bs_ok_distinct)

lemma update_unfold:
  assumes "table_ok P (fulltext_tokenizer opts) t"
  shows "update_with_options P asg f opts t =
    (case update_plan P asg f opts t of
       Err e \<Rightarrow> (Err e, t)
     | Panic m \<Rightarrow> (Panic m, t)
     | Ok (rids, ns) \<Rightarrow>
         (case rebuild_indexes_with_options P opts (t\<lparr>rows := updated ns rids (rows t)\<rparr>) of
            (Ok _, t') \<Rightarrow> (Ok (length rids), t')
          | (Err e, t') \<Rightarrow> (Err e, snd (rebuild_indexes_with_options P opts (t'\<lparr>rows := rows t\<rparr>)))
          | (Panic m, t') \<Rightarrow> (Panic m, t')))"
proof (cases "update_plan P asg f opts t")
  case (Ok plan)
  obtain rids ns where plan: "plan = (rids, ns)" by (cases plan)
  have "update_rows ns rids (rows t) = Ok (updated ns rids (rows t))"
    using update_plan_ids [OF assms] Ok plan assms
    by (intro update_rows_updated) (auto simp: table_ok_def data_ok_def)
  with Ok plan show ?thesis
    by (auto simp: update_with_options_def update_plan_def outcome_simps)
next
  case (Err e)
  then show ?thesis by (auto simp: update_with_options_def update_plan_def outcome_simps)
qed simp

lemma restored_shape:
  "indexes_ok t \<Longrightarrow> same_shape t' (t\<lparr>rows := rs\<rparr>) \<Longrightarrow> same_shape (t'\<lparr>rows := rows t\<rparr>) t"
  by (cases t; cases t') (simp add: same_shape_def clear_indexes_def)

lemma updated_typed:
  assumes "\<forall>e \<in> set rs. row_typed cols (snd e) \<and> fst e < n" "distinct (map col_name cols)"
    and "\<forall>m \<in> set ns. \<exists>c \<in> set cols. fst m = col_name c \<and> value_fits (col_ty c) (snd m)"
  shows "\<forall>e \<in> set (updated ns rids rs). row_typed cols (snd e) \<and> fst e < n"
  using assms assign_row_typed [of cols _ ns] by (auto simp: updated_def)

lemma update_data_ok:
  assumes ok: "table_ok P (fulltext_tokenizer opts) t" and plan: "update_plan P asg f opts t = Ok (rids, ns)"
    and valid: "\<forall>e \<in> set asg. value_valid (snd e)"
    and keyed: "keyed_rows t (updated ns rids (rows t))"
  shows "data_ok (t\<lparr>rows := updated ns rids (rows t)\<rparr>)"
proof -
  have d: "data_ok t" using ok by (simp add: table_ok_def)
  have "\<forall>n \<in> set ns. \<exists>c \<in> set (columns t). fst n = col_name c \<and> value_fits (col_ty c) (snd n)"
    using plan valid by (intro normalize_assignments_fit) (auto simp: update_plan_def outcome_simps)
  then have "\<forall>e \<in> set (updated ns rids (rows t)). row_typed (columns t) (snd e) \<and> fst e < next_row_id t"
    using d by (intro updated_typed) (auto simp: data_ok_def schema_distinct)
  with d keyed show ?thesis by (simp add: data_ok_def schema_ok_def indexes_ok_def keyed_rows_def)
qed

text \<open>
  An update assigns the matched rows when their primary keys stay unique and present; otherwise it
  reports an error and restores the table, indexes included.
\<close>

lemma update_outcome:
  assumes ok: "table_ok P (fulltext_tokenizer opts) t" and plan: "update_plan P asg f opts t = Ok (rids, ns)"
    and valid: "\<forall>e \<in> set asg. value_valid (snd e)"
  shows "keyed_rows t (updated ns rids (rows t)) \<Longrightarrow> update_with_options P asg f opts t =
      (Ok (length rids), reindexed P (fulltext_tokenizer opts) (t\<lparr>rows := updated ns rids (rows t)\<rparr>))"
    and "\<not> keyed_rows t (updated ns rids (rows t)) \<Longrightarrow> \<exists>e. update_with_options P asg f opts t = (Err e, t)"
proof -
  let ?t = "t\<lparr>rows := updated ns rids (rows t)\<rparr>"
  have d: "data_ok t" and fresh: "reindexed P (fulltext_tokenizer opts) t = t" using ok by (auto simp: table_ok_def)
  show "update_with_options P asg f opts t = (Ok (length rids), reindexed P (fulltext_tokenizer opts) ?t)"
    if "keyed_rows t (updated ns rids (rows t))"
    using update_data_ok [OF ok plan valid that] plan by (simp add: update_unfold [OF ok] rebuild_data_ok)
  show "\<exists>e. update_with_options P asg f opts t = (Err e, t)" if "\<not> keyed_rows t (updated ns rids (rows t))"
  proof -
    have io: "indexes_ok t" "indexes_ok ?t" using d by (auto simp: data_ok_def indexes_ok_def)
    have "\<not> rows_indexable ?t" using that by (simp add: rows_indexable_def keyed_rows_def)
    then obtain e t' where e: "rebuild_indexes_with_options P opts ?t = (Err e, t')" "same_shape t' ?t"
      using rebuild_fails [OF io(2)] by metis
    have "rebuild_indexes_with_options P opts (t'\<lparr>rows := rows t\<rparr>) = rebuild_indexes_with_options P opts t"
      using restored_shape [OF io(1) e(2)] by (rule rebuild_same_shape)
    then show ?thesis using e plan d fresh by (simp add: update_unfold [OF ok] rebuild_data_ok)
  qed
qed

lemma update_rejected:
  "table_ok P (fulltext_tokenizer opts) t \<Longrightarrow> update_plan P asg f opts t = Err e \<Longrightarrow>
     update_with_options P asg f opts t = (Err e, t)"
  by (simp add: update_unfold)

subsection \<open>Deleting rows\<close>

lemma foldl_remove: "foldl (\<lambda>rs rid. bm_remove rid rs) rs rids = filter (\<lambda>e. fst e \<notin> set rids) rs"
proof (induction rids arbitrary: rs)
  case (Cons rid rids)
  then show ?case by (simp add: bm_remove_def conj_commute)
qed simp

lemma keyed_rows_filter: "keyed_rows t rs \<Longrightarrow> keyed_rows t (filter Q rs)"
  by (auto simp: keyed_rows_def distinct_map inj_on_def)

lemma delete_data_ok: "data_ok t \<Longrightarrow> data_ok (t\<lparr>rows := filter Q (rows t)\<rparr>)"
  using keyed_rows_filter [of t "rows t" Q] by (auto simp: data_ok_def schema_ok_def indexes_ok_def keyed_rows_def)

definition delete_plan :: "platform \<Rightarrow> sql_filter option \<Rightarrow> table_options \<Rightarrow> table \<Rightarrow> u64 list result" where
  "delete_plan P f opts t =
     rbind (normalize_filter P t f opts) (\<lambda>f'. rbind (matching_row_ids P t f' opts) (\<lambda>(rids, _). Ok rids))"

lemma delete_outcome:
  assumes "table_ok P (fulltext_tokenizer opts) t"
  shows "delete_with_options P f opts t =
    (case delete_plan P f opts t of
       Err e \<Rightarrow> (Err e, t)
     | Panic m \<Rightarrow> (Panic m, t)
     | Ok rids \<Rightarrow> (Ok (length rids),
         reindexed P (fulltext_tokenizer opts) (t\<lparr>rows := filter (\<lambda>e. fst e \<notin> set rids) (rows t)\<rparr>)))"
proof (cases "rbind (normalize_filter P t f opts) (\<lambda>f'. matching_row_ids P t f' opts)")
  case (Ok p)
  then have "delete_plan P f opts t = Ok (fst p)" by (cases p) (auto simp: delete_plan_def outcome_simps)
  with Ok assms show ?thesis
    by (cases p) (simp add: delete_with_options_def foldl_remove rebuild_data_ok delete_data_ok table_ok_data)
next
  case (Err e)
  then show ?thesis by (auto simp: delete_with_options_def delete_plan_def outcome_simps)
next
  case (Panic m)
  then show ?thesis by (simp add: outcome_simps)
qed

subsection \<open>Creating indexes\<close>

lemma add_index_data_ok:
  "data_ok t \<Longrightarrow> data_ok (add_persisted_index nm col t)"
  "data_ok t \<Longrightarrow> data_ok (add_persisted_fulltext_index nm col t)"
  by (simp_all add: data_ok_def schema_ok_def indexes_ok_def keyed_rows_def add_persisted_index_def
      add_persisted_fulltext_index_def)

definition index_name_free :: "string \<Rightarrow> table \<Rightarrow> bool" where
  "index_name_free nm t \<longleftrightarrow> bm_get (indexes t) nm = None \<and> bm_get (fulltext_indexes t) nm = None"

lemma create_index_outcome:
  assumes "data_ok t"
  shows "create_index P nm col t =
    (case table_column t col of
       Ok c \<Rightarrow> if index_name_free nm t then (Ok (), reindexed P SimpleTok (add_persisted_index nm col t))
               else (Err (Execution (''index '' @ nm @ '' already exists'')), t)
     | Err e \<Rightarrow> (Err e, t)
     | Panic m \<Rightarrow> (Panic m, t))"
  using rebuild_data_ok [OF add_index_data_ok(1) [OF assms], of P table_options_default nm col]
  by (auto simp: create_index_def index_name_free_def rebuild_indexes_def table_options_default_def
      add_persisted_index_def split: result.split)

lemma create_fulltext_index_outcome:
  assumes "data_ok t"
  shows "create_fulltext_index_with_options P nm col opts t =
    (case table_column t col of
       Ok c \<Rightarrow> if col_ty c \<noteq> TextT then (Err (Execution ''full-text indexes can only be created on text columns''), t)
               else if index_name_free nm t
               then (Ok (), reindexed P (fulltext_tokenizer opts) (add_persisted_fulltext_index nm col t))
               else (Err (Execution (''index '' @ nm @ '' already exists'')), t)
     | Err e \<Rightarrow> (Err e, t)
     | Panic m \<Rightarrow> (Panic m, t))"
  using rebuild_data_ok [OF add_index_data_ok(2) [OF assms], of P opts nm col]
  by (auto simp: create_fulltext_index_with_options_def index_name_free_def
      add_persisted_fulltext_index_def split: result.split)

lemma reindexed_tokenizer: "fulltext_indexes t = [] \<Longrightarrow> reindexed P tk t = reindexed P tk' t"
proof -
  assume none: "fulltext_indexes t = []"
  have "fulltext_indexes s = [] \<Longrightarrow> enter_row P tk s e = enter_row P tk' s e \<and> fulltext_indexes (enter_row P tk' s e) = []"
    for s e by (simp add: enter_row_def)
  then have "fulltext_indexes s = [] \<Longrightarrow> foldl (enter_row P tk) s es = foldl (enter_row P tk') s es" for s es
    by (induction es arbitrary: s) auto
  moreover have "fulltext_indexes (clear_indexes t) = []" using none by (simp add: clear_indexes_def)
  ultimately show ?thesis by (simp add: reindexed_def)
qed

text \<open>
  \<^verbatim>\<open>create_index\<close> rebuilds with the default options, so it keeps the invariant of the configured
  tokenizer only when that is the default one or the table has no full-text index.
\<close>

definition tokenizer_safe :: "fulltext_tokenizer \<Rightarrow> table \<Rightarrow> bool" where
  "tokenizer_safe tk t \<longleftrightarrow> tk = SimpleTok \<or> fulltext_indexes t = []"

lemma create_index_keeps:
  assumes "data_ok t" "tokenizer_safe tk t" "create_index P nm col t = (Ok (), t')"
  shows "table_ok P tk t'"
proof -
  have "t' = reindexed P SimpleTok (add_persisted_index nm col t)"
    using assms by (auto simp: create_index_outcome split: result.splits if_splits)
  moreover have "reindexed P SimpleTok (add_persisted_index nm col t) = reindexed P tk (add_persisted_index nm col t)"
    using assms(2) by (auto simp: tokenizer_safe_def add_persisted_index_def intro: reindexed_tokenizer)
  ultimately show ?thesis using assms(1) by (simp add: table_ok_reindexed add_index_data_ok)
qed

subsection \<open>Atomic operations\<close>

text \<open>
  The contract the statement executor relies on: from a good state an operation succeeds in a good
  state or fails without a trace, and it does not panic. Running it on one entry of an ordered map of
  such states is again such an operation.
\<close>

locale atomic_op =
  fixes inv :: "'s \<Rightarrow> bool"
    and pre :: "'s \<Rightarrow> bool"
    and run :: "'s \<Rightarrow> 'a result \<times> 's"
  assumes ok_inv: "inv s \<Longrightarrow> pre s \<Longrightarrow> run s = (Ok x, s') \<Longrightarrow> inv s'"
    and err_same: "inv s \<Longrightarrow> pre s \<Longrightarrow> run s = (Err e, s') \<Longrightarrow> s' = s"
    and no_panic: "inv s \<Longrightarrow> pre s \<Longrightarrow> run s \<noteq> (Panic m, s')"
begin

lemma keeps_inv: "inv s \<Longrightarrow> pre s \<Longrightarrow> inv (snd (run s))"
  by (cases "run s"; cases "fst (run s)") (auto dest: ok_inv err_same no_panic)

lemma not_ok_same: "inv s \<Longrightarrow> pre s \<Longrightarrow> \<not> is_ok (fst (run s)) \<Longrightarrow> snd (run s) = s"
  by (cases "run s"; cases "fst (run s)") (auto dest: err_same no_panic)

lemma entry_keeps:
  assumes "\<forall>e \<in> set m. inv (snd e)" "bm_get m k = Some s" "pre s"
  shows "\<forall>e \<in> set (bm_insert k (snd (run s)) m). inv (snd e)"
proof -
  have "inv s" using assms(1,2) by (auto dest!: map_of_SomeD)
  then have new: "inv (snd (run s))" using assms(3) by (rule keeps_inv)
  with assms(1) set_bm_insert_subset [of k "snd (run s)" m] show ?thesis by fastforce
qed

lemma entry_err_same:
  assumes "bm_ok m" "\<forall>e \<in> set m. inv (snd e)" "bm_get m k = Some s" "pre s" "\<not> is_ok (fst (run s))"
  shows "bm_insert k (snd (run s)) m = m"
proof -
  have "inv s" using assms(2,3) by (auto dest!: map_of_SomeD)
  then show ?thesis using assms by (simp add: not_ok_same bm.insert_same)
qed

end

abbreviation insert_pre :: "sql_value list \<Rightarrow> table \<Rightarrow> bool" where
  "insert_pre vals t \<equiv> list_all value_valid vals \<and> next_row_id t \<noteq> - 1"

interpretation insert_op: atomic_op
  "table_ok P (fulltext_tokenizer opts)" "insert_pre vals" "insert_with_options P cols vals opts"
  for P opts vals cols
  by unfold_locales
    (auto simp: insert_outcome table_ok_reindexed with_row_data_ok split: result.splits)

interpretation update_op: atomic_op
  "table_ok P (fulltext_tokenizer opts)" "\<lambda>_. \<forall>e \<in> set asg. value_valid (snd e)" "update_with_options P asg f opts"
  for P opts asg f
proof (unfold_locales, goal_cases)
  case (1 s x s')
  obtain rids ns where plan: "update_plan P asg f opts s = Ok (rids, ns)"
    using 1 by (cases "update_plan P asg f opts s") (auto simp: update_rejected)
  with 1 update_data_ok [OF 1(1) plan 1(2)] update_outcome [OF 1(1) plan 1(2)] show ?case
    by (cases "keyed_rows s (updated ns rids (rows s))") (auto simp: table_ok_reindexed)
next
  case (2 s e s')
  then show ?case
  proof (cases "update_plan P asg f opts s")
    case (Ok plan)
    with 2 update_outcome [OF 2(1) _ 2(2), of f "fst plan" "snd plan"] show ?thesis by (cases plan) auto
  qed (auto simp: update_rejected)
next
  case (3 s m s')
  then show ?case
  proof (cases "update_plan P asg f opts s")
    case (Ok plan)
    with 3 update_outcome [OF 3(1) _ 3(2), of f "fst plan" "snd plan"] show ?thesis
      by (cases "keyed_rows s (updated (snd plan) (fst plan) (rows s))") auto
  qed (auto simp: update_rejected)
qed

interpretation delete_op: atomic_op
  "table_ok P (fulltext_tokenizer opts)" "\<lambda>_. True" "delete_with_options P f opts"
  for P opts f
  by unfold_locales
    (auto simp: delete_outcome delete_plan_def table_ok_reindexed delete_data_ok table_ok_data outcome_simps
      split: result.splits)

interpretation create_index_op: atomic_op "table_ok P tk" "tokenizer_safe tk" "create_index P nm col" for P tk nm col
proof (unfold_locales, goal_cases)
  case (1 s x s')
  then show ?case by (auto intro: create_index_keeps table_ok_data)
qed (auto simp: create_index_outcome table_ok_data split: result.splits if_splits)

interpretation create_fulltext_op: atomic_op
  "table_ok P (fulltext_tokenizer opts)" "\<lambda>_. True" "create_fulltext_index_with_options P nm col opts"
  for P opts nm col
  by unfold_locales
    (auto simp: create_fulltext_index_outcome table_ok_data table_ok_reindexed add_index_data_ok
      split: result.splits if_splits)

subsection \<open>Properties\<close>

lemma reindexed_rows [simp]: "rows (reindexed P tk t) = rows t" "next_row_id (reindexed P tk t) = next_row_id t"
  "columns (reindexed P tk t) = columns t" "primary_key (reindexed P tk t) = primary_key t"
  using same_shape_fields [OF reindexed_shape [of P tk t]] by auto

lemma demo_fields:
  "next_row_id demo_table = 1" "rows demo_table = []" "columns demo_table = demo_columns"
  "fulltext_tokenizer table_options_default = SimpleTok"
  by (simp_all add: demo_table_def table_options_default_def)

lemma demo_identifiers [simp]: "normalize_identifier ''id'' = ''id''" "normalize_identifier ''name'' = ''name''"
  "normalize_identifier ''nosuch'' = ''nosuch''"
  by (simp_all add: normalize_identifier_def str_trim_ascii is_whitespace_def code_def trim_matches_def dropWhileEnd_def
      to_ascii_lowercase_def ascii_lower_def)

text \<open>
  What a column accepts: the value, or for a float column the float nearest to an integer, provided it has
  the column's type, is finite, and, for a vector under configured dimensions, has that many of them.
\<close>

definition admits :: "column \<Rightarrow> table_options \<Rightarrow> sql_value \<Rightarrow> sql_value \<Rightarrow> bool" where
  "admits c opts v v' \<longleftrightarrow>
     value_fits (col_ty c) v' \<and>
     (v' = v \<or> (\<exists>i. v = Integer i \<and> col_ty c = FloatT \<and> v' = Float (f64_of_i64 i))) \<and>
     (\<forall>xs n. v' = Vector xs \<longrightarrow> dimensions (vector_index opts) = Some n \<longrightarrow> length xs = n)"

text \<open>C33: The validator accepts a value for a column exactly when the value, or for a float column the float
  made from an integer, has the column's type, is finite, and has the configured number of dimensions if it
  is a vector; it then returns that value. Every other value, whatever its type, is refused with an
  execution error: it never panics. (Texts are valid UTF-8, as every Rust \<^verbatim>\<open>String\<close> is.)\<close>

theorem accepted_value_fits:
  assumes "value_valid v"
  shows "(case validate_value_with_options P c v opts of
      Ok v' \<Rightarrow> admits c opts v v'
    | Err e \<Rightarrow> (\<exists>m. e = Execution m) \<and> (\<forall>v'. \<not> admits c opts v v')
    | Panic m \<Rightarrow> False)"
  using assms
  by (cases v)
    (auto simp: validate_value_with_options_def type_error_def vector_dimension_error_def admits_def
      f64_of_i64_finite split: option.splits)

theorem accepted_value_fits_witness:
  "validate_value_with_options demo_platform \<lparr>col_name = ''w'', col_ty = FloatT, col_primary_key = False\<rparr>
     (Integer 2) table_options_default = Ok (Float (f64_of_i64 2)) \<and>
   (\<exists>m. validate_value_with_options demo_platform \<lparr>col_name = ''w'', col_ty = FloatT, col_primary_key = False\<rparr>
     (Text ''x'') table_options_default = Err (Execution m))"
proof
  let ?c = "\<lparr>col_name = ''w'', col_ty = FloatT, col_primary_key = False\<rparr>"
  note spec = accepted_value_fits [where P = demo_platform and c = ?c and opts = table_options_default]
  have "admits ?c table_options_default (Integer 2) (Float (f64_of_i64 2))" by (simp add: admits_def f64_of_i64_finite)
  then show "validate_value_with_options demo_platform ?c (Integer 2) table_options_default = Ok (Float (f64_of_i64 2))"
    using spec [of "Integer 2"] by (auto split: result.splits) (auto simp: admits_def)
  have "\<not> admits ?c table_options_default (Text ''x'') v'" for v' by (auto simp: admits_def)
  then show "\<exists>m. validate_value_with_options demo_platform ?c (Text ''x'') table_options_default = Err (Execution m)"
    using spec [of "Text ''x''"] by (auto simp: code_def split: result.splits)
qed

text \<open>C9: An insertion into a well-formed table either appends one well-typed row under the next row
  identifier, advances that identifier and leaves a well-formed table with fresh indexes, or returns an
  error and leaves the table exactly as it was. It does not panic.\<close>

theorem insert_correct:
  assumes "table_ok P (fulltext_tokenizer opts) t" "list_all value_valid vals" "next_row_id t \<noteq> - 1"
  shows "(case insert_with_options P cols vals opts t of
      (Ok _, t') \<Rightarrow>
        table_ok P (fulltext_tokenizer opts) t' \<and> next_row_id t' = next_row_id t + 1 \<and>
        (\<exists>r. row_typed (columns t) r \<and> rows t' = rows t @ [(next_row_id t, r)] \<and>
           fill_row P t opts (zip (case cols of None \<Rightarrow> map col_name (columns t) | Some cs \<Rightarrow> cs) vals)
             (bm_from (map (\<lambda>c. (col_name c, Null)) (columns t))) = Ok r)
    | (Err e, t') \<Rightarrow> t' = t
    | (Panic m, t') \<Rightarrow> False)"
proof -
  have d: "data_ok t" "schema_ok t" using assms(1) by (auto simp: table_ok_def data_ok_def)
  show ?thesis
  proof (cases "insert_row P cols vals opts t")
    case (Ok r)
    moreover have "data_ok (with_row r t)" using with_row_data_ok [OF assms(1) Ok assms(2,3)] .
    moreover have "row_typed (columns t) r" using insert_row_typed [OF Ok d(2) assms(2)] .
    moreover have "fill_row P t opts (zip (case cols of None \<Rightarrow> map col_name (columns t) | Some cs \<Rightarrow> cs) vals)
        (bm_from (map (\<lambda>c. (col_name c, Null)) (columns t))) = Ok r"
      using Ok by (auto simp: insert_row_def Let_def outcome_simps split: if_splits)
    ultimately show ?thesis
      using with_row_rows [OF d(1), of r] by (simp add: insert_outcome [OF assms] table_ok_reindexed) (simp add: with_row_def)
  qed (simp_all add: insert_outcome [OF assms])
qed

theorem insert_correct_witness:
  "\<exists>t'. insert_with_options demo_platform None [Integer 7, Text ''x''] table_options_default demo_table = (Ok (), t') \<and>
     table_ok demo_platform SimpleTok t' \<and> length (rows t') = 1"
proof -
  have "insert_row demo_platform None [Integer 7, Text ''x''] table_options_default demo_table =
      Ok [(''id'', Integer 7), (''name'', Text ''x'')]"
    by (simp add: insert_row_def demo_table_def demo_columns_def table_column_def validate_value_with_options_def
        validate_primary_insert_def bm_from_def)
  then have "insert_with_options demo_platform None [Integer 7, Text ''x''] table_options_default demo_table =
      (Ok (), reindexed demo_platform SimpleTok (with_row [(''id'', Integer 7), (''name'', Text ''x'')] demo_table))"
    using insert_outcome [of demo_platform table_options_default demo_table "[Integer 7, Text ''x'']" None] demo_table_ok
    by (simp add: demo_fields code_def)
  with insert_correct [of demo_platform table_options_default demo_table "[Integer 7, Text ''x'']" None] show ?thesis
    by (auto simp: demo_table_ok demo_fields code_def)
qed

text \<open>A row whose primary key is already present is refused with \<open>duplicate primary key\<close>.\<close>

theorem insert_duplicate_rejected:
  assumes ok: "table_ok P tk t" and pk: "primary_key t = Some pk" and len: "length cs = length vals"
    and row: "fill_row P t opts (zip cs vals) (bm_from (map (\<lambda>c. (col_name c, Null)) (columns t))) = Ok r"
    and key: "row_key pk r = Some k" and old: "(rid, r0) \<in> set (rows t)" "row_key pk r0 = Some k"
  shows "insert_with_options P (Some cs) vals opts t = (Err (Execution ''duplicate primary key''), t)"
proof -
  have "primary t = primary_of (Some pk) (rows t)" "distinct (map (\<lambda>e. row_key pk (snd e)) (rows t))"
    using ok pk reindexed_fields(1) [of P tk t] by (auto simp: table_ok_def data_ok_def keyed_rows_def)
  then have "bm_get (primary t) k = Some rid" using primary_of_get old by metis
  moreover obtain v where "bm_get r pk = Some v" "v \<noteq> Null" "index_key v = Ok k"
    using key by (auto simp: row_key_def split: option.splits if_splits result.splits)
  ultimately have "validate_primary_insert t r = Err (Execution ''duplicate primary key'')"
    using pk by (simp add: validate_primary_insert_def)
  with len row show ?thesis by (simp add: insert_with_options_def)
qed

definition demo_one_row :: table where
  "demo_one_row = demo_table\<lparr>rows := [(1, [(''id'', Integer 7), (''name'', Null)])], next_row_id := 2\<rparr>"

lemma demo_one_row_ok: "table_ok P tk (reindexed P tk demo_one_row)"
  by (rule table_ok_reindexed)
    (simp add: data_ok_def schema_ok_def demo_one_row_def demo_table_def demo_columns_def indexes_ok_def keyed_rows_def
      bm_ok_def row_typed_def row_key_def insert_commute)

theorem insert_duplicate_rejected_witness:
  "insert_with_options demo_platform (Some [''id'']) [Integer 7] table_options_default (reindexed demo_platform SimpleTok demo_one_row) =
     (Err (Execution ''duplicate primary key''), reindexed demo_platform SimpleTok demo_one_row)"
proof -
  have cols: "columns demo_one_row = demo_columns" "primary_key demo_one_row = Some ''id''"
    "rows demo_one_row = [(1, [(''id'', Integer 7), (''name'', Null)])]"
    by (simp_all add: demo_one_row_def demo_table_def)
  have pk: "primary_key (reindexed demo_platform SimpleTok demo_one_row) = Some ''id''" by (simp add: cols)
  show ?thesis
    by (rule insert_duplicate_rejected [OF demo_one_row_ok pk, where r = "[(''id'', Integer 7), (''name'', Null)]"
          and k = "''I:'' @ show_i64 7" and rid = 1 and ?r0.0 = "[(''id'', Integer 7), (''name'', Null)]"])
      (simp_all add: cols table_column_def demo_columns_def validate_value_with_options_def bm_from_def row_key_def Let_def)
qed

text \<open>C8: An update first settles the matched rows and the normalized assignments, and an unknown column, a value
  its column refuses or a filter the table refuses is an error. Then it succeeds exactly when, after the
  assignments, all primary keys are present and distinct: it reports the number of matched rows, which get
  the assigned values, the other rows are as before, and the table is well-formed. In every other case it
  returns an error and the table, indexes included, is what it was before. It does not panic.\<close>

theorem update_all_or_nothing:
  assumes ok: "table_ok P (fulltext_tokenizer opts) t" and valid: "\<forall>e \<in> set asg. value_valid (snd e)"
  shows "(case rbind (normalize_filter P t f opts) (\<lambda>f'.
             rbind (matching_row_ids P t f' opts) (\<lambda>(rids, path).
             rbind (normalize_assignments P t opts asg) (\<lambda>ns. Ok (rids, ns)))) of
      Ok (rids, ns) \<Rightarrow>
        let rs = map (\<lambda>e. (fst e, if fst e \<in> set rids then assign_row ns (snd e) else snd e)) (rows t)
        in if keyed_rows t rs
           then \<exists>t'. update_with_options P asg f opts t = (Ok (length rids), t') \<and>
                  table_ok P (fulltext_tokenizer opts) t' \<and> rows t' = rs \<and>
                  columns t' = columns t \<and> next_row_id t' = next_row_id t
           else \<exists>e. update_with_options P asg f opts t = (Err e, t)
    | Err e \<Rightarrow> update_with_options P asg f opts t = (Err e, t)
    | Panic m \<Rightarrow> False)"
proof (cases "update_plan P asg f opts t")
  case (Ok plan)
  obtain rids ns where plan: "plan = (rids, ns)" by (cases plan)
  note out = update_outcome [OF ok Ok [unfolded plan] valid]
  note goal = Ok [unfolded update_plan_def plan] updated_def [symmetric]
  show ?thesis
  proof (cases "keyed_rows t (updated ns rids (rows t))")
    case True
    with out(1) update_data_ok [OF ok Ok [unfolded plan] valid] show ?thesis
      by (simp add: goal Let_def table_ok_reindexed)
  next
    case False
    with out(2) show ?thesis by (simp add: goal Let_def)
  qed
next
  case (Err e)
  with update_rejected [OF ok Err] show ?thesis by (simp add: update_plan_def)
qed simp

lemma demo_one_row_fields [simp]:
  "columns demo_one_row = demo_columns" "primary_key demo_one_row = Some ''id''"
  "rows demo_one_row = [(1, [(''id'', Integer 7), (''name'', Null)])]"
  by (simp_all add: demo_one_row_def demo_table_def)

theorem update_all_or_nothing_witness:
  "(let t = reindexed demo_platform SimpleTok demo_one_row;
        upd = (\<lambda>asg. update_with_options demo_platform asg None table_options_default t)
    in (\<exists>t'. upd [(''name'', Text ''y'')] = (Ok 1, t') \<and> rows t' = [(1, [(''id'', Integer 7), (''name'', Text ''y'')])]) \<and>
       (\<exists>e. upd [(''id'', Null)] = (Err e, t)))"
  using update_all_or_nothing [of demo_platform table_options_default "reindexed demo_platform SimpleTok demo_one_row"
      "[(''name'', Text ''y'')]" None]
    update_all_or_nothing [of demo_platform table_options_default "reindexed demo_platform SimpleTok demo_one_row"
      "[(''id'', Null)]" None]
    demo_one_row_ok [of demo_platform SimpleTok]
  by (auto simp: demo_fields normalize_filter_def matching_row_ids_def table_column_def demo_columns_def
      validate_value_with_options_def assign_row_def keyed_rows_def row_key_def code_def Let_def split: if_splits)

text \<open>C30: A deletion whose filter the table accepts succeeds: it removes exactly the matched rows and reports
  their number, and the table stays well-formed. It returns an error exactly when the filter is refused, and then nothing
  changes. It does not panic.\<close>

theorem delete_correct:
  assumes "table_ok P (fulltext_tokenizer opts) t"
  shows "(case rbind (normalize_filter P t f opts) (\<lambda>f'. matching_row_ids P t f' opts) of
      Ok (rids, path) \<Rightarrow>
        (\<exists>t'. delete_with_options P f opts t = (Ok (length rids), t') \<and>
           table_ok P (fulltext_tokenizer opts) t' \<and>
           length (rows t') + length rids = length (rows t) \<and>
           rows t' = filter (\<lambda>e. fst e \<notin> set rids) (rows t) \<and> next_row_id t' = next_row_id t)
    | Err e \<Rightarrow> delete_with_options P f opts t = (Err e, t)
    | Panic m \<Rightarrow> False)"
proof (cases "rbind (normalize_filter P t f opts) (\<lambda>f'. matching_row_ids P t f' opts)")
  case (Ok p)
  then obtain f' rids path where p: "p = (rids, path)" and
    m: "normalize_filter P t f opts = Ok f'" "matching_row_ids P t f' opts = Ok (rids, path)"
    by (cases p) (auto simp: outcome_simps)
  have ids: "distinct rids" "set rids \<subseteq> fst ` set (rows t)" using matching_ids [OF assms m(2)] bs_ok_distinct by auto
  have rows: "distinct (map fst (rows t))" using assms by (simp add: table_ok_def data_ok_def bm_ok_distinct)
  have "length (filter (\<lambda>e. fst e \<in> set rids) (rows t)) = length rids"
  proof -
    have "set (map fst (filter (\<lambda>e. fst e \<in> set rids) (rows t))) = set rids" using ids(2) by auto
    moreover have "distinct (map fst (filter (\<lambda>e. fst e \<in> set rids) (rows t)))" using rows by (simp add: distinct_map_filter)
    ultimately show ?thesis by (metis distinct_card ids(1) length_map)
  qed
  then have "length (filter (\<lambda>e. fst e \<notin> set rids) (rows t)) + length rids = length (rows t)"
    using sum_length_filter_compl [of "\<lambda>e. fst e \<in> set rids" "rows t"] by simp
  with Ok m p assms show ?thesis
    by (simp add: delete_outcome delete_plan_def table_ok_reindexed delete_data_ok table_ok_data)
qed (auto simp: delete_outcome [OF assms] delete_plan_def outcome_simps split: result.split)

theorem delete_correct_witness:
  "(let t = reindexed demo_platform SimpleTok demo_one_row
    in (\<exists>t'. delete_with_options demo_platform None table_options_default t = (Ok 1, t') \<and> rows t' = []) \<and>
       (\<exists>e. delete_with_options demo_platform (Some (FullText ''id'' ''x'')) table_options_default t = (Err e, t)))"
  using delete_correct [of demo_platform table_options_default "reindexed demo_platform SimpleTok demo_one_row" None]
    delete_correct [of demo_platform table_options_default "reindexed demo_platform SimpleTok demo_one_row"
      "Some (FullText ''id'' ''x'')"]
    demo_one_row_ok [of demo_platform SimpleTok]
  by (auto simp: demo_fields normalize_filter_def matching_row_ids_def table_column_def demo_columns_def Let_def)

text \<open>C31: Creating an index succeeds exactly when the column exists and no index of either kind has the
  name: the definition is added and filled, and the rows stay. For an unknown column or a taken name it returns an
  error and the table is unchanged. The claim is for tables under the default tokenizer or without
  full-text indexes, which then stay well-formed: the code rebuilds with the default options.\<close>

theorem create_index_correct:
  assumes "table_ok P tk t" "tokenizer_safe tk t"
  shows "(case table_column t col of
      Ok c \<Rightarrow>
        if bm_get (indexes t) nm = None \<and> bm_get (fulltext_indexes t) nm = None
        then \<exists>t'. create_index P nm col t = (Ok (), t') \<and> table_ok P tk t' \<and> rows t' = rows t \<and>
               set (indexes_for_encoding t') = insert (nm, col) (set (indexes_for_encoding t))
        else create_index P nm col t = (Err (Execution (''index '' @ nm @ '' already exists'')), t)
    | Err e \<Rightarrow> create_index P nm col t = (Err e, t)
    | Panic m \<Rightarrow> False)"
proof -
  have d: "data_ok t" using assms(1) by (rule table_ok_data)
  have enc: "index_name_free nm t \<Longrightarrow>
      set (indexes_for_encoding (add_persisted_index nm col t)) = insert (nm, col) (set (indexes_for_encoding t))"
  proof -
    have "bm_get m k = None \<Longrightarrow> set (bm_insert k v m) = insert (k, v) (set m)" for k v and m :: "(string, index) bmap"
      by (induction m) (auto split: if_splits)
    then show "index_name_free nm t \<Longrightarrow>
      set (indexes_for_encoding (add_persisted_index nm col t)) = insert (nm, col) (set (indexes_for_encoding t))"
      by (simp add: index_name_free_def indexes_for_encoding_def add_persisted_index_def)
  qed
  have fields: "indexes_for_encoding (reindexed P SimpleTok (add_persisted_index nm col t)) =
      indexes_for_encoding (add_persisted_index nm col t)"
    using same_shape_fields(6) [OF reindexed_shape] by blast
  have rows: "rows (add_persisted_index nm col t) = rows t" by (simp add: add_persisted_index_def)
  have no_panic: "table_column t col \<noteq> Panic m" for m by (simp add: table_column_def ok_or_def Let_def split: option.split)
  show ?thesis
    using create_index_keeps [OF d assms(2), of P nm col] enc fields rows no_panic
    by (auto simp: create_index_outcome [OF d] index_name_free_def split: result.split)
qed

theorem create_index_correct_witness:
  "(\<exists>t'. create_index demo_platform ''i'' ''name'' demo_table = (Ok (), t') \<and>
      set (indexes_for_encoding t') = {(''i'', ''name'')}) \<and>
   (\<exists>e. create_index demo_platform ''i'' ''nosuch'' demo_table = (Err e, demo_table))"
proof -
  have col: "table_column demo_table ''name'' = Ok \<lparr>col_name = ''name'', col_ty = TextT, col_primary_key = False\<rparr>"
    "\<exists>e. table_column demo_table ''nosuch'' = Err e"
    by (auto simp: table_column_def demo_table_def demo_columns_def)
  have none: "indexes demo_table = []" "fulltext_indexes demo_table = []" "indexes_for_encoding demo_table = []"
    by (simp_all add: demo_table_def indexes_for_encoding_def)
  show ?thesis
    using create_index_correct [where P = demo_platform and tk = SimpleTok and t = demo_table and col = "''name''" and nm = "''i''"]
      create_index_correct [where P = demo_platform and tk = SimpleTok and t = demo_table and col = "''nosuch''" and nm = "''i''"]
      demo_table_ok [of demo_platform SimpleTok] col
    by (auto simp: tokenizer_safe_def none)
qed

end
