(* ===== verification/Table_Select.thy ===== *)
theory Table_Select
  imports Table_Ops "HOL-Library.Multiset"
begin

section \<open>Queries\<close>

text \<open>
  What \<open>select_with_options\<close> returns: the rows that satisfy the filter, projected, in ascending order
  of their identifiers or, with \<open>ORDER BY VECTOR_DISTANCE\<close>, nearest first; a limit keeps a prefix of
  that. Scoring in parallel chunks gives the scores of the sequential loop.
\<close>

subsection \<open>Scores\<close>

lemma vector_scores_chunk_append:
  "vector_scores_chunk P rs col target m (xs @ ys) =
     rbind (vector_scores_chunk P rs col target m xs) (\<lambda>us.
     rbind (vector_scores_chunk P rs col target m ys) (\<lambda>vs. Ok (us @ vs)))"
proof (induction xs)
  case Nil
  show ?case by (cases "vector_scores_chunk P rs col target m ys") auto
next
  case (Cons x xs)
  show ?case
  proof (cases "\<exists>v. Option.bind (bm_get rs x) (\<lambda>r. bm_get r col) = Some (Vector v)")
    case True
    then obtain v where v: "Option.bind (bm_get rs x) (\<lambda>r. bm_get r col) = Some (Vector v)" ..
    with Cons show ?thesis by (cases "vector_distance P v target m") (simp_all add: rbind_assoc)
  next
    case False
    with Cons show ?thesis by (auto split: option.split sql_value.split)
  qed
qed

lemma vector_scores_chunk_concat:
  "rbind (rmap (vector_scores_chunk P rs col target m) css) (\<lambda>parts. Ok (concat parts)) =
     vector_scores_chunk P rs col target m (concat css)"
proof (induction css)
  case (Cons cs css)
  have "rbind (rmap (vector_scores_chunk P rs col target m) (cs # css)) (\<lambda>parts. Ok (concat parts)) =
      rbind (vector_scores_chunk P rs col target m cs) (\<lambda>us.
      rbind (rbind (rmap (vector_scores_chunk P rs col target m) css) (\<lambda>parts. Ok (concat parts))) (\<lambda>vs. Ok (us @ vs)))"
    by (simp add: rbind_assoc)
  with Cons.IH show ?case by (simp add: vector_scores_chunk_append)
qed simp

lemma vector_scores_sequential:
  "vector_scores P rs rids col target opts =
     vector_scores_chunk P rs col target (metric (vector_index opts)) rids"
proof (cases "worker_threads opts \<le> 1 \<or> length rids < 2")
  case False
  define w where "w = min (worker_threads opts) (length rids)"
  have "w \<noteq> 0" "w \<le> length rids + w - 1" using False by (auto simp: w_def)
  then have "0 < (length rids + w - 1) div w" by (simp add: div_greater_zero_iff)
  then show ?thesis
    using False by (simp add: vector_scores_def Let_def vector_scores_chunk_concat concat_chunks flip: w_def)
qed (simp add: vector_scores_def Let_def)

lemma vector_scores_chunk_no_panic [simp]: "vector_scores_chunk P rs col target m rids \<noteq> Panic msg"
proof (induction rids)
  case (Cons rid rids)
  have "vector_distance P v target m \<noteq> Panic msg" for v
    by (auto simp: vector_distance_def Let_def split: vector_metric.split)
  with Cons show ?case by (auto simp: outcome_simps split: option.split sql_value.split)
qed simp

definition scored :: "platform \<Rightarrow> (u64, row) bmap \<Rightarrow> string \<Rightarrow> f32 list \<Rightarrow> vector_metric \<Rightarrow> f64 \<times> u64 \<Rightarrow> bool" where
  "scored P rs col target m s \<longleftrightarrow>
     (\<exists>r v. bm_get rs (snd s) = Some r \<and> bm_get r col = Some (Vector v) \<and> vector_distance P v target m = Ok (fst s))"

lemma vector_scores_chunk_ids:
  "vector_scores_chunk P rs col target m rids = Ok scs \<Longrightarrow>
     map snd scs = filter (\<lambda>rid. \<exists>v. Option.bind (bm_get rs rid) (\<lambda>r. bm_get r col) = Some (Vector v)) rids \<and>
     list_all (scored P rs col target m) scs"
proof (induction rids arbitrary: scs)
  case (Cons rid rids)
  show ?case
  proof (cases "\<exists>v. Option.bind (bm_get rs rid) (\<lambda>r. bm_get r col) = Some (Vector v)")
    case True
    then obtain v where v: "Option.bind (bm_get rs rid) (\<lambda>r. bm_get r col) = Some (Vector v)" ..
    with Cons.prems obtain d rest where "vector_distance P v target m = Ok d"
      "vector_scores_chunk P rs col target m rids = Ok rest" "scs = (d, rid) # rest"
      by (auto simp: outcome_simps)
    with v Cons.IH show ?thesis by (auto simp: scored_def bind_eq_Some_conv)
  next
    case False
    then have "vector_scores_chunk P rs col target m rids = Ok scs"
      using Cons.prems by (auto split: option.splits sql_value.splits)
    with False Cons.IH show ?thesis by simp
  qed
qed simp

subsection \<open>Sorting\<close>

definition score_before :: "bool \<Rightarrow> f64 \<times> u64 \<Rightarrow> f64 \<times> u64 \<Rightarrow> bool" where
  "score_before descending a b \<longleftrightarrow>
     (if descending then (f64_total_key (fst b), uint (snd b)) \<le> (f64_total_key (fst a), uint (snd a))
      else (f64_total_key (fst a), uint (snd a)) \<le> (f64_total_key (fst b), uint (snd b)))"

lemma sort_scores_sorted: "sorted_wrt (score_before descending) (sort_scores descending scs)"
proof (cases descending)
  case True
  have "sorted_wrt (\<lambda>a b. (- f64_total_key (fst a), - uint (snd a)) \<le> (- f64_total_key (fst b), - uint (snd b)))
      (sort_scores descending scs)"
    using True sorted_sort_key [of "\<lambda>s. (- f64_total_key (fst s), - uint (snd s))" scs]
    by (simp add: sort_scores_def sorted_map)
  then show ?thesis
    by (rule sorted_wrt_mono_rel [rotated]) (use True in \<open>auto simp: score_before_def less_eq_prod_def\<close>)
next
  case False
  have "sorted_wrt (\<lambda>a b. (f64_total_key (fst a), uint (snd a)) \<le> (f64_total_key (fst b), uint (snd b)))
      (sort_scores descending scs)"
    using False sorted_sort_key [of "\<lambda>s. (f64_total_key (fst s), uint (snd s))" scs]
    by (simp add: sort_scores_def sorted_map)
  then show ?thesis
    by (rule sorted_wrt_mono_rel [rotated]) (use False in \<open>simp add: score_before_def\<close>)
qed

lemma mset_sort_scores: "mset (sort_scores descending scs) = mset scs"
  by (simp add: sort_scores_def)

subsection \<open>The rows of a query\<close>

lemma validate_columns_no_panic [simp]: "validate_columns t cs \<noteq> Panic m"
  by (induction cs) (auto simp: outcome_simps)

lemma order_rows_no_panic [simp]: "order_rows P t rids ord opts \<noteq> Panic m"
  by (auto simp: order_rows_def outcome_simps vector_scores_sequential split: option.split sql_order.split)

lemma select_no_panic: "select_with_options P t p f ord lim opts \<noteq> Panic m"
  by (auto simp: select_with_options_def validate_projection_def outcome_simps split: projection.split)

lemma map_filter_present:
  "bm_ok rs \<Longrightarrow> set es \<subseteq> set rs \<Longrightarrow> List.map_filter (\<lambda>rid. map_option g (bm_get rs rid)) (map fst es) = map (\<lambda>e. g (snd e)) es"
proof (induction es)
  case (Cons e es)
  then have "bm_get rs (fst e) = Some (snd e)" by (simp add: bm_get_iff)
  with Cons show ?case by (simp add: List.map_filter_simps)
qed (simp add: List.map_filter_simps)

definition limited :: "nat option \<Rightarrow> 'a list \<Rightarrow> 'a list" where
  "limited lim xs = (case lim of None \<Rightarrow> xs | Some n \<Rightarrow> take n xs)"

lemma limited_map: "limited lim (map g xs) = map g (limited lim xs)"
  by (simp add: limited_def take_map split: option.split)

lemma set_limited: "set (limited lim xs) \<subseteq> set xs"
  by (auto simp: limited_def dest: in_set_takeD split: option.split)

lemma select_scan:
  assumes ok: "table_ok P (fulltext_tokenizer opts) t" and p: "validate_projection t p = Ok ()"
    and f: "normalize_filter P t f opts = Ok f'" "filter_value_ok f'" "filter_zero_free f'"
  shows "select_with_options P t p f None lim opts =
    Ok (map (\<lambda>e. project_row (snd e) p) (limited lim (filter (\<lambda>e. row_satisfies P opts f' (snd e)) (rows t))))"
proof -
  let ?es = "filter (\<lambda>e. row_satisfies P opts f' (snd e)) (rows t)"
  obtain path where m: "matching_row_ids P t f' opts = Ok (map fst ?es, path)"
    using matching_is_scan [OF ok f(2,3)] by (auto simp: scan_row_ids_def)
  have "bm_ok (rows t)" "set (limited lim ?es) \<subseteq> set (rows t)"
    using ok set_limited [of lim ?es] by (auto simp: table_ok_def data_ok_def)
  then have "List.map_filter (\<lambda>rid. map_option (\<lambda>r. project_row r p) (bm_get (rows t) rid)) (limited lim (map fst ?es)) =
      map (\<lambda>e. project_row (snd e) p) (limited lim ?es)"
    unfolding limited_map by (rule map_filter_present)
  then show ?thesis
    using p f m by (simp add: select_with_options_def order_rows_def limited_def)
qed

text \<open>With an order, the identifiers are those of scored rows, sorted by distance and identifier.\<close>

lemma order_rows_Ok:
  assumes "order_rows P t rids (Some (VectorDistance nm target descending)) opts = Ok ids"
  obtains scs where "ids = map snd scs" "sorted_wrt (score_before descending) scs"
    "list_all (scored P (rows t) nm target (metric (vector_index opts))) scs"
    "mset ids = mset (filter (\<lambda>rid. \<exists>v. Option.bind (bm_get (rows t) rid) (\<lambda>r. bm_get r nm) = Some (Vector v)) rids)"
proof -
  from assms obtain scs where scs: "vector_scores_chunk P (rows t) nm target (metric (vector_index opts)) rids = Ok scs"
    and ids: "ids = map snd (sort_scores descending scs)"
    by (auto simp: order_rows_def outcome_simps vector_scores_sequential split: if_splits option.splits)
  note facts = vector_scores_chunk_ids [OF scs]
  have "mset ids = mset (map snd scs)" by (simp add: ids mset_sort_scores)
  moreover have "set (sort_scores descending scs) = set scs" by (metis mset_sort_scores set_mset_mset)
  ultimately show thesis
    using that [OF ids sort_scores_sorted] facts by (simp add: list_all_iff)
qed

subsection \<open>Properties\<close>

text \<open>C27: A query without an order, on a well-formed table, whose projection and filter the table accepts, returns,
  in ascending order of the row identifiers and cut at the limit, the projections of exactly the rows that
  satisfy the filter, whichever index was used. One filter is excluded (\<open>filter_zero_free\<close>): a comparison for
  equality with a floating point zero, for which the key lookup of an index and the comparison of a scan
  disagree, since 0.0 and -0.0 are equal values under different keys.\<close>

theorem select_correct:
  assumes "table_ok P (fulltext_tokenizer opts) t" "validate_projection t p = Ok ()"
    and "normalize_filter P t f opts = Ok f'" "filter_zero_free f'"
  shows "select_with_options P t p f None lim opts =
    Ok (map (\<lambda>e. project_row (snd e) p)
          ((case lim of None \<Rightarrow> (\<lambda>es. es) | Some n \<Rightarrow> take n) (filter (\<lambda>e. row_satisfies P opts f' (snd e)) (rows t))))"
  using select_scan [OF assms(1-3) normalize_filter_value_ok [OF assms(3)] assms(4)]
  by (simp add: limited_def split: option.split)

theorem select_correct_witness:
  "select_with_options demo_platform (reindexed demo_platform SimpleTok demo_one_row) (Columns [''id''])
     (Some (Equals ''id'' (Integer 7))) None (Some 5) table_options_default = Ok [[(''id'', Integer 7)]] \<and>
   select_with_options demo_platform (reindexed demo_platform SimpleTok demo_one_row) (Columns [''id''])
     (Some (Equals ''id'' (Integer 8))) None (Some 5) table_options_default = Ok []"
proof -
  note spec = select_correct [of demo_platform table_options_default "reindexed demo_platform SimpleTok demo_one_row"
      "Columns [''id'']" "Some (Equals ''id'' (Integer i))" "Some (Equals ''id'' (Integer i))" "Some 5" for i]
  show ?thesis
    using spec [of 7] spec [of 8] demo_one_row_ok [of demo_platform SimpleTok]
    by (simp add: demo_fields validate_projection_def normalize_filter_def project_row_def table_column_def demo_columns_def
        validate_value_with_options_def option_value_eq_def List.map_filter_simps bm_from_def)
qed

text \<open>C28: A query ordered by vector distance returns rows whose scores are sorted by distance (in the IEEE
  total order) and then by identifier, or the reverse; the scored rows are exactly the matching rows
  that hold a vector, each with the distance of its own vector; a limit keeps the first of them, so no
  row left out comes before a row returned.\<close>

theorem select_ordered:
  assumes "select_with_options P t p f (Some (VectorDistance col target descending)) lim opts = Ok out"
  shows "\<exists>f' rids path scs.
    normalize_filter P t f opts = Ok f' \<and> matching_row_ids P t f' opts = Ok (rids, path) \<and>
    sorted_wrt (score_before descending) scs \<and>
    list_all (scored P (rows t) col target (metric (vector_index opts))) scs \<and>
    mset (map snd scs) =
      mset (filter (\<lambda>rid. \<exists>v. Option.bind (bm_get (rows t) rid) (\<lambda>r. bm_get r col) = Some (Vector v)) rids) \<and>
    out = map (\<lambda>s. project_row (the (bm_get (rows t) (snd s))) p)
            ((case lim of None \<Rightarrow> (\<lambda>xs. xs) | Some n \<Rightarrow> take n) scs)"
proof -
  from assms obtain f' rids path ids where m: "normalize_filter P t f opts = Ok f'"
      "matching_row_ids P t f' opts = Ok (rids, path)"
    and ids: "order_rows P t rids (Some (VectorDistance col target descending)) opts = Ok ids"
    and out: "out = List.map_filter (\<lambda>rid. map_option (\<lambda>r. project_row r p) (bm_get (rows t) rid)) (limited lim ids)"
    by (auto simp: select_with_options_def outcome_simps limited_def Let_def)
  from ids obtain scs where scs: "ids = map snd scs" "sorted_wrt (score_before descending) scs"
    "list_all (scored P (rows t) col target (metric (vector_index opts))) scs"
    "mset ids = mset (filter (\<lambda>rid. \<exists>v. Option.bind (bm_get (rows t) rid) (\<lambda>r. bm_get r col) = Some (Vector v)) rids)"
    by (rule order_rows_Ok)
  have "List.map_filter (\<lambda>rid. map_option g (bm_get (rows t) rid)) (map snd xs) = map (\<lambda>s. g (the (bm_get (rows t) (snd s)))) xs"
    if "list_all (scored P (rows t) col target (metric (vector_index opts))) xs" for g :: "row \<Rightarrow> row" and xs
    using that by (induction xs) (auto simp: List.map_filter_simps scored_def)
  moreover have "list_all (scored P (rows t) col target (metric (vector_index opts))) (limited lim scs)"
    using scs(3) set_limited [of lim scs] by (auto simp: list_all_iff)
  ultimately have "out = map (\<lambda>s. project_row (the (bm_get (rows t) (snd s))) p) (limited lim scs)"
    unfolding out scs(1) limited_map by blast
  with m scs show ?thesis by (auto simp: limited_def split: option.splits)
qed

definition demo_vectors :: table where
  "demo_vectors = \<lparr>tname = ''v'', columns = [\<lparr>col_name = ''id'', col_ty = VectorT, col_primary_key = False\<rparr>],
     rows = [(1, [(''id'', Vector [0])])], next_row_id = 2, primary_key = None, primary = [], indexes = [],
     fulltext_indexes = []\<rparr>"

theorem select_ordered_witness:
  "\<exists>scs. sorted_wrt (score_before False) scs \<and>
     [[(''id'', Vector [0])]] = map (\<lambda>s. project_row (the (bm_get (rows demo_vectors) (snd s))) AllColumns) scs"
proof -
  have "select_with_options demo_platform demo_vectors AllColumns None (Some (VectorDistance ''id'' [0] False)) None
      table_options_default = Ok [[(''id'', Vector [0])]]"
    by (simp add: select_with_options_def validate_projection_def normalize_filter_def matching_row_ids_def order_rows_def
        table_column_def demo_vectors_def table_options_default_def vector_index_default_def vector_scores_sequential
        vector_distance_def demo_platform_def sort_scores_def project_row_def List.map_filter_simps)
  from select_ordered [OF this] show ?thesis by auto
qed

text \<open>C29: Scoring the candidates in parallel chunks, for any number of worker threads, gives the scores of
  the sequential loop in the same order, and the same first error.\<close>

theorem parallel_scores_sequential:
  "vector_scores P rs rids col target opts =
     vector_scores_chunk P rs col target (metric (vector_index opts)) rids"
  by (rule vector_scores_sequential)

end
