(* ===== verification/Catalog.thy ===== *)
theory Catalog
  imports Table_Select
begin

section \<open>The catalog and its file format\<close>

text \<open>
  \<^verbatim>\<open>src/src/storage/catalog.rs\<close>: the tables of a database by name, the text they are stored as, and
  the reader of that text. Decoding is a fold of \<open>decode_line\<close> over the lines; its state is the
  catalog so far and the table block that is open. The main result is the round trip: reading what was
  written gives back the catalog, indexes included, with each \<open>next_row_id\<close> one above the last row.
\<close>

record catalog =
  tables :: "(string, table) bmap"

definition catalog_empty :: catalog where
  "catalog_empty = \<lparr>tables = []\<rparr>"

subsection \<open>Encoding\<close>

definition encode_column :: "column \<Rightarrow> string" where
  "encode_column c =
     ''COLUMN'' @ [tab] @ encode_string (col_name c) @ [tab] @ column_type_as_str (col_ty c) @ [tab] @
     (if col_primary_key c then ''1'' else ''0'')"

definition encode_index_line :: "string \<Rightarrow> string \<times> string \<Rightarrow> string" where
  "encode_index_line tag nc = tag @ [tab] @ encode_string (fst nc) @ [tab] @ encode_string (snd nc)"

definition encode_field :: "string \<times> sql_value \<Rightarrow> string" where
  "encode_field f = encode_string (fst f) @ ''='' @ encode_value (snd f)"

definition encode_row :: "u64 \<times> row \<Rightarrow> string" where
  "encode_row e =
     ''ROW'' @ [tab] @ show_nat (unat (fst e)) @ concat (map (\<lambda>f. [tab] @ encode_field f) (snd e))"

definition encode_table :: "table \<Rightarrow> string list" where
  "encode_table t =
     [''TABLE'' @ [tab] @ encode_string (tname t)] @
     map encode_column (columns t) @
     map (encode_index_line ''INDEX'') (indexes_for_encoding t) @
     map (encode_index_line ''FTS'') (fulltext_indexes_for_encoding t) @
     map encode_row (rows t) @
     [''ENDTABLE'']"

definition encode :: "catalog \<Rightarrow> string" where
  "encode c =
     concat (map (\<lambda>l. l @ [newline]) (''FSQ1'' # concat (map (\<lambda>e. encode_table (snd e)) (tables c))))"

subsection \<open>Decoding\<close>

definition table_mut :: "table option \<Rightarrow> string \<Rightarrow> table result" where
  "table_mut current msg = ok_or (Execution msg) current"

definition required_part :: "string list \<Rightarrow> nat \<Rightarrow> string \<Rightarrow> string result" where
  "required_part parts i label =
     (if i < length parts then Ok (parts ! i)
      else Err (Execution (''missing '' @ label @ '' in database file'')))"

type_synonym decode_state = "(string, table) bmap \<times> table option"

definition decode_table :: "string list \<Rightarrow> decode_state \<Rightarrow> decode_state result" where
  "decode_table parts st =
     (if snd st \<noteq> None then Err (Execution ''nested table block in database file'')
      else rbind (required_part parts 1 ''table name'') (\<lambda>p.
           rbind (decode_string p) (\<lambda>nm.
             case table_new nm [] of
               Ok t \<Rightarrow> Ok (fst st, Some t)
             | _ \<Rightarrow> Panic ''empty table is valid'')))"

definition decode_column :: "string list \<Rightarrow> decode_state \<Rightarrow> decode_state result" where
  "decode_column parts st =
     rbind (table_mut (snd st) ''column outside table block'') (\<lambda>t.
     rbind (rbind (required_part parts 1 ''column name'') decode_string) (\<lambda>nm.
       if list_ex (\<lambda>c. col_name c = nm) (columns t) then Err (Execution ''duplicate column in file'')
       else rbind (required_part parts 3 ''primary flag'') (\<lambda>flag.
         let pk = (flag = ''1'')
         in if pk \<and> primary_key t \<noteq> None then Err (Execution ''multiple primary keys in file'')
            else rbind (rbind (required_part parts 2 ''column type'') column_type_parse) (\<lambda>ty.
              Ok (fst st, Some (t\<lparr>primary_key := (if pk then Some nm else primary_key t),
                columns := columns t @ [\<lparr>col_name = nm, col_ty = ty, col_primary_key = pk\<rparr>]\<rparr>))))))"

definition decode_index :: "string list \<Rightarrow> decode_state \<Rightarrow> decode_state result" where
  "decode_index parts st =
     rbind (table_mut (snd st) ''index outside table block'') (\<lambda>t.
     rbind (rbind (required_part parts 1 ''index name'') decode_string) (\<lambda>nm.
     rbind (rbind (required_part parts 2 ''index column'') decode_string) (\<lambda>col.
       Ok (fst st, Some (add_persisted_index nm col t)))))"

definition decode_fts :: "string list \<Rightarrow> decode_state \<Rightarrow> decode_state result" where
  "decode_fts parts st =
     rbind (table_mut (snd st) ''fts outside table block'') (\<lambda>t.
     rbind (rbind (required_part parts 1 ''fts name'') decode_string) (\<lambda>nm.
     rbind (rbind (required_part parts 2 ''fts column'') decode_string) (\<lambda>col.
       Ok (fst st, Some (add_persisted_fulltext_index nm col t)))))"

fun decode_fields :: "string list \<Rightarrow> row \<Rightarrow> row result" where
  "decode_fields [] r = Ok r"
| "decode_fields (field # fs) r =
     rbind (ok_or (Execution ''invalid row field in file'') (split_once (CHR ''='') field)) (\<lambda>(col, v).
     rbind (decode_string col) (\<lambda>nm.
     rbind (decode_value v) (\<lambda>x. decode_fields fs (bm_insert nm x r))))"

definition decode_row :: "platform \<Rightarrow> string list \<Rightarrow> decode_state \<Rightarrow> decode_state result" where
  "decode_row P parts st =
     rbind (table_mut (snd st) ''row outside table block'') (\<lambda>t.
     rbind (required_part parts 1 ''row id'') (\<lambda>p.
     rbind (ok_or (Execution ''invalid row id in file'') (parse_unsigned 64 10 p)) (\<lambda>n.
     rbind (decode_fields (drop 2 parts) []) (\<lambda>r.
     rbind (next_id P (of_nat n)) (\<lambda>next.
       Ok (fst st, Some (t\<lparr>next_row_id := max (next_row_id t) next, rows := bm_insert (of_nat n) r (rows t)\<rparr>)))))))"

definition decode_endtable :: "platform \<Rightarrow> table_options \<Rightarrow> decode_state \<Rightarrow> decode_state result" where
  "decode_endtable P opts st =
     rbind (ok_or (Execution ''endtable without table'') (snd st)) (\<lambda>t.
       case rebuild_indexes_with_options P opts t of
         (Ok _, t') \<Rightarrow> Ok (bm_insert (tname t') t' (fst st), None)
       | (Err e, t') \<Rightarrow> Err e
       | (Panic m, t') \<Rightarrow> Panic m)"

definition decode_line :: "platform \<Rightarrow> table_options \<Rightarrow> string \<Rightarrow> decode_state \<Rightarrow> decode_state result" where
  "decode_line P opts line st =
     (if line = [] then Ok st
      else let parts = split_char tab line; directive = hd parts
           in if directive = ''TABLE'' then decode_table parts st
              else if directive = ''COLUMN'' then decode_column parts st
              else if directive = ''INDEX'' then decode_index parts st
              else if directive = ''FTS'' then decode_fts parts st
              else if directive = ''ROW'' then decode_row P parts st
              else if directive = ''ENDTABLE'' then decode_endtable P opts st
              else Err (Execution (''unknown database file directive '' @ directive)))"

fun decode_lines :: "platform \<Rightarrow> table_options \<Rightarrow> string list \<Rightarrow> decode_state \<Rightarrow> decode_state result" where
  "decode_lines P opts [] st = Ok st"
| "decode_lines P opts (l # ls) st = rbind (decode_line P opts l st) (decode_lines P opts ls)"

definition decode_with_options :: "platform \<Rightarrow> string \<Rightarrow> table_options \<Rightarrow> catalog result" where
  "decode_with_options P input opts =
     (case lines input of
        [] \<Rightarrow> Ok catalog_empty
      | l # ls \<Rightarrow>
          if l \<noteq> ''FSQ1'' then Err (Execution ''unsupported database file format'')
          else rbind (decode_lines P opts ls ([], None)) (\<lambda>(ts, current).
            if current \<noteq> None then Err (Execution ''unterminated table block'') else Ok \<lparr>tables = ts\<rparr>))"

subsection \<open>Invariant\<close>

text \<open>Rust strings are valid UTF-8, so the names of a table are.\<close>

definition names_valid :: "table \<Rightarrow> bool" where
  "names_valid t \<longleftrightarrow>
     utf8_valid (tname t) \<and> list_all (\<lambda>c. utf8_valid (col_name c)) (columns t) \<and>
     list_all (\<lambda>n. utf8_valid (fst n) \<and> utf8_valid (snd n)) (indexes_for_encoding t) \<and>
     list_all (\<lambda>n. utf8_valid (fst n) \<and> utf8_valid (snd n)) (fulltext_indexes_for_encoding t)"

definition catalog_ok :: "platform \<Rightarrow> fulltext_tokenizer \<Rightarrow> catalog \<Rightarrow> bool" where
  "catalog_ok P tk c \<longleftrightarrow>
     bm_ok (tables c) \<and>
     (\<forall>e \<in> set (tables c). fst e = tname (snd e) \<and> table_ok P tk (snd e) \<and> names_valid (snd e))"

lemma catalog_ok_empty [simp]: "catalog_ok P tk catalog_empty"
  by (simp add: catalog_ok_def catalog_empty_def)

text \<open>The identifier the reader gives out next: one above the last row it read.\<close>

definition persisted_next :: "(u64, row) bmap \<Rightarrow> u64" where
  "persisted_next rs = foldl (\<lambda>n e. max n (fst e + 1)) 1 rs"

definition reopened :: "catalog \<Rightarrow> catalog" where
  "reopened c = \<lparr>tables = map (\<lambda>e. (fst e, (snd e)\<lparr>next_row_id := persisted_next (rows (snd e))\<rparr>)) (tables c)\<rparr>"

subsection \<open>Lines\<close>

lemma lines_concat:
  "\<forall>l \<in> set ls. newline \<notin> set l \<and> carriage \<notin> set l \<Longrightarrow> lines (concat (map (\<lambda>l. l @ [newline]) ls)) = ls"
  by (induction ls) (auto simp: lines_Cons)

lemma join_Cons: "ss \<noteq> [] \<Longrightarrow> join sep (s # ss) = s @ sep @ join sep ss"
  by (cases ss) auto

lemma join_concat: "join [d] (s # ss) = s @ concat (map (\<lambda>x. [d] @ x) ss)"
proof (induction ss arbitrary: s)
  case (Cons x ss)
  then show ?case by (simp add: join_Cons)
qed simp

text \<open>A cell of a line: text without a tab or an end of line.\<close>

definition cell :: "string \<Rightarrow> bool" where
  "cell s \<longleftrightarrow> (\<forall>c \<in> set s. c \<noteq> tab \<and> c \<noteq> newline \<and> c \<noteq> carriage)"

lemma cell_field: "(\<And>c. c \<in> set s \<Longrightarrow> field_char c) \<Longrightarrow> cell s"
  by (auto simp: cell_def field_char_def)

lemma cell_simps [simp]:
  "cell (encode_string s)" "cell (encode_value v)" "cell (show_nat n)" "cell (column_type_as_str ty)" "cell []"
  "cell (c # s) \<longleftrightarrow> c \<noteq> tab \<and> c \<noteq> newline \<and> c \<noteq> carriage \<and> cell s" "cell (s @ s') \<longleftrightarrow> cell s \<and> cell s'"
  subgoal by (rule cell_field) (rule encode_string_field_char)
  subgoal by (rule cell_field) (rule encode_value_field_char)
  subgoal using show_radix_hex [of 10 _ n] by (intro cell_field hex_field_char) auto
  subgoal by (cases ty) (auto simp: cell_def)
  by (auto simp: cell_def)

lemma split_cells: "list_all cell ps \<Longrightarrow> ps \<noteq> [] \<Longrightarrow> split_char tab (join [tab] ps) = ps"
  by (rule split_char_join) (auto simp: list_all_iff cell_def)

lemma plain_cells: "list_all cell ps \<Longrightarrow> newline \<notin> set (join [tab] ps) \<and> carriage \<notin> set (join [tab] ps)"
  using set_join [of newline "[tab]" ps] set_join [of carriage "[tab]" ps] by (auto simp: list_all_iff cell_def)

lemma decode_line_cells:
  assumes "list_all cell (d # ps)" "d \<noteq> []"
  shows "decode_line P opts (join [tab] (d # ps)) st =
    (if d = ''TABLE'' then decode_table (d # ps) st
     else if d = ''COLUMN'' then decode_column (d # ps) st
     else if d = ''INDEX'' then decode_index (d # ps) st
     else if d = ''FTS'' then decode_fts (d # ps) st
     else if d = ''ROW'' then decode_row P (d # ps) st
     else if d = ''ENDTABLE'' then decode_endtable P opts st
     else Err (Execution (''unknown database file directive '' @ d)))"
proof -
  have "join [tab] (d # ps) \<noteq> []" using assms(2) by (cases ps) auto
  then show ?thesis
    using split_cells [OF assms(1) list.distinct(2)]
    unfolding decode_line_def Let_def by (simp only: if_False list.sel(1))
qed

lemma encode_column_cells:
  "encode_column c =
     join [tab] [''COLUMN'', encode_string (col_name c), column_type_as_str (col_ty c), if col_primary_key c then ''1'' else ''0'']"
  by (simp add: encode_column_def)

lemma encode_index_line_cells:
  "encode_index_line tag nc = join [tab] [tag, encode_string (fst nc), encode_string (snd nc)]"
  by (simp add: encode_index_line_def)

lemma encode_row_cells: "encode_row e = join [tab] (''ROW'' # show_nat (unat (fst e)) # map encode_field (snd e))"
  by (simp only: join_concat) (simp add: encode_row_def comp_def)

lemma cell_encode_field [simp]: "cell (encode_field f)"
  by (simp add: encode_field_def)

lemma decode_lines_append:
  "decode_lines P opts (xs @ ys) st = rbind (decode_lines P opts xs st) (decode_lines P opts ys)"
proof (induction xs arbitrary: st)
  case (Cons x xs)
  then show ?case by (cases "decode_line P opts x st") simp_all
qed simp

subsection \<open>Reading back what was written\<close>

lemma required_part_simps [simp]:
  "required_part (p # ps) 0 l = Ok p" "required_part (p # ps) (Suc i) l = required_part ps i l"
  by (simp_all add: required_part_def)

lemma required_part_nth [simp]:
  "required_part (p # q # ps) 1 l = Ok q" "required_part (p # q # r # ps) 2 l = Ok r"
  "required_part (p # q # r # s # ps) 3 l = Ok s"
  by (simp_all add: required_part_def)

lemma decode_table_line:
  "utf8_valid nm \<Longrightarrow> decode_line P opts (''TABLE'' @ [tab] @ encode_string nm) (ts, None) =
     Ok (ts, Some \<lparr>tname = nm, columns = [], rows = [], next_row_id = 1, primary_key = None, primary = [],
       indexes = [], fulltext_indexes = []\<rparr>)"
  using decode_line_cells [of "''TABLE''" "[encode_string nm]" P opts "(ts, None)"]
  by (simp add: decode_table_def table_new_def decode_encode_string)

lemma decode_column_line:
  assumes "utf8_valid (col_name c)" "col_name c \<notin> col_name ` set (columns t)" "col_primary_key c \<Longrightarrow> primary_key t = None"
  shows "decode_line P opts (encode_column c) (ts, Some t) =
    Ok (ts, Some (t\<lparr>primary_key := (if col_primary_key c then Some (col_name c) else primary_key t),
      columns := columns t @ [c]\<rparr>))"
proof -
  have "\<not> list_ex (\<lambda>d. col_name d = col_name c) (columns t)" using assms(2)
    by (metis (mono_tags, lifting) imageI list_ex_iff)
  with assms(1,3) show ?thesis
    unfolding encode_column_cells
    by (subst decode_line_cells)
      (auto simp: decode_column_def table_mut_def decode_encode_string column_type_parse_as_str)
qed

lemma decode_columns:
  assumes "new_loop seen (primary_key t) cs = Ok pk" "set seen = col_name ` set (columns t)"
    and "list_all (\<lambda>c. utf8_valid (col_name c)) cs"
  shows "decode_lines P opts (map encode_column cs) (ts, Some t) =
    Ok (ts, Some (t\<lparr>primary_key := pk, columns := columns t @ cs\<rparr>))"
  using assms
proof (induction cs arbitrary: seen t)
  case (Cons c cs)
  define t' where "t' = t\<lparr>primary_key := (if col_primary_key c then Some (col_name c) else primary_key t), columns := columns t @ [c]\<rparr>"
  have "decode_line P opts (encode_column c) (ts, Some t) = Ok (ts, Some t')"
    unfolding t'_def using Cons.prems by (intro decode_column_line) (auto split: if_splits)
  moreover have "decode_lines P opts (map encode_column cs) (ts, Some t') =
      Ok (ts, Some (t'\<lparr>primary_key := pk, columns := columns t' @ cs\<rparr>))"
    using Cons.prems by (intro Cons.IH [of "col_name c # seen"]) (auto simp: t'_def split: if_splits)
  ultimately show ?case by (simp add: t'_def)
qed simp

definition blank_index :: "string \<times> string \<Rightarrow> string \<times> index" where
  "blank_index n = (fst n, \<lparr>ix_column = snd n, ix_map = []\<rparr>)"

definition blank_fulltext :: "string \<times> string \<Rightarrow> string \<times> fulltext_index" where
  "blank_fulltext n = (fst n, \<lparr>ft_column = snd n, ft_map = []\<rparr>)"

lemma decode_indexes:
  assumes "list_all (\<lambda>n. utf8_valid (fst n) \<and> utf8_valid (snd n)) ns"
  shows "decode_lines P opts (map (encode_index_line ''INDEX'') ns) (ts, Some t) =
    Ok (ts, Some (t\<lparr>indexes := foldl (\<lambda>m e. bm_insert (fst e) (snd e) m) (indexes t) (map blank_index ns)\<rparr>))"
  using assms
proof (induction ns arbitrary: t)
  case (Cons n ns)
  have "decode_line P opts (encode_index_line ''INDEX'' n) (ts, Some t) =
      Ok (ts, Some (t\<lparr>indexes := bm_insert (fst n) (snd (blank_index n)) (indexes t)\<rparr>))"
    using Cons.prems unfolding encode_index_line_cells
    by (subst decode_line_cells)
      (auto simp: decode_index_def table_mut_def decode_encode_string add_persisted_index_def blank_index_def)
  with Cons show ?case by (simp add: blank_index_def)
qed simp

lemma decode_fulltexts:
  assumes "list_all (\<lambda>n. utf8_valid (fst n) \<and> utf8_valid (snd n)) ns"
  shows "decode_lines P opts (map (encode_index_line ''FTS'') ns) (ts, Some t) =
    Ok (ts, Some (t\<lparr>fulltext_indexes :=
      foldl (\<lambda>m e. bm_insert (fst e) (snd e) m) (fulltext_indexes t) (map blank_fulltext ns)\<rparr>))"
  using assms
proof (induction ns arbitrary: t)
  case (Cons n ns)
  have "decode_line P opts (encode_index_line ''FTS'' n) (ts, Some t) =
      Ok (ts, Some (t\<lparr>fulltext_indexes := bm_insert (fst n) (snd (blank_fulltext n)) (fulltext_indexes t)\<rparr>))"
    using Cons.prems unfolding encode_index_line_cells
    by (subst decode_line_cells)
      (auto simp: decode_fts_def table_mut_def decode_encode_string add_persisted_fulltext_index_def blank_fulltext_def)
  with Cons show ?case by (simp add: blank_fulltext_def)
qed simp

lemma decode_fields_encode:
  assumes "bm_ok (r @ es)" "\<forall>e \<in> set es. utf8_valid (fst e) \<and> value_valid (snd e)"
  shows "decode_fields (map encode_field es) r = Ok (r @ es)"
  using assms
proof (induction es arbitrary: r)
  case (Cons e es)
  have "CHR ''='' \<notin> set (encode_string (fst e))"
    using encode_string_field_char [of "CHR ''=''"] by (auto simp: field_char_def)
  then have "split_once (CHR ''='') (encode_field e) = Some (encode_string (fst e), encode_value (snd e))"
    by (simp add: encode_field_def split_once_first)
  moreover have "bm_insert (fst e) (snd e) r = r @ [e]"
    using Cons.prems(1) by (subst bm_insert_snoc) (auto simp: bm_ok_append)
  ultimately show ?case
    using Cons.prems Cons.IH [of "r @ [e]"] by (simp add: decode_encode_string decode_encode_value)
qed simp

lemma decode_row_line:
  assumes "fst e \<noteq> - 1" "bm_ok (snd e)" "\<forall>f \<in> set (snd e). utf8_valid (fst f) \<and> value_valid (snd f)"
  shows "decode_line P opts (encode_row e) (ts, Some t) =
    Ok (ts, Some (t\<lparr>next_row_id := max (next_row_id t) (fst e + 1), rows := bm_insert (fst e) (snd e) (rows t)\<rparr>))"
proof -
  have "parse_unsigned 64 10 (show_nat (unat (fst e))) = Some (unat (fst e))"
    using unsigned_less [of "fst e"] by (intro parse_unsigned_show) auto
  moreover have "decode_fields (map encode_field (snd e)) [] = Ok (snd e)"
    using decode_fields_encode [of "[]" "snd e"] assms by simp
  ultimately show ?thesis
    using assms(1) unfolding encode_row_cells by (subst decode_line_cells) (auto simp: decode_row_def table_mut_def list_all_iff Let_def)
qed

lemma decode_rows:
  assumes "bm_ok (rows t @ es)" "\<forall>e \<in> set es. fst e \<noteq> - 1 \<and> bm_ok (snd e) \<and> (\<forall>f \<in> set (snd e). utf8_valid (fst f) \<and> value_valid (snd f))"
  shows "decode_lines P opts (map encode_row es) (ts, Some t) =
    Ok (ts, Some (t\<lparr>next_row_id := foldl (\<lambda>n e. max n (fst e + 1)) (next_row_id t) es, rows := rows t @ es\<rparr>))"
  using assms
proof (induction es arbitrary: t)
  case (Cons e es)
  have "bm_insert (fst e) (snd e) (rows t) = rows t @ [e]"
    using Cons.prems(1) by (subst bm_insert_snoc) (auto simp: bm_ok_append)
  with Cons show ?case by (simp add: decode_row_line)
qed simp

text \<open>One table block. The index maps come back empty and \<open>ENDTABLE\<close> rebuilds them.\<close>

lemma clear_indexes_blank:
  "clear_indexes t = t\<lparr>primary := [], indexes := map blank_index (indexes_for_encoding t),
     fulltext_indexes := map blank_fulltext (fulltext_indexes_for_encoding t)\<rparr>"
  by (auto simp: clear_indexes_def indexes_for_encoding_def fulltext_indexes_for_encoding_def blank_index_def
      blank_fulltext_def)

lemma blank_indexes_sorted:
  "indexes_ok t \<Longrightarrow> foldl (\<lambda>m e. bm_insert (fst e) (snd e) m) [] (map blank_index (indexes_for_encoding t)) =
     map blank_index (indexes_for_encoding t)"
  "indexes_ok t \<Longrightarrow> foldl (\<lambda>m e. bm_insert (fst e) (snd e) m) [] (map blank_fulltext (fulltext_indexes_for_encoding t)) =
     map blank_fulltext (fulltext_indexes_for_encoding t)"
  using bm_from_sorted [of "map blank_index (indexes_for_encoding t)"]
    bm_from_sorted [of "map blank_fulltext (fulltext_indexes_for_encoding t)"]
  by (simp_all add: bm_from_def indexes_ok_def bm_ok_def index_names comp_def blank_index_def blank_fulltext_def)

lemma row_typed_fields:
  assumes "row_typed cols r" "list_all (\<lambda>c. utf8_valid (col_name c)) cols" "f \<in> set r"
  shows "utf8_valid (fst f) \<and> value_valid (snd f)"
proof -
  have "bm_get r (fst f) = Some (snd f)" using assms(1,3) by (simp add: row_typed_def bm_get_iff)
  then obtain c where "c \<in> set cols" "col_name c = fst f" "value_fits (col_ty c) (snd f)"
    using row_typed_value [OF assms(1)] by metis
  with assms(2) show ?thesis by (auto simp: list_all_iff value_fits_valid)
qed

abbreviation renumbered :: "table \<Rightarrow> table" where
  "renumbered t \<equiv> t\<lparr>next_row_id := persisted_next (rows t)\<rparr>"

lemma persisted_next_above:
  assumes "bm_ok rs" "\<forall>e \<in> set rs. fst e \<noteq> - 1" "e \<in> set rs"
  shows "fst e < persisted_next rs"
proof -
  have mono: "n \<le> foldl (\<lambda>n e. max n (fst e + 1)) n es" for n :: u64 and es :: "(u64 \<times> row) list"
    by (induction es arbitrary: n) (auto intro: order_trans [OF max.cobounded1])
  have "e \<in> set es \<Longrightarrow> fst e + 1 \<le> foldl (\<lambda>n e. max n (fst e + 1)) n es" for n :: u64 and es
  proof (induction es arbitrary: n)
    case (Cons a es)
    then show ?case using order_trans [OF max.cobounded2 mono] by (cases "e = a") auto
  qed simp
  with assms(2,3) show ?thesis
    unfolding persisted_next_def by (meson less_le_trans order_refl u64_less_Suc)
qed

lemma renumbered_data_ok:
  assumes "data_ok t"
  shows "data_ok (renumbered t)"
proof -
  have "fst e \<noteq> - 1" if "e \<in> set (rows t)" for e
    using assms that by (metis data_ok_def word_order.extremum_strict)
  with assms persisted_next_above [of "rows t"] show ?thesis
    by (simp add: data_ok_def schema_ok_def indexes_ok_def keyed_rows_def)
qed

lemma reindexed_renumbered: "reindexed P tk (t\<lparr>next_row_id := n\<rparr>) = (reindexed P tk t)\<lparr>next_row_id := n\<rparr>"
proof -
  have "enter_row P tk (s\<lparr>next_row_id := n\<rparr>) e = (enter_row P tk s e)\<lparr>next_row_id := n\<rparr>" for s e
    by (cases s) (simp add: enter_row_def)
  then have "foldl (enter_row P tk) (s\<lparr>next_row_id := n\<rparr>) es = (foldl (enter_row P tk) s es)\<lparr>next_row_id := n\<rparr>" for s es
    by (induction es arbitrary: s) simp_all
  moreover have "clear_indexes (t\<lparr>next_row_id := n\<rparr>) = (clear_indexes t)\<lparr>next_row_id := n\<rparr>"
    by (simp add: clear_indexes_def)
  ultimately show ?thesis by (simp add: reindexed_def)
qed

lemma renumbered_ok: "table_ok P tk t \<Longrightarrow> table_ok P tk (renumbered t)"
  by (simp add: table_ok_def renumbered_data_ok reindexed_renumbered)

lemma decode_encode_table:
  assumes ok: "table_ok P (fulltext_tokenizer opts) t" and names: "names_valid t"
  shows "decode_lines P opts (encode_table t) (ts, None) = Ok (bm_insert (tname t) (renumbered t) ts, None)"
proof -
  have d: "data_ok t" using ok by (rule table_ok_data)
  define t0 where "t0 = \<lparr>tname = tname t, columns = [], rows = [], next_row_id = 1, primary_key = None, primary = [],
       indexes = [], fulltext_indexes = []\<rparr>"
  have cols: "decode_lines P opts (map encode_column (columns t)) (ts, Some t0) =
      Ok (ts, Some (t0\<lparr>primary_key := primary_key t, columns := columns t\<rparr>))"
    using decode_columns [of "[]" t0 "columns t" "primary_key t"] d names
    by (simp add: t0_def data_ok_def schema_ok_def names_valid_def)
  have "fst e \<noteq> - 1" if "e \<in> set (rows t)" for e
  proof -
    have "fst e < next_row_id t" using d that by (auto simp: data_ok_def)
    then show ?thesis using word_n1_ge [of "next_row_id t"] by (auto simp: word_le_less_eq not_less)
  qed
  then have rows: "\<forall>e \<in> set (rows t). fst e \<noteq> - 1 \<and> bm_ok (snd e) \<and> (\<forall>f \<in> set (snd e). utf8_valid (fst f) \<and> value_valid (snd f))"
    using d names row_typed_fields by (auto simp: data_ok_def names_valid_def row_typed_def)
  have end_line: "decode_line P opts ''ENDTABLE'' (ts, Some s) = decode_endtable P opts (ts, Some s)" for s
    using decode_line_cells [of "''ENDTABLE''" "[]" P opts "(ts, Some s)"] by simp
  have "renumbered (clear_indexes t) =
      t0\<lparr>columns := columns t, primary_key := primary_key t, indexes := map blank_index (indexes_for_encoding t),
        fulltext_indexes := map blank_fulltext (fulltext_indexes_for_encoding t), rows := rows t,
        next_row_id := persisted_next (rows t)\<rparr>"
    by (simp add: clear_indexes_blank t0_def)
  moreover have "rebuild_indexes_with_options P opts (renumbered (clear_indexes t)) = (Ok (), renumbered t)"
    using rebuild_same_shape [of "renumbered (clear_indexes t)" "renumbered t"] renumbered_ok [OF ok]
    by (simp add: same_shape_def clear_indexes_def comp_def table_ok_def rebuild_data_ok)
  ultimately show ?thesis
    using d names rows decode_table_line [of "tname t" P opts ts]
    by (simp add: encode_table_def decode_lines_append cols [unfolded t0_def] decode_indexes decode_fulltexts decode_rows end_line
        decode_endtable_def blank_indexes_sorted data_ok_indexes_ok names_valid_def data_ok_def persisted_next_def
        t0_def)
qed

lemma decode_encode_tables:
  assumes "bm_ok (ts @ map (\<lambda>e. (fst e, renumbered (snd e))) es)"
    and "\<forall>e \<in> set es. fst e = tname (snd e) \<and> table_ok P (fulltext_tokenizer opts) (snd e) \<and> names_valid (snd e)"
  shows "decode_lines P opts (concat (map (\<lambda>e. encode_table (snd e)) es)) (ts, None) =
    Ok (ts @ map (\<lambda>e. (fst e, renumbered (snd e))) es, None)"
  using assms
proof (induction es arbitrary: ts)
  case (Cons e es)
  have "bm_insert (tname (snd e)) (renumbered (snd e)) ts = ts @ [(fst e, renumbered (snd e))]"
    using Cons.prems by (subst bm_insert_snoc) (auto simp: bm_ok_append)
  with Cons show ?case by (simp add: decode_lines_append decode_encode_table)
qed simp

lemma encode_table_plain: "l \<in> set (encode_table t) \<Longrightarrow> newline \<notin> set l \<and> carriage \<notin> set l"
proof -
  assume "l \<in> set (encode_table t)"
  then have "\<exists>ps. l = join [tab] ps \<and> list_all cell ps"
    unfolding encode_table_def set_append set_map
  proof (elim UnE imageE)
    assume "l \<in> set [''TABLE'' @ [tab] @ encode_string (tname t)]"
    then show ?thesis by (intro exI [of _ "[''TABLE'', encode_string (tname t)]"]) auto
  next
    fix c assume "l = encode_column c"
    then show ?thesis unfolding encode_column_cells by (intro exI conjI) (assumption, auto)
  next
    fix n assume "l = encode_index_line ''INDEX'' n"
    then show ?thesis unfolding encode_index_line_cells by (intro exI conjI) (assumption, auto)
  next
    fix n assume "l = encode_index_line ''FTS'' n"
    then show ?thesis unfolding encode_index_line_cells by (intro exI conjI) (assumption, auto)
  next
    fix e assume "l = encode_row e"
    then show ?thesis unfolding encode_row_cells by (intro exI conjI) (assumption, auto simp: list_all_iff)
  next
    assume "l \<in> set [''ENDTABLE'']"
    then show ?thesis by (intro exI [of _ "[''ENDTABLE'']"]) auto
  qed
  then show ?thesis using plain_cells by auto
qed

lemma lines_encode: "lines (encode c) = ''FSQ1'' # concat (map (\<lambda>e. encode_table (snd e)) (tables c))"
  unfolding encode_def by (rule lines_concat) (auto dest: encode_table_plain)

lemma decode_encode:
  assumes "catalog_ok P (fulltext_tokenizer opts) c"
  shows "decode_with_options P (encode c) opts = Ok (reopened c)"
  using decode_encode_tables [of "[]" "tables c" P opts] assms
  by (simp add: decode_with_options_def lines_encode catalog_ok_def reopened_def)

lemma names_valid_renumbered [simp]: "names_valid (t\<lparr>next_row_id := n\<rparr>) = names_valid t"
  by (simp add: names_valid_def indexes_for_encoding_def fulltext_indexes_for_encoding_def)

lemma reopened_ok: "catalog_ok P tk c \<Longrightarrow> catalog_ok P tk (reopened c)"
  by (auto simp: catalog_ok_def reopened_def renumbered_ok)

lemma encode_reopened: "encode (reopened c) = encode c"
  by (simp add: encode_def reopened_def encode_table_def indexes_for_encoding_def fulltext_indexes_for_encoding_def comp_def)

lemma reopened_idem: "reopened (reopened c) = reopened c"
  by (simp add: reopened_def)

subsection \<open>Reading arbitrary text\<close>

definition state_ok :: "decode_state \<Rightarrow> bool" where
  "state_ok st \<longleftrightarrow> (\<forall>t. snd st = Some t \<longrightarrow> indexes_ok t)"

lemma column_type_parse_no_panic [simp]: "column_type_parse s \<noteq> Panic m"
  by (simp add: column_type_parse_def Let_def)

lemma required_part_no_panic [simp]: "required_part ps i l \<noteq> Panic m"
  by (simp add: required_part_def)

lemma decode_string_no_panic [simp]: "decode_string s \<noteq> Panic m"
proof -
  have "\<not> is_panic (rmap decode_byte cs)" for cs
    by (rule rmap_no_panic) (auto simp: decode_byte_def split: option.split)
  then have "rmap decode_byte cs \<noteq> Panic n" for cs n by (metis is_panic_simps(3))
  then show ?thesis by (auto simp: decode_string_def outcome_simps)
qed

lemma decode_vector_no_panic [simp]: "decode_vector s \<noteq> Panic m"
proof -
  have "\<not> is_panic (rmap decode_component cs)" for cs
    by (rule rmap_no_panic) (auto simp: decode_component_def split: option.split)
  then have "rmap decode_component cs \<noteq> Panic n" for cs n by (metis is_panic_simps(3))
  then show ?thesis by (auto simp: decode_vector_def outcome_simps)
qed

lemma decode_point_no_panic [simp]: "decode_point s \<noteq> Panic m"
  by (auto simp: decode_point_def outcome_simps)

lemma decode_value_no_panic [simp]: "decode_value s \<noteq> Panic m"
proof -
  obtain kind body where kb: "(case split_once (CHR '':'') s of None \<Rightarrow> (s, []) | Some kb \<Rightarrow> kb) = (kind, body)"
    by (metis surj_pair)
  show ?thesis
    unfolding decode_value_def kb Let_def by (simp add: outcome_simps split: option.split)
qed

lemma decode_fields_no_panic [simp]: "decode_fields fs r \<noteq> Panic m"
  by (induction fs r rule: decode_fields.induct) (auto simp: outcome_simps)

text \<open>
  What reading a line must keep: the index maps of the open table block stay ordered by name, and the only
  panic is the addition to the last identifier, on a line that carries it.
\<close>

definition last_row_id :: "string list \<Rightarrow> bool" where
  "last_row_id ps \<longleftrightarrow> 1 < length ps \<and> parse_unsigned 64 10 (ps ! 1) = Some (2 ^ 64 - 1)"

definition overflow_panic :: "platform \<Rightarrow> string \<Rightarrow> bool" where
  "overflow_panic P m \<longleftrightarrow> overflow_checks P \<and> m = ''attempt to add with overflow''"

definition line_safe :: "(string \<Rightarrow> bool) \<Rightarrow> decode_state result \<Rightarrow> bool" where
  "line_safe Q r \<longleftrightarrow> (case r of Ok st \<Rightarrow> state_ok st | Err e \<Rightarrow> True | Panic m \<Rightarrow> Q m)"

lemma line_safe_simps [simp]: "line_safe Q (Ok st) = state_ok st" "line_safe Q (Err e)" "line_safe Q (Panic m) = Q m"
  by (simp_all add: line_safe_def)

lemma line_safe_rbind: "(\<And>m. r \<noteq> Panic m) \<Longrightarrow> (\<And>x. r = Ok x \<Longrightarrow> line_safe Q (f x)) \<Longrightarrow> line_safe Q (rbind r f)"
  by (cases r) auto

lemma rbind_no_panicI: "(\<And>m. r \<noteq> Panic m) \<Longrightarrow> (\<And>x m. r = Ok x \<Longrightarrow> f x \<noteq> Panic m) \<Longrightarrow> rbind r f \<noteq> Panic m"
  by (cases r) auto

lemma ok_or_no_panic [simp]: "ok_or e x \<noteq> Panic m"
  by (cases x) (simp_all add: ok_or_def)

lemma table_mut_no_panic [simp]: "table_mut x msg \<noteq> Panic m"
  by (simp add: table_mut_def)

lemma table_mut_state: "table_mut (snd st) msg = Ok t \<Longrightarrow> state_ok st \<Longrightarrow> indexes_ok t"
  by (cases "snd st") (simp_all add: table_mut_def ok_or_def state_ok_def)

lemma state_ok_simps [simp]: "state_ok (ts, Some t) = indexes_ok t" "state_ok (ts, None)"
  by (simp_all add: state_ok_def)

lemma indexes_ok_persisted:
  "indexes_ok t \<Longrightarrow> indexes_ok (add_persisted_index n c t)" "indexes_ok t \<Longrightarrow> indexes_ok (add_persisted_fulltext_index n c t)"
  "indexes_ok (t\<lparr>primary_key := k\<rparr>) = indexes_ok t" "indexes_ok (t\<lparr>columns := cs\<rparr>) = indexes_ok t"
  "indexes_ok (t\<lparr>next_row_id := r\<rparr>) = indexes_ok t" "indexes_ok (t\<lparr>rows := rs\<rparr>) = indexes_ok t"
  by (simp_all add: indexes_ok_def add_persisted_index_def add_persisted_fulltext_index_def)

lemma decode_table_safe: "line_safe Q (decode_table ps st)"
  by (simp add: decode_table_def table_new_def indexes_ok_def line_safe_rbind)

lemma decode_column_safe: "state_ok st \<Longrightarrow> line_safe Q (decode_column ps st)"
  unfolding decode_column_def Let_def
  by (intro line_safe_rbind)
    (auto dest!: table_mut_state simp: rbind_no_panicI indexes_ok_persisted intro!: line_safe_rbind)

lemma decode_index_safe: "state_ok st \<Longrightarrow> line_safe Q (decode_index ps st)"
  unfolding decode_index_def
  by (intro line_safe_rbind)
    (auto dest!: table_mut_state simp: rbind_no_panicI indexes_ok_persisted)

lemma decode_fts_safe: "state_ok st \<Longrightarrow> line_safe Q (decode_fts ps st)"
  unfolding decode_fts_def
  by (intro line_safe_rbind)
    (auto dest!: table_mut_state simp: rbind_no_panicI indexes_ok_persisted)

lemma parse_unsigned_last: "parse_unsigned 64 10 p = Some n \<Longrightarrow> (of_nat n :: u64) = - 1 \<Longrightarrow> n = 2 ^ 64 - 1"
proof -
  assume "parse_unsigned 64 10 p = Some n" and last: "(of_nat n :: u64) = - 1"
  then have "n < 2 ^ 64" by (auto simp: parse_unsigned_def Let_def split: option.splits if_splits list.splits)
  then have "unat (of_nat n :: u64) = n" by (simp add: unat_of_nat)
  moreover have "unat (- 1 :: u64) = 2 ^ 64 - 1" by (simp add: unsigned_minus_1_eq_mask mask_eq_exp_minus_1)
  ultimately show ?thesis using last by simp
qed

lemma decode_row_safe:
  assumes "state_ok st"
  shows "line_safe (\<lambda>m. overflow_panic P m \<and> last_row_id ps) (decode_row P ps st)"
  unfolding decode_row_def
proof (rule line_safe_rbind [OF table_mut_no_panic], rule line_safe_rbind [OF required_part_no_panic],
    rule line_safe_rbind [OF ok_or_no_panic], rule line_safe_rbind [OF decode_fields_no_panic])
  fix t p n r
  assume t: "table_mut (snd st) ''row outside table block'' = Ok t" and p: "required_part ps 1 ''row id'' = Ok p"
    and n: "ok_or (Execution ''invalid row id in file'') (parse_unsigned 64 10 p) = Ok n"
  have "indexes_ok t" using t assms by (rule table_mut_state)
  moreover have "parse_unsigned 64 10 p = Some n" using n by (simp add: ok_or_def split: option.splits)
  moreover have "1 < length ps" "p = ps ! 1" using p by (auto simp: required_part_def ok_or_def split: if_splits)
  ultimately show "line_safe (\<lambda>m. overflow_panic P m \<and> last_row_id ps) (rbind (next_id P (of_nat n)) (\<lambda>next.
      Ok (fst st, Some (t\<lparr>next_row_id := max (next_row_id t) next, rows := bm_insert (of_nat n) r (rows t)\<rparr>))))"
    using parse_unsigned_last [of p n]
    by (auto simp: next_id_def overflow_panic_def last_row_id_def indexes_ok_persisted)
qed

lemma decode_endtable_safe:
  assumes "state_ok st"
  shows "line_safe Q (decode_endtable P opts st)"
  unfolding decode_endtable_def
proof (intro line_safe_rbind)
  fix t assume "ok_or (Execution ''endtable without table'') (snd st) = Ok t"
  then have ok: "indexes_ok t" using table_mut_state [of st] assms by (simp add: table_mut_def)
  obtain r t' where r: "rebuild_indexes_with_options P opts t = (r, t')" by (metis surj_pair)
  then show "line_safe Q (case rebuild_indexes_with_options P opts t of
      (Ok u, t') \<Rightarrow> Ok (bm_insert (tname t') t' (fst st), None) | (Err e, t') \<Rightarrow> Err e | (Panic m, t') \<Rightarrow> Panic m)"
    using rebuild_no_panic [OF ok, of P opts] by (cases r) simp_all
qed simp

lemmas line_safes = decode_table_safe decode_column_safe decode_index_safe decode_fts_safe decode_endtable_safe

definition last_row_line :: "string \<Rightarrow> bool" where
  "last_row_line l \<longleftrightarrow> hd (split_char tab l) = ''ROW'' \<and> last_row_id (split_char tab l)"

lemma decode_line_safe: "state_ok st \<Longrightarrow> line_safe (\<lambda>m. overflow_panic P m \<and> last_row_line l) (decode_line P opts l st)"
  using decode_row_safe [of st P "split_char tab l"]
  by (simp add: decode_line_def Let_def line_safes last_row_line_def)

lemma decode_lines_panic:
  "state_ok st \<Longrightarrow> decode_lines P opts ls st = Panic m \<Longrightarrow> overflow_panic P m \<and> (\<exists>l \<in> set ls. last_row_line l)"
proof (induction ls arbitrary: st)
  case (Cons l ls)
  then show ?case using decode_line_safe [of st P l opts] by (cases "decode_line P opts l st") auto
qed simp

subsection \<open>Properties\<close>

text \<open>C7: Reading back what was written gives the catalog again: every table with its columns, primary key,
  rows and indexes, the index maps rebuilt to the same contents; only \<open>next_row_id\<close> is recomputed, as one
  above the last row (1 for an empty table).\<close>

theorem catalog_roundtrip:
  assumes "catalog_ok P (fulltext_tokenizer opts) c"
  shows "decode_with_options P (encode c) opts = Ok (reopened c) \<and> catalog_ok P (fulltext_tokenizer opts) (reopened c)"
  using decode_encode [OF assms] reopened_ok [OF assms] by blast

definition demo_catalog :: catalog where
  "demo_catalog = \<lparr>tables = [(''t'', demo_table)]\<rparr>"

lemma demo_catalog_ok: "catalog_ok P tk demo_catalog"
  using demo_table_ok [of P tk]
  by (simp add: catalog_ok_def demo_catalog_def bm_ok_def names_valid_def indexes_for_encoding_def
      fulltext_indexes_for_encoding_def) (simp add: demo_table_def demo_columns_def code_def)

theorem catalog_roundtrip_witness:
  "decode_with_options demo_platform (encode demo_catalog) table_options_default = Ok demo_catalog"
  using catalog_roundtrip [of demo_platform table_options_default demo_catalog] demo_catalog_ok
  by (simp add: reopened_def demo_catalog_def persisted_next_def demo_table_def)

text \<open>C36: Reading a database file, whatever bytes it holds, gives a catalog or an error, except that a build with
  overflow checks (the default of \<^verbatim>\<open>cargo build\<close>) panics, with the message of the overflowing addition, and
  only on a file with a ROW line that carries the row identifier 18446744073709551615. A release build
  never panics.\<close>

theorem decode_total:
  assumes "decode_with_options P input opts = Panic m"
  shows "overflow_checks P \<and> m = ''attempt to add with overflow'' \<and>
    (\<exists>l p ps. l \<in> set (lines input) \<and> split_char tab l = ''ROW'' # p # ps \<and>
       parse_unsigned 64 10 p = Some 18446744073709551615)"
proof -
  obtain l ls where input: "lines input = l # ls" and "decode_lines P opts ls ([], None) = Panic m"
    using assms by (auto simp: decode_with_options_def outcome_simps split: list.splits if_splits)
  with decode_lines_panic [of "([], None)" P opts ls m] obtain l'
    where "overflow_panic P m" and l': "l' \<in> set (lines input)" "last_row_line l'" by auto
  moreover obtain p ps where "split_char tab l' = ''ROW'' # p # ps" "parse_unsigned 64 10 p = Some 18446744073709551615"
    using l'(2) by (cases "split_char tab l'"; cases "tl (split_char tab l')") (auto simp: last_row_line_def last_row_id_def)
  ultimately show ?thesis unfolding overflow_panic_def by blast
qed

definition demo_last_row :: string where
  "demo_last_row = concat (map (\<lambda>l. l @ [newline])
     [''FSQ1'', join [tab] [''TABLE'', encode_string ''t''], join [tab] [''ROW'', ''18446744073709551615'']])"

theorem decode_total_witness:
  "decode_with_options demo_platform demo_last_row table_options_default = Panic ''attempt to add with overflow'' \<and>
   (\<exists>l p ps. l \<in> set (lines demo_last_row) \<and> split_char tab l = ''ROW'' # p # ps \<and>
       parse_unsigned 64 10 p = Some 18446744073709551615)"
proof -
  have id: "parse_unsigned 64 10 ''18446744073709551615'' = Some 18446744073709551615"
    by (simp add: parse_unsigned_def Let_def digit_val_def code_def)
  have cells: "list_all cell [''TABLE'', encode_string ''t'']" "list_all cell [''ROW'', ''18446744073709551615'']" by simp_all
  have "lines demo_last_row =
      [''FSQ1'', join [tab] [''TABLE'', encode_string ''t''], join [tab] [''ROW'', ''18446744073709551615'']]"
    unfolding demo_last_row_def by (rule lines_concat) (use cells [THEN plain_cells] in auto)
  moreover have "decode_line demo_platform table_options_default (join [tab] [''ROW'', ''18446744073709551615'']) (ts, Some t) =
      Panic ''attempt to add with overflow''" for ts t
    using id by (subst decode_line_cells) (simp_all add: decode_row_def table_mut_def next_id_def demo_platform_def)
  ultimately have "decode_with_options demo_platform demo_last_row table_options_default = Panic ''attempt to add with overflow''"
    using decode_table_line [of "''t''" demo_platform table_options_default "[]"] by (simp add: decode_with_options_def code_def)
  with decode_total [OF this] show ?thesis by blast
qed

end
