(* ===== verification/Logging.thy ===== *)
theory Logging
  imports Catalog
begin

section \<open>Files and log lines\<close>

text \<open>
  The file system as the crate uses it, and the log writers of \<^verbatim>\<open>src/src/logging.rs\<close>. Files are
  byte strings by their path text. Every file operation takes the next of a list of outcomes: it
  succeeds, or it fails with an error text, and a failing write may have written a prefix of its bytes.
  Once the list is used up everything succeeds. A theorem that holds for every list of outcomes holds
  for every pattern of I/O failures; since a failing operation is the last one a writer attempts, it also
  covers stopping between any two operations. Time stamps are taken from a list in the same way.
\<close>

datatype io_outcome = Done | Fails nat string

record world =
  files :: "string \<Rightarrow> string option"
  outcomes :: "io_outcome list"
  clock :: "nat list"

datatype redo_event = RedoBegin | RedoCommit | RedoAbort

definition path_text :: "path \<Rightarrow> string" where
  "path_text p =
     (if path_parent p = [] then [] else path_parent p @ ''/'') @ path_stem p @
     (case path_extension p of None \<Rightarrow> [] | Some e \<Rightarrow> ''.'' @ e)"

definition with_extension :: "string \<Rightarrow> path \<Rightarrow> path" where
  "with_extension e p = p\<lparr>path_extension := Some e\<rparr>"

subsection \<open>File operations\<close>

definition io_step :: "world \<Rightarrow> io_outcome \<times> world" where
  "io_step w = (case outcomes w of [] \<Rightarrow> (Done, w) | r # rs \<Rightarrow> (r, w\<lparr>outcomes := rs\<rparr>))"

text \<open>An operation without an effect on file contents: creating directories, \<^verbatim>\<open>flush\<close>, \<^verbatim>\<open>fsync\<close>.\<close>

definition io_call :: "world \<Rightarrow> unit result \<times> world" where
  "io_call w =
     (case io_step w of
        (Done, w') \<Rightarrow> (Ok (), w')
      | (Fails k m, w') \<Rightarrow> (Err (error_from_io m), w'))"

definition file_create :: "string \<Rightarrow> world \<Rightarrow> unit result \<times> world" where
  "file_create f w =
     (case io_step w of
        (Done, w') \<Rightarrow> (Ok (), w'\<lparr>files := (files w')(f \<mapsto> [])\<rparr>)
      | (Fails k m, w') \<Rightarrow> (Err (error_from_io m), w'))"

definition file_open_append :: "string \<Rightarrow> world \<Rightarrow> unit result \<times> world" where
  "file_open_append f w =
     (case io_step w of
        (Done, w') \<Rightarrow> (Ok (), if files w' f = None then w'\<lparr>files := (files w')(f \<mapsto> [])\<rparr> else w')
      | (Fails k m, w') \<Rightarrow> (Err (error_from_io m), w'))"

definition file_append :: "string \<Rightarrow> string \<Rightarrow> world \<Rightarrow> world" where
  "file_append f bytes w =
     w\<lparr>files := (files w)(f \<mapsto> (case files w f of None \<Rightarrow> [] | Some s \<Rightarrow> s) @ bytes)\<rparr>"

definition file_write_all :: "string \<Rightarrow> string \<Rightarrow> world \<Rightarrow> unit result \<times> world" where
  "file_write_all f bytes w =
     (case io_step w of
        (Done, w') \<Rightarrow> (Ok (), file_append f bytes w')
      | (Fails k m, w') \<Rightarrow> (Err (error_from_io m), file_append f (take k bytes) w'))"

definition file_rename :: "string \<Rightarrow> string \<Rightarrow> world \<Rightarrow> unit result \<times> world" where
  "file_rename from_path to_path w =
     (case io_step w of
        (Done, w') \<Rightarrow> (Ok (), w'\<lparr>files := (files w')(to_path := files w' from_path, from_path := None)\<rparr>)
      | (Fails k m, w') \<Rightarrow> (Err (error_from_io m), w'))"

definition timestamp_millis :: "world \<Rightarrow> nat \<times> world" where
  "timestamp_millis w = (case clock w of [] \<Rightarrow> (0, w) | t # ts \<Rightarrow> (t, w\<lparr>clock := ts\<rparr>))"

subsection \<open>Log lines\<close>

text \<open>\<^verbatim>\<open>str::replace\<close> for a one character pattern, three times as in the source.\<close>

definition replace_char :: "char \<Rightarrow> string \<Rightarrow> string \<Rightarrow> string" where
  "replace_char c by_text s = concat (map (\<lambda>d. if d = c then by_text else [d]) s)"

definition escape :: "string \<Rightarrow> string" where
  "escape input =
     replace_char newline [backslash, CHR ''n'']
       (replace_char tab [backslash, CHR ''t''] (replace_char backslash [backslash, backslash] input))"

definition hex :: "string \<Rightarrow> string" where
  "hex bytes = concat (map (\<lambda>b. hex_pad 2 (code b)) bytes)"

definition sync_file :: "fsync_mode \<Rightarrow> world \<Rightarrow> unit result \<times> world" where
  "sync_file mode w =
     (case mode of FsyncAlways \<Rightarrow> io_call w | FsyncDataOnly \<Rightarrow> io_call w | FsyncNever \<Rightarrow> (Ok (), w))"

definition append_line :: "path \<Rightarrow> string \<Rightarrow> fsync_mode \<Rightarrow> world \<Rightarrow> unit result \<times> world" where
  "append_line p line mode w =
     sbind (if path_parent p = [] then (Ok (), w) else io_call w) (\<lambda>_ w1.
     sbind (file_open_append (path_text p) w1) (\<lambda>_ w2.
     sbind (file_write_all (path_text p) line w2) (\<lambda>_ w3.
     sbind (io_call w3) (\<lambda>_ w4.
       sync_file mode w4))))"

definition append_optional_line ::
  "database_options \<Rightarrow> path option \<Rightarrow> string \<Rightarrow> world \<Rightarrow> unit result \<times> world"
where
  "append_optional_line opts p line w =
     (case p of None \<Rightarrow> (Ok (), w) | Some q \<Rightarrow> append_line q line (fsync_mode opts) w)"

definition log_line :: "string \<Rightarrow> nat \<Rightarrow> string list \<Rightarrow> string" where
  "log_line tag stamp cells = join [tab] (tag # show_nat stamp # cells) @ [newline]"

definition append_slow_sql :: "database_options \<Rightarrow> string \<Rightarrow> nat \<Rightarrow> world \<Rightarrow> world" where
  "append_slow_sql opts sql elapsed w =
     (case slow_sql_threshold opts of
        None \<Rightarrow> w
      | Some threshold \<Rightarrow>
          if elapsed < threshold then w
          else let (stamp, w') = timestamp_millis w
               in snd (append_optional_line opts (slow_sql_log_path opts)
                         (log_line ''SLOW'' stamp [show_nat (elapsed div 1000), escape sql]) w'))"

definition append_error :: "database_options \<Rightarrow> string \<Rightarrow> string \<Rightarrow> world \<Rightarrow> world" where
  "append_error opts sql err w =
     (let (stamp, w') = timestamp_millis w
      in snd (append_optional_line opts (error_log_path opts)
                (log_line ''ERROR'' stamp [escape sql, escape err]) w'))"

definition append_binlog :: "database_options \<Rightarrow> string \<Rightarrow> world \<Rightarrow> unit result \<times> world" where
  "append_binlog opts sql w =
     (let (stamp, w') = timestamp_millis w
      in append_optional_line opts (binlog_path opts) (log_line ''BIN'' stamp [escape sql]) w')"

fun redo_event_text :: "redo_event \<Rightarrow> string" where
  "redo_event_text RedoBegin = ''BEGIN''"
| "redo_event_text RedoCommit = ''COMMIT''"
| "redo_event_text RedoAbort = ''ABORT''"

definition append_redolog :: "database_options \<Rightarrow> redo_event \<Rightarrow> string \<Rightarrow> world \<Rightarrow> unit result \<times> world" where
  "append_redolog opts event sql w =
     (if wal_mode opts = WalDisabled then (Ok (), w)
      else let (stamp, w') = timestamp_millis w
           in append_optional_line opts (redolog_path opts)
                (log_line ''REDO'' stamp [redo_event_text event, escape sql]) w')"

definition append_undolog :: "database_options \<Rightarrow> string \<Rightarrow> string \<Rightarrow> world \<Rightarrow> unit result \<times> world" where
  "append_undolog opts sql snapshot w =
     (let (stamp, w') = timestamp_millis w
      in append_optional_line opts (undolog_path opts)
           (log_line ''UNDO'' stamp [escape sql, hex snapshot]) w')"

subsection \<open>What escaping gives\<close>

text \<open>The reader the format calls for: a backslash makes the next character a tab, a line feed or itself.\<close>

fun unescape :: "string \<Rightarrow> string" where
  "unescape [] = []"
| "unescape [c] = [c]"
| "unescape (c # d # s) =
     (if c = backslash
      then (if d = CHR ''t'' then tab else if d = CHR ''n'' then newline else d) # unescape s
      else c # unescape (d # s))"

definition escape_char :: "char \<Rightarrow> string" where
  "escape_char c =
     (if c = backslash then [backslash, backslash]
      else if c = tab then [backslash, CHR ''t'']
      else if c = newline then [backslash, CHR ''n''] else [c])"

lemma replace_char_simps [simp]:
  "replace_char c r [] = []" "replace_char c r (d # s) = (if d = c then r else [d]) @ replace_char c r s"
  "replace_char c r (s @ t) = replace_char c r s @ replace_char c r t"
  by (simp_all add: replace_char_def)

lemma escape_chars: "escape s = concat (map escape_char s)"
  by (induction s) (auto simp: escape_def escape_char_def)

lemma unescape_Cons: "c \<noteq> backslash \<Longrightarrow> unescape (c # s) = c # unescape s"
  by (cases s) auto

lemma unescape_escape: "unescape (escape s) = s"
proof (induction s)
  case (Cons c s)
  then show ?case by (auto simp: escape_chars escape_char_def unescape_Cons)
qed (simp add: escape_def)

lemma escape_no_separator: "tab \<notin> set (escape s) \<and> newline \<notin> set (escape s)"
  by (auto simp: escape_chars escape_char_def split: if_splits)

subsection \<open>Properties\<close>

text \<open>C39: Escaping a statement for a log line loses nothing and leaves no tab or line feed in it, so the
  cells of a log line can be told apart and read back.\<close>

theorem escape_roundtrip:
  "unescape (escape s) = s \<and> tab \<notin> set (escape s) \<and> newline \<notin> set (escape s)"
  using unescape_escape escape_no_separator by blast

end
