(* ===== verification/Parser.thy ===== *)
theory Parser
  imports Options
begin

section \<open>The SQL parser\<close>

text \<open>
  \<^verbatim>\<open>src/src/sql/parser.rs\<close>, one definition per function. The parser works on substrings: \<open>slice\<close> is
  \<^verbatim>\<open>&s[a..b]\<close>, which panics when the bounds are out of order, out of range or inside a character, so every
  function that slices has a \<open>Panic\<close> outcome and whether it is ever reached is a question for the
  theorems. Scans that compare with ASCII characters only run over the bytes. \<open>EXPLAIN\<close> parses the
  statement after it, so the entry point is recursive on the length of the text.
\<close>

subsection \<open>Substrings\<close>

definition boundary :: "string \<Rightarrow> nat \<Rightarrow> bool" where
  "boundary s i \<longleftrightarrow> i = length s \<or> (i < length s \<and> \<not> is_cont (s ! i))"

definition slice :: "string \<Rightarrow> nat \<Rightarrow> nat \<Rightarrow> string result" where
  "slice s a b =
     (if a \<le> b \<and> boundary s a \<and> boundary s b then Ok (take (b - a) (drop a s))
      else Panic ''byte index out of range'')"

abbreviation slice_from :: "string \<Rightarrow> nat \<Rightarrow> string result" where
  "slice_from s a \<equiv> slice s a (length s)"

abbreviation slice_to :: "string \<Rightarrow> nat \<Rightarrow> string result" where
  "slice_to s b \<equiv> slice s 0 b"

fun str_find :: "string \<Rightarrow> string \<Rightarrow> nat option" where
  "str_find [] needle = (if needle = [] then Some 0 else None)"
| "str_find (c # s) needle =
     (if take (length needle) (c # s) = needle then Some 0 else map_option Suc (str_find s needle))"

definition contains :: "string \<Rightarrow> string \<Rightarrow> bool" where
  "contains s needle \<longleftrightarrow> str_find s needle \<noteq> None"

definition ends_with :: "string \<Rightarrow> string \<Rightarrow> bool" where
  "ends_with s suffix \<longleftrightarrow> length suffix \<le> length s \<and> drop (length s - length suffix) s = suffix"

fun char_find :: "string \<Rightarrow> char \<Rightarrow> nat option" where
  "char_find [] c = None"
| "char_find (d # s) c = (if d = c then Some 0 else map_option Suc (char_find s c))"

definition char_rfind :: "string \<Rightarrow> char \<Rightarrow> nat option" where
  "char_rfind s c = map_option (\<lambda>i. length s - 1 - i) (char_find (rev s) c)"

definition starts_with_ci :: "string \<Rightarrow> string \<Rightarrow> bool" where
  "starts_with_ci input prefix \<longleftrightarrow>
     boundary input (length prefix) \<and> eq_ignore_ascii_case (take (length prefix) input) prefix"

definition find_ci :: "string \<Rightarrow> string \<Rightarrow> nat option" where
  "find_ci input needle = str_find (to_ascii_lowercase input) (to_ascii_lowercase needle)"

definition strip_suffix_ci :: "string \<Rightarrow> string \<Rightarrow> string option result" where
  "strip_suffix_ci input suffix =
     (if length input < length suffix then Ok None
      else let i = length input - length suffix
           in if boundary input i \<and> eq_ignore_ascii_case (drop i input) suffix
              then rbind (slice_to input i) (\<lambda>s. Ok (Some s)) else Ok None)"

subsection \<open>Splitting outside quotes and brackets\<close>

text \<open>The scanner state: the open quote, the depth of parentheses and of square brackets.\<close>

record scan_state =
  quote :: "char option"
  parens :: nat
  brackets :: nat

definition scan_start :: scan_state where
  "scan_start = \<lparr>quote = None, parens = 0, brackets = 0\<rparr>"

definition scan_char :: "char \<Rightarrow> scan_state \<Rightarrow> scan_state" where
  "scan_char ch st =
     (case quote st of
        Some active \<Rightarrow> if ch = active then st\<lparr>quote := None\<rparr> else st
      | None \<Rightarrow>
          if ch = squote \<or> ch = dquote then st\<lparr>quote := Some ch\<rparr>
          else if ch = CHR ''('' then st\<lparr>parens := parens st + 1\<rparr>
          else if ch = CHR '')'' then st\<lparr>parens := parens st - 1\<rparr>
          else if ch = CHR ''['' then st\<lparr>brackets := brackets st + 1\<rparr>
          else if ch = CHR '']'' then st\<lparr>brackets := brackets st - 1\<rparr>
          else st)"

definition scan_special :: "char \<Rightarrow> bool" where
  "scan_special ch \<longleftrightarrow>
     ch = squote \<or> ch = dquote \<or> ch = CHR ''('' \<or> ch = CHR '')'' \<or> ch = CHR ''['' \<or> ch = CHR '']''"

definition scan_delim :: "char \<Rightarrow> char \<Rightarrow> scan_state \<Rightarrow> bool" where
  "scan_delim d ch st \<longleftrightarrow>
     quote st = None \<and> \<not> scan_special ch \<and> ch = d \<and> parens st = 0 \<and> brackets st = 0"

fun split_once_loop :: "char \<Rightarrow> scan_state \<Rightarrow> string \<Rightarrow> string \<Rightarrow> (string \<times> string) option" where
  "split_once_loop d st left [] = None"
| "split_once_loop d st left (ch # rest) =
     (if scan_delim d ch st then Some (left, rest)
      else split_once_loop d (scan_char ch st) (left @ [ch]) rest)"

definition split_once_top_level :: "string \<Rightarrow> char \<Rightarrow> (string \<times> string) option" where
  "split_once_top_level input d = split_once_loop d scan_start [] input"

fun split_loop :: "char \<Rightarrow> scan_state \<Rightarrow> string \<Rightarrow> string \<Rightarrow> string list" where
  "split_loop d st current [] = [str_trim current]"
| "split_loop d st current (ch # rest) =
     (if scan_delim d ch st then str_trim current # split_loop d st [] rest
      else split_loop d (scan_char ch st) (current @ [ch]) rest)"

definition split_top_level :: "string \<Rightarrow> char \<Rightarrow> string list" where
  "split_top_level input d = split_loop d scan_start [] input"

fun groups_loop :: "char option \<Rightarrow> nat \<Rightarrow> nat \<Rightarrow> string \<Rightarrow> bool" where
  "groups_loop q ps groups [] = False"
| "groups_loop q ps groups (ch # rest) =
     (case q of
        Some active \<Rightarrow> groups_loop (if ch = active then None else q) ps groups rest
      | None \<Rightarrow>
          if ch = squote \<or> ch = dquote then groups_loop (Some ch) ps groups rest
          else if ch = CHR ''('' \<and> ps = 0 then
            (if groups + 1 > 1 then True else groups_loop None (ps + 1) (groups + 1) rest)
          else if ch = CHR ''('' then groups_loop None (ps + 1) groups rest
          else if ch = CHR '')'' then groups_loop None (ps - 1) groups rest
          else groups_loop None ps groups rest)"

definition has_multiple_top_level_parenthesized_groups :: "string \<Rightarrow> bool" where
  "has_multiple_top_level_parenthesized_groups input = groups_loop None 0 0 input"

definition parenthesized_body :: "string \<Rightarrow> string \<Rightarrow> string result" where
  "parenthesized_body input ctxt =
     (let s = str_trim input
      in if \<not> (s \<noteq> [] \<and> hd s = CHR ''('') \<or> \<not> (s \<noteq> [] \<and> last s = CHR '')'')
         then Err (Parse (ctxt @ '' requires parentheses''))
         else slice s 1 (length s - 1))"

subsection \<open>Values\<close>

definition parse_f64 :: "platform \<Rightarrow> string \<Rightarrow> f64 result" where
  "parse_f64 P input =
     rbind (ok_or (Parse (''invalid float '' @ str_trim input)) (str_parse_f64 P (str_trim input))) (\<lambda>v.
       if f64_is_finite v then Ok v else Err (Parse ''float must be finite''))"

definition parse_f32 :: "platform \<Rightarrow> string \<Rightarrow> f32 result" where
  "parse_f32 P input =
     rbind (ok_or (Parse (''invalid float '' @ str_trim input)) (str_parse_f32 P (str_trim input))) (\<lambda>v.
       if f32_is_finite v then Ok v else Err (Parse ''float must be finite''))"

text \<open>\<^verbatim>\<open>inner.replace(doubled, single)\<close>: matches are taken from the left and do not overlap.\<close>

fun undouble :: "char \<Rightarrow> string \<Rightarrow> string" where
  "undouble q [] = []"
| "undouble q [c] = [c]"
| "undouble q (c # d # s) = (if c = q \<and> d = q then q # undouble q s else c # undouble q (d # s))"

definition parse_quoted_string :: "string \<Rightarrow> string option result" where
  "parse_quoted_string input =
     (if length input < 2 then Ok None
      else let q = hd input
           in if (q \<noteq> squote \<and> q \<noteq> dquote) \<or> last input \<noteq> q then Ok None
              else rbind (slice input 1 (length input - 1)) (\<lambda>inner. Ok (Some (undouble q inner))))"

definition parse_point :: "platform \<Rightarrow> string \<Rightarrow> sql_value result" where
  "parse_point P input =
     rbind (slice_from input (length ''POINT'')) (\<lambda>s.
     rbind (parenthesized_body s ''POINT'') (\<lambda>body.
       let parts = split_top_level body (CHR '','')
       in if length parts \<noteq> 2 then Err (Parse ''POINT requires lon and lat'')
          else rbind (parse_f64 P (parts ! 0)) (\<lambda>x.
               rbind (parse_f64 P (parts ! 1)) (\<lambda>y. Ok (PointV \<lparr>lon = x, lat = y\<rparr>)))))"

definition parse_vector :: "platform \<Rightarrow> string \<Rightarrow> sql_value result" where
  "parse_vector P input =
     rbind (slice input 1 (length input - 1)) (\<lambda>body.
     rbind (if str_trim body = [] then Ok []
            else rmap (parse_f32 P) (split_top_level body (CHR '',''))) (\<lambda>vs. Ok (Vector vs)))"

definition parse_value :: "platform \<Rightarrow> string \<Rightarrow> sql_value result" where
  "parse_value P text =
     (let input = str_trim text
      in if eq_ignore_ascii_case input ''NULL'' then Ok Null
         else if eq_ignore_ascii_case input ''TRUE'' then Ok (Boolean True)
         else if eq_ignore_ascii_case input ''FALSE'' then Ok (Boolean False)
         else rbind (parse_quoted_string input) (\<lambda>quoted.
           case quoted of
             Some v \<Rightarrow> Ok (Text v)
           | None \<Rightarrow>
               if starts_with_ci input ''POINT'' then parse_point P input
               else if input \<noteq> [] \<and> hd input = CHR ''['' \<and> last input = CHR '']'' then parse_vector P input
               else if CHR ''.'' \<in> set input \<or> CHR ''e'' \<in> set input \<or> CHR ''E'' \<in> set input
               then rbind (parse_f64 P input) (\<lambda>v. Ok (Float v))
               else rbind (ok_or (Parse (''could not parse value '' @ input)) (parse_i64 input))
                      (\<lambda>v. Ok (Integer v))))"

subsection \<open>Clauses\<close>

definition parse_projection :: "string \<Rightarrow> projection result" where
  "parse_projection input =
     (if str_trim input = ''*'' then Ok AllColumns
      else let cs = map normalize_identifier (split_top_level input (CHR '',''))
           in if list_ex (\<lambda>c. c = []) cs then Err (Parse ''empty projection column'') else Ok (Columns cs))"

definition parse_match :: "platform \<Rightarrow> string \<Rightarrow> sql_filter result" where
  "parse_match P input =
     rbind (slice_from input (length ''MATCH'')) (\<lambda>s.
     rbind (parenthesized_body s ''MATCH'') (\<lambda>body.
       let parts = split_top_level body (CHR '','')
       in if length parts \<noteq> 2 then Err (Parse ''MATCH requires column and query'')
          else rbind (parse_value P (parts ! 1)) (\<lambda>v.
            case v of
              Text q \<Rightarrow> Ok (FullText (normalize_identifier (parts ! 0)) q)
            | _ \<Rightarrow> Err (Parse ''MATCH query must be a string''))))"

definition geo_operator :: "string \<Rightarrow> (string \<times> string \<times> bool) result" where
  "geo_operator input =
     (case str_find input ''<='' of
        Some pos \<Rightarrow>
          rbind (slice_to input pos) (\<lambda>fn. rbind (slice_from input (pos + 2)) (\<lambda>m. Ok (fn, m, True)))
      | None \<Rightarrow>
          (case char_find input (CHR ''<'') of
             Some pos \<Rightarrow>
               rbind (slice_to input pos) (\<lambda>fn. rbind (slice_from input (pos + 1)) (\<lambda>m. Ok (fn, m, False)))
           | None \<Rightarrow> Err (Parse ''GEO_DISTANCE requires < or <='')))"

definition parse_geo :: "platform \<Rightarrow> string \<Rightarrow> sql_filter result" where
  "parse_geo P input =
     rbind (geo_operator input) (\<lambda>(fn, meters, inclusive).
     rbind (slice_from fn (length ''GEO_DISTANCE'')) (\<lambda>s.
     rbind (parenthesized_body s ''GEO_DISTANCE'') (\<lambda>body.
       let parts = split_top_level body (CHR '','')
       in if length parts \<noteq> 2 then Err (Parse ''GEO_DISTANCE requires column and point'')
          else rbind (parse_value P (parts ! 1)) (\<lambda>v.
            case v of
              PointV p \<Rightarrow>
                rbind (ok_or (Parse ''GEO_DISTANCE threshold must be numeric'')
                        (str_parse_f64 P (str_trim meters)))
                  (\<lambda>m. Ok (GeoWithin (normalize_identifier (parts ! 0)) p m inclusive))
            | _ \<Rightarrow> Err (Parse ''GEO_DISTANCE target must be POINT'')))))"

definition parse_filter :: "platform \<Rightarrow> string \<Rightarrow> sql_filter result" where
  "parse_filter P input =
     (if starts_with_ci input ''MATCH'' then parse_match P input
      else if starts_with_ci input ''GEO_DISTANCE'' then parse_geo P input
      else case split_once_top_level input (CHR ''='') of
          Some (col, v) \<Rightarrow> rbind (parse_value P v) (\<lambda>x. Ok (Equals (normalize_identifier col) x))
        | None \<Rightarrow> Err (Parse ''unsupported WHERE clause''))"

definition order_direction :: "string \<Rightarrow> (string \<times> bool) result" where
  "order_direction input =
     rbind (strip_suffix_ci input '' DESC'') (\<lambda>d.
       case d of
         Some s \<Rightarrow> Ok (str_trim s, True)
       | None \<Rightarrow>
           rbind (strip_suffix_ci input '' ASC'') (\<lambda>a.
             case a of Some s \<Rightarrow> Ok (str_trim s, False) | None \<Rightarrow> Ok (str_trim input, False)))"

definition parse_order :: "platform \<Rightarrow> string \<Rightarrow> sql_order result" where
  "parse_order P text =
     rbind (order_direction text) (\<lambda>(input, descending).
       if \<not> starts_with_ci input ''VECTOR_DISTANCE''
       then Err (Parse ''only VECTOR_DISTANCE ordering is currently supported'')
       else rbind (slice_from input (length ''VECTOR_DISTANCE'')) (\<lambda>s.
            rbind (parenthesized_body s ''VECTOR_DISTANCE'') (\<lambda>body.
              let parts = split_top_level body (CHR '','')
              in if length parts \<noteq> 2 then Err (Parse ''VECTOR_DISTANCE requires column and vector'')
                 else rbind (parse_value P (parts ! 1)) (\<lambda>v.
                   case v of
                     Vector target \<Rightarrow> Ok (VectorDistance (normalize_identifier (parts ! 0)) target descending)
                   | _ \<Rightarrow> Err (Parse ''VECTOR_DISTANCE target must be a vector'')))))"

subsection \<open>Statements that are recognised but not executed\<close>

definition parse_parsed_only :: "string \<Rightarrow> parsed_kind \<Rightarrow> string \<Rightarrow> statement result" where
  "parse_parsed_only sql kind prefix =
     rbind (slice_from sql (length prefix)) (\<lambda>rest.
       if str_trim rest = [] then Err (Parse (kind_as_str kind @ '' requires a target''))
       else Ok (ParsedOnly kind sql))"

definition parse_alter_table :: "string \<Rightarrow> statement result" where
  "parse_alter_table sql =
     rbind (slice_from sql (length ''ALTER TABLE'')) (\<lambda>r.
       let rest = str_trim r; lower = to_ascii_lowercase rest
       in if rest = [] \<or> \<not> (contains lower '' add '' \<or> contains lower '' drop '' \<or>
               contains lower '' rename '' \<or> contains lower '' alter '')
          then Err (Parse ''ALTER TABLE requires ADD, DROP, RENAME, or ALTER action'')
          else Ok (ParsedOnly KAlterTable sql))"

definition parse_attach_or_detach :: "string \<Rightarrow> parsed_kind \<Rightarrow> string \<Rightarrow> statement result" where
  "parse_attach_or_detach sql kind prefix =
     rbind (slice_from sql (length prefix)) (\<lambda>rest.
       if str_trim rest = [] then Err (Parse (kind_as_str kind @ '' requires a database''))
       else Ok (ParsedOnly kind sql))"

definition parse_create_view :: "string \<Rightarrow> statement result" where
  "parse_create_view sql =
     (if find_ci sql '' AS '' = None then Err (Parse ''CREATE VIEW requires AS SELECT'')
      else Ok (ParsedOnly KCreateView sql))"

definition parse_create_trigger :: "string \<Rightarrow> statement result" where
  "parse_create_trigger sql =
     (if find_ci sql '' BEGIN '' = None \<or> \<not> ends_with (to_ascii_lowercase (trim_end sql)) ''end''
      then Err (Parse ''CREATE TRIGGER requires BEGIN ... END'')
      else Ok (ParsedOnly KCreateTrigger sql))"

definition parse_create_virtual_table :: "string \<Rightarrow> statement result" where
  "parse_create_virtual_table sql =
     (if find_ci sql '' USING '' = None then Err (Parse ''CREATE VIRTUAL TABLE requires USING'')
      else Ok (ParsedOnly KCreateVirtualTable sql))"

definition parse_drop :: "string \<Rightarrow> parsed_kind \<Rightarrow> string \<Rightarrow> statement result" where
  "parse_drop sql kind prefix =
     rbind (slice_from sql (length prefix)) (\<lambda>rest.
       if str_trim rest = [] then Err (Parse (kind_as_str kind @ '' requires a name''))
       else Ok (ParsedOnly kind sql))"

definition parse_advanced_insert_kind :: "string \<Rightarrow> parsed_kind \<Rightarrow> string \<Rightarrow> statement result" where
  "parse_advanced_insert_kind sql kind prefix =
     rbind (slice_from sql (length prefix)) (\<lambda>rest.
       if str_trim rest = [] then Err (Parse (kind_as_str kind @ '' requires a target''))
       else Ok (ParsedOnly kind sql))"

definition parse_advanced_insert :: "string \<Rightarrow> statement result" where
  "parse_advanced_insert sql = parse_advanced_insert_kind sql KInsert ''INSERT INTO''"

subsection \<open>Which statements go beyond the executable subset\<close>

definition is_advanced_create_table :: "string \<Rightarrow> bool" where
  "is_advanced_create_table sql =
     (let lower = to_ascii_lowercase sql
      in contains lower '' if not exists'' \<or> contains lower '' without rowid'' \<or> ends_with lower '' strict'' \<or>
         contains lower '' as select'' \<or> contains lower '' constraint '' \<or> contains lower '' foreign key'' \<or>
         contains lower '' primary key ('' \<or> contains lower '' check '' \<or> contains lower '' check('' \<or>
         contains lower '' unique'' \<or> contains lower '' default '' \<or> contains lower '' not null'' \<or>
         contains lower '' references '' \<or> contains lower '' generated '' \<or> contains lower '' collate '' \<or>
         contains lower '' autoincrement'')"

definition is_advanced_create_index :: "string \<Rightarrow> bool result" where
  "is_advanced_create_index sql =
     (let lower = to_ascii_lowercase sql
      in if contains lower '' if not exists'' \<or> contains lower '' where '' \<or> contains lower '' collate '' \<or>
            contains lower '' desc'' \<or> contains lower '' asc'' then Ok True
         else case char_find sql (CHR ''('') of
             None \<Rightarrow> Ok False
           | Some open_pos \<Rightarrow>
               (case char_rfind sql (CHR '')'') of
                  None \<Rightarrow> Ok False
                | Some close_pos \<Rightarrow>
                    rbind (slice sql (open_pos + 1) close_pos) (\<lambda>inner.
                      Ok (length (split_top_level inner (CHR '','')) \<noteq> 1 \<or> CHR ''('' \<in> set inner \<or>
                          length (split_whitespace inner) > 1))))"

definition is_advanced_insert_rest :: "string \<Rightarrow> bool result" where
  "is_advanced_insert_rest rest =
     (if rest = [] then Ok False
      else let lower = to_ascii_lowercase rest
           in if contains lower '' default values'' \<or> ends_with lower ''default values'' \<or>
                 contains lower '' on conflict'' \<or> contains lower '' returning '' then Ok True
              else case find_ci rest ''VALUES'' of
                  None \<Rightarrow>
                    Ok (starts_with_ci rest ''SELECT'' \<or> starts_with_ci rest ''WITH'' \<or>
                        find_ci rest '' SELECT '' \<noteq> None \<or> find_ci rest '' WITH '' \<noteq> None)
                | Some values_pos \<Rightarrow>
                    rbind (slice_from rest (values_pos + length ''VALUES'')) (\<lambda>v.
                      Ok (has_multiple_top_level_parenthesized_groups (str_trim v))))"

definition is_advanced_insert :: "string \<Rightarrow> bool result" where
  "is_advanced_insert sql =
     rbind (slice_from sql (length ''INSERT INTO'')) (\<lambda>rest. is_advanced_insert_rest (str_trim rest))"

definition is_supported_fromless_select :: "string \<Rightarrow> bool" where
  "is_supported_fromless_select text =
     (let rest = str_trim text in rest \<noteq> [] \<and> \<not> (hd rest = CHR ''*'' \<and> rest \<noteq> ''*''))"

definition is_advanced_projection :: "string \<Rightarrow> bool" where
  "is_advanced_projection text =
     (let input = str_trim text
      in if input = [] \<or> input = ''*'' then False
         else let lower = to_ascii_lowercase input
              in contains lower '' as '' \<or> CHR ''('' \<in> set lower \<or> contains lower '' + '' \<or>
                 contains lower '' - '' \<or> contains lower '' * '' \<or> contains lower '' / '' \<or>
                 contains lower '' || '' \<or> contains lower '' case '')"

definition is_advanced_from :: "string \<Rightarrow> bool" where
  "is_advanced_from text =
     (let input = str_trim text
      in if input = [] then False
         else let lower = to_ascii_lowercase input
              in contains lower '' join '' \<or> CHR '','' \<in> set lower \<or> contains lower '' as '' \<or>
                 CHR ''('' \<in> set lower \<or> length (split_whitespace input) > 1)"

text \<open>A call whose result is only tested with \<^verbatim>\<open>is_ok()\<close> or \<^verbatim>\<open>is_err()\<close>; a panic still unwinds.\<close>

definition test_ok :: "'a result \<Rightarrow> bool result" where
  "test_ok r = (case r of Ok _ \<Rightarrow> Ok True | Err _ \<Rightarrow> Ok False | Panic m \<Rightarrow> Panic m)"

definition is_advanced_where_clause :: "platform \<Rightarrow> string \<Rightarrow> bool result" where
  "is_advanced_where_clause P text =
     (let input = str_trim text
      in if input = [] then Ok False
         else rbind (test_ok (parse_filter P input)) (\<lambda>parsed.
           if parsed then Ok False
           else if starts_with_ci input ''MATCH'' \<or> starts_with_ci input ''GEO_DISTANCE'' then Ok False
           else let lower = '' '' @ to_ascii_lowercase input @ '' ''
                in Ok (contains lower '' and '' \<or> contains lower '' or '' \<or> contains lower '' in '' \<or>
                       contains lower '' is '' \<or> contains lower '' between '' \<or> contains lower '' like '' \<or>
                       contains lower '' glob '' \<or> contains lower '' regexp '' \<or> contains lower '' exists '' \<or>
                       contains lower '' not '' \<or> CHR ''>'' \<in> set input \<or> CHR ''<'' \<in> set input \<or>
                       contains input ''!='' \<or> contains input ''<>'' \<or>
                       split_once_top_level input (CHR ''='') \<noteq> None)))"

definition is_advanced_order_clause :: "platform \<Rightarrow> string \<Rightarrow> bool result" where
  "is_advanced_order_clause P text =
     (let input = str_trim text
      in if input = [] then Ok False
         else rbind (test_ok (parse_order P input)) (\<lambda>parsed.
           if parsed then Ok False else Ok (\<not> starts_with_ci input ''VECTOR_DISTANCE'')))"

text \<open>\<^verbatim>\<open>[a, b].into_iter().flatten().min()\<close>.\<close>

definition min_pos :: "nat option list \<Rightarrow> nat option" where
  "min_pos ps = (case List.map_filter id ps of [] \<Rightarrow> None | x # xs \<Rightarrow> Some (fold min xs x))"

definition position_or :: "nat option \<Rightarrow> nat \<Rightarrow> nat" where
  "position_or p n = (case p of None \<Rightarrow> n | Some i \<Rightarrow> i)"

definition after_pos :: "nat \<Rightarrow> nat option \<Rightarrow> nat option" where
  "after_pos pos p = (case p of None \<Rightarrow> None | Some i \<Rightarrow> if i > pos then Some i else None)"

text \<open>The text of a \<open>WHERE\<close> and of an \<open>ORDER BY\<close> clause: up to the next clause after it.\<close>

definition where_text :: "string \<Rightarrow> nat \<Rightarrow> nat option \<Rightarrow> nat option \<Rightarrow> string result" where
  "where_text from_rest pos order_pos limit_pos =
     rbind (slice from_rest (pos + length '' WHERE '')
              (position_or (min_pos [after_pos pos order_pos, after_pos pos limit_pos]) (length from_rest)))
       (\<lambda>s. Ok (str_trim s))"

definition order_text :: "string \<Rightarrow> nat \<Rightarrow> nat option \<Rightarrow> string result" where
  "order_text from_rest pos limit_pos =
     rbind (slice from_rest (pos + length '' ORDER BY '') (position_or (after_pos pos limit_pos) (length from_rest)))
       (\<lambda>s. Ok (str_trim s))"

definition is_advanced_clauses :: "platform \<Rightarrow> string \<Rightarrow> bool result" where
  "is_advanced_clauses P from_rest =
     (let where_pos = find_ci from_rest '' WHERE '';
          order_pos = find_ci from_rest '' ORDER BY '';
          limit_pos = find_ci from_rest '' LIMIT '';
          table_end = position_or (min_pos [where_pos, order_pos, limit_pos]) (length from_rest)
      in rbind (slice_to from_rest table_end) (\<lambda>tbl.
         if is_advanced_from tbl then Ok True
         else rbind (case where_pos of
                       None \<Rightarrow> Ok False
                     | Some pos \<Rightarrow> rbind (where_text from_rest pos order_pos limit_pos) (is_advanced_where_clause P))
           (\<lambda>w. if w then Ok True
                else case order_pos of
                    None \<Rightarrow> Ok False
                  | Some pos \<Rightarrow> rbind (order_text from_rest pos limit_pos) (is_advanced_order_clause P))))"

definition is_advanced_select :: "platform \<Rightarrow> string \<Rightarrow> bool result" where
  "is_advanced_select P sql =
     rbind (slice_from sql (length ''SELECT'')) (\<lambda>r.
       let rest = str_trim r; lower = to_ascii_lowercase rest
       in if rest = [] then Ok False
          else if starts_with_ci rest ''DISTINCT'' \<or> starts_with_ci rest ''ALL'' \<or> contains lower '' union '' \<or>
             contains lower '' intersect '' \<or> contains lower '' except '' \<or> contains lower '' window ''
          then Ok True
          else case find_ci rest '' FROM '' of
              None \<Rightarrow> Ok (is_supported_fromless_select rest)
            | Some from_pos \<Rightarrow>
                rbind (slice_to rest from_pos) (\<lambda>p.
                  if is_advanced_projection p then Ok True
                  else rbind (slice_from rest (from_pos + length '' FROM '')) (\<lambda>f.
                    let from_rest = str_trim f
                    in if find_ci from_rest '' GROUP BY '' \<noteq> None \<or> find_ci from_rest '' HAVING '' \<noteq> None \<or>
                          find_ci from_rest '' OFFSET '' \<noteq> None \<or> find_ci from_rest '' WINDOW '' \<noteq> None
                       then Ok True
                       else is_advanced_clauses P from_rest)))"

fun advanced_assignments :: "platform \<Rightarrow> string list \<Rightarrow> bool option result" where
  "advanced_assignments P [] = Ok None"
| "advanced_assignments P (a # as) =
     (case split_once_top_level a (CHR ''='') of
        None \<Rightarrow> Ok (Some False)
      | Some (_, v) \<Rightarrow>
          rbind (test_ok (parse_value P v)) (\<lambda>ok.
            if \<not> ok then Ok (Some True) else advanced_assignments P as))"

definition is_advanced_update :: "platform \<Rightarrow> string \<Rightarrow> bool result" where
  "is_advanced_update P sql =
     rbind (slice_from sql (length ''UPDATE'')) (\<lambda>r.
       let rest = str_trim r; lower = to_ascii_lowercase rest
       in if rest = [] then Ok False
          else if contains lower '' from '' \<or> contains lower '' returning '' \<or> contains lower '' order by '' \<or>
             contains lower '' limit '' then Ok True
          else case find_ci rest '' SET '' of
              None \<Rightarrow> Ok False
            | Some set_pos \<Rightarrow>
                rbind (slice_from rest (set_pos + length '' SET '')) (\<lambda>a.
                  let after_set = str_trim a; where_pos = find_ci after_set '' WHERE ''
                  in rbind (case where_pos of None \<Rightarrow> Ok after_set | Some pos \<Rightarrow> slice_to after_set pos) (\<lambda>asg.
                     let assignments_part = str_trim asg
                     in if assignments_part = [] then Ok False
                        else rbind (advanced_assignments P (split_top_level assignments_part (CHR '',''))) (\<lambda>d.
                          case d of
                            Some b \<Rightarrow> Ok b
                          | None \<Rightarrow>
                              (case where_pos of
                                 None \<Rightarrow> Ok False
                               | Some pos \<Rightarrow>
                                   rbind (slice_from after_set (pos + length '' WHERE ''))
                                     (\<lambda>w. is_advanced_where_clause P (str_trim w)))))))"

definition is_advanced_delete :: "platform \<Rightarrow> string \<Rightarrow> bool result" where
  "is_advanced_delete P sql =
     rbind (slice_from sql (length ''DELETE FROM'')) (\<lambda>r.
       let rest = str_trim r; lower = to_ascii_lowercase rest
       in if rest = [] then Ok False
          else if contains lower '' returning '' \<or> contains lower '' order by '' \<or> contains lower '' limit '' \<or>
             contains lower '' using '' then Ok True
          else let where_pos = find_ci rest '' WHERE ''
               in rbind (case where_pos of None \<Rightarrow> Ok rest | Some pos \<Rightarrow> slice_to rest pos) (\<lambda>tbl.
                  if is_advanced_from (str_trim tbl) then Ok True
                  else case where_pos of
                      None \<Rightarrow> Ok False
                    | Some pos \<Rightarrow>
                        rbind (slice_from rest (pos + length '' WHERE ''))
                          (\<lambda>w. is_advanced_where_clause P (str_trim w))))"

subsection \<open>Transaction control\<close>

definition is_begin :: "string \<Rightarrow> sql_dialect \<Rightarrow> bool" where
  "is_begin sql dialect \<longleftrightarrow>
     eq_ignore_ascii_case sql ''BEGIN'' \<or> eq_ignore_ascii_case sql ''BEGIN TRANSACTION'' \<or>
     eq_ignore_ascii_case sql ''BEGIN WORK'' \<or>
     (dialect = Sqlite \<and> (eq_ignore_ascii_case sql ''BEGIN IMMEDIATE'' \<or>
        eq_ignore_ascii_case sql ''BEGIN EXCLUSIVE'' \<or> eq_ignore_ascii_case sql ''BEGIN DEFERRED'')) \<or>
     (dialect = PostgreSql \<and> eq_ignore_ascii_case sql ''BEGIN WORK'')"

definition is_commit :: "string \<Rightarrow> sql_dialect \<Rightarrow> bool" where
  "is_commit sql dialect \<longleftrightarrow>
     eq_ignore_ascii_case sql ''COMMIT'' \<or> eq_ignore_ascii_case sql ''COMMIT TRANSACTION'' \<or>
     (dialect = Sqlite \<and> eq_ignore_ascii_case sql ''END'') \<or>
     (dialect = PostgreSql \<and> eq_ignore_ascii_case sql ''COMMIT WORK'')"

definition is_rollback :: "string \<Rightarrow> sql_dialect \<Rightarrow> bool" where
  "is_rollback sql dialect \<longleftrightarrow>
     eq_ignore_ascii_case sql ''ROLLBACK'' \<or> eq_ignore_ascii_case sql ''ROLLBACK TRANSACTION'' \<or>
     (dialect = PostgreSql \<and> eq_ignore_ascii_case sql ''ROLLBACK WORK'')"

subsection \<open>Statements that are executed\<close>

definition parse_column_def :: "string \<Rightarrow> column result" where
  "parse_column_def text =
     (let tokens = split_whitespace text
      in if length tokens < 2 then Err (Parse ''column definition requires name and type'')
         else rbind (column_type_parse (tokens ! 1)) (\<lambda>ty.
           Ok \<lparr>col_name = normalize_identifier (tokens ! 0), col_ty = ty,
               col_primary_key = contains (to_ascii_lowercase text) ''primary key''\<rparr>))"

definition parse_create_table :: "string \<Rightarrow> statement result" where
  "parse_create_table sql =
     rbind (slice_from sql (length ''CREATE TABLE'')) (\<lambda>r.
       let rest = str_trim r
       in rbind (ok_or (Parse ''CREATE TABLE requires a column list'') (char_find rest (CHR ''(''))) (\<lambda>open_pos.
          rbind (ok_or (Parse ''CREATE TABLE requires a closing parenthesis'') (char_rfind rest (CHR '')''))) (\<lambda>close_pos.
            if close_pos \<le> open_pos then Err (Parse ''invalid CREATE TABLE column list'')
            else rbind (slice_to rest open_pos) (\<lambda>nm.
              let tbl = normalize_identifier nm
              in if tbl = [] then Err (Parse ''CREATE TABLE requires a table name'')
                 else rbind (slice rest (open_pos + 1) close_pos) (\<lambda>body.
                      rbind (rmap parse_column_def (split_top_level body (CHR '',''))) (\<lambda>cols.
                        Ok (CreateTable tbl cols)))))))"

definition parse_create_index :: "string \<Rightarrow> statement result" where
  "parse_create_index sql =
     (let fulltext = starts_with_ci sql ''CREATE FULLTEXT INDEX''
      in rbind (slice_from sql (length (if fulltext then ''CREATE FULLTEXT INDEX'' else ''CREATE INDEX''))) (\<lambda>r.
         let rest = str_trim r
         in rbind (ok_or (Parse ''CREATE INDEX requires ON table(column)'') (find_ci rest '' ON '')) (\<lambda>on_pos.
            rbind (slice_from rest (on_pos + length '' ON '')) (\<lambda>tg.
              let target = str_trim tg
              in rbind (ok_or (Parse ''CREATE INDEX requires a column'') (char_find target (CHR ''(''))) (\<lambda>open_pos.
                 rbind (ok_or (Parse ''CREATE INDEX requires a closing parenthesis'') (char_rfind target (CHR '')''))) (\<lambda>close_pos.
                 rbind (slice_to rest on_pos) (\<lambda>nm.
                 rbind (slice_to target open_pos) (\<lambda>tbl.
                 rbind (slice target (open_pos + 1) close_pos) (\<lambda>col.
                   Ok (CreateIndex (normalize_identifier nm) (normalize_identifier tbl) (normalize_identifier col)
                        fulltext))))))))))"

definition insert_target :: "string \<Rightarrow> (string \<times> string list option) result" where
  "insert_target target =
     (case char_find target (CHR ''('') of
        Some open_pos \<Rightarrow>
          rbind (ok_or (Parse ''INSERT column list is not closed'') (char_rfind target (CHR '')''))) (\<lambda>close_pos.
          rbind (slice_to target open_pos) (\<lambda>nm.
          rbind (slice target (open_pos + 1) close_pos) (\<lambda>cols.
            Ok (normalize_identifier nm, Some (map normalize_identifier (split_top_level cols (CHR '','')))))))
      | None \<Rightarrow> Ok (normalize_identifier target, None))"

definition parse_insert :: "platform \<Rightarrow> string \<Rightarrow> statement result" where
  "parse_insert P sql =
     rbind (slice_from sql (length ''INSERT INTO'')) (\<lambda>r.
       let rest = str_trim r
       in rbind (ok_or (Parse ''INSERT requires VALUES'') (find_ci rest ''VALUES'')) (\<lambda>values_pos.
          rbind (slice_to rest values_pos) (\<lambda>tg.
          rbind (slice_from rest (values_pos + length ''VALUES'')) (\<lambda>vp.
          rbind (insert_target (str_trim tg)) (\<lambda>(tbl, cols).
          rbind (parenthesized_body (str_trim vp) ''INSERT VALUES'') (\<lambda>body.
          rbind (rmap (parse_value P) (split_top_level body (CHR '',''))) (\<lambda>vals.
            Ok (Insert tbl cols vals))))))))"

definition parse_clauses ::
  "platform \<Rightarrow> string \<Rightarrow> (string \<times> sql_filter option \<times> sql_order option \<times> nat option) result"
where
  "parse_clauses P from_rest =
     (let where_pos = find_ci from_rest '' WHERE '';
          order_pos = find_ci from_rest '' ORDER BY '';
          limit_pos = find_ci from_rest '' LIMIT '';
          table_end = position_or (min_pos [where_pos, order_pos, limit_pos]) (length from_rest)
      in rbind (case where_pos of
                  None \<Rightarrow> Ok None
                | Some pos \<Rightarrow>
                    rbind (where_text from_rest pos order_pos limit_pos) (\<lambda>w.
                    rbind (parse_filter P w) (\<lambda>f. Ok (Some f)))) (\<lambda>filt.
         rbind (case order_pos of
                  None \<Rightarrow> Ok None
                | Some pos \<Rightarrow>
                    rbind (order_text from_rest pos limit_pos) (\<lambda>t.
                    rbind (parse_order P t) (\<lambda>ord. Ok (Some ord)))) (\<lambda>ord.
         rbind (case limit_pos of
                  None \<Rightarrow> Ok None
                | Some pos \<Rightarrow>
                    rbind (slice_from from_rest (pos + length '' LIMIT '')) (\<lambda>t.
                    rbind (ok_or (Parse ''LIMIT requires a non-negative integer'')
                            (parse_unsigned 64 10 (str_trim t))) (\<lambda>n. Ok (Some n)))) (\<lambda>lim.
         rbind (slice_to from_rest table_end) (\<lambda>tbl.
           Ok (normalize_identifier tbl, filt, ord, lim))))))"

definition parse_select :: "platform \<Rightarrow> string \<Rightarrow> statement result" where
  "parse_select P sql =
     rbind (slice_from sql (length ''SELECT'')) (\<lambda>r.
       let rest = str_trim r
       in rbind (ok_or (Parse ''SELECT requires FROM'') (find_ci rest '' FROM '')) (\<lambda>from_pos.
          rbind (slice_to rest from_pos) (\<lambda>p.
          rbind (parse_projection p) (\<lambda>proj.
          rbind (slice_from rest (from_pos + length '' FROM '')) (\<lambda>f.
          rbind (parse_clauses P (str_trim f)) (\<lambda>(tbl, filt, ord, lim).
            Ok (Select tbl proj filt ord lim)))))))"

definition parse_assignment :: "platform \<Rightarrow> string \<Rightarrow> (string \<times> sql_value) result" where
  "parse_assignment P a =
     rbind (ok_or (Parse ''assignment requires ='') (split_once_top_level a (CHR ''=''))) (\<lambda>(col, v).
     rbind (parse_value P v) (\<lambda>x. Ok (normalize_identifier col, x)))"

definition parse_update :: "platform \<Rightarrow> string \<Rightarrow> statement result" where
  "parse_update P sql =
     rbind (slice_from sql (length ''UPDATE'')) (\<lambda>r.
       let rest = str_trim r
       in rbind (ok_or (Parse ''UPDATE requires SET'') (find_ci rest '' SET '')) (\<lambda>set_pos.
          rbind (slice_from rest (set_pos + length '' SET '')) (\<lambda>a.
            let after_set = str_trim a; where_pos = find_ci after_set '' WHERE ''
            in rbind (case where_pos of None \<Rightarrow> Ok after_set | Some pos \<Rightarrow> slice_to after_set pos) (\<lambda>asg.
               rbind (case where_pos of
                        None \<Rightarrow> Ok None
                      | Some pos \<Rightarrow>
                          rbind (slice_from after_set (pos + length '' WHERE '')) (\<lambda>w.
                          rbind (parse_filter P (str_trim w)) (\<lambda>f. Ok (Some f)))) (\<lambda>filt.
               rbind (rmap (parse_assignment P) (split_top_level (str_trim asg) (CHR '',''))) (\<lambda>assignments.
               rbind (slice_to rest set_pos) (\<lambda>tbl.
                 Ok (Update (normalize_identifier tbl) assignments filt))))))))"

definition parse_delete :: "platform \<Rightarrow> string \<Rightarrow> statement result" where
  "parse_delete P sql =
     rbind (slice_from sql (length ''DELETE FROM'')) (\<lambda>r.
       let rest = str_trim r; where_pos = find_ci rest '' WHERE ''
       in rbind (case where_pos of None \<Rightarrow> Ok rest | Some pos \<Rightarrow> slice_to rest pos) (\<lambda>t.
          let tbl = normalize_identifier t
          in if tbl = [] then Err (Parse ''DELETE requires a table name'')
             else rbind (case where_pos of
                           None \<Rightarrow> Ok None
                         | Some pos \<Rightarrow>
                             rbind (slice_from rest (pos + length '' WHERE '')) (\<lambda>w.
                             rbind (parse_filter P (str_trim w)) (\<lambda>f. Ok (Some f))))
                    (\<lambda>filt. Ok (Delete tbl filt))))"

subsection \<open>The entry point\<close>

text \<open>The dispatch on the leading keywords, for a trimmed, non-empty text that is not an \<open>EXPLAIN\<close>.\<close>

definition parse_create :: "string \<Rightarrow> statement result option" where
  "parse_create sql =
     (if starts_with_ci sql ''CREATE TABLE'' then
        Some (if is_advanced_create_table sql then parse_parsed_only sql KCreateTable ''CREATE TABLE''
              else parse_create_table sql)
      else if starts_with_ci sql ''CREATE TEMP TABLE'' \<or> starts_with_ci sql ''CREATE TEMPORARY TABLE'' then
        Some (parse_parsed_only sql KCreateTable ''CREATE'')
      else if starts_with_ci sql ''CREATE VIEW'' \<or> starts_with_ci sql ''CREATE TEMP VIEW'' \<or>
              starts_with_ci sql ''CREATE TEMPORARY VIEW'' then Some (parse_create_view sql)
      else if starts_with_ci sql ''CREATE TRIGGER'' \<or> starts_with_ci sql ''CREATE TEMP TRIGGER'' \<or>
              starts_with_ci sql ''CREATE TEMPORARY TRIGGER'' then Some (parse_create_trigger sql)
      else if starts_with_ci sql ''CREATE VIRTUAL TABLE'' then Some (parse_create_virtual_table sql)
      else if starts_with_ci sql ''CREATE UNIQUE INDEX'' \<or> starts_with_ci sql ''CREATE INDEX IF NOT EXISTS'' \<or>
              starts_with_ci sql ''CREATE UNIQUE INDEX IF NOT EXISTS'' then
        Some (parse_parsed_only sql KCreateIndex ''CREATE'')
      else if starts_with_ci sql ''CREATE FULLTEXT INDEX'' \<or> starts_with_ci sql ''CREATE INDEX'' then
        Some (rbind (is_advanced_create_index sql) (\<lambda>adv.
          if adv then parse_parsed_only sql KCreateIndex ''CREATE'' else parse_create_index sql))
      else None)"

definition parse_row_statement :: "platform \<Rightarrow> string \<Rightarrow> statement result option" where
  "parse_row_statement P sql =
     (if starts_with_ci sql ''INSERT INTO'' then
        Some (rbind (is_advanced_insert sql) (\<lambda>adv.
          if adv then parse_advanced_insert sql else parse_insert P sql))
      else if starts_with_ci sql ''REPLACE INTO'' then
        Some (parse_advanced_insert_kind sql KReplace ''REPLACE INTO'')
      else if starts_with_ci sql ''SELECT'' then
        Some (rbind (is_advanced_select P sql) (\<lambda>adv.
          if adv then parse_parsed_only sql KSelect ''SELECT'' else parse_select P sql))
      else if starts_with_ci sql ''UPDATE'' then
        Some (rbind (is_advanced_update P sql) (\<lambda>adv.
          if adv then parse_parsed_only sql KUpdate ''UPDATE'' else parse_update P sql))
      else if starts_with_ci sql ''DELETE FROM'' then
        Some (rbind (is_advanced_delete P sql) (\<lambda>adv.
          if adv then parse_parsed_only sql KDelete ''DELETE FROM'' else parse_delete P sql))
      else None)"

definition parse_plain :: "platform \<Rightarrow> string \<Rightarrow> sql_dialect \<Rightarrow> statement result" where
  "parse_plain P sql dialect =
     (if starts_with_ci sql ''WITH'' then parse_parsed_only sql KWith ''WITH''
      else if starts_with_ci sql ''VALUES'' then parse_parsed_only sql KValues ''VALUES''
      else if is_begin sql dialect then Ok Begin
      else if is_commit sql dialect then Ok Commit
      else if is_rollback sql dialect then Ok Rollback
      else if starts_with_ci sql ''INSERT OR '' then parse_advanced_insert_kind sql KInsert ''INSERT''
      else if starts_with_ci sql ''UPDATE OR '' then parse_parsed_only sql KUpdate ''UPDATE''
      else if starts_with_ci sql ''ROLLBACK TO'' then parse_parsed_only sql KRollbackTo ''ROLLBACK TO''
      else if starts_with_ci sql ''SAVEPOINT'' then parse_parsed_only sql KSavepoint ''SAVEPOINT''
      else if starts_with_ci sql ''RELEASE'' then parse_parsed_only sql KRelease ''RELEASE''
      else if starts_with_ci sql ''ALTER TABLE'' then parse_alter_table sql
      else if starts_with_ci sql ''ANALYZE'' then parse_parsed_only sql KAnalyze ''ANALYZE''
      else if starts_with_ci sql ''ATTACH'' then parse_attach_or_detach sql KAttach ''ATTACH''
      else if starts_with_ci sql ''DETACH'' then parse_attach_or_detach sql KDetach ''DETACH''
      else case parse_create sql of
          Some r \<Rightarrow> r
        | None \<Rightarrow>
            if starts_with_ci sql ''DROP INDEX'' then parse_drop sql KDropIndex ''DROP INDEX''
            else if starts_with_ci sql ''DROP TABLE'' then parse_drop sql KDropTable ''DROP TABLE''
            else if starts_with_ci sql ''DROP TRIGGER'' then parse_drop sql KDropTrigger ''DROP TRIGGER''
            else if starts_with_ci sql ''DROP VIEW'' then parse_drop sql KDropView ''DROP VIEW''
            else case parse_row_statement P sql of
                Some r \<Rightarrow> r
              | None \<Rightarrow>
                  if starts_with_ci sql ''PRAGMA'' then parse_parsed_only sql KPragma ''PRAGMA''
                  else if starts_with_ci sql ''REINDEX'' then parse_parsed_only sql KReindex ''REINDEX''
                  else if starts_with_ci sql ''VACUUM'' then parse_parsed_only sql KVacuum ''VACUUM''
                  else Err (Parse ''unsupported SQL statement''))"

definition statement_text :: "string \<Rightarrow> string" where
  "statement_text sql = str_trim (trim_end_matches (CHR '';'') (str_trim sql))"

text \<open>The text \<open>parse_explain\<close> hands back to the entry point.\<close>

definition skip_query_plan :: "string \<Rightarrow> string result" where
  "skip_query_plan rest =
     (if starts_with_ci rest ''QUERY PLAN''
      then rbind (slice_from rest (length ''QUERY PLAN'')) (\<lambda>q. Ok (str_trim q)) else Ok rest)"

definition explain_target :: "string \<Rightarrow> string result" where
  "explain_target sql =
     rbind (slice_from sql (length ''EXPLAIN'')) (\<lambda>r.
     rbind (skip_query_plan (str_trim r)) (\<lambda>target.
       if target = [] then Err (Parse ''EXPLAIN requires a statement'') else Ok target))"

lemma slice_length: "slice s a b = Ok t \<Longrightarrow> length t = b - a \<and> b \<le> length s"
  by (auto simp: slice_def boundary_def split: if_splits)

lemma length_concat_dropWhileEnd: "length (concat (dropWhileEnd Q xs)) \<le> length (concat xs)"
proof -
  obtain zs where "xs = dropWhileEnd Q xs @ zs"
    by (metis dropWhileEnd_def rev_append rev_rev_ident takeWhile_dropWhile_id)
  then show ?thesis by (metis concat_append length_append le_add1)
qed

lemma length_concat_dropWhile: "length (concat (dropWhile Q xs)) \<le> length (concat xs)"
  by (metis concat_append length_append le_add2 takeWhile_dropWhile_id)

lemma length_str_trim: "length (str_trim s) \<le> length s"
  unfolding str_trim_def
  by (metis concat_utf8_chars length_concat_dropWhile length_concat_dropWhileEnd order_trans)

lemma length_trim_end_matches: "length (trim_end_matches c s) \<le> length s"
  by (simp add: trim_end_matches_def dropWhileEnd_def) (metis length_dropWhile_le length_rev)

lemma length_statement_text: "length (statement_text s) \<le> length s"
  unfolding statement_text_def by (meson length_str_trim length_trim_end_matches order_trans)

lemma skip_query_plan_length:
  assumes "skip_query_plan s = Ok t"
  shows "length t \<le> length s"
proof (cases "starts_with_ci s ''QUERY PLAN''")
  case True
  then obtain q where q: "slice_from s (length ''QUERY PLAN'') = Ok q" "t = str_trim q"
    using assms unfolding skip_query_plan_def if_P [OF True] rbind_Ok_iff by auto
  then show ?thesis using slice_length [OF q(1)] length_str_trim [of q] by simp
next
  case False
  then show ?thesis using assms unfolding skip_query_plan_def if_not_P [OF False] by simp
qed

lemma explain_target_length:
  assumes "explain_target sql = Ok target"
  shows "length target + 7 \<le> length sql"
proof -
  from assms obtain r where r: "slice_from sql (length ''EXPLAIN'') = Ok r"
    and t: "skip_query_plan (str_trim r) = Ok target"
    unfolding explain_target_def rbind_Ok_iff by (auto split: if_splits)
  have "length target \<le> length r" using skip_query_plan_length [OF t] length_str_trim [of r] by linarith
  moreover have "length r = length sql - 7" "7 \<le> length sql"
    using r by (auto simp: slice_def split: if_splits)
  ultimately show ?thesis by linarith
qed

lemma explain_target_shorter: "explain_target sql = Ok target \<Longrightarrow> length target < length sql"
  using explain_target_length by fastforce

function parse_sql_with_dialect :: "platform \<Rightarrow> string \<Rightarrow> sql_dialect \<Rightarrow> statement result" where
  "parse_sql_with_dialect P text dialect =
     (if statement_text text = [] then Err (Parse ''empty SQL'')
      else if starts_with_ci (statement_text text) ''EXPLAIN'' then
        rbind (explain_target (statement_text text)) (\<lambda>rest.
        rbind (parse_sql_with_dialect P rest dialect) (\<lambda>s. Ok (Explain s)))
      else parse_plain P (statement_text text) dialect)"
  by pat_completeness auto
termination
  by (relation "measure (\<lambda>(P, text, d). length text)")
    (auto dest!: explain_target_shorter intro: less_le_trans [OF _ length_statement_text])

declare parse_sql_with_dialect.simps [simp del]

end
