(* ===== verification/Engine.thy ===== *)
theory Engine
  imports Logging Parser
begin

section \<open>The database engine\<close>

text \<open>
  \<^verbatim>\<open>src/src/engine.rs\<close>: executing a statement on a catalog, the parsed statement cache, the database with
  its transaction copy, the logs around a statement and persisting by writing a temporary file and
  renaming it. A call takes the database and the world (files, outcomes of I/O, clock) and returns its
  outcome with both.
\<close>

record database =
  db_path :: "path option"
  db_catalog :: catalog
  db_transaction :: "catalog option"
  db_options :: database_options
  statement_cache :: "(string, statement) bmap"

record parsed_statement_cache =
  capacity :: nat
  statements :: "(string, statement) bmap"

subsection \<open>The statement cache\<close>

definition cache_key :: "string \<Rightarrow> string" where
  "cache_key sql = str_trim (trim_end_matches (CHR '';'') (str_trim sql))"

definition cache_evict :: "nat \<Rightarrow> (string, statement) bmap \<Rightarrow> (string, statement) bmap" where
  "cache_evict cap cache =
     (if length cache \<ge> cap then (case cache of [] \<Rightarrow> [] | e # _ \<Rightarrow> bm_remove (fst e) cache) else cache)"

definition parse_with_cache ::
  "platform \<Rightarrow> (string, statement) bmap \<Rightarrow> nat \<Rightarrow> string \<Rightarrow> sql_dialect \<Rightarrow> statement result \<times> (string, statement) bmap"
where
  "parse_with_cache P cache cap sql dialect =
     (if cap = 0 then (parse_sql_with_dialect P sql dialect, cache)
      else let key = cache_key sql
           in case bm_get cache key of
                Some s \<Rightarrow> (Ok s, cache)
              | None \<Rightarrow>
                  (case parse_sql_with_dialect P sql dialect of
                     Ok s \<Rightarrow> (Ok s, bm_insert key s (cache_evict cap cache))
                   | Err e \<Rightarrow> (Err e, cache)
                   | Panic m \<Rightarrow> (Panic m, cache)))"

definition cache_new :: "nat \<Rightarrow> parsed_statement_cache" where
  "cache_new cap = \<lparr>capacity = cap, statements = []\<rparr>"

definition cache_parse ::
  "platform \<Rightarrow> string \<Rightarrow> sql_dialect \<Rightarrow> parsed_statement_cache \<Rightarrow> statement result \<times> parsed_statement_cache"
where
  "cache_parse P sql dialect c =
     (if capacity c = 0 then (parse_sql_with_dialect P sql dialect, c)
      else let key = cache_key sql
           in case bm_get (statements c) key of
                Some s \<Rightarrow> (Ok s, c)
              | None \<Rightarrow>
                  (case parse_sql_with_dialect P sql dialect of
                     Ok s \<Rightarrow> (Ok s, c\<lparr>statements := bm_insert key s (cache_evict (capacity c) (statements c))\<rparr>)
                   | Err e \<Rightarrow> (Err e, c)
                   | Panic m \<Rightarrow> (Panic m, c)))"

subsection \<open>Statements on a catalog\<close>

text \<open>\<^verbatim>\<open>get_mut(&table).ok_or(unknown table)\<close> and a call on the table, whose changes stay in the catalog.\<close>

definition on_table ::
  "string \<Rightarrow> (table \<Rightarrow> 'a result \<times> table) \<Rightarrow> ('a \<Rightarrow> query_result) \<Rightarrow> catalog \<Rightarrow> query_result result \<times> catalog"
where
  "on_table nm run done_msg c =
     (case bm_get (tables c) nm of
        None \<Rightarrow> (Err (Execution ''unknown table''), c)
      | Some t \<Rightarrow>
          (let (r, t') = run t
           in (rbind r (\<lambda>x. Ok (done_msg x)), c\<lparr>tables := bm_insert nm t' (tables c)\<rparr>)))"

fun execute_statement_with_options ::
  "platform \<Rightarrow> statement \<Rightarrow> table_options \<Rightarrow> catalog \<Rightarrow> query_result result \<times> catalog"
where
  "execute_statement_with_options P (CreateTable nm cols) opts c =
     (if bm_get (tables c) nm \<noteq> None
      then (Err (Execution (''table '' @ nm @ '' already exists'')), c)
      else case table_new nm cols of
          Ok t \<Rightarrow> (Ok (query_message ''table created''), c\<lparr>tables := bm_insert nm t (tables c)\<rparr>)
        | Err e \<Rightarrow> (Err e, c)
        | Panic m \<Rightarrow> (Panic m, c))"
| "execute_statement_with_options P (CreateIndex nm tbl col fulltext) opts c =
     on_table tbl (\<lambda>t. if fulltext then create_fulltext_index_with_options P nm col opts t
                       else create_index P nm col t)
       (\<lambda>_. query_message ''index created'') c"
| "execute_statement_with_options P (Insert tbl cols vals) opts c =
     on_table tbl (insert_with_options P cols vals opts) (\<lambda>_. query_affected 1 ''row inserted'') c"
| "execute_statement_with_options P (Select tbl proj filt ord lim) opts c =
     (case bm_get (tables c) tbl of
        None \<Rightarrow> (Err (Execution ''unknown table''), c)
      | Some t \<Rightarrow>
          (rbind (select_with_options P t proj filt ord lim opts) (\<lambda>rs. Ok (query_rows rs)), c))"
| "execute_statement_with_options P (Update tbl asg filt) opts c =
     on_table tbl (update_with_options P asg filt opts) (\<lambda>n. query_affected n ''row(s) updated'') c"
| "execute_statement_with_options P (Delete tbl filt) opts c =
     on_table tbl (delete_with_options P filt opts) (\<lambda>n. query_affected n ''row(s) deleted'') c"
| "execute_statement_with_options P (ParsedOnly kind sql) opts c =
     (Err (Execution (kind_as_str kind @ '' parsed successfully but execution is not implemented yet: '' @ sql)), c)"
| "execute_statement_with_options P _ opts c =
     (Err (Execution ''transaction statements must be executed by the transaction manager''), c)"

fun predicate_text :: "sql_filter option \<Rightarrow> string" where
  "predicate_text (Some (Equals col v)) = col @ '' = ?''"
| "predicate_text (Some (FullText col q)) = ''MATCH('' @ col @ '', ...)''"
| "predicate_text (Some (GeoWithin col p m incl)) = ''GEO_DISTANCE('' @ col @ '', ...)''"
| "predicate_text None = ''none''"

fun access_fields :: "access_path \<Rightarrow> string \<times> sql_value" where
  "access_fields TableScan = (''table_scan'', Null)"
| "access_fields PrimaryKeyPath = (''primary_key'', Text ''PRIMARY'')"
| "access_fields (SecondaryIndexPath nm) = (''secondary_index'', Text nm)"
| "access_fields (FullTextIndexPath nm) = (''fulltext_index'', Text nm)"

definition explain_row :: "string \<Rightarrow> sql_filter option \<Rightarrow> access_path \<Rightarrow> row" where
  "explain_row tbl filt ap =
     bm_insert ''index_name'' (snd (access_fields ap))
       (bm_insert ''access_method'' (Text (fst (access_fields ap)))
         (bm_insert ''predicate'' (Text (predicate_text filt)) (bm_insert ''table'' (Text tbl) [])))"

subsection \<open>Opening\<close>

definition try_memory_with_options :: "database_options \<Rightarrow> database result" where
  "try_memory_with_options opts =
     rbind (options_validate opts) (\<lambda>_.
       Ok \<lparr>db_path = None, db_catalog = catalog_empty, db_transaction = None, db_options = opts, statement_cache = []\<rparr>)"

definition memory_with_options :: "database_options \<Rightarrow> database result" where
  "memory_with_options opts =
     (case try_memory_with_options opts of Ok db \<Rightarrow> Ok db | _ \<Rightarrow> Panic ''invalid database options'')"

definition memory :: "database result" where
  "memory = memory_with_options database_options_default"

definition read_to_string :: "string \<Rightarrow> world \<Rightarrow> string result \<times> world" where
  "read_to_string f w =
     sbind (io_call w) (\<lambda>_ w'.
       case files w' f of
         None \<Rightarrow> (Err (error_from_io ''No such file or directory''), w')
       | Some s \<Rightarrow>
           if utf8_valid s then (Ok s, w')
           else (Err (error_from_io ''stream did not contain valid UTF-8''), w'))"

definition load_catalog :: "platform \<Rightarrow> string \<Rightarrow> table_options \<Rightarrow> world \<Rightarrow> catalog result \<times> world" where
  "load_catalog P f topts w =
     (case io_call w of
        (Ok _, w1) \<Rightarrow>
          (case files w1 f of
             None \<Rightarrow> (Ok catalog_empty, w1)
           | Some s \<Rightarrow>
               sbind (io_call w1) (\<lambda>_ w2.
                 if s = [] then (Ok catalog_empty, w2)
                 else sbind (read_to_string f w2) (\<lambda>text w3. (decode_with_options P text topts, w3))))
      | (_, w1) \<Rightarrow> (Ok catalog_empty, w1))"

definition open_with_options :: "platform \<Rightarrow> path \<Rightarrow> database_options \<Rightarrow> world \<Rightarrow> database result \<times> world" where
  "open_with_options P p opts w =
     (case options_validate opts of
        Err e \<Rightarrow> (Err e, w)
      | Panic m \<Rightarrow> (Panic m, w)
      | Ok _ \<Rightarrow>
          sbind (load_catalog P (path_text p) (table_runtime_options opts) w) (\<lambda>c w'.
            (Ok \<lparr>db_path = Some p, db_catalog = c, db_transaction = None, db_options = opts, statement_cache = []\<rparr>, w')))"

definition open_default :: "platform \<Rightarrow> path \<Rightarrow> world \<Rightarrow> database result \<times> world" where
  "open_default P p w = open_with_options P p database_options_default w"

subsection \<open>Accessors\<close>

definition in_transaction :: "database \<Rightarrow> bool" where
  "in_transaction db \<longleftrightarrow> db_transaction db \<noteq> None"

definition active_catalog :: "database \<Rightarrow> catalog" where
  "active_catalog db = (case db_transaction db of None \<Rightarrow> db_catalog db | Some c \<Rightarrow> c)"

definition set_active_catalog :: "catalog \<Rightarrow> database \<Rightarrow> database" where
  "set_active_catalog c db =
     (case db_transaction db of None \<Rightarrow> db\<lparr>db_catalog := c\<rparr> | Some _ \<Rightarrow> db\<lparr>db_transaction := Some c\<rparr>)"

definition replace_catalog :: "catalog \<Rightarrow> database \<Rightarrow> database" where
  "replace_catalog c db = db\<lparr>db_catalog := c, db_transaction := None\<rparr>"

subsection \<open>Persisting\<close>

fun write_chunks :: "string \<Rightarrow> string list \<Rightarrow> world \<Rightarrow> unit result \<times> world" where
  "write_chunks f [] w = (Ok (), w)"
| "write_chunks f (c # cs) w = sbind (file_write_all f c w) (\<lambda>_ w'. write_chunks f cs w')"

definition sync_parent :: "fsync_mode \<Rightarrow> world \<Rightarrow> world" where
  "sync_parent mode w =
     (if mode = FsyncNever then w
      else case io_call w of (Ok _, w') \<Rightarrow> snd (io_call w') | (_, w') \<Rightarrow> w')"

definition tmp_path :: "nat \<Rightarrow> path \<Rightarrow> path" where
  "tmp_path pid p = with_extension (show_nat pid @ ''.tmp'') p"

definition persist_catalog :: "nat \<Rightarrow> database_options \<Rightarrow> database \<Rightarrow> world \<Rightarrow> unit result \<times> world" where
  "persist_catalog pid opts db w =
     (case db_path db of
        None \<Rightarrow> (Ok (), w)
      | Some p \<Rightarrow>
          let tmp = path_text (tmp_path pid p)
          in sbind (if path_parent p = [] then (Ok (), w) else io_call w) (\<lambda>_ w1.
             sbind (file_create tmp w1) (\<lambda>_ w2.
               if page_size opts = 0 then (Panic ''chunk size must be non-zero'', w2)
               else sbind (write_chunks tmp (chunks (page_size opts) (encode (db_catalog db))) w2) (\<lambda>_ w3.
                    sbind (sync_file (fsync_mode opts) w3) (\<lambda>_ w4.
                    sbind (file_rename tmp (path_text p) w4) (\<lambda>_ w5.
                      (Ok (), sync_parent (fsync_mode opts) w5)))))))"

definition persist :: "nat \<Rightarrow> database \<Rightarrow> world \<Rightarrow> unit result \<times> world" where
  "persist pid db w = persist_catalog pid (db_options db) db w"

subsection \<open>Executing\<close>

type_synonym session = "database \<times> world"

definition begin_tx :: "database \<Rightarrow> query_result result \<times> database" where
  "begin_tx db =
     (if db_transaction db \<noteq> None then (Err (Execution ''transaction already active''), db)
      else (Ok (query_message ''transaction started''), db\<lparr>db_transaction := Some (db_catalog db)\<rparr>))"

definition commit_tx :: "nat \<Rightarrow> session \<Rightarrow> query_result result \<times> session" where
  "commit_tx pid s =
     (let (db, w) = s
      in case db_transaction db of
           None \<Rightarrow> (Err (Execution ''no active transaction''), s)
         | Some tx \<Rightarrow>
             (let db' = db\<lparr>db_catalog := tx\<rparr>
              in case persist pid db' w of
                   (Ok _, w') \<Rightarrow> (Ok (query_message ''transaction committed''), db'\<lparr>db_transaction := None\<rparr>, w')
                 | (Err e, w') \<Rightarrow> (Err e, db'\<lparr>db_catalog := db_catalog db\<rparr>, w')
                 | (Panic m, w') \<Rightarrow> (Panic m, db', w')))"

definition rollback_tx :: "database \<Rightarrow> query_result result \<times> database" where
  "rollback_tx db =
     (if db_transaction db = None then (Err (Execution ''no active transaction''), db)
      else (Ok (query_message ''transaction rolled back''), db\<lparr>db_transaction := None\<rparr>))"

definition explain :: "platform \<Rightarrow> statement \<Rightarrow> database \<Rightarrow> query_result result" where
  "explain P stmt db =
     (case stmt of
        Select tbl proj filt ord lim \<Rightarrow>
          rbind (ok_or (Execution ''unknown table'') (bm_get (tables (active_catalog db)) tbl)) (\<lambda>t.
          rbind (explain_filter P t filt (table_runtime_options (db_options db))) (\<lambda>ap.
            Ok (query_rows [explain_row tbl filt ap])))
      | _ \<Rightarrow> Err (Execution ''EXPLAIN only supports SELECT''))"

definition execute_catalog_statement ::
  "platform \<Rightarrow> nat \<Rightarrow> statement \<Rightarrow> session \<Rightarrow> query_result result \<times> session"
where
  "execute_catalog_statement P pid stmt s =
     (let (db, w) = s; topts = table_runtime_options (db_options db)
      in if mutates_catalog stmt \<and> db_transaction db = None then
           (case execute_statement_with_options P stmt topts (db_catalog db) of
              (Ok res, c) \<Rightarrow>
                (case persist pid (db\<lparr>db_catalog := c\<rparr>) w of
                   (Ok _, w') \<Rightarrow> (Ok res, db\<lparr>db_catalog := c\<rparr>, w')
                 | (Err e, w') \<Rightarrow> (Err e, db, w')
                 | (Panic m, w') \<Rightarrow> (Panic m, db\<lparr>db_catalog := c\<rparr>, w'))
            | (Err e, c) \<Rightarrow> (Err e, db, w)
            | (Panic m, c) \<Rightarrow> (Panic m, db\<lparr>db_catalog := c\<rparr>, w))
         else let (r, c) = execute_statement_with_options P stmt topts (active_catalog db)
              in (r, set_active_catalog c db, w))"

definition execute_parsed :: "platform \<Rightarrow> nat \<Rightarrow> statement \<Rightarrow> session \<Rightarrow> query_result result \<times> session" where
  "execute_parsed P pid stmt s =
     (case stmt of
        Begin \<Rightarrow> (let (r, db) = begin_tx (fst s) in (r, db, snd s))
      | Commit \<Rightarrow> commit_tx pid s
      | Rollback \<Rightarrow> (let (r, db) = rollback_tx (fst s) in (r, db, snd s))
      | Explain inner \<Rightarrow> (explain P inner (fst s), s)
      | _ \<Rightarrow> execute_catalog_statement P pid stmt s)"

definition is_tx_control :: "statement \<Rightarrow> bool" where
  "is_tx_control stmt \<longleftrightarrow> stmt = Begin \<or> stmt = Commit \<or> stmt = Rollback"

text \<open>The log records before a statement, after a success, and after a failure.\<close>

definition log_before :: "database \<Rightarrow> statement \<Rightarrow> string \<Rightarrow> world \<Rightarrow> unit result \<times> world" where
  "log_before db stmt sql w =
     (if mutates_catalog stmt then
        sbind (if undolog_path (db_options db) \<noteq> None
               then append_undolog (db_options db) sql (encode (active_catalog db)) w else (Ok (), w))
          (\<lambda>_ w'. append_redolog (db_options db) RedoBegin sql w')
      else if stmt = Commit then append_redolog (db_options db) RedoBegin sql w
      else (Ok (), w))"

definition log_after_ok :: "database_options \<Rightarrow> statement \<Rightarrow> string \<Rightarrow> world \<Rightarrow> unit result \<times> world" where
  "log_after_ok opts stmt sql w =
     sbind (if mutates_catalog stmt \<or> is_tx_control stmt then append_binlog opts sql w else (Ok (), w)) (\<lambda>_ w'.
       if mutates_catalog stmt \<or> stmt = Commit then append_redolog opts RedoCommit sql w' else (Ok (), w'))"

definition log_after_err :: "database_options \<Rightarrow> statement \<Rightarrow> string \<Rightarrow> world \<Rightarrow> world" where
  "log_after_err opts stmt sql w =
     (if mutates_catalog stmt \<or> stmt = Commit then snd (append_redolog opts RedoAbort sql w) else w)"

definition parse_statement :: "platform \<Rightarrow> string \<Rightarrow> database \<Rightarrow> statement result \<times> database" where
  "parse_statement P sql db =
     (let (r, cache) = parse_with_cache P (statement_cache db) (cache_capacity (db_options db)) sql
                         (sql_dialect (db_options db))
      in (r, db\<lparr>statement_cache := cache\<rparr>))"

definition execute_inner :: "platform \<Rightarrow> nat \<Rightarrow> string \<Rightarrow> session \<Rightarrow> query_result result \<times> session" where
  "execute_inner P pid sql s =
     (let (db, w) = s; (parsed, db1) = parse_statement P sql db
      in case parsed of
           Err e \<Rightarrow> (Err e, db1, w)
         | Panic m \<Rightarrow> (Panic m, db1, w)
         | Ok stmt \<Rightarrow>
             (case log_before db1 stmt sql w of
                (Err e, w1) \<Rightarrow> (Err e, db1, w1)
              | (Panic m, w1) \<Rightarrow> (Panic m, db1, w1)
              | (Ok _, w1) \<Rightarrow>
                  (case execute_parsed P pid stmt (db1, w1) of
                     (Ok res, db2, w2) \<Rightarrow>
                       (case log_after_ok (db_options db2) stmt sql w2 of
                          (Ok _, w3) \<Rightarrow> (Ok res, db2, w3)
                        | (Err e, w3) \<Rightarrow> (Err e, db2, w3)
                        | (Panic m, w3) \<Rightarrow> (Panic m, db2, w3))
                   | (Err e, db2, w2) \<Rightarrow> (Err e, db2, log_after_err (db_options db2) stmt sql w2)
                   | (Panic m, db2, w2) \<Rightarrow> (Panic m, db2, w2))))"

definition execute :: "platform \<Rightarrow> nat \<Rightarrow> nat \<Rightarrow> string \<Rightarrow> session \<Rightarrow> query_result result \<times> session" where
  "execute P pid elapsed sql s =
     (case execute_inner P pid sql s of
        (Ok res, db, w) \<Rightarrow> (Ok res, db, append_slow_sql (db_options db) sql elapsed w)
      | (Err e, db, w) \<Rightarrow> (Err e, db, append_error (db_options db) sql (error_to_string e) w)
      | (Panic m, db, w) \<Rightarrow> (Panic m, db, w))"

end
