(* ===== verification/Statements.thy ===== *)
theory Statements
  imports Engine
begin

section \<open>Statements keep the catalog well-formed\<close>

text \<open>
  \<open>execute_statement_with_options\<close> on a well-formed catalog: a success leaves a well-formed catalog,
  an error leaves the catalog it was given, and nothing panics. The locale \<open>catalog_op\<close> turns a table
  operation with the atomicity contract into a catalog operation; its interpretations are the five
  mutating operations of a table.
\<close>

subsection \<open>Preconditions\<close>

text \<open>Every Rust string is valid UTF-8; floats in filters and values are arbitrary.\<close>

fun filter_valid :: "sql_filter option \<Rightarrow> bool" where
  "filter_valid (Some (Equals col v)) = value_valid v"
| "filter_valid _ = True"

fun statement_valid :: "statement \<Rightarrow> bool" where
  "statement_valid (CreateTable nm cols) = (utf8_valid nm \<and> list_all (\<lambda>c. utf8_valid (col_name c)) cols)"
| "statement_valid (CreateIndex nm tbl col ft) = (utf8_valid nm \<and> utf8_valid col)"
| "statement_valid (Insert tbl cols vals) = list_all value_valid vals"
| "statement_valid (Update tbl asg filt) = (\<forall>e \<in> set asg. value_valid (snd e))"
| "statement_valid _ = True"

text \<open>
  What the code relies on beyond the types: row identifiers have not reached the last \<^verbatim>\<open>u64\<close>, and a
  plain index is created with the default tokenizer configured or without full-text indexes.
\<close>

fun statement_fits :: "fulltext_tokenizer \<Rightarrow> statement \<Rightarrow> catalog \<Rightarrow> bool" where
  "statement_fits tk (CreateIndex nm tbl col False) c =
     (\<forall>t. bm_get (tables c) tbl = Some t \<longrightarrow> tokenizer_safe tk t)"
| "statement_fits tk (Insert tbl cols vals) c =
     (\<forall>t. bm_get (tables c) tbl = Some t \<longrightarrow> next_row_id t \<noteq> - 1)"
| "statement_fits tk _ c = True"

subsection \<open>Table operations as catalog operations\<close>

definition same_names :: "table \<Rightarrow> table \<Rightarrow> bool" where
  "same_names t t' \<longleftrightarrow> tname t' = tname t \<and> (names_valid t \<longrightarrow> names_valid t')"

lemma same_names_refl [simp]: "same_names t t"
  by (simp add: same_names_def)

lemma names_valid_reindexed [simp]: "names_valid (reindexed P tk t) = names_valid t" "tname (reindexed P tk t) = tname t"
  using same_shape_fields [OF reindexed_shape [of P tk t]] by (simp_all add: names_valid_def)

lemma names_valid_rows [simp]: "names_valid (t\<lparr>rows := rs\<rparr>) = names_valid t"
  by (simp add: names_valid_def indexes_for_encoding_def fulltext_indexes_for_encoding_def)

lemma same_names_rows [simp]:
  "same_names t (reindexed P tk (t\<lparr>rows := rs\<rparr>))" "same_names t (reindexed P tk (with_row r t))"
  by (simp_all add: same_names_def with_row_def)

lemma encoding_insert:
  "set (indexes_for_encoding (add_persisted_index nm col t)) \<subseteq> insert (nm, col) (set (indexes_for_encoding t))"
  "set (fulltext_indexes_for_encoding (add_persisted_fulltext_index nm col t)) \<subseteq>
     insert (nm, col) (set (fulltext_indexes_for_encoding t))"
  using image_mono [OF set_bm_insert_subset [of nm "\<lparr>ix_column = col, ix_map = []\<rparr>" "indexes t"],
      of "\<lambda>e. (fst e, ix_column (snd e))"]
    image_mono [OF set_bm_insert_subset [of nm "\<lparr>ft_column = col, ft_map = []\<rparr>" "fulltext_indexes t"],
      of "\<lambda>e. (fst e, ft_column (snd e))"]
  by (simp_all add: indexes_for_encoding_def add_persisted_index_def fulltext_indexes_for_encoding_def
      add_persisted_fulltext_index_def)

lemma names_valid_add:
  assumes "utf8_valid nm" "utf8_valid col" "names_valid t"
  shows "names_valid (add_persisted_index nm col t)" "names_valid (add_persisted_fulltext_index nm col t)"
proof -
  have "fulltext_indexes_for_encoding (add_persisted_index nm col t) = fulltext_indexes_for_encoding t"
    "indexes_for_encoding (add_persisted_fulltext_index nm col t) = indexes_for_encoding t"
    "tname (add_persisted_index nm col t) = tname t" "tname (add_persisted_fulltext_index nm col t) = tname t"
    "columns (add_persisted_index nm col t) = columns t" "columns (add_persisted_fulltext_index nm col t) = columns t"
    by (simp_all add: add_persisted_index_def add_persisted_fulltext_index_def indexes_for_encoding_def
        fulltext_indexes_for_encoding_def)
  with assms encoding_insert [of nm col t] show "names_valid (add_persisted_index nm col t)"
    "names_valid (add_persisted_fulltext_index nm col t)"
    by (auto simp: names_valid_def list_all_iff)
qed

lemma same_names_index:
  "utf8_valid nm \<Longrightarrow> utf8_valid col \<Longrightarrow> same_names t (reindexed P tk (add_persisted_index nm col t))"
  "utf8_valid nm \<Longrightarrow> utf8_valid col \<Longrightarrow> same_names t (reindexed P tk (add_persisted_fulltext_index nm col t))"
  by (auto simp: same_names_def names_valid_add) (simp_all add: add_persisted_index_def add_persisted_fulltext_index_def)

locale catalog_op = atomic_op "table_ok P tk" pre run
  for P :: platform and tk :: fulltext_tokenizer and pre :: "table \<Rightarrow> bool"
    and run :: "table \<Rightarrow> 'a result \<times> table" +
  assumes frame: "table_ok P tk t \<Longrightarrow> pre t \<Longrightarrow> same_names t (snd (run t))"
begin

lemma on_table_keeps:
  assumes c: "catalog_ok P tk c" and pre: "\<And>t. bm_get (tables c) nm = Some t \<Longrightarrow> pre t"
  shows "catalog_ok P tk (snd (on_table nm run msg c))"
proof (cases "bm_get (tables c) nm")
  case None
  with c show ?thesis by (simp add: on_table_def)
next
  case (Some t)
  have t: "table_ok P tk t" "nm = tname t" "names_valid t"
    using c Some by (auto simp: catalog_ok_def dest!: map_of_SomeD)
  have "same_names t (snd (run t))" "table_ok P tk (snd (run t))"
    using frame keeps_inv t(1) pre [OF Some] by auto
  then show ?thesis
    using c Some t set_bm_insert_subset [of nm "snd (run t)" "tables c"]
    by (fastforce simp: on_table_def catalog_ok_def same_names_def split: prod.split)
qed

lemma on_table_err:
  assumes c: "catalog_ok P tk c" and pre: "\<And>t. bm_get (tables c) nm = Some t \<Longrightarrow> pre t"
    and "\<not> is_ok (fst (on_table nm run msg c))"
  shows "snd (on_table nm run msg c) = c"
proof (cases "bm_get (tables c) nm")
  case None
  then show ?thesis by (simp add: on_table_def)
next
  case (Some t)
  have "\<not> is_ok (fst (run t))"
    using assms(3) Some by (cases "run t"; cases "fst (run t)") (auto simp: on_table_def)
  then have "bm_insert nm (snd (run t)) (tables c) = tables c"
    using c Some pre [OF Some] by (intro entry_err_same) (auto simp: catalog_ok_def)
  with Some show ?thesis by (cases "run t") (simp add: on_table_def)
qed

lemma on_table_no_panic:
  assumes c: "catalog_ok P tk c" and pre: "\<And>t. bm_get (tables c) nm = Some t \<Longrightarrow> pre t"
  shows "\<not> is_panic (fst (on_table nm run msg c))"
proof (cases "bm_get (tables c) nm")
  case (Some t)
  have "table_ok P tk t" using c Some by (auto simp: catalog_ok_def dest!: map_of_SomeD)
  then have "\<not> is_panic (fst (run t))"
    using no_panic pre [OF Some] by (cases "run t"; cases "fst (run t)") auto
  with Some show ?thesis by (auto simp: on_table_def outcome_simps split: prod.split)
qed (simp add: on_table_def)

end

interpretation insert_cat: catalog_op P "fulltext_tokenizer opts" "insert_pre vals" "insert_with_options P cols vals opts"
  for P opts vals cols
  by unfold_locales (auto simp: insert_outcome split: result.splits)

interpretation update_cat: catalog_op P "fulltext_tokenizer opts" "\<lambda>_. \<forall>e \<in> set asg. value_valid (snd e)"
  "update_with_options P asg f opts" for P opts asg f
proof (unfold_locales, goal_cases)
  case (1 t)
  show ?case
  proof (cases "update_plan P asg f opts t")
    case (Ok plan)
    with update_outcome [OF 1(1) _ 1(2), of f "fst plan" "snd plan"] show ?thesis
      by (cases "keyed_rows t (updated (snd plan) (fst plan) (rows t))") auto
  qed (use 1 in \<open>auto simp: update_rejected\<close>)
qed

interpretation delete_cat: catalog_op P "fulltext_tokenizer opts" "\<lambda>_. True" "delete_with_options P f opts"
  for P opts f
  by unfold_locales (auto simp: delete_outcome split: result.splits)

interpretation create_index_cat: catalog_op P tk "\<lambda>t. tokenizer_safe tk t \<and> utf8_valid nm \<and> utf8_valid col"
  "create_index P nm col" for P tk nm col
proof (unfold_locales, goal_cases)
  case (1 s x s')
  then show ?case using create_index_op.ok_inv by blast
next
  case (2 s e s')
  then show ?case using create_index_op.err_same by blast
next
  case (3 s m s')
  then show ?case using create_index_op.no_panic by blast
next
  case (4 t)
  then show ?case by (auto simp: create_index_outcome table_ok_data same_names_index split: result.splits)
qed

interpretation create_fulltext_cat: catalog_op P "fulltext_tokenizer opts" "\<lambda>t. utf8_valid nm \<and> utf8_valid col"
  "create_fulltext_index_with_options P nm col opts" for P opts nm col
proof (unfold_locales, goal_cases)
  case (1 s x s')
  then show ?case using create_fulltext_op.ok_inv by blast
next
  case (2 s e s')
  then show ?case using create_fulltext_op.err_same by blast
next
  case (3 s m s')
  then show ?case using create_fulltext_op.no_panic by blast
next
  case (4 t)
  then show ?case by (auto simp: create_fulltext_index_outcome table_ok_data same_names_index split: result.splits)
qed

subsection \<open>Every statement\<close>

lemma create_table_keeps:
  assumes "catalog_ok P tk c" "statement_valid (CreateTable nm cols)"
  shows "catalog_ok P tk (snd (execute_statement_with_options P (CreateTable nm cols) opts c))"
proof (cases "bm_get (tables c) nm = None \<and> is_ok (table_new nm cols)")
  case True
  then obtain t where t: "table_new nm cols = Ok t" by (cases "table_new nm cols") auto
  then have "tname t = nm" "columns t = cols" "indexes t = []" "fulltext_indexes t = []"
    by (auto simp: table_new_def outcome_simps)
  then have "names_valid t" using assms(2)
    by (simp add: names_valid_def indexes_for_encoding_def fulltext_indexes_for_encoding_def)
  then show ?thesis
    using assms(1) True t table_ok_new [OF t] \<open>tname t = nm\<close> set_bm_insert_subset [of nm t "tables c"]
    by (fastforce simp: catalog_ok_def)
next
  case False
  then show ?thesis using assms(1) by (auto split: result.split)
qed

lemma statement_keeps:
  assumes "catalog_ok P (fulltext_tokenizer opts) c" "statement_valid stmt"
    "statement_fits (fulltext_tokenizer opts) stmt c"
  shows "catalog_ok P (fulltext_tokenizer opts) (snd (execute_statement_with_options P stmt opts c))"
proof (cases stmt)
  case (CreateTable nm cols)
  with assms show ?thesis using create_table_keeps by blast
next
  case (CreateIndex nm tbl col ft)
  with assms show ?thesis
    by (cases ft) (auto intro!: create_fulltext_cat.on_table_keeps create_index_cat.on_table_keeps)
next
  case (Insert tbl cols vals)
  with assms show ?thesis by (auto intro!: insert_cat.on_table_keeps)
next
  case (Update tbl asg f)
  with assms show ?thesis by (auto intro!: update_cat.on_table_keeps)
next
  case (Delete tbl f)
  with assms show ?thesis by (auto intro!: delete_cat.on_table_keeps)
qed (use assms in \<open>auto split: option.split\<close>)

lemma statement_err_same:
  assumes "catalog_ok P (fulltext_tokenizer opts) c" "statement_valid stmt"
    "statement_fits (fulltext_tokenizer opts) stmt c"
    and "\<not> is_ok (fst (execute_statement_with_options P stmt opts c))"
  shows "snd (execute_statement_with_options P stmt opts c) = c"
proof (cases stmt)
  case (CreateTable nm cols)
  with assms(4) show ?thesis by (auto split: result.splits)
next
  case (CreateIndex nm tbl col ft)
  with assms show ?thesis
    by (cases ft) (auto intro!: create_fulltext_cat.on_table_err create_index_cat.on_table_err)
next
  case (Insert tbl cols vals)
  with assms show ?thesis by (auto intro!: insert_cat.on_table_err)
next
  case (Update tbl asg f)
  with assms show ?thesis by (auto intro!: update_cat.on_table_err)
next
  case (Delete tbl f)
  with assms show ?thesis by (auto intro!: delete_cat.on_table_err)
qed (auto split: option.split)

lemma statement_no_panic:
  assumes "catalog_ok P (fulltext_tokenizer opts) c" "statement_valid stmt"
    "statement_fits (fulltext_tokenizer opts) stmt c"
  shows "\<not> is_panic (fst (execute_statement_with_options P stmt opts c))"
proof (cases stmt)
  case (CreateTable nm cols)
  then show ?thesis by (auto simp: table_new_def outcome_simps split: result.splits)
next
  case (CreateIndex nm tbl col ft)
  with assms show ?thesis
    using create_fulltext_cat.on_table_no_panic [of P opts c tbl nm col]
      create_index_cat.on_table_no_panic [of P "fulltext_tokenizer opts" c tbl nm col] by (cases ft) auto
next
  case (Insert tbl cols vals)
  with assms show ?thesis using insert_cat.on_table_no_panic by simp
next
  case (Update tbl asg f)
  with assms show ?thesis using update_cat.on_table_no_panic by simp
next
  case (Delete tbl f)
  with assms show ?thesis using delete_cat.on_table_no_panic by simp
next
  case (Select tbl p f ord lim)
  then show ?thesis
    using select_no_panic by (auto simp: is_panic_def outcome_simps split: option.split result.splits)
qed simp_all

lemma statement_reads: "\<not> mutates_catalog stmt \<Longrightarrow> snd (execute_statement_with_options P stmt opts c) = c"
  by (cases stmt) (auto split: option.split)

subsection \<open>Properties\<close>

text \<open>C4: A statement is atomic: on a well-formed catalog a success leaves a well-formed catalog, an error
  leaves exactly the catalog the statement was given, and it does not panic. Its texts are valid UTF-8, as
  Rust strings are (\<open>statement_valid\<close>), and two situations are excluded (\<open>statement_fits\<close>): an INSERT into a table
  whose identifier counter is the last 64-bit integer (the addition overflows), and a CREATE INDEX that is not
  FULLTEXT on a table with a full-text index while a tokenizer other than the default is configured: it
  succeeds, but rebuilds the postings with the default tokenizer.\<close>

theorem statement_atomic:
  assumes "catalog_ok P (fulltext_tokenizer opts) c" "statement_valid stmt"
    "statement_fits (fulltext_tokenizer opts) stmt c"
  shows "case execute_statement_with_options P stmt opts c of
      (Ok res, c') \<Rightarrow> catalog_ok P (fulltext_tokenizer opts) c'
    | (Err e, c') \<Rightarrow> c' = c
    | (Panic m, c') \<Rightarrow> False"
  using statement_keeps [OF assms] statement_err_same [OF assms] statement_no_panic [OF assms]
  by (cases "execute_statement_with_options P stmt opts c"; cases "fst (execute_statement_with_options P stmt opts c)")
    auto

definition demo_base :: catalog where
  "demo_base = \<lparr>tables = [(''t'', reindexed demo_platform SimpleTok demo_one_row)]\<rparr>"

lemma demo_base_ok: "catalog_ok demo_platform SimpleTok demo_base"
  using demo_one_row_ok [of demo_platform SimpleTok]
  by (simp add: catalog_ok_def demo_base_def bm_ok_def)
    (simp add: demo_one_row_def demo_table_def demo_columns_def names_valid_def indexes_for_encoding_def
      fulltext_indexes_for_encoding_def code_def)

theorem statement_atomic_witness:
  "(\<exists>c'. execute_statement_with_options demo_platform (Delete ''t'' None) table_options_default demo_base =
        (Ok (query_affected 1 ''row(s) deleted''), c') \<and> catalog_ok demo_platform SimpleTok c') \<and>
   (\<exists>e. execute_statement_with_options demo_platform (Update ''t'' [(''nosuch'', Null)] None) table_options_default demo_base =
        (Err e, demo_base))"
proof
  note atomic = statement_atomic [where P = demo_platform and opts = table_options_default and c = demo_base]
  have ok: "catalog_ok demo_platform (fulltext_tokenizer table_options_default) demo_base"
    using demo_base_ok by (simp add: demo_fields)
  let ?t = "reindexed demo_platform SimpleTok demo_one_row"
  have t: "bm_get (tables demo_base) ''t'' = Some ?t" by (simp add: demo_base_def)
  have "fst (delete_with_options demo_platform None table_options_default ?t) = Ok 1"
    using delete_outcome [of demo_platform table_options_default ?t None] demo_one_row_ok [of demo_platform SimpleTok]
    by (simp add: demo_fields delete_plan_def normalize_filter_def matching_row_ids_def)
  then have "fst (execute_statement_with_options demo_platform (Delete ''t'' None) table_options_default demo_base) =
      Ok (query_affected 1 ''row(s) deleted'')"
    using t by (cases "delete_with_options demo_platform None table_options_default ?t") (simp add: on_table_def)
  then show "\<exists>c'. execute_statement_with_options demo_platform (Delete ''t'' None) table_options_default demo_base =
      (Ok (query_affected 1 ''row(s) deleted''), c') \<and> catalog_ok demo_platform SimpleTok c'"
    using atomic [of "Delete ''t'' None"] ok
    by (cases "execute_statement_with_options demo_platform (Delete ''t'' None) table_options_default demo_base")
      (simp add: demo_fields)
  have "update_plan demo_platform [(''nosuch'', Null)] None table_options_default ?t =
      Err (Execution ''unknown column nosuch'')"
    by (simp add: update_plan_def normalize_filter_def matching_row_ids_def table_column_def demo_columns_def)
  then have "\<exists>e. fst (execute_statement_with_options demo_platform (Update ''t'' [(''nosuch'', Null)] None)
      table_options_default demo_base) = Err e"
    using t update_rejected [of demo_platform table_options_default ?t] demo_one_row_ok [of demo_platform SimpleTok]
    by (simp add: on_table_def demo_fields)
  then show "\<exists>e. execute_statement_with_options demo_platform (Update ''t'' [(''nosuch'', Null)] None)
      table_options_default demo_base = (Err e, demo_base)"
    using atomic [of "Update ''t'' [(''nosuch'', Null)] None"] ok
    by (cases "execute_statement_with_options demo_platform (Update ''t'' [(''nosuch'', Null)] None) table_options_default demo_base")
      auto
qed

end
