(* ===== verification/Durability.thy ===== *)
theory Durability
  imports Statements
begin

section \<open>Persistence and transactions\<close>

text \<open>
  For every pattern of I/O failures: persisting replaces the database file by the complete new text or
  leaves it alone, and reports which; a statement or a commit that fails changes neither the catalog
  nor the file; a transaction is invisible until its commit. Together: whatever happens, opening the file
  again yields the committed catalog.
\<close>

subsection \<open>File operations\<close>

lemma io_step_cases:
  obtains w' where "io_step w = (Done, w')" "files w' = files w"
  | k m w' where "io_step w = (Fails k m, w')" "files w' = files w"
  by (cases "outcomes w"; cases "hd (outcomes w)") (auto simp: io_step_def)

lemma io_call_cases:
  obtains w' where "io_call w = (Ok (), w')" "files w' = files w"
  | e w' where "io_call w = (Err e, w')" "files w' = files w"
  by (cases w rule: io_step_cases) (auto simp: io_call_def)

lemma io_call_files [simp]: "files (snd (io_call w)) = files w"
  by (cases w rule: io_call_cases) simp_all

lemma sync_file_files [simp]: "files (snd (sync_file mode w)) = files w"
  by (cases mode) (simp_all add: sync_file_def)

lemma sync_parent_files [simp]: "files (sync_parent mode w) = files w"
  by (cases w rule: io_call_cases) (simp_all add: sync_parent_def)

text \<open>
  Triples for calls on the world: from \<open>w\<close> the call ends in \<open>Q\<close> when it succeeds and in \<open>E\<close> when it
  fails, and it does not panic.
\<close>

definition run_post :: "'a result \<times> world \<Rightarrow> (world \<Rightarrow> bool) \<Rightarrow> (world \<Rightarrow> bool) \<Rightarrow> bool" where
  "run_post m Q E = (case m of (Ok _, w) \<Rightarrow> Q w | (Err _, w) \<Rightarrow> E w | (Panic _, w) \<Rightarrow> False)"

named_theorems triples \<open>triples of the file operations\<close>

lemma run_post_Ok [simp]: "run_post (Ok x, w) Q E = Q w"
  by (simp add: run_post_def)

lemma run_post_sbind [triples]:
  "run_post m (\<lambda>w. \<forall>x. run_post (f x w) Q E) E \<Longrightarrow> run_post (sbind m f) Q E"
  by (cases m; cases "fst m") (auto simp: run_post_def)

lemma run_post_io_call [triples]:
  "(\<And>w'. files w' = files w \<Longrightarrow> Q w' \<and> E w') \<Longrightarrow> run_post (io_call w) Q E"
  by (cases w rule: io_call_cases) (auto simp: run_post_def)

lemma run_post_optional [triples]:
  "(\<And>w'. files w' = files w \<Longrightarrow> Q w' \<and> E w') \<Longrightarrow> run_post (if b then (Ok (), w) else io_call w) Q E"
  by (simp add: run_post_io_call)

lemma run_post_sync [triples]:
  "(\<And>w'. files w' = files w \<Longrightarrow> Q w' \<and> E w') \<Longrightarrow> run_post (sync_file mode w) Q E"
  by (cases mode) (auto simp: sync_file_def intro: run_post_io_call)

lemma run_post_create [triples]:
  "(\<And>w'. files w' = (files w)(f \<mapsto> []) \<Longrightarrow> Q w') \<Longrightarrow> (\<And>w'. files w' = files w \<Longrightarrow> E w') \<Longrightarrow>
     run_post (file_create f w) Q E"
  by (cases w rule: io_step_cases) (auto simp: file_create_def run_post_def)

lemma run_post_rename [triples]:
  "(\<And>w'. files w' = (files w)(b := files w a, a := None) \<Longrightarrow> Q w') \<Longrightarrow> (\<And>w'. files w' = files w \<Longrightarrow> E w') \<Longrightarrow>
     run_post (file_rename a b w) Q E"
  by (cases w rule: io_step_cases) (auto simp: file_rename_def run_post_def)

definition same_except :: "string set \<Rightarrow> world \<Rightarrow> world \<Rightarrow> bool" where
  "same_except S w w' \<longleftrightarrow> (\<forall>f. f \<notin> S \<longrightarrow> files w' f = files w f)"

lemma same_except_refl [simp]: "same_except S w w"
  by (simp add: same_except_def)

lemma same_except_trans [trans]: "same_except S w w' \<Longrightarrow> same_except S w' w'' \<Longrightarrow> same_except S w w''"
  by (simp add: same_except_def)

lemma same_except_mono: "same_except S w w' \<Longrightarrow> S \<subseteq> T \<Longrightarrow> same_except T w w'"
  by (auto simp: same_except_def)

lemma run_post_write [triples]:
  assumes "files w f = Some s"
    and "\<And>w'. same_except {f} w w' \<Longrightarrow> files w' f = Some (s @ bs) \<Longrightarrow> Q w'"
    and "\<And>w' k. same_except {f} w w' \<Longrightarrow> files w' f = Some (s @ take k bs) \<Longrightarrow> E w'"
  shows "run_post (file_write_all f bs w) Q E"
  using assms by (cases w rule: io_step_cases)
    (auto simp: file_write_all_def run_post_def file_append_def same_except_def)

lemma run_post_chunks [triples]:
  assumes "files w f = Some s"
    and "\<And>w'. same_except {f} w w' \<Longrightarrow> files w' f = Some (s @ concat cs) \<Longrightarrow> Q w'"
    and "\<And>w'. same_except {f} w w' \<Longrightarrow> E w'"
  shows "run_post (write_chunks f cs w) Q E"
  using assms
proof (induction cs arbitrary: w s)
  case (Cons c cs)
  have "run_post (file_write_all f c w) (\<lambda>w'. run_post (write_chunks f cs w') Q E) E"
  proof (rule run_post_write [OF Cons.prems(1)])
    fix w' assume w': "same_except {f} w w'" "files w' f = Some (s @ c)"
    show "run_post (write_chunks f cs w') Q E"
      using Cons.prems(2,3) same_except_trans [OF w'(1)] by (intro Cons.IH [OF w'(2)]) auto
  qed (use Cons.prems in auto)
  then show ?case by (auto intro: run_post_sbind)
qed simp

subsection \<open>The temporary file\<close>

definition path_ok :: "path \<Rightarrow> bool" where
  "path_ok p \<longleftrightarrow> (case path_extension p of None \<Rightarrow> True | Some e \<Rightarrow> CHR ''.'' \<notin> set e)"

lemma tmp_path_differs: "path_ok p \<Longrightarrow> path_text (tmp_path pid p) \<noteq> path_text p"
proof
  assume ok: "path_ok p" and eq: "path_text (tmp_path pid p) = path_text p"
  then have "path_extension p = Some (show_nat pid @ ''.tmp'')"
    by (cases "path_extension p") (auto simp: path_text_def tmp_path_def with_extension_def)
  with ok show False by (simp add: path_ok_def)
qed

subsection \<open>Persisting is all or nothing\<close>

lemma persist_post:
  assumes path: "db_path db = Some p" "path_ok p" and page: "0 < page_size opts"
  shows "run_post (persist_catalog pid opts db w)
    (\<lambda>w'. files w' (path_text p) = Some (encode (db_catalog db)) \<and>
          same_except {path_text p, path_text (tmp_path pid p)} w w')
    (same_except {path_text (tmp_path pid p)} w)"
proof -
  define tmp where "tmp = path_text (tmp_path pid p)"
  define new where "new = encode (db_catalog db)"
  define good where "good w' \<longleftrightarrow> files w' (path_text p) = Some new \<and> same_except {path_text p, tmp} w w'" for w'
  define bad where "bad w' \<longleftrightarrow> same_except {tmp} w w'" for w'
  define install where "install w' = sbind (sync_file (fsync_mode opts) w') (\<lambda>_ w4.
    sbind (file_rename tmp (path_text p) w4) (\<lambda>_ w5. (Ok (), sync_parent (fsync_mode opts) w5)))" for w'
  have ne: "tmp \<noteq> path_text p" using tmp_path_differs [OF path(2)] by (simp add: tmp_def)
  have inst: "run_post (install w3) good bad" if w3: "bad w3" "files w3 tmp = Some new" for w3
    unfolding install_def using w3 ne
    by (auto simp: bad_def good_def same_except_def intro!: run_post_sbind run_post_sync run_post_rename)
  have writes: "run_post (sbind (write_chunks tmp (chunks (page_size opts) new) w2) (\<lambda>_. install)) good bad"
    if w2: "bad w2" "files w2 tmp = Some []" for w2
  proof (rule run_post_sbind, rule run_post_chunks [OF w2(2)])
    fix w' assume w': "same_except {tmp} w2 w'"
    then show bad: "bad w'" using w2(1) unfolding bad_def by (rule same_except_trans [rotated])
    assume "files w' tmp = Some ([] @ concat (chunks (page_size opts) new))"
    with inst bad page show "\<forall>x. run_post (install w') good bad" by (simp add: concat_chunks)
  qed
  have "run_post (sbind (if path_parent p = [] then (Ok (), w) else io_call w) (\<lambda>_ w1.
      sbind (file_create tmp w1) (\<lambda>_ w2.
      sbind (write_chunks tmp (chunks (page_size opts) new) w2) (\<lambda>_. install)))) good bad"
    by (rule run_post_sbind, rule run_post_optional)
      (auto simp: bad_def same_except_def intro!: run_post_sbind [of "file_create tmp _"] run_post_create writes)
  with path page show ?thesis
    by (simp add: persist_catalog_def Let_def install_def [abs_def] good_def [abs_def] bad_def [abs_def] tmp_def new_def
        cong: if_cong)
qed

subsection \<open>Logs are append only\<close>

lemma run_post_open_append [triples]:
  "(\<And>w'. files w' = (files w)(f \<mapsto> (case files w f of None \<Rightarrow> [] | Some s \<Rightarrow> s)) \<Longrightarrow> Q w') \<Longrightarrow>
   (\<And>w'. files w' = files w \<Longrightarrow> E w') \<Longrightarrow> run_post (file_open_append f w) Q E"
  by (cases w rule: io_step_cases; cases "files w f") (auto simp: file_open_append_def run_post_def fun_upd_idem)

definition log_text :: "string \<Rightarrow> world \<Rightarrow> string" where
  "log_text f w = (case files w f of None \<Rightarrow> [] | Some s \<Rightarrow> s)"

lemma append_line_post:
  "run_post (append_line p line mode w)
     (\<lambda>w'. log_text (path_text p) w' = log_text (path_text p) w @ line \<and> same_except {path_text p} w w')
     (\<lambda>w'. (\<exists>k. log_text (path_text p) w' = log_text (path_text p) w @ take k line) \<and> same_except {path_text p} w w')"
proof -
  define f where "f = path_text p"
  define old where "old = log_text f w"
  define good where "good w' \<longleftrightarrow> log_text f w' = old @ line \<and> same_except {f} w w'" for w'
  define bad where "bad w' \<longleftrightarrow> (\<exists>k. log_text f w' = old @ take k line) \<and> same_except {f} w w'" for w'
  have good_bad: "good w' \<Longrightarrow> bad w'" for w' unfolding good_def bad_def by (metis order_refl take_all)
  have same: "files w1 = files w \<Longrightarrow> bad w1" for w1
    unfolding bad_def old_def log_text_def same_except_def by (metis append_Nil2 take0)
  have good_files: "files w' = files w'' \<Longrightarrow> good w'' \<Longrightarrow> good w'" for w' w''
    by (simp add: good_def log_text_def same_except_def)
  have tail: "run_post (sbind (io_call w3) (\<lambda>_ w4. sync_file mode w4)) good bad" if "good w3" for w3
    using that good_files good_bad
    by (intro run_post_sbind run_post_io_call) (auto intro!: run_post_sync)
  have "run_post (sbind (file_write_all f line w2) (\<lambda>_ w3. sbind (io_call w3) (\<lambda>_ w4. sync_file mode w4))) good bad"
    if w2: "files w2 = (files w)(f \<mapsto> old)" for w2
    by (rule run_post_sbind, rule run_post_write [of _ _ old])
      (use w2 tail in \<open>auto simp: good_def bad_def log_text_def same_except_def\<close>)
  moreover have "bad w2" if "files w2 = (files w)(f \<mapsto> old)" for w2
    using that unfolding bad_def by (intro conjI exI [of _ 0]) (auto simp: log_text_def same_except_def)
  ultimately have "run_post (append_line p line mode w) good bad"
    unfolding append_line_def f_def [symmetric] using same
    by (intro run_post_sbind run_post_optional)
      (auto simp: old_def log_text_def intro!: run_post_sbind [of "file_open_append f _"] run_post_open_append)
  then show ?thesis unfolding good_def [abs_def] bad_def [abs_def] old_def f_def .
qed

definition log_files :: "database_options \<Rightarrow> string set" where
  "log_files opts = path_text ` (set_option (slow_sql_log_path opts) \<union> set_option (error_log_path opts) \<union>
     set_option (binlog_path opts) \<union> set_option (redolog_path opts) \<union> set_option (undolog_path opts))"

text \<open>A call that fails or succeeds, does not panic, and writes to log files only.\<close>

definition logs_only :: "database_options \<Rightarrow> world \<Rightarrow> unit result \<times> world \<Rightarrow> bool" where
  "logs_only opts w m \<longleftrightarrow> run_post m (same_except (log_files opts) w) (same_except (log_files opts) w)"

lemma logs_onlyD: "logs_only opts w m \<Longrightarrow> \<not> is_panic (fst m) \<and> same_except (log_files opts) w (snd m)"
  by (cases m; cases "fst m") (auto simp: logs_only_def run_post_def)

lemma run_post_weaken:
  "run_post m Q E \<Longrightarrow> (\<And>w. Q w \<Longrightarrow> Q' w) \<Longrightarrow> (\<And>w. E w \<Longrightarrow> E' w) \<Longrightarrow> run_post m Q' E'"
  by (cases m; cases "fst m") (auto simp: run_post_def)

lemma append_optional_logs_only:
  assumes "set_option q \<subseteq> set_option (slow_sql_log_path opts) \<union> set_option (error_log_path opts) \<union>
     set_option (binlog_path opts) \<union> set_option (redolog_path opts) \<union> set_option (undolog_path opts)"
    and "files w1 = files w"
  shows "logs_only opts w (append_optional_line opts q line w1)"
proof (cases q)
  case None
  then show ?thesis using assms(2) by (simp add: append_optional_line_def logs_only_def same_except_def)
next
  case (Some p)
  then have "path_text p \<in> log_files opts" using assms(1) by (auto simp: log_files_def)
  then show ?thesis
    using append_line_post [of p line "fsync_mode opts" w1] assms(2) unfolding Some append_optional_line_def logs_only_def
    by (auto simp: same_except_def elim!: run_post_weaken) metis+
qed

lemma timestamp_files [simp]: "files (snd (timestamp_millis w)) = files w"
  by (cases "clock w") (auto simp: timestamp_millis_def)

lemma timestamp_filesD: "timestamp_millis w = (t, w') \<Longrightarrow> files w' = files w"
  by (metis snd_conv timestamp_files)

lemma append_logs_only:
  "logs_only opts w (append_binlog opts sql w)" "logs_only opts w (append_redolog opts ev sql w)"
  "logs_only opts w (append_undolog opts sql snapshot w)"
  by (auto simp: append_binlog_def append_redolog_def append_undolog_def Let_def logs_only_def [of opts w "(Ok (), w)"]
      split: prod.split intro!: append_optional_logs_only timestamp_filesD)

lemma append_slow_error_files:
  "same_except (log_files opts) w (append_slow_sql opts sql elapsed w)"
  "same_except (log_files opts) w (append_error opts sql err w)"
  by (auto simp: append_slow_sql_def append_error_def split: prod.split option.split
      intro!: logs_onlyD [THEN conjunct2] append_optional_logs_only timestamp_filesD)

lemma logs_only_sbind:
  assumes "logs_only opts w m" "\<And>x w'. same_except (log_files opts) w w' \<Longrightarrow> logs_only opts w' (f x w')"
  shows "logs_only opts w (sbind m f)"
  unfolding logs_only_def
proof (rule run_post_sbind, rule run_post_weaken [OF assms(1) [unfolded logs_only_def]])
  fix w' assume w': "same_except (log_files opts) w w'"
  show "\<forall>x. run_post (f x w') (same_except (log_files opts) w) (same_except (log_files opts) w)"
    using assms(2) [OF w', unfolded logs_only_def] same_except_trans [OF w'] by (blast intro: run_post_weaken)
qed

lemma logs_only_skip [simp]: "logs_only opts w (Ok (), w)"
  by (simp add: logs_only_def)

lemma log_before_logs_only: "logs_only (db_options db) w (log_before db stmt sql w)"
  by (auto simp: log_before_def intro!: logs_only_sbind append_logs_only)

lemma log_after_ok_logs_only: "logs_only opts w (log_after_ok opts stmt sql w)"
  by (auto simp: log_after_ok_def intro!: logs_only_sbind append_logs_only)

lemma log_after_err_files: "same_except (log_files opts) w (log_after_err opts stmt sql w)"
  using logs_onlyD [OF append_logs_only(2) [of opts w RedoAbort sql]] by (simp add: log_after_err_def)

subsection \<open>Properties\<close>

definition demo_path :: path where
  "demo_path = \<lparr>path_parent = ''data'', path_stem = ''main'', path_extension = Some ''fsql''\<rparr>"

definition demo_database :: database where
  "demo_database = \<lparr>db_path = Some demo_path, db_catalog = demo_catalog, db_transaction = None,
     db_options = database_options_default, statement_cache = []\<rparr>"

definition demo_world :: world where
  "demo_world = \<lparr>files = (\<lambda>f. if f = path_text demo_path then Some (encode demo_catalog) else None),
     outcomes = [Done, Done, Fails 3 ''disk full''], clock = []\<rparr>"

text \<open>C6: Persisting is all or nothing, whatever I/O operation fails and wherever a write stops: it reports
  success with the database file holding the complete encoding of the catalog, or reports an error with
  the database file untouched; it writes no file but the database file and its temporary file.\<close>

theorem persist_atomic:
  assumes "db_path db = Some p" "path_ok p" "0 < page_size opts"
  shows "case persist_catalog pid opts db w of
      (Ok u, w') \<Rightarrow> files w' (path_text p) = Some (encode (db_catalog db)) \<and>
        same_except {path_text p, path_text (tmp_path pid p)} w w'
    | (Err e, w') \<Rightarrow> files w' (path_text p) = files w (path_text p) \<and>
        same_except {path_text (tmp_path pid p)} w w'
    | (Panic m, w') \<Rightarrow> False"
  using persist_post [OF assms, of pid w] tmp_path_differs [OF assms(2), of pid]
  by (cases "persist_catalog pid opts db w"; cases "fst (persist_catalog pid opts db w)")
    (auto simp: run_post_def same_except_def)

theorem persist_atomic_witness:
  "fst (persist_catalog 7 database_options_default demo_database demo_world) = Err (Io ''disk full'') \<and>
   files (snd (persist_catalog 7 database_options_default demo_database demo_world)) (path_text demo_path) =
     Some (encode demo_catalog)"
proof -
  have ne: "encode demo_catalog \<noteq> []" "chunks 4096 (encode demo_catalog) \<noteq> []"
    by (simp_all add: encode_def chunks.simps)
  have failed: "fst (persist_catalog 7 database_options_default demo_database demo_world) = Err (Io ''disk full'')"
    using ne by (cases "chunks 4096 (encode demo_catalog)")
      (simp_all add: persist_catalog_def demo_database_def demo_world_def demo_path_def database_options_default_def
        io_call_def io_step_def file_create_def file_write_all_def error_from_io_def Let_def)
  show ?thesis
    using persist_atomic [of demo_database demo_path database_options_default 7 demo_world] failed
    by (cases "persist_catalog 7 database_options_default demo_database demo_world")
      (simp add: demo_database_def path_ok_def demo_path_def database_options_default_def demo_world_def)
qed

text \<open>C38: Logs are append only: writing a line extends the log by exactly that line, or, when an I/O operation
  fails, by a prefix of it; no other file changes.\<close>

theorem log_append_only:
  "case append_line p line mode w of
     (Ok u, w') \<Rightarrow> log_text (path_text p) w' = log_text (path_text p) w @ line \<and> same_except {path_text p} w w'
   | (Err e, w') \<Rightarrow> (\<exists>k. log_text (path_text p) w' = log_text (path_text p) w @ take k line) \<and>
       same_except {path_text p} w w'
   | (Panic m, w') \<Rightarrow> False"
  using append_line_post [of p line mode w]
  by (cases "append_line p line mode w"; cases "fst (append_line p line mode w)") (auto simp: run_post_def)

end
