(* ===== verification/Sessions.thy ===== *)
theory Sessions
  imports Durability
begin

section \<open>Database sessions\<close>

text \<open>
  A specification of transactions as a step relation on (committed catalog, pending catalog), that
  the engine refines it for every pattern of I/O failures, and the invariant of a session: catalogs
  stay well-formed, the statement cache agrees with the parser, and the database file always holds
  the committed catalog. Sequences of calls of \<open>execute\<close> are followed with their logs (\<open>tx_frame\<close>).
\<close>

subsection \<open>The transaction specification\<close>

type_synonym tx_state = "catalog \<times> catalog option"

text \<open>What statements read: the pending catalog of an open transaction, else the committed one.\<close>

definition tx_view :: "tx_state \<Rightarrow> catalog" where
  "tx_view s = (case snd s of None \<Rightarrow> fst s | Some d \<Rightarrow> d)"

inductive tx_step :: "platform \<Rightarrow> table_options \<Rightarrow> statement \<Rightarrow> query_result result \<Rightarrow> tx_state \<Rightarrow> tx_state \<Rightarrow> bool"
  for P opts where
  tx_begin: "tx_step P opts Begin (Ok (query_message ''transaction started'')) (c, None) (c, Some c)"
| tx_commit: "tx_step P opts Commit (Ok (query_message ''transaction committed'')) (c, Some d) (d, None)"
| tx_rollback: "tx_step P opts Rollback (Ok (query_message ''transaction rolled back'')) (c, Some d) (c, None)"
| tx_auto: "execute_statement_with_options P stmt opts c = (Ok r, c') \<Longrightarrow> mutates_catalog stmt \<Longrightarrow>
    tx_step P opts stmt (Ok r) (c, None) (c', None)"
| tx_inside: "execute_statement_with_options P stmt opts d = (Ok r, d') \<Longrightarrow> mutates_catalog stmt \<Longrightarrow>
    tx_step P opts stmt (Ok r) (c, Some d) (c, Some d')"
| tx_read: "execute_statement_with_options P stmt opts (tx_view s) = (Ok r, c) \<Longrightarrow> \<not> mutates_catalog stmt \<Longrightarrow>
    \<not> is_tx_control stmt \<Longrightarrow> tx_step P opts stmt (Ok r) s s"
| tx_explain: "bm_get (tables (tx_view s)) tbl = Some t \<Longrightarrow> explain_filter P t filt opts = Ok ap \<Longrightarrow>
    tx_step P opts (Explain (Select tbl proj filt ord lim)) (Ok (query_rows [explain_row tbl filt ap])) s s"
| tx_fail: "tx_step P opts stmt (Err e) s s"

inductive_cases tx_step_Ok: "tx_step P opts stmt (Ok r) s s'"
inductive_cases tx_step_Err: "tx_step P opts stmt (Err e) s s'"

definition abs_tx :: "database \<Rightarrow> tx_state" where
  "abs_tx db = (db_catalog db, db_transaction db)"

lemma tx_view_abs [simp]: "tx_view (abs_tx db) = active_catalog db"
  by (simp add: tx_view_def abs_tx_def active_catalog_def split: option.split)

subsection \<open>The invariant\<close>

definition cache_ok :: "platform \<Rightarrow> sql_dialect \<Rightarrow> (string, statement) bmap \<Rightarrow> bool" where
  "cache_ok P d cache \<longleftrightarrow> bm_ok cache \<and>
     (\<forall>e \<in> set cache. \<forall>sql. cache_key sql = fst e \<longrightarrow> parse_sql_with_dialect P sql d = Ok (snd e))"

abbreviation tokenizer_of :: "database \<Rightarrow> fulltext_tokenizer" where
  "tokenizer_of db \<equiv> fulltext_tokenizer (table_runtime_options (db_options db))"

definition db_ok :: "platform \<Rightarrow> database \<Rightarrow> bool" where
  "db_ok P db \<longleftrightarrow>
     options_validate (db_options db) = Ok () \<and>
     cache_ok P (sql_dialect (db_options db)) (statement_cache db) \<and>
     catalog_ok P (tokenizer_of db) (db_catalog db) \<and>
     (\<forall>c. db_transaction db = Some c \<longrightarrow> catalog_ok P (tokenizer_of db) c) \<and>
     (\<forall>p. db_path db = Some p \<longrightarrow> path_ok p \<and> path_text p \<notin> log_files (db_options db))"

definition stored :: "path option \<Rightarrow> catalog \<Rightarrow> world \<Rightarrow> bool" where
  "stored pth c w \<longleftrightarrow>
     (\<forall>p. pth = Some p \<longrightarrow>
        files w (path_text p) = Some (encode c) \<or>
        (files w (path_text p) = None \<or> files w (path_text p) = Some []) \<and> c = catalog_empty)"

lemma stored_same:
  "stored pth c w \<Longrightarrow> same_except S w w' \<Longrightarrow> (\<And>p. pth = Some p \<Longrightarrow> path_text p \<notin> S) \<Longrightarrow> stored pth c w'"
  by (simp add: stored_def same_except_def)

lemma valid_page: "options_validate opts = Ok () \<Longrightarrow> 0 < page_size opts"
  by (auto simp: options_validate_iff)

subsection \<open>The statement cache\<close>

lemma parse_cong: "cache_key a = cache_key b \<Longrightarrow> parse_sql_with_dialect P a d = parse_sql_with_dialect P b d"
  by (simp add: parse_sql_with_dialect.simps [of P a d] parse_sql_with_dialect.simps [of P b d] statement_text_def cache_key_def)

lemma cache_evict_ok:
  assumes "cache_ok P d cache"
  shows "cache_ok P d (cache_evict cap cache)"
proof -
  have "bm_ok (cache_evict cap cache)" "set (cache_evict cap cache) \<subseteq> set cache"
    using assms by (auto simp: cache_evict_def cache_ok_def bm_remove_def bm_ok_Cons split: list.split)
  with assms show ?thesis unfolding cache_ok_def by blast
qed

lemma parse_with_cache_result:
  assumes "cache_ok P d cache"
  shows "fst (parse_with_cache P cache cap sql d) = parse_sql_with_dialect P sql d"
    and "cache_ok P d (snd (parse_with_cache P cache cap sql d))"
proof -
  show "fst (parse_with_cache P cache cap sql d) = parse_sql_with_dialect P sql d"
    using assms by (auto simp: parse_with_cache_def cache_ok_def Let_def split: option.split result.split dest!: map_of_SomeD)
  have "cache_ok P d (bm_insert (cache_key sql) s (cache_evict cap cache))"
    if "parse_sql_with_dialect P sql d = Ok s" for s
    using cache_evict_ok [OF assms, of cap] that set_bm_insert_subset [of "cache_key sql" s "cache_evict cap cache"]
    by (fastforce simp: cache_ok_def dest: parse_cong [of _ sql P d])
  then show "cache_ok P d (snd (parse_with_cache P cache cap sql d))"
    using assms by (auto simp: parse_with_cache_def Let_def split: option.split result.split)
qed

lemma length_bm_insert: "length (bm_insert k v m) \<le> Suc (length m)"
  by (induction m) auto

lemma parse_with_cache_bounded:
  assumes "length cache \<le> cap"
  shows "length (snd (parse_with_cache P cache cap sql d)) \<le> cap"
proof (cases "cap = 0")
  case False
  have "length (cache_evict cap cache) < cap"
  proof (cases cache)
    case (Cons e es)
    have "length (filter (\<lambda>x. fst x \<noteq> fst e) es) \<le> length es" by simp
    then show ?thesis using assms False Cons by (auto simp: cache_evict_def bm_remove_def less_Suc_eq_le)
  qed (use False in \<open>simp add: cache_evict_def\<close>)
  then have "length (bm_insert k s (cache_evict cap cache)) \<le> cap" for k s
    using length_bm_insert [of k s "cache_evict cap cache"] by linarith
  with assms show ?thesis by (auto simp: parse_with_cache_def Let_def split: option.split result.split)
qed (use assms in \<open>simp add: parse_with_cache_def\<close>)

subsection \<open>The engine refines the specification\<close>

lemma persist_cases:
  assumes "db_ok P db"
  obtains (ok) w' where "persist pid (db\<lparr>db_catalog := c\<rparr>) w = (Ok (), w')" "stored (db_path db) c w'"
  | (err) e w' where "persist pid (db\<lparr>db_catalog := c\<rparr>) w = (Err e, w')"
      "\<And>c'. stored (db_path db) c' w \<Longrightarrow> stored (db_path db) c' w'"
proof (cases "db_path db")
  case None
  then show ?thesis using ok by (simp add: persist_def persist_catalog_def stored_def)
next
  case (Some p)
  have p: "path_ok p" "0 < page_size (db_options db)" using assms Some by (auto simp: db_ok_def valid_page)
  have "run_post (persist pid (db\<lparr>db_catalog := c\<rparr>) w)
      (\<lambda>w'. files w' (path_text p) = Some (encode c) \<and> same_except {path_text p, path_text (tmp_path pid p)} w w')
      (same_except {path_text (tmp_path pid p)} w)"
    using persist_post [of "db\<lparr>db_catalog := c\<rparr>" p "db_options db" pid w] p Some by (simp add: persist_def)
  then consider w' where "persist pid (db\<lparr>db_catalog := c\<rparr>) w = (Ok (), w')" "files w' (path_text p) = Some (encode c)"
    | e w' where "persist pid (db\<lparr>db_catalog := c\<rparr>) w = (Err e, w')" "same_except {path_text (tmp_path pid p)} w w'"
    by (cases "persist pid (db\<lparr>db_catalog := c\<rparr>) w"; cases "fst (persist pid (db\<lparr>db_catalog := c\<rparr>) w)")
      (auto simp: run_post_def)
  then show ?thesis
  proof cases
    case 1
    then show ?thesis using ok Some by (simp add: stored_def)
  next
    case 2
    have "path_text p \<noteq> path_text (tmp_path pid p)" using tmp_path_differs [OF p(1)] by metis
    with 2 Some show ?thesis by (intro err [OF 2(1)]) (auto intro: stored_same [OF _ 2(2)])
  qed
qed

definition statement_allowed :: "statement \<Rightarrow> database \<Rightarrow> bool" where
  "statement_allowed stmt db \<longleftrightarrow>
     statement_valid stmt \<and> statement_fits (tokenizer_of db) stmt (active_catalog db)"

text \<open>
  One executed statement: a specified step, and afterwards again a good database whose file holds the
  committed catalog.
\<close>

definition good_step :: "platform \<Rightarrow> statement \<Rightarrow> session \<Rightarrow> query_result result \<times> session \<Rightarrow> bool" where
  "good_step P stmt s out \<longleftrightarrow>
     (case (s, out) of ((db, w), (r, (db', w'))) \<Rightarrow>
        tx_step P (table_runtime_options (db_options db)) stmt r (abs_tx db) (abs_tx db') \<and>
        db_ok P db' \<and> db_path db' = db_path db \<and> db_options db' = db_options db \<and>
        stored (db_path db') (db_catalog db') w')"

lemma commit_good:
  assumes "db_ok P db" "stored (db_path db) (db_catalog db) w"
  shows "good_step P Commit (db, w) (commit_tx pid (db, w))"
proof (cases "db_transaction db")
  case None
  then show ?thesis using assms by (simp add: commit_tx_def good_step_def abs_tx_def tx_fail)
next
  case (Some d)
  show ?thesis
  proof (rule persist_cases [OF assms(1), of pid d w])
    fix w' assume "persist pid (db\<lparr>db_catalog := d\<rparr>) w = (Ok (), w')" "stored (db_path db) d w'"
    with Some assms show ?thesis
      using tx_commit [of P "table_runtime_options (db_options db)" "db_catalog db" d]
      by (auto simp: commit_tx_def good_step_def abs_tx_def db_ok_def)
  next
    fix e w' assume "persist pid (db\<lparr>db_catalog := d\<rparr>) w = (Err e, w')"
      "\<And>c'. stored (db_path db) c' w \<Longrightarrow> stored (db_path db) c' w'"
    with Some assms show ?thesis by (auto simp: commit_tx_def good_step_def abs_tx_def db_ok_def tx_fail)
  qed
qed

lemma active_ok: "db_ok P db \<Longrightarrow> catalog_ok P (tokenizer_of db) (active_catalog db)"
  by (auto simp: db_ok_def active_catalog_def split: option.split)

lemma db_ok_set_active:
  "db_ok P db \<Longrightarrow> catalog_ok P (tokenizer_of db) c \<Longrightarrow> db_ok P (set_active_catalog c db)"
  by (auto simp: db_ok_def set_active_catalog_def split: option.split)

lemma set_active_same: "set_active_catalog (active_catalog db) db = db"
  by (auto simp: set_active_catalog_def active_catalog_def split: option.split)

lemma set_active_fields [simp]:
  "db_path (set_active_catalog c db) = db_path db" "db_options (set_active_catalog c db) = db_options db"
  by (auto simp: set_active_catalog_def split: option.split)

text \<open>A mutating statement without an open transaction.\<close>

lemma auto_good:
  assumes ok: "db_ok P db" and st: "stored (db_path db) (db_catalog db) w" and allowed: "statement_allowed stmt db"
    and mut: "mutates_catalog stmt" and none: "db_transaction db = None"
  shows "good_step P stmt (db, w) (execute_catalog_statement P pid stmt (db, w))"
proof -
  define topts where "topts = table_runtime_options (db_options db)"
  have c: "catalog_ok P (fulltext_tokenizer topts) (db_catalog db)" "statement_valid stmt"
      "statement_fits (fulltext_tokenizer topts) stmt (db_catalog db)"
    using ok allowed none by (auto simp: db_ok_def statement_allowed_def active_catalog_def topts_def)
  obtain r c' where run: "execute_statement_with_options P stmt topts (db_catalog db) = (r, c')" by fastforce
  have fail: "good_step P stmt (db, w) (Err e, db, w')" if "stored (db_path db) (db_catalog db) w'" for e w'
    using ok that by (simp add: good_step_def tx_fail)
  show ?thesis
  proof (cases r)
    case (Ok res)
    have c': "catalog_ok P (fulltext_tokenizer topts) c'" using statement_keeps [OF c] run by simp
    show ?thesis
    proof (rule persist_cases [OF ok, of pid c' w])
      fix w' assume "persist pid (db\<lparr>db_catalog := c'\<rparr>) w = (Ok (), w')" "stored (db_path db) c' w'"
      with Ok run c' none mut assms(1) show ?thesis
        using tx_auto [OF run [unfolded Ok] mut]
        by (auto simp: execute_catalog_statement_def good_step_def abs_tx_def db_ok_def Let_def simp flip: topts_def)
    next
      fix e w' assume "persist pid (db\<lparr>db_catalog := c'\<rparr>) w = (Err e, w')"
        "\<And>c. stored (db_path db) c w \<Longrightarrow> stored (db_path db) c w'"
      with Ok run none mut st fail show ?thesis
        by (auto simp: execute_catalog_statement_def Let_def simp flip: topts_def)
    qed
  next
    case (Err e)
    with run none mut st fail show ?thesis by (auto simp: execute_catalog_statement_def Let_def simp flip: topts_def)
  next
    case (Panic m)
    with statement_no_panic [OF c] run show ?thesis by simp
  qed
qed

text \<open>A statement inside a transaction, or one that only reads.\<close>

lemma inside_good:
  assumes ok: "db_ok P db" and st: "stored (db_path db) (db_catalog db) w" and allowed: "statement_allowed stmt db"
    and inside: "\<not> mutates_catalog stmt \<or> db_transaction db \<noteq> None" and ctl: "\<not> is_tx_control stmt"
  shows "good_step P stmt (db, w) (execute_catalog_statement P pid stmt (db, w))"
proof -
  define topts where "topts = table_runtime_options (db_options db)"
  have c: "catalog_ok P (fulltext_tokenizer topts) (active_catalog db)" "statement_valid stmt"
      "statement_fits (fulltext_tokenizer topts) stmt (active_catalog db)"
    using active_ok [OF ok] allowed by (auto simp: statement_allowed_def topts_def)
  obtain r c' where run: "execute_statement_with_options P stmt topts (active_catalog db) = (r, c')" by fastforce
  have out: "execute_catalog_statement P pid stmt (db, w) = (r, set_active_catalog c' db, w)"
    using inside run by (auto simp: execute_catalog_statement_def Let_def topts_def)
  have ok': "db_ok P (set_active_catalog c' db)"
    using db_ok_set_active [OF ok] statement_keeps [OF c] run by (simp add: topts_def)
  have np: "\<not> is_panic r" using statement_no_panic [OF c] run by simp
  have same: "c' = active_catalog db" if "\<not> is_ok r \<or> \<not> mutates_catalog stmt"
    using that statement_err_same [OF c] statement_reads [of stmt P topts "active_catalog db"] run by auto
  show ?thesis
  proof (cases "is_ok r \<and> mutates_catalog stmt")
    case True
    with inside obtain d where d: "db_transaction db = Some d" by auto
    obtain res where r: "r = Ok res" using True by (cases r) auto
    have "tx_step P topts stmt (Ok res) (db_catalog db, Some d) (db_catalog db, Some c')"
      using tx_inside run r True d by (simp add: active_catalog_def)
    then show ?thesis using d r out ok' st
      by (simp add: good_step_def abs_tx_def set_active_catalog_def topts_def)
  next
    case False
    then have "set_active_catalog c' db = db" using same set_active_same by auto
    moreover have "tx_step P topts stmt (Ok res) (abs_tx db) (abs_tx db)" if "r = Ok res" for res
      using tx_read [of P stmt topts "abs_tx db"] run that False ctl by simp
    ultimately show ?thesis using out ok' st np
      by (cases r) (auto simp: good_step_def topts_def intro: tx_fail)
  qed
qed

lemma explain_no_panic: "explain P stmt db \<noteq> Panic m"
  by (auto simp: explain_def explain_filter_def outcome_simps split: statement.split)

lemma explain_spec:
  assumes "explain P inner db = Ok res"
  shows "tx_step P (table_runtime_options (db_options db)) (Explain inner) (Ok res) (abs_tx db) (abs_tx db)"
  using assms by (cases inner) (auto simp: explain_def outcome_simps intro!: tx_explain)

lemma execute_parsed_good:
  assumes ok: "db_ok P db" and st: "stored (db_path db) (db_catalog db) w" and allowed: "statement_allowed stmt db"
  shows "good_step P stmt (db, w) (execute_parsed P pid stmt (db, w))"
proof -
  have cat: "good_step P stmt (db, w) (execute_catalog_statement P pid stmt (db, w))" if "\<not> is_tx_control stmt"
    using auto_good [OF assms] inside_good [OF assms] that by blast
  show ?thesis
  proof (cases stmt)
    case Begin
    with ok st show ?thesis
      using tx_begin [of P "table_runtime_options (db_options db)" "db_catalog db"]
      by (auto simp: execute_parsed_def begin_tx_def good_step_def abs_tx_def db_ok_def tx_fail)
  next
    case Commit
    with commit_good [OF ok st] show ?thesis by (simp add: execute_parsed_def)
  next
    case Rollback
    with ok st show ?thesis
      using tx_rollback [of P "table_runtime_options (db_options db)" "db_catalog db"]
      by (auto simp: execute_parsed_def rollback_tx_def good_step_def abs_tx_def db_ok_def tx_fail)
  next
    case (Explain inner)
    with ok st explain_no_panic [of P inner db] show ?thesis
      by (cases "explain P inner db")
        (auto simp: execute_parsed_def good_step_def is_tx_control_def intro: explain_spec tx_fail)
  qed (use cat in \<open>auto simp: execute_parsed_def is_tx_control_def\<close>)
qed

subsection \<open>A whole call\<close>

text \<open>What a call of \<open>execute\<close> keeps, for every outcome of the I/O it does.\<close>

definition session_ok :: "platform \<Rightarrow> session \<Rightarrow> bool" where
  "session_ok P s \<longleftrightarrow> db_ok P (fst s) \<and> stored (db_path (fst s)) (db_catalog (fst s)) (snd s)"

definition sql_allowed :: "platform \<Rightarrow> string \<Rightarrow> database \<Rightarrow> bool" where
  "sql_allowed P sql db \<longleftrightarrow>
     (\<forall>stmt. parse_sql_with_dialect P sql (sql_dialect (db_options db)) = Ok stmt \<longrightarrow> statement_allowed stmt db)"

definition same_home :: "database \<Rightarrow> database \<Rightarrow> bool" where
  "same_home db db' \<longleftrightarrow> db_path db' = db_path db \<and> db_options db' = db_options db"

lemma same_home_refl [simp]: "same_home db db"
  by (simp add: same_home_def)

lemma session_ok_logs:
  "session_ok P (db, w) \<Longrightarrow> same_except (log_files (db_options db)) w w' \<Longrightarrow> session_ok P (db, w')"
  by (auto simp: session_ok_def db_ok_def elim!: stored_same)

lemma active_cached [simp]: "active_catalog (db\<lparr>statement_cache := cache\<rparr>) = active_catalog db"
  by (cases "db_transaction db") (simp_all add: active_catalog_def)

lemma parse_statement_ok:
  assumes "session_ok P (db, w)" "parse_statement P sql db = (pr, db1)"
  shows "pr = parse_sql_with_dialect P sql (sql_dialect (db_options db))" "session_ok P (db1, w)" "same_home db db1"
    "active_catalog db1 = active_catalog db" "abs_tx db1 = abs_tx db"
proof -
  obtain r cache where pc: "parse_with_cache P (statement_cache db) (cache_capacity (db_options db)) sql
      (sql_dialect (db_options db)) = (r, cache)" by fastforce
  then have out: "pr = r" "db1 = db\<lparr>statement_cache := cache\<rparr>" using assms(2) by (simp_all add: parse_statement_def)
  have "cache_ok P (sql_dialect (db_options db)) (statement_cache db)" using assms(1) by (simp add: session_ok_def db_ok_def)
  note cached = parse_with_cache_result [OF this, of "cache_capacity (db_options db)" sql, unfolded pc fst_conv snd_conv]
  show "pr = parse_sql_with_dialect P sql (sql_dialect (db_options db))" using cached(1) out by simp
  show "session_ok P (db1, w)" using assms(1) cached(2) out by (auto simp: session_ok_def db_ok_def)
  show "same_home db db1" "active_catalog db1 = active_catalog db" "abs_tx db1 = abs_tx db"
    using out by (simp_all add: same_home_def abs_tx_def)
qed

lemma execute_inner_good:
  assumes ok: "session_ok P (db, w)" and allowed: "sql_allowed P sql db"
    and run: "execute_inner P pid sql (db, w) = (r, db', w')"
  shows "session_ok P (db', w') \<and> same_home db db' \<and>
    (is_panic r \<longrightarrow> is_panic (parse_sql_with_dialect P sql (sql_dialect (db_options db))))"
proof -
  obtain pr db1 where pc: "parse_statement P sql db = (pr, db1)" by fastforce
  note parsed = parse_statement_ok [OF ok pc]
  note pr = parsed(1) and ok1 = parsed(2) and home = parsed(3)
  show ?thesis
  proof (cases pr)
    case (Ok stmt)
    obtain r1 w1 where log: "log_before db1 stmt sql w = (r1, w1)" by fastforce
    have ok1': "session_ok P (db1, w1)" and np1: "\<not> is_panic r1"
      using session_ok_logs [OF ok1] logs_onlyD [OF log_before_logs_only [of db1 w stmt sql]] log by auto
    have "statement_allowed stmt db1"
      using allowed Ok pr parsed(3,4) by (simp add: sql_allowed_def statement_allowed_def same_home_def)
    then have good: "good_step P stmt (db1, w1) (execute_parsed P pid stmt (db1, w1))"
      using execute_parsed_good ok1' by (simp add: session_ok_def)
    obtain r2 db2 w2 where ep: "execute_parsed P pid stmt (db1, w1) = (r2, db2, w2)" by (metis prod_cases3)
    have ok2: "session_ok P (db2, w2)" and home2: "same_home db db2" and np2: "\<not> is_panic r2"
      using good ep home by (auto simp: good_step_def session_ok_def same_home_def elim: tx_step.cases)
    obtain r3 w3 where after: "log_after_ok (db_options db2) stmt sql w2 = (r3, w3)" by fastforce
    have ok3: "session_ok P (db2, w3)" and np3: "\<not> is_panic r3"
      using session_ok_logs [OF ok2] logs_onlyD [OF log_after_ok_logs_only [of "db_options db2" w2 stmt sql]] after by auto
    have ok4: "session_ok P (db2, log_after_err (db_options db2) stmt sql w2)"
      using session_ok_logs [OF ok2] log_after_err_files by blast
    show ?thesis
      using run pc Ok log np1 ep np2 after np3 ok1' ok3 ok4 home home2
      by (cases r1; cases r2; cases r3) (auto simp: execute_inner_def Let_def)
  next
    case (Err e)
    with run pc ok1 home show ?thesis by (auto simp: execute_inner_def Let_def)
  next
    case (Panic m)
    then have "is_panic (parse_sql_with_dialect P sql (sql_dialect (db_options db)))" using pr by (metis is_panic_simps(3))
    with Panic run pc ok1 home show ?thesis by (auto simp: execute_inner_def Let_def)
  qed
qed

lemma execute_good:
  assumes "session_ok P (db, w)" "sql_allowed P sql db" "execute P pid elapsed sql (db, w) = (r, db', w')"
  shows "session_ok P (db', w') \<and> same_home db db' \<and>
    (is_panic r \<longrightarrow> is_panic (parse_sql_with_dialect P sql (sql_dialect (db_options db))))"
proof -
  obtain r1 db1 w1 where run: "execute_inner P pid sql (db, w) = (r1, db1, w1)" by (metis prod_cases3)
  note good = execute_inner_good [OF assms(1,2) run]
  have "session_ok P (db1, append_slow_sql (db_options db1) sql elapsed w1)"
    "session_ok P (db1, append_error (db_options db1) sql msg w1)" for msg
    using session_ok_logs good append_slow_error_files by blast+
  with good run assms(3) show ?thesis by (cases r1) (auto simp: execute_def)
qed

subsection \<open>Opening the file again\<close>

lemma reopened_empty [simp]: "reopened catalog_empty = catalog_empty"
  by (simp add: reopened_def catalog_empty_def)

lemma hex_ascii: "(\<And>c. c \<in> set s \<Longrightarrow> is_hex c) \<Longrightarrow> ascii s"
  by (auto simp: ascii_def is_hex_ascii)

lemma ascii_type [simp]: "ascii (column_type_as_str ty)"
  by (cases ty) (simp_all add: code_def)

lemma ascii_parts [simp]:
  "ascii (encode_string s)" "ascii (show_nat n)" "ascii (hex_pad k n)" "ascii (show_i64 v)"
  using show_radix_hex [of 10]
  by (auto intro!: hex_ascii dest: encode_string_hex hex_pad_hex simp: show_i64_def code_def)

lemma ascii_join [simp]: "ascii (join [d] ps) \<longleftrightarrow> list_all ascii ps \<and> (length ps \<le> 1 \<or> code d < 128)"
  by (induction "[d]" ps rule: join.induct) auto

lemma ascii_encode_value [simp]: "ascii (encode_value v)"
  by (cases v) (auto simp: code_def list_all_iff)

lemma ascii_concat: "ascii (concat ss) \<longleftrightarrow> list_all ascii ss"
  by (induction ss) auto

lemma encode_ascii: "ascii (encode c)"
proof -
  have "list_all ascii (encode_table t)" for t
    by (auto simp: encode_table_def encode_column_def encode_index_line_def encode_row_def encode_field_def
        list_all_iff ascii_concat code_def)
  then show ?thesis
    by (simp add: encode_def ascii_concat list_all_iff code_def)
qed

lemma load_stored:
  assumes "catalog_ok P (fulltext_tokenizer topts) c" "stored (Some p) c w" "outcomes w = []"
  shows "fst (load_catalog P (path_text p) topts w) = Ok (reopened c)"
proof -
  have io: "io_call w = (Ok (), w)" using assms(3) by (simp add: io_call_def io_step_def)
  have ne: "encode c \<noteq> []" by (simp add: encode_def)
  have "utf8_valid (encode c)" by (rule ascii_utf8_valid) (rule encode_ascii)
  with ne assms io show ?thesis
    by (auto simp: stored_def load_catalog_def read_to_string_def decode_encode)
qed

lemma open_stored:
  assumes "db_ok P db" "stored (db_path db) (db_catalog db) w" "db_path db = Some p" "outcomes w = []"
  shows "fst (open_with_options P p (db_options db) w) =
    Ok \<lparr>db_path = Some p, db_catalog = reopened (db_catalog db), db_transaction = None,
      db_options = db_options db, statement_cache = []\<rparr>"
proof -
  have "fst (load_catalog P (path_text p) (table_runtime_options (db_options db)) w) = Ok (reopened (db_catalog db))"
    using assms by (intro load_stored) (auto simp: db_ok_def)
  then show ?thesis
    using assms(1)
    by (cases "load_catalog P (path_text p) (table_runtime_options (db_options db)) w")
      (auto simp: open_with_options_def db_ok_def)
qed

subsection \<open>Sequences of calls\<close>

text \<open>The sessions reached from a session by calls of \<open>execute\<close>, each with any statement text the contract
  allows, any duration, and any outcomes of the I/O it does.\<close>

inductive session_run :: "platform \<Rightarrow> nat \<Rightarrow> session \<Rightarrow> session \<Rightarrow> bool" for P pid s where
  run_start: "session_run P pid s s"
| run_call: "session_run P pid s (db, w) \<Longrightarrow> sql_allowed P sql db \<Longrightarrow>
    execute P pid elapsed sql (db, w\<lparr>outcomes := os\<rparr>) = (r, s') \<Longrightarrow> session_run P pid s s'"

lemma session_ok_outcomes [simp]: "session_ok P (db, w\<lparr>outcomes := os\<rparr>) = session_ok P (db, w)"
  by (simp add: session_ok_def stored_def)

lemma session_run_ok:
  "session_run P pid s s' \<Longrightarrow> session_ok P s \<Longrightarrow> session_ok P s' \<and> same_home (fst s) (fst s')"
proof (induction rule: session_run.induct)
  case (run_call db w sql elapsed os r s')
  then have ok: "session_ok P (db, w\<lparr>outcomes := os\<rparr>)" and home: "same_home (fst s) db" by auto
  from run_call execute_good [OF ok, of sql pid elapsed r "fst s'" "snd s'"] home
  show ?case by (cases s') (auto simp: same_home_def)
qed simp

text \<open>Statements executed one after the other; the session goes on after an error.\<close>

fun run_statements :: "platform \<Rightarrow> nat \<Rightarrow> statement list \<Rightarrow> session \<Rightarrow> session" where
  "run_statements P pid [] s = s"
| "run_statements P pid (stmt # stmts) s = run_statements P pid stmts (snd (execute_parsed P pid stmt s))"

lemma run_statements_append:
  "run_statements P pid (xs @ ys) s = run_statements P pid ys (run_statements P pid xs s)"
  by (induction xs arbitrary: s) simp_all

lemma execute_inside:
  assumes "db_transaction db = Some d" "stmt \<noteq> Commit" "stmt \<noteq> Rollback"
  obtains d' where "snd (execute_parsed P pid stmt (db, w)) = (db\<lparr>db_transaction := Some d'\<rparr>, w)"
proof (cases "stmt = Begin \<or> (\<exists>inner. stmt = Explain inner)")
  case True
  with assms(1) have "snd (execute_parsed P pid stmt (db, w)) = (db\<lparr>db_transaction := Some d\<rparr>, w)"
    by (auto simp: execute_parsed_def begin_tx_def)
  then show ?thesis using that by blast
next
  case False
  obtain r d' where "execute_statement_with_options P stmt (table_runtime_options (db_options db)) d = (r, d')" by fastforce
  moreover have "execute_parsed P pid stmt (db, w) = execute_catalog_statement P pid stmt (db, w)"
    using False assms(2,3) by (cases stmt) (auto simp: execute_parsed_def)
  ultimately have "snd (execute_parsed P pid stmt (db, w)) = (db\<lparr>db_transaction := Some d'\<rparr>, w)"
    using assms(1) by (simp add: execute_catalog_statement_def active_catalog_def set_active_catalog_def)
  then show ?thesis using that by blast
qed

text \<open>
  What a call of \<open>execute\<close> does besides the logs: at most the statement cache changes, or the statement the text
  stands for is executed.
\<close>

lemma execute_cases:
  assumes cache: "cache_ok P (sql_dialect (db_options db)) (statement_cache db)"
    and run: "execute P pid elapsed sql (db, w) = (r, db', w')"
  obtains (skipped) cache' where "db' = db\<lparr>statement_cache := cache'\<rparr>" "cache_ok P (sql_dialect (db_options db)) cache'"
      "same_except (log_files (db_options db)) w w'"
  | (executed) cache' stmt w1 r2 w2 where "parse_sql_with_dialect P sql (sql_dialect (db_options db)) = Ok stmt"
      "cache_ok P (sql_dialect (db_options db)) cache'" "same_except (log_files (db_options db)) w w1"
      "execute_parsed P pid stmt (db\<lparr>statement_cache := cache'\<rparr>, w1) = (r2, db', w2)"
      "same_except (log_files (db_options db')) w2 w'"
proof -
  let ?opts = "db_options db"
  obtain pr cache' where pc: "parse_with_cache P (statement_cache db) (cache_capacity ?opts) sql (sql_dialect ?opts) = (pr, cache')"
    by fastforce
  note parsed = parse_with_cache_result [OF cache, of "cache_capacity ?opts" sql, unfolded pc fst_conv snd_conv]
  let ?db = "db\<lparr>statement_cache := cache'\<rparr>"
  have ps: "parse_statement P sql db = (pr, ?db)" using pc by (simp add: parse_statement_def)
  obtain ri dbi wi where inner: "execute_inner P pid sql (db, w) = (ri, dbi, wi)" by (metis prod_cases3)
  have out: "db' = dbi" "same_except (log_files (db_options dbi)) wi w'"
    using run inner append_slow_error_files by (cases ri; auto simp: execute_def)+
  show thesis
  proof (cases pr)
    case (Ok stmt)
    obtain r1 w1 where log: "log_before ?db stmt sql w = (r1, w1)" by fastforce
    have w1: "same_except (log_files ?opts) w w1"
      using logs_onlyD [OF log_before_logs_only [of ?db w stmt sql]] log by simp
    show thesis
    proof (cases r1)
      case (Ok u)
      obtain r2 db2 w2 where ep: "execute_parsed P pid stmt (?db, w1) = (r2, db2, w2)" by (metis prod_cases3)
      obtain r3 w3 where after: "log_after_ok (db_options db2) stmt sql w2 = (r3, w3)" by fastforce
      have w3: "same_except (log_files (db_options db2)) w2 w3"
        using logs_onlyD [OF log_after_ok_logs_only [of "db_options db2" w2 stmt sql]] after by simp
      have "dbi = db2" using inner ps \<open>pr = Ok stmt\<close> log Ok ep after
        by (cases r2; cases r3) (simp_all add: execute_inner_def Let_def)
      moreover have "same_except (log_files (db_options db2)) w2 wi"
        using inner ps \<open>pr = Ok stmt\<close> log Ok ep after w3 log_after_err_files [of "db_options db2" w2 stmt sql]
        by (cases r2; cases r3) (auto simp: execute_inner_def Let_def)
      ultimately show thesis
        using executed [of stmt cache' w1 r2 w2] parsed \<open>pr = Ok stmt\<close> w1 ep out by (metis same_except_trans)
    next
      case (Err e)
      then have "dbi = ?db" "wi = w1" using inner ps \<open>pr = Ok stmt\<close> log by (simp_all add: execute_inner_def)
      with out w1 parsed(2) show thesis by (intro skipped [of cache']) (auto intro: same_except_trans)
    next
      case (Panic m)
      then have "dbi = ?db" "wi = w1" using inner ps \<open>pr = Ok stmt\<close> log by (simp_all add: execute_inner_def)
      with out w1 parsed(2) show thesis by (intro skipped [of cache']) (auto intro: same_except_trans)
    qed
  next
    case (Err e)
    then have "dbi = ?db" "wi = w" using inner ps by (simp_all add: execute_inner_def)
    with out parsed(2) show thesis by (intro skipped [of cache']) auto
  next
    case (Panic m)
    then have "dbi = ?db" "wi = w" using inner ps by (simp_all add: execute_inner_def)
    with out parsed(2) show thesis by (intro skipped [of cache']) auto
  qed
qed

text \<open>Calls one after the other, each with its text, its duration and the outcomes of the I/O it does.\<close>

fun run_calls :: "platform \<Rightarrow> nat \<Rightarrow> (string \<times> nat \<times> io_outcome list) list \<Rightarrow> session \<Rightarrow> session" where
  "run_calls P pid [] s = s"
| "run_calls P pid ((sql, elapsed, os) # calls) s =
     run_calls P pid calls (snd (execute P pid elapsed sql (fst s, (snd s)\<lparr>outcomes := os\<rparr>)))"

lemma run_calls_append:
  "run_calls P pid (xs @ ys) s = run_calls P pid ys (run_calls P pid xs s)"
proof (induction xs arbitrary: s)
  case (Cons c xs)
  obtain sql elapsed os where "c = (sql, elapsed, os)" by (cases c)
  then show ?case by (simp add: Cons.IH)
qed simp

lemma same_except_outcomes [simp]: "same_except S (w\<lparr>outcomes := os\<rparr>) w' = same_except S w w'"
  by (simp add: same_except_def)

text \<open>What the calls inside a transaction change: the pending catalog, the statement cache and the log files.\<close>

definition tx_frame :: "platform \<Rightarrow> session \<Rightarrow> session \<Rightarrow> bool" where
  "tx_frame P s s' \<longleftrightarrow>
     (\<exists>d cache. fst s' = (fst s)\<lparr>db_transaction := Some d, statement_cache := cache\<rparr> \<and>
        cache_ok P (sql_dialect (db_options (fst s))) cache) \<and>
     same_except (log_files (db_options (fst s))) (snd s) (snd s')"

lemma execute_tx_frame:
  assumes "tx_frame P s (db, w)" "execute P pid elapsed sql (db, w\<lparr>outcomes := os\<rparr>) = (r, s')"
    and "parse_sql_with_dialect P sql (sql_dialect (db_options (fst s))) \<notin> {Ok Commit, Ok Rollback}"
  shows "tx_frame P s s'"
proof -
  obtain d cache where db: "db = (fst s)\<lparr>db_transaction := Some d, statement_cache := cache\<rparr>"
    "cache_ok P (sql_dialect (db_options (fst s))) cache" "same_except (log_files (db_options (fst s))) (snd s) w"
    using assms(1) by (auto simp: tx_frame_def)
  obtain db' w' where s': "s' = (db', w')" by (cases s')
  have cache: "cache_ok P (sql_dialect (db_options db)) (statement_cache db)" using db by simp
  have run: "execute P pid elapsed sql (db, w\<lparr>outcomes := os\<rparr>) = (r, db', w')" using assms(2) s' by simp
  from cache run show ?thesis
  proof (cases rule: execute_cases)
    case (skipped cache')
    with db s' show ?thesis by (auto simp: tx_frame_def elim: same_except_trans)
  next
    case (executed cache' stmt w1 r2 w2)
    have "stmt \<noteq> Commit" "stmt \<noteq> Rollback" using executed(1) assms(3) db(1) by auto
    moreover have "db_transaction (db\<lparr>statement_cache := cache'\<rparr>) = Some d" using db by simp
    ultimately obtain d' where "snd (execute_parsed P pid stmt (db\<lparr>statement_cache := cache'\<rparr>, w1)) =
        (db\<lparr>statement_cache := cache'\<rparr>\<lparr>db_transaction := Some d'\<rparr>, w1)"
      using execute_inside by metis
    then have eff: "db' = db\<lparr>statement_cache := cache', db_transaction := Some d'\<rparr>" "w2 = w1" using executed(4) by simp_all
    have "same_except (log_files (db_options (fst s))) (snd s) w'"
      using db executed(3,5) eff by (auto elim!: same_except_trans)
    moreover have "db' = (fst s)\<lparr>db_transaction := Some d', statement_cache := cache'\<rparr>" using db eff by simp
    ultimately show ?thesis using executed(2) db(1) s' by (auto simp: tx_frame_def)
  qed
qed

lemma run_calls_tx_frame:
  assumes "tx_frame P s s1"
    and "\<forall>c \<in> set calls. parse_sql_with_dialect P (fst c) (sql_dialect (db_options (fst s))) \<notin> {Ok Commit, Ok Rollback}"
  shows "tx_frame P s (run_calls P pid calls s1)"
  using assms
proof (induction calls arbitrary: s1)
  case (Cons c calls)
  obtain sql elapsed os where c: "c = (sql, elapsed, os)" by (cases c)
  obtain r s2 where run: "execute P pid elapsed sql (fst s1, (snd s1)\<lparr>outcomes := os\<rparr>) = (r, s2)" by (metis surj_pair)
  have "tx_frame P s s2"
    using execute_tx_frame [OF _ run, of s] Cons.prems c by simp
  then show ?case using Cons.IH Cons.prems(2) run c by simp
qed simp

text \<open>The effect of mutating statements on a catalog, and that each meets its contract on the way.\<close>

fun apply_all :: "platform \<Rightarrow> table_options \<Rightarrow> statement list \<Rightarrow> catalog \<Rightarrow> catalog" where
  "apply_all P topts [] c = c"
| "apply_all P topts (stmt # stmts) c = apply_all P topts stmts (snd (execute_statement_with_options P stmt topts c))"

fun all_allowed :: "platform \<Rightarrow> table_options \<Rightarrow> statement list \<Rightarrow> catalog \<Rightarrow> bool" where
  "all_allowed P topts [] c = True"
| "all_allowed P topts (stmt # stmts) c =
     (mutates_catalog stmt \<and> statement_valid stmt \<and> statement_fits (fulltext_tokenizer topts) stmt c \<and>
      all_allowed P topts stmts (snd (execute_statement_with_options P stmt topts c)))"

lemma execute_parsed_mutates:
  "mutates_catalog stmt \<Longrightarrow> execute_parsed P pid stmt s = execute_catalog_statement P pid stmt s"
  by (cases stmt) (simp_all add: execute_parsed_def)

lemma run_inside_applies:
  assumes "db_transaction db = Some d" "all_allowed P (table_runtime_options (db_options db)) stmts d"
  shows "run_statements P pid stmts (db, w) =
    (db\<lparr>db_transaction := Some (apply_all P (table_runtime_options (db_options db)) stmts d)\<rparr>, w)"
  using assms
proof (induction stmts arbitrary: db d)
  case (Cons stmt stmts)
  define topts where "topts = table_runtime_options (db_options db)"
  define d1 where "d1 = snd (execute_statement_with_options P stmt topts d)"
  have "snd (execute_parsed P pid stmt (db, w)) = (db\<lparr>db_transaction := Some d1\<rparr>, w)"
    using Cons.prems
    by (simp add: execute_parsed_mutates execute_catalog_statement_def active_catalog_def set_active_catalog_def
        d1_def topts_def split: prod.split)
  then show ?case
    using Cons.IH [of "db\<lparr>db_transaction := Some d1\<rparr>" d1] Cons.prems by (simp add: d1_def topts_def)
qed simp

lemma run_auto_applies:
  assumes "db_path db = None" "db_transaction db = None" "db_ok P db"
    and "all_allowed P (table_runtime_options (db_options db)) stmts (db_catalog db)"
  shows "run_statements P pid stmts (db, w) =
    (db\<lparr>db_catalog := apply_all P (table_runtime_options (db_options db)) stmts (db_catalog db)\<rparr>, w)"
  using assms
proof (induction stmts arbitrary: db)
  case (Cons stmt stmts)
  define topts where "topts = table_runtime_options (db_options db)"
  obtain r c1 where run: "execute_statement_with_options P stmt topts (db_catalog db) = (r, c1)" by fastforce
  have c: "catalog_ok P (fulltext_tokenizer topts) (db_catalog db)" "statement_valid stmt"
      "statement_fits (fulltext_tokenizer topts) stmt (db_catalog db)"
    using Cons.prems by (auto simp: db_ok_def topts_def)
  have c1: "catalog_ok P (fulltext_tokenizer topts) c1" using statement_keeps [OF c] run by simp
  have "c1 = db_catalog db" if "\<not> is_ok r" using statement_err_same [OF c] run that by simp
  then have "snd (execute_parsed P pid stmt (db, w)) = (db\<lparr>db_catalog := c1\<rparr>, w)"
    using Cons.prems run
    by (cases r) (simp_all add: execute_parsed_mutates execute_catalog_statement_def persist_def persist_catalog_def topts_def)
  moreover have "db_ok P (db\<lparr>db_catalog := c1\<rparr>)" using Cons.prems c1 by (auto simp: db_ok_def topts_def)
  ultimately show ?case
    using Cons.IH [of "db\<lparr>db_catalog := c1\<rparr>"] Cons.prems run by (simp add: topts_def)
qed simp

subsection \<open>Properties\<close>

text \<open>C1: The database engine refines the transaction specification, for every pattern of I/O failures: each
  parsed statement is one step of \<open>tx_step\<close> on the committed and pending catalogs (so an error, whether of
  the statement or of the disk, changes neither), and the database file holds the committed catalog after it.\<close>

theorem engine_refines_tx:
  assumes "db_ok P db" "stored (db_path db) (db_catalog db) w" "statement_allowed stmt db"
  shows "case execute_parsed P pid stmt (db, w) of (r, db', w') \<Rightarrow>
    tx_step P (table_runtime_options (db_options db)) stmt r (abs_tx db) (abs_tx db') \<and>
    db_ok P db' \<and> stored (db_path db') (db_catalog db') w'"
  using execute_parsed_good [OF assms, of pid] by (auto simp: good_step_def)

lemma demo_options_valid: "options_validate database_options_default = Ok ()"
  by (auto simp: options_validate_iff database_options_default_def vector_index_default_def intro: exI [of _ 12])

lemma demo_database_ok: "db_ok demo_platform demo_database"
  using demo_options_valid demo_catalog_ok
  by (simp add: db_ok_def demo_database_def cache_ok_def path_ok_def demo_path_def log_files_def database_options_default_def)

lemma demo_stored: "stored (db_path demo_database) (db_catalog demo_database) demo_world"
  by (simp add: stored_def demo_database_def demo_world_def)

lemma demo_session_ok: "session_ok demo_platform (demo_database, demo_world)"
  using demo_database_ok demo_stored by (simp add: session_ok_def)

theorem engine_refines_tx_witness:
  "case execute_parsed demo_platform 7 (Delete ''t'' None) (demo_database, demo_world) of (r, db', w') \<Rightarrow>
    tx_step demo_platform (table_runtime_options (db_options demo_database)) (Delete ''t'' None) r
      (abs_tx demo_database) (abs_tx db') \<and>
    db_ok demo_platform db' \<and> stored (db_path db') (db_catalog db') w'"
  using engine_refines_tx [OF demo_database_ok demo_stored] by (simp add: statement_allowed_def)

text \<open>C16: Committing a transaction gives the catalog that executing its statements one by one gives, failing
  statements included. Stated for parsed statements (below the logs), a database in memory, where persisting
  cannot fail, and statements that change the catalog (INSERT, UPDATE, DELETE, CREATE TABLE, CREATE INDEX) and
  meet their contract at their place in the sequence (\<open>all_allowed\<close>): two situations are excluded there, an
  INSERT into a table whose identifier counter is the last 64-bit integer, and a CREATE INDEX that is not
  FULLTEXT on a table with a full-text index under a tokenizer other than the default. After such a CREATE
  INDEX the postings are those of the default tokenizer until the next failing UPDATE of a transaction
  rebuilds them, so the two ways then differ.\<close>

theorem commit_equals_autocommit:
  assumes "db_path db = None" "db_transaction db = None" "db_ok P db"
    and "all_allowed P (table_runtime_options (db_options db)) stmts (db_catalog db)"
  shows "run_statements P pid (Begin # stmts @ [Commit]) (db, w) = run_statements P pid stmts (db, w)"
proof -
  have start: "snd (execute_parsed P pid Begin (db, w)) = (db\<lparr>db_transaction := Some (db_catalog db)\<rparr>, w)"
    using assms(2) by (simp add: execute_parsed_def begin_tx_def)
  have inside: "run_statements P pid stmts (db\<lparr>db_transaction := Some (db_catalog db)\<rparr>, w) =
      (db\<lparr>db_transaction := Some (apply_all P (table_runtime_options (db_options db)) stmts (db_catalog db))\<rparr>, w)"
    using run_inside_applies [of "db\<lparr>db_transaction := Some (db_catalog db)\<rparr>" "db_catalog db" P stmts pid w] assms(4) by simp
  show ?thesis
    using start inside run_auto_applies [OF assms, of pid w] assms(1,2)
    by (simp add: run_statements_append execute_parsed_def commit_tx_def persist_def persist_catalog_def)
qed

theorem commit_equals_autocommit_witness:
  "let stmts = [Insert ''t'' None [Integer 7, Text ''x''], Delete ''nosuch'' None, Update ''t'' [(''id'', Null)] None]
   in run_statements demo_platform 7 (Begin # stmts @ [Commit]) (demo_database\<lparr>db_path := None\<rparr>, demo_world) =
    run_statements demo_platform 7 stmts (demo_database\<lparr>db_path := None\<rparr>, demo_world)"
  using commit_equals_autocommit [of "demo_database\<lparr>db_path := None\<rparr>" demo_platform
      "[Insert ''t'' None [Integer 7, Text ''x''], Delete ''nosuch'' None, Update ''t'' [(''id'', Null)] None]" 7 demo_world]
    demo_database_ok
  by (simp add: db_ok_def demo_database_def demo_catalog_def demo_table_def code_def)

text \<open>C37: The statement cache is transparent and bounded: parsing through it gives what the parser gives, it keeps
  agreeing with the parser, and it never holds more statements than its capacity.\<close>

theorem cache_transparent:
  assumes "cache_ok P d cache" "length cache \<le> cap"
  shows "fst (parse_with_cache P cache cap sql d) = parse_sql_with_dialect P sql d \<and>
    cache_ok P d (snd (parse_with_cache P cache cap sql d)) \<and>
    length (snd (parse_with_cache P cache cap sql d)) \<le> cap"
  using parse_with_cache_result [OF assms(1)] parse_with_cache_bounded [OF assms(2)] by auto

theorem cache_transparent_witness:
  "fst (parse_with_cache demo_platform [] 128 ''COMMIT'' Fsql) = parse_sql_with_dialect demo_platform ''COMMIT'' Fsql"
  using cache_transparent [of demo_platform Fsql "[]" 128 "''COMMIT''"] by (simp add: cache_ok_def)

end
