(* ===== verification/Pool.thy ===== *)
theory Pool
  imports Sessions
begin

section \<open>The connection pool\<close>

text \<open>
  \<^verbatim>\<open>src/src/pool.rs\<close>: connections that share one database behind a mutex, transactions that work on a copy
  of the catalog and lock the rows they touch, and the merge of a transaction into the committed catalog.
  A function of this theory that takes the pool is what one thread does while it holds \<^verbatim>\<open>PoolInner::shared\<close>
  (or \<^verbatim>\<open>permits\<close>), so it is one atomic step of the system; \<open>Pool_Locks\<close> interleaves these steps.

  A thread that panics while it holds a mutex poisons it: later \<^verbatim>\<open>lock()\<close> calls fail. The mutexes of the shared
  database, of a connection's transaction and of its statement cache each have a flag for that. Nothing
  panics while \<^verbatim>\<open>permits\<close> is held, so that mutex is never poisoned.
\<close>

record transaction_state =
  tx_id :: u64
  tx_catalog :: catalog
  locked_rows :: "string list"

record connection =
  transaction :: "transaction_state option"
  transaction_poisoned :: bool
  conn_cache :: parsed_statement_cache
  cache_poisoned :: bool
  released :: bool

record shared_database =
  shared_db :: database
  row_locks :: "(string, u64) bmap"

record pool =
  shared :: shared_database
  shared_poisoned :: bool
  permits :: nat
  max_connections :: nat
  next_transaction_id :: u64

abbreviation pool_catalog :: "pool \<Rightarrow> catalog" where
  "pool_catalog p \<equiv> db_catalog (shared_db (shared p))"

abbreviation pool_options :: "pool \<Rightarrow> database_options" where
  "pool_options p \<equiv> db_options (shared_db (shared p))"

abbreviation pool_locks :: "pool \<Rightarrow> (string, u64) bmap" where
  "pool_locks p \<equiv> row_locks (shared p)"

definition set_pool_catalog :: "catalog \<Rightarrow> pool \<Rightarrow> pool" where
  "set_pool_catalog c p = p\<lparr>shared := (shared p)\<lparr>shared_db := (shared_db (shared p))\<lparr>db_catalog := c\<rparr>\<rparr>\<rparr>"

definition replace_pool_catalog :: "catalog \<Rightarrow> pool \<Rightarrow> pool" where
  "replace_pool_catalog c p = p\<lparr>shared := (shared p)\<lparr>shared_db := replace_catalog c (shared_db (shared p))\<rparr>\<rparr>"

definition set_pool_locks :: "(string, u64) bmap \<Rightarrow> pool \<Rightarrow> pool" where
  "set_pool_locks ls p = p\<lparr>shared := (shared p)\<lparr>row_locks := ls\<rparr>\<rparr>"

definition poison_shared :: "pool \<Rightarrow> pool" where
  "poison_shared p = p\<lparr>shared_poisoned := True\<rparr>"

subsection \<open>Pools and permits\<close>

definition from_database :: "database \<Rightarrow> nat \<Rightarrow> pool result" where
  "from_database db n =
     (if n = 0 then Err (Execution ''connection pool size must be greater than zero'')
      else Ok \<lparr>shared = \<lparr>shared_db = db, row_locks = []\<rparr>, shared_poisoned = False, permits = n,
               max_connections = n, next_transaction_id = 1\<rparr>)"

definition pool_memory :: "nat \<Rightarrow> pool result" where
  "pool_memory n = rbind memory (\<lambda>db. from_database db n)"

definition pool_memory_with_options :: "nat \<Rightarrow> database_options \<Rightarrow> pool result" where
  "pool_memory_with_options n opts = rbind (memory_with_options opts) (\<lambda>db. from_database db n)"

definition pool_open_with_options :: "platform \<Rightarrow> path \<Rightarrow> nat \<Rightarrow> database_options \<Rightarrow> world \<Rightarrow> pool result \<times> world" where
  "pool_open_with_options P p n opts w = sbind (open_with_options P p opts w) (\<lambda>db w'. (from_database db n, w'))"

definition pool_open :: "platform \<Rightarrow> path \<Rightarrow> nat \<Rightarrow> world \<Rightarrow> pool result \<times> world" where
  "pool_open P p n w = sbind (open_default P p w) (\<lambda>db w'. (from_database db n, w'))"

definition lock_shared :: "pool \<Rightarrow> shared_database result" where
  "lock_shared p = (if shared_poisoned p then Err (Execution ''database lock poisoned'') else Ok (shared p))"

definition new_connection :: "nat \<Rightarrow> connection" where
  "new_connection cap =
     \<lparr>transaction = None, transaction_poisoned = False, conn_cache = cache_new cap, cache_poisoned = False, released = False\<rparr>"

definition checkout :: "pool \<Rightarrow> connection result \<times> pool" where
  "checkout p =
     (let p' = p\<lparr>permits := permits p - 1\<rparr>
      in (rbind (lock_shared p') (\<lambda>sh. Ok (new_connection (cache_capacity (db_options (shared_db sh))))), p'))"

text \<open>\<^verbatim>\<open>get\<close> waits while there is no permit: \<open>None\<close> is a thread that is still waiting.\<close>

definition get :: "pool \<Rightarrow> (connection result \<times> pool) option" where
  "get p = (if permits p = 0 then None else Some (checkout p))"

definition try_get :: "pool \<Rightarrow> connection option result \<times> pool" where
  "try_get p =
     (if permits p = 0 then (Ok None, p)
      else let (r, p') = checkout p in (rbind r (\<lambda>c. Ok (Some c)), p'))"

subsection \<open>Lock keys\<close>

definition is_ddl_statement :: "statement \<Rightarrow> bool" where
  "is_ddl_statement stmt =
     (case stmt of CreateTable nm cols \<Rightarrow> True | CreateIndex nm tbl col ft \<Rightarrow> True | _ \<Rightarrow> False)"

definition row_lock_key :: "string \<Rightarrow> u64 \<Rightarrow> string" where
  "row_lock_key tbl rid = ''row:'' @ tbl @ '':'' @ show_nat (unat rid)"

definition insert_lock_key :: "catalog \<Rightarrow> string \<Rightarrow> statement \<Rightarrow> string result" where
  "insert_lock_key c tbl stmt =
     (case stmt of
        Insert _ cols vals \<Rightarrow>
          rbind (ok_or (Execution ''unknown table'') (bm_get (tables c) tbl)) (\<lambda>t.
            let next_key = ''insert:'' @ tbl @ '':next:'' @ show_nat (unat (next_row_id t));
                targets = (case cols of Some cs \<Rightarrow> cs | None \<Rightarrow> map col_name (columns t))
            in case primary_key_column t of
                 None \<Rightarrow> Ok next_key
               | Some pk \<Rightarrow>
                   (case find (\<lambda>cv. fst cv = pk) (zip targets vals) of
                      Some (_, v) \<Rightarrow> rbind (index_key v) (\<lambda>k. Ok (''insert:'' @ tbl @ '':'' @ k))
                    | None \<Rightarrow> Ok next_key))
      | _ \<Rightarrow> Err (Execution ''insert lock requested for non-insert statement''))"

definition matched_lock_keys :: "platform \<Rightarrow> catalog \<Rightarrow> string \<Rightarrow> sql_filter option \<Rightarrow> table_options \<Rightarrow> string list result" where
  "matched_lock_keys P c tbl filt opts =
     rbind (ok_or (Execution ''unknown table'') (bm_get (tables c) tbl)) (\<lambda>t.
     rbind (matching_row_ids_for_lock P t filt opts) (\<lambda>rids. Ok (map (row_lock_key tbl) rids)))"

definition rows_to_lock :: "platform \<Rightarrow> catalog \<Rightarrow> statement \<Rightarrow> table_options \<Rightarrow> string list result" where
  "rows_to_lock P c stmt opts =
     (case stmt of
        Update tbl asg filt \<Rightarrow> matched_lock_keys P c tbl filt opts
      | Delete tbl filt \<Rightarrow> matched_lock_keys P c tbl filt opts
      | Insert tbl cols vals \<Rightarrow> rbind (insert_lock_key c tbl stmt) (\<lambda>k. Ok [k])
      | _ \<Rightarrow> Ok [])"

subsection \<open>Taking and releasing locks\<close>

text \<open>The loop over the keys; the locks taken before a conflict stay with the transaction.\<close>

fun acquire :: "string list \<Rightarrow> (string, u64) bmap \<times> transaction_state \<Rightarrow> unit result \<times> (string, u64) bmap \<times> transaction_state" where
  "acquire [] s = (Ok (), s)"
| "acquire (k # ks) (ls, tx) =
     (if bm_get ls k \<noteq> None \<and> bm_get ls k \<noteq> Some (tx_id tx)
      then (Err (Execution (''row lock conflict on '' @ k)), ls, tx)
      else acquire ks (bm_insert k (tx_id tx) ls, tx\<lparr>locked_rows := bs_insert k (locked_rows tx)\<rparr>))"

definition set_next :: "string \<Rightarrow> table \<Rightarrow> u64 \<Rightarrow> catalog \<Rightarrow> catalog" where
  "set_next tbl t n c = c\<lparr>tables := bm_insert tbl (t\<lparr>next_row_id := n\<rparr>) (tables c)\<rparr>"

definition raise_next :: "string \<Rightarrow> table \<Rightarrow> u64 \<Rightarrow> catalog \<Rightarrow> catalog" where
  "raise_next tbl t reserved c =
     (if next_row_id t < reserved then c\<lparr>tables := bm_insert tbl (t\<lparr>next_row_id := reserved\<rparr>) (tables c)\<rparr> else c)"

definition reserve_insert_row_id :: "platform \<Rightarrow> statement \<Rightarrow> pool \<times> transaction_state \<Rightarrow> unit result \<times> pool \<times> transaction_state" where
  "reserve_insert_row_id P stmt s =
     (let (p, tx) = s
      in case stmt of
           Insert tbl cols vals \<Rightarrow>
             (case bm_get (tables (pool_catalog p)) tbl of
                None \<Rightarrow> (Err (Execution ''unknown table''), s)
              | Some committed \<Rightarrow>
                  (case next_id P (next_row_id committed) of
                     Err e \<Rightarrow> (Err e, s)
                   | Panic m \<Rightarrow> (Panic m, poison_shared p, tx)
                   | Ok n \<Rightarrow>
                       let p' = set_pool_catalog (set_next tbl committed n (pool_catalog p)) p;
                           reserved = next_row_id committed
                       in case bm_get (tables (tx_catalog tx)) tbl of
                            None \<Rightarrow> (Err (Execution ''unknown table''), p', tx)
                          | Some staged \<Rightarrow>
                              let k = row_lock_key tbl reserved
                              in (Ok (), set_pool_locks (bm_insert k (tx_id tx) (pool_locks p')) p',
                                  tx\<lparr>tx_catalog := raise_next tbl staged reserved (tx_catalog tx),
                                     locked_rows := bs_insert k (locked_rows tx)\<rparr>)))
         | _ \<Rightarrow> (Ok (), s))"

definition lock_statement_rows ::
  "platform \<Rightarrow> statement \<Rightarrow> database_options \<Rightarrow> pool \<times> transaction_state \<Rightarrow> unit result \<times> pool \<times> transaction_state"
where
  "lock_statement_rows P stmt opts s =
     (let (p, tx) = s
      in case rbind (lock_shared p) (\<lambda>_. rows_to_lock P (tx_catalog tx) stmt (table_runtime_options opts)) of
           Err e \<Rightarrow> (Err e, s)
         | Panic m \<Rightarrow> (Panic m, poison_shared p, tx)
         | Ok ks \<Rightarrow>
             (case acquire ks (pool_locks p, tx) of
                (Ok _, ls, tx') \<Rightarrow> reserve_insert_row_id P stmt (set_pool_locks ls p, tx')
              | (r, ls, tx') \<Rightarrow> (r, set_pool_locks ls p, tx')))"

definition release_key :: "u64 \<Rightarrow> string \<Rightarrow> (string, u64) bmap \<Rightarrow> (string, u64) bmap" where
  "release_key i k ls = (if bm_get ls k = Some i then bm_remove k ls else ls)"

definition release_locks :: "(string, u64) bmap \<Rightarrow> transaction_state \<Rightarrow> (string, u64) bmap" where
  "release_locks ls tx = fold (release_key (tx_id tx)) (locked_rows tx) ls"

subsection \<open>Merging a transaction\<close>

text \<open>One locked key: the staged row replaces the committed one, or its absence deletes it.\<close>

definition merge_row :: "table \<Rightarrow> u64 \<Rightarrow> table \<Rightarrow> table" where
  "merge_row staged rid target =
     target\<lparr>rows := (case bm_get (rows staged) rid of
        Some r \<Rightarrow> bm_insert rid r (rows target) | None \<Rightarrow> bm_remove rid (rows target))\<rparr>"

fun merge_locked :: "string \<Rightarrow> table \<Rightarrow> string list \<Rightarrow> table \<Rightarrow> table result" where
  "merge_locked pre staged [] target = Ok target"
| "merge_locked pre staged (k # ks) target =
     (if take (length pre) k \<noteq> pre then merge_locked pre staged ks target
      else case parse_unsigned 64 10 (drop (length pre) k) of
          None \<Rightarrow> Err (Execution ''invalid locked row id'')
        | Some n \<Rightarrow> merge_locked pre staged ks (merge_row staged (of_nat n) target))"

definition append_new :: "table \<Rightarrow> u64 \<Rightarrow> table \<Rightarrow> table" where
  "append_new staged rid target =
     (case bm_get (rows staged) rid of
        Some r \<Rightarrow> target\<lparr>rows := bm_insert rid r (rows target)\<rparr> | None \<Rightarrow> target)"

definition row_ids_between :: "u64 \<Rightarrow> u64 \<Rightarrow> u64 list" where
  "row_ids_between a b = map of_nat [unat a..<unat b]"

definition merge_table :: "platform \<Rightarrow> string \<Rightarrow> table \<Rightarrow> string list \<Rightarrow> table \<Rightarrow> table result" where
  "merge_table P nm staged locked target =
     rbind (merge_locked (''row:'' @ nm @ '':'') staged locked target) (\<lambda>t1.
       let t2 = fold (append_new staged) (row_ids_between (next_row_id t1) (next_row_id staged)) t1;
           t3 = t2\<lparr>next_row_id := max (next_row_id t2) (next_row_id staged)\<rparr>
       in case rebuild_indexes_with_options P table_options_default t3 of
            (Ok _, t4) \<Rightarrow> Ok t4
          | (Err e, t4) \<Rightarrow> Err e
          | (Panic m, t4) \<Rightarrow> Panic m)"

fun merge_tables :: "platform \<Rightarrow> string list \<Rightarrow> (string, table) bmap \<Rightarrow> (string, table) bmap \<Rightarrow> (string, table) bmap result" where
  "merge_tables P locked [] merged = Ok merged"
| "merge_tables P locked ((nm, staged) # rest) merged =
     (case bm_get merged nm of
        None \<Rightarrow> merge_tables P locked rest (bm_insert nm staged merged)
      | Some target \<Rightarrow>
          rbind (merge_table P nm staged locked target) (\<lambda>t. merge_tables P locked rest (bm_insert nm t merged)))"

definition merge_catalogs :: "platform \<Rightarrow> catalog \<Rightarrow> catalog \<Rightarrow> string list \<Rightarrow> catalog result" where
  "merge_catalogs P base staged locked =
     rbind (merge_tables P locked (tables staged) (tables base)) (\<lambda>ts. Ok \<lparr>tables = ts\<rparr>)"

subsection \<open>Statements of a connection\<close>

type_synonym conn_state = "pool \<times> connection \<times> world"

definition pool_begin :: "pool \<times> connection \<Rightarrow> query_result result \<times> pool \<times> connection" where
  "pool_begin s =
     (let (p, c) = s
      in if transaction c \<noteq> None then (Err (Execution ''transaction already active''), s)
         else case lock_shared p of
             Ok sh \<Rightarrow>
               (Ok (query_message ''transaction started''),
                p\<lparr>next_transaction_id := next_transaction_id p + 1\<rparr>,
                c\<lparr>transaction := Some \<lparr>tx_id = next_transaction_id p, tx_catalog = active_catalog (shared_db sh),
                    locked_rows = []\<rparr>\<rparr>)
           | Err e \<Rightarrow> (Err e, s)
           | Panic m \<Rightarrow> (Panic m, s))"

definition pool_commit ::
  "platform \<Rightarrow> nat \<Rightarrow> database_options \<Rightarrow> conn_state \<Rightarrow> query_result result \<times> conn_state"
where
  "pool_commit P pid opts s =
     (let (p, c, w) = s; c' = c\<lparr>transaction := None\<rparr>
      in case transaction c of
           None \<Rightarrow> (Err (Execution ''no active transaction''), s)
         | Some tx \<Rightarrow>
             (case rbind (lock_shared p) (\<lambda>_. merge_catalogs P (pool_catalog p) (tx_catalog tx) (locked_rows tx)) of
                Err e \<Rightarrow> (Err e, p, c', w)
              | Panic m \<Rightarrow> (Panic m, poison_shared p, c', w)
              | Ok merged \<Rightarrow>
                  let p1 = replace_pool_catalog merged p; freed = release_locks (pool_locks p) tx
                  in case persist_catalog pid opts (shared_db (shared p1)) w of
                       (Ok _, w') \<Rightarrow>
                         (Ok (query_message ''transaction committed''), set_pool_locks freed p1, c', w')
                     | (Err e, w') \<Rightarrow>
                         (Err e, set_pool_locks freed (replace_pool_catalog (pool_catalog p) p1), c', w')
                     | (Panic m, w') \<Rightarrow> (Panic m, poison_shared p1, c', w')))"

definition pool_rollback :: "pool \<times> connection \<Rightarrow> query_result result \<times> pool \<times> connection" where
  "pool_rollback s =
     (let (p, c) = s; c' = c\<lparr>transaction := None\<rparr>
      in case transaction c of
           None \<Rightarrow> (Err (Execution ''no active transaction''), s)
         | Some tx \<Rightarrow>
             (case lock_shared p of
                Ok sh \<Rightarrow> (Ok (query_message ''transaction rolled back''),
                          set_pool_locks (release_locks (row_locks sh) tx) p, c')
              | Err e \<Rightarrow> (Err e, p, c')
              | Panic m \<Rightarrow> (Panic m, p, c')))"

text \<open>The check before a definition of a table or an index; the mutex is given back after it.\<close>

definition ddl_check :: "statement \<Rightarrow> pool \<times> connection \<Rightarrow> unit result" where
  "ddl_check stmt s =
     (if is_ddl_statement stmt then
        rbind (lock_shared (fst s)) (\<lambda>sh.
          if transaction (snd s) \<noteq> None then Err (Execution ''ddl is not allowed inside an active transaction'')
          else if row_locks sh \<noteq> [] then Err (Execution ''ddl blocked by active dml transactions'')
          else Ok ())
      else Ok ())"

text \<open>A statement inside a transaction: lock, then execute on the transaction's own catalog.\<close>

definition tx_statement ::
  "platform \<Rightarrow> statement \<Rightarrow> database_options \<Rightarrow> transaction_state \<Rightarrow> pool \<times> connection \<Rightarrow>
     query_result result \<times> pool \<times> connection"
where
  "tx_statement P stmt opts tx s =
     (let (p, c) = s
      in case lock_statement_rows P stmt opts (p, tx) of
           (Ok _, p', tx') \<Rightarrow>
             (let (r, cat) = execute_statement_with_options P stmt (table_runtime_options opts) (tx_catalog tx')
              in (r, p', c\<lparr>transaction := Some (tx'\<lparr>tx_catalog := cat\<rparr>)\<rparr>))
         | (Err e, p', tx') \<Rightarrow> (Err e, p', c\<lparr>transaction := Some tx'\<rparr>)
         | (Panic m, p', tx') \<Rightarrow> (Panic m, p', c\<lparr>transaction := Some tx'\<rparr>))"

text \<open>A statement outside a transaction: execute on the shared catalog and persist, or restore.\<close>

definition auto_statement ::
  "platform \<Rightarrow> nat \<Rightarrow> statement \<Rightarrow> database_options \<Rightarrow> pool \<times> world \<Rightarrow> query_result result \<times> pool \<times> world"
where
  "auto_statement P pid stmt opts s =
     (let (p, w) = s
      in case lock_shared p of
           Err e \<Rightarrow> (Err e, s)
         | Panic m \<Rightarrow> (Panic m, s)
         | Ok _ \<Rightarrow>
             (case execute_statement_with_options P stmt (table_runtime_options opts) (pool_catalog p) of
                (Ok res, cat) \<Rightarrow>
                  (case persist_catalog pid opts (shared_db (shared (set_pool_catalog cat p))) w of
                     (Ok _, w') \<Rightarrow> (Ok res, set_pool_catalog cat p, w')
                   | (Err e, w') \<Rightarrow> (Err e, replace_pool_catalog (pool_catalog p) p, w')
                   | (Panic m, w') \<Rightarrow> (Panic m, poison_shared (set_pool_catalog cat p), w'))
              | (Err e, cat) \<Rightarrow> (Err e, replace_pool_catalog (pool_catalog p) p, w)
              | (Panic m, cat) \<Rightarrow> (Panic m, poison_shared (set_pool_catalog cat p), w)))"

definition pool_catalog_statement ::
  "platform \<Rightarrow> nat \<Rightarrow> statement \<Rightarrow> database_options \<Rightarrow> conn_state \<Rightarrow> query_result result \<times> conn_state"
where
  "pool_catalog_statement P pid stmt opts s =
     (let (p, c, w) = s
      in case ddl_check stmt (p, c) of
           Err e \<Rightarrow> (Err e, s)
         | Panic m \<Rightarrow> (Panic m, s)
         | Ok _ \<Rightarrow>
             (case transaction c of
                Some tx \<Rightarrow> (let (r, p', c') = tx_statement P stmt opts tx (p, c) in (r, p', c', w))
              | None \<Rightarrow> (let (r, p', w') = auto_statement P pid stmt opts (p, w) in (r, p', c, w'))))"

definition pool_execute_statement ::
  "platform \<Rightarrow> nat \<Rightarrow> statement \<Rightarrow> database_options \<Rightarrow> conn_state \<Rightarrow> query_result result \<times> conn_state"
where
  "pool_execute_statement P pid stmt opts s =
     (let (p, c, w) = s
      in case stmt of
           Begin \<Rightarrow> (let (r, p', c') = pool_begin (p, c) in (r, p', c', w))
         | Commit \<Rightarrow> pool_commit P pid opts s
         | Rollback \<Rightarrow> (let (r, p', c') = pool_rollback (p, c) in (r, p', c', w))
         | _ \<Rightarrow> pool_catalog_statement P pid stmt opts s)"

subsection \<open>A call of execute\<close>

definition conn_parse :: "platform \<Rightarrow> string \<Rightarrow> pool \<times> connection \<Rightarrow> statement result \<times> connection" where
  "conn_parse P sql s =
     (let (p, c) = s
      in case lock_shared p of
           Err e \<Rightarrow> (Err e, c)
         | Panic m \<Rightarrow> (Panic m, c)
         | Ok sh \<Rightarrow>
             if cache_poisoned c then (Err (Execution ''statement cache lock poisoned''), c)
             else let (r, cache) = cache_parse P sql (sql_dialect (db_options (shared_db sh))) (conn_cache c)
                  in (r, c\<lparr>conn_cache := cache, cache_poisoned := is_panic r\<rparr>))"

definition pool_log_before :: "database_options \<Rightarrow> statement \<Rightarrow> string \<Rightarrow> conn_state \<Rightarrow> unit result \<times> world" where
  "pool_log_before opts stmt sql s =
     (let (p, c, w) = s
      in if mutates_catalog stmt then
           (case lock_shared p of
              Err e \<Rightarrow> (Err e, w)
            | Panic m \<Rightarrow> (Panic m, w)
            | Ok sh \<Rightarrow>
                sbind (if undolog_path opts \<noteq> None
                       then append_undolog opts sql
                              (encode (case transaction c of Some tx \<Rightarrow> tx_catalog tx | None \<Rightarrow> active_catalog (shared_db sh))) w
                       else (Ok (), w))
                  (\<lambda>_ w'. append_redolog opts RedoBegin sql w'))
         else if stmt = Commit then append_redolog opts RedoBegin sql w
         else (Ok (), w))"

definition conn_run ::
  "platform \<Rightarrow> nat \<Rightarrow> statement \<Rightarrow> string \<Rightarrow> database_options \<Rightarrow> conn_state \<Rightarrow> query_result result \<times> conn_state"
where
  "conn_run P pid stmt sql opts s =
     (let (p, c, w) = s
      in case pool_log_before opts stmt sql s of
           (Err e, w1) \<Rightarrow> (Err e, p, c, w1)
         | (Panic m, w1) \<Rightarrow> (Panic m, p, c, w1)
         | (Ok _, w1) \<Rightarrow>
             (case pool_execute_statement P pid stmt opts (p, c, w1) of
                (Ok res, p2, c2, w2) \<Rightarrow>
                  (case log_after_ok opts stmt sql w2 of
                     (Ok _, w3) \<Rightarrow> (Ok res, p2, c2, w3)
                   | (Err e, w3) \<Rightarrow> (Err e, p2, c2, w3)
                   | (Panic m, w3) \<Rightarrow> (Panic m, p2, c2, w3))
              | (Err e, p2, c2, w2) \<Rightarrow> (Err e, p2, c2, log_after_err opts stmt sql w2)
              | (Panic m, p2, c2, w2) \<Rightarrow> (Panic m, p2, c2\<lparr>transaction_poisoned := True\<rparr>, w2)))"

definition conn_execute_inner :: "platform \<Rightarrow> nat \<Rightarrow> string \<Rightarrow> conn_state \<Rightarrow> query_result result \<times> conn_state" where
  "conn_execute_inner P pid sql s =
     (let (p, c, w) = s; opts = pool_options p
      in case conn_parse P sql (p, c) of
           (Err e, c1) \<Rightarrow> (Err e, p, c1, w)
         | (Panic m, c1) \<Rightarrow> (Panic m, p, c1, w)
         | (Ok stmt, c1) \<Rightarrow>
             if transaction_poisoned c1 then (Err (Execution ''transaction lock poisoned''), p, c1, w)
             else conn_run P pid stmt sql opts (p, c1, w))"

definition conn_execute :: "platform \<Rightarrow> nat \<Rightarrow> nat \<Rightarrow> string \<Rightarrow> conn_state \<Rightarrow> query_result result \<times> conn_state" where
  "conn_execute P pid elapsed sql s =
     (case conn_execute_inner P pid sql s of
        (Panic m, s') \<Rightarrow> (Panic m, s')
      | (r, p, c, w) \<Rightarrow>
          (case lock_shared p of
             Ok sh \<Rightarrow>
               (case r of
                  Ok res \<Rightarrow> (Ok res, p, c, append_slow_sql (db_options (shared_db sh)) sql elapsed w)
                | Err e \<Rightarrow> (Err e, p, c, append_error (db_options (shared_db sh)) sql (error_to_string e) w)
                | Panic m \<Rightarrow> (Panic m, p, c, w))
           | Err e \<Rightarrow> (Err (Execution ''database lock poisoned''), p, c, w)
           | Panic m \<Rightarrow> (Panic m, p, c, w)))"

text \<open>\<^verbatim>\<open>impl Drop for Connection\<close>.\<close>

definition conn_drop :: "pool \<times> connection \<Rightarrow> pool \<times> connection" where
  "conn_drop s =
     (let (p, c) = s
      in if released c then s
         else let c1 = c\<lparr>released := True\<rparr>;
                  (p2, c2) =
                    (if transaction_poisoned c then (p, c1)
                     else case transaction c of
                         None \<Rightarrow> (p, c1)
                       | Some tx \<Rightarrow>
                           (if shared_poisoned p then p else set_pool_locks (release_locks (pool_locks p) tx) p,
                            c1\<lparr>transaction := None\<rparr>))
              in (p2\<lparr>permits := permits p2 + 1\<rparr>, c2))"

end
