(* ===== verification/Pool_Merge.thy ===== *)
theory Pool_Merge
  imports Pool
begin

section \<open>What a commit merges\<close>

text \<open>
  Lock keys determine their row, and \<open>merge_catalogs\<close> on a transaction that was started from the base catalog
  gives: every row the transaction has locked as the transaction left it, every other row as it is in the
  base, indexes of the base rebuilt over the result.
\<close>

subsection \<open>Lock keys\<close>

lemma from_digits_colon: "CHR '':'' \<in> set s \<Longrightarrow> from_digits 10 n s = None"
  by (induction s arbitrary: n) (auto simp: digit_val_def code_def split: option.split)

lemma parse_unsigned_colon: "CHR '':'' \<in> set s \<Longrightarrow> parse_unsigned 64 10 s = None"
  by (cases s) (auto simp: parse_unsigned_def from_digits_colon simp del: from_digits.simps)

lemma show_nat_no_colon: "CHR '':'' \<notin> set (show_nat n)"
  using show_radix_hex [of 10 "CHR '':''" n] by (auto simp: is_hex_def code_def)

lemma parse_row_id: "parse_unsigned 64 10 (show_nat (unat (n :: u64))) = Some (unat n)"
  using unsigned_less [of n] by (intro parse_unsigned_show) auto

lemma last_separator:
  assumes "a @ d # s = b @ d # t" "d \<notin> set s" "d \<notin> set t"
  shows "a = b \<and> s = t"
proof -
  obtain us where "a = b @ us \<and> us @ d # s = d # t \<or> a @ us = b \<and> d # s = us @ d # t"
    using assms(1) unfolding append_eq_append_conv2 by blast
  with assms(2,3) show ?thesis by (cases us) auto
qed

lemma row_lock_key_inj [simp]: "row_lock_key a m = row_lock_key b n \<longleftrightarrow> a = b \<and> m = n"
proof
  assume "row_lock_key a m = row_lock_key b n"
  then have "a @ CHR '':'' # show_nat (unat m) = b @ CHR '':'' # show_nat (unat n)" by (simp add: row_lock_key_def)
  then have "a = b" "show_nat (unat m) = show_nat (unat n)"
    using last_separator [OF _ show_nat_no_colon show_nat_no_colon] by blast+
  then show "a = b \<and> m = n" by (metis option.inject parse_row_id word_unat_eq_iff)
qed simp

text \<open>The keys a transaction can hold: of rows, and of rows about to be inserted.\<close>

definition is_insert_key :: "string \<Rightarrow> bool" where
  "is_insert_key k \<longleftrightarrow> take 7 k = ''insert:''"

definition lock_keys_ok :: "string list \<Rightarrow> bool" where
  "lock_keys_ok ks \<longleftrightarrow> (\<forall>k \<in> set ks. is_insert_key k \<or> (\<exists>tbl n. k = row_lock_key tbl n))"

lemma insert_not_row [simp]: "\<not> is_insert_key (row_lock_key tbl n)"
  by (simp add: is_insert_key_def row_lock_key_def)

lemma insert_key_prefix: "is_insert_key k \<Longrightarrow> take (length (''row:'' @ nm @ '':'')) k \<noteq> ''row:'' @ nm @ '':''"
  by (cases k) (auto simp: is_insert_key_def)

lemma take_append_eq: "take (length p) k = p \<longleftrightarrow> (\<exists>s. k = p @ s)"
  by (metis append_eq_conv_conj append_take_drop_id)

text \<open>A row key under the prefix of a table: it is of that table, or its row number does not parse.\<close>

lemma row_key_prefix:
  assumes "take (length (''row:'' @ nm @ '':'')) (row_lock_key tbl n) = ''row:'' @ nm @ '':''"
  shows "parse_unsigned 64 10 (drop (length (''row:'' @ nm @ '':'')) (row_lock_key tbl n)) =
    (if tbl = nm then Some (unat n) else None)"
proof -
  obtain s where s: "row_lock_key tbl n = (''row:'' @ nm @ '':'') @ s" using assms take_append_eq by blast
  have eq: "tbl @ CHR '':'' # show_nat (unat n) = nm @ CHR '':'' # s" using s by (simp add: row_lock_key_def)
  show ?thesis
  proof (cases "CHR '':'' \<in> set s")
    case True
    then have "tbl \<noteq> nm" using eq show_nat_no_colon by auto
    with True s show ?thesis by (simp add: parse_unsigned_colon)
  next
    case False
    then have "tbl = nm \<and> show_nat (unat n) = s" using last_separator [OF eq show_nat_no_colon] by blast
    with s parse_row_id [of n] show ?thesis by auto
  qed
qed

subsection \<open>One table\<close>

lemma merge_locked_rows:
  assumes "merge_locked (''row:'' @ nm @ '':'') staged ks target = Ok t" "lock_keys_ok ks"
  shows "(\<exists>rs. t = target\<lparr>rows := rs\<rparr>) \<and> (bm_ok (rows target) \<longrightarrow> bm_ok (rows t)) \<and>
    (\<forall>n. bm_get (rows t) n = bm_get (rows (if row_lock_key nm n \<in> set ks then staged else target)) n)"
  using assms
proof (induction ks arbitrary: target)
  case Nil
  then show ?case by (auto intro: exI [of _ "rows target"])
next
  case (Cons k ks)
  have ks: "lock_keys_ok ks" using Cons.prems by (simp add: lock_keys_ok_def)
  show ?case
  proof (cases "take (length (''row:'' @ nm @ '':'')) k = ''row:'' @ nm @ '':''")
    case False
    then have "k \<noteq> row_lock_key nm n" for n by (auto simp: row_lock_key_def)
    moreover have "merge_locked (''row:'' @ nm @ '':'') staged ks target = Ok t" using Cons.prems(1) False by simp
    ultimately show ?thesis using Cons.IH ks by auto
  next
    case True
    then obtain tbl m where k: "k = row_lock_key tbl m"
      using Cons.prems(2) insert_key_prefix [of k nm] by (auto simp: lock_keys_ok_def)
    have p: "parse_unsigned 64 10 (drop (length (''row:'' @ nm @ '':'')) k) = (if tbl = nm then Some (unat m) else None)"
      using row_key_prefix [of nm tbl m] True unfolding k by blast
    have "merge_locked (''row:'' @ nm @ '':'') staged (k # ks) target =
        (case parse_unsigned 64 10 (drop (length (''row:'' @ nm @ '':'')) k) of
          None \<Rightarrow> Err (Execution ''invalid locked row id'')
        | Some n \<Rightarrow> merge_locked (''row:'' @ nm @ '':'') staged ks (merge_row staged (of_nat n) target))"
      unfolding merge_locked.simps using True by (simp only: simp_thms if_False)
    then have tbl: "tbl = nm" and rest: "merge_locked (''row:'' @ nm @ '':'') staged ks (merge_row staged m target) = Ok t"
      using Cons.prems(1) p by (auto split: if_splits)
    have "bm_ok (rows target) \<Longrightarrow> bm_ok (rows (merge_row staged m target))"
      "\<exists>rs. merge_row staged m target = target\<lparr>rows := rs\<rparr>"
      "bm_get (rows (merge_row staged m target)) n = bm_get (rows (if n = m then staged else target)) n" for n
      by (auto simp: merge_row_def split: option.split)
    with Cons.IH [OF rest ks] k tbl show ?thesis by (auto split: if_splits)
  qed
qed

text \<open>How a transaction's catalog relates to the committed one: the same tables with the same columns, and no
  row identifier that has not been given out.\<close>

definition table_from :: "table \<Rightarrow> table \<Rightarrow> bool" where
  "table_from t staged \<longleftrightarrow> columns staged = columns t \<and> next_row_id staged \<le> next_row_id t"

definition staged_from :: "catalog \<Rightarrow> catalog \<Rightarrow> bool" where
  "staged_from base staged \<longleftrightarrow>
     (\<forall>nm st. bm_get (tables staged) nm = Some st \<longrightarrow> (\<exists>t. bm_get (tables base) nm = Some t \<and> table_from t st))"

text \<open>The result for one table: its definition stays, locked rows come from the transaction.\<close>

definition table_merged :: "string \<Rightarrow> string list \<Rightarrow> table \<Rightarrow> table \<Rightarrow> table \<Rightarrow> bool" where
  "table_merged nm locked target staged t \<longleftrightarrow>
     tname t = tname target \<and> columns t = columns target \<and> next_row_id t = next_row_id target \<and>
     indexes_for_encoding t = indexes_for_encoding target \<and>
     fulltext_indexes_for_encoding t = fulltext_indexes_for_encoding target \<and>
     (\<forall>n. bm_get (rows t) n = bm_get (rows (if row_lock_key nm n \<in> set locked then staged else target)) n)"

lemma row_ids_between_empty: "b \<le> a \<Longrightarrow> row_ids_between a b = []"
  by (simp add: row_ids_between_def word_le_nat_alt)

lemma merged_data_ok:
  assumes target: "data_ok target" and staged: "data_ok staged" and tf: "table_from target staged"
    and rows: "bm_ok rs" "\<forall>n. bm_get rs n = bm_get (rows (if L n then staged else target)) n"
    and keyed: "keyed_rows target rs"
  shows "data_ok (target\<lparr>rows := rs\<rparr>)"
proof -
  have "row_typed (columns target) r \<and> n < next_row_id target" if "(n, r) \<in> set rs" for n r
  proof -
    have "bm_get rs n = Some r" using that rows(1) by (simp add: bm_get_iff)
    then have "(n, r) \<in> set (rows staged) \<or> (n, r) \<in> set (rows target)"
      using rows(2) target staged by (auto simp: data_ok_def bm_get_iff split: if_splits dest!: map_of_SomeD)
    then show ?thesis using target staged tf by (fastforce simp: data_ok_def table_from_def)
  qed
  then show ?thesis
    using target rows(1) keyed by (auto simp: data_ok_def schema_ok_def indexes_ok_def keyed_rows_def)
qed

lemma merge_table_ok:
  assumes ok: "table_ok P SimpleTok target" "table_ok P SimpleTok staged" and tf: "table_from target staged"
    and keys: "lock_keys_ok locked" and run: "merge_table P nm staged locked target = Ok t"
  shows "table_ok P SimpleTok t \<and> table_merged nm locked target staged t \<and> (names_valid target \<longrightarrow> names_valid t)"
proof -
  obtain t1 where t1: "merge_locked (''row:'' @ nm @ '':'') staged locked target = Ok t1"
    using run by (auto simp: merge_table_def rbind_Ok_iff)
  obtain rs where rs: "t1 = target\<lparr>rows := rs\<rparr>" "bm_ok (rows target) \<longrightarrow> bm_ok rs"
    and get: "\<forall>n. bm_get rs n = bm_get (rows (if row_lock_key nm n \<in> set locked then staged else target)) n"
    using merge_locked_rows [OF t1 keys] by auto
  have d: "data_ok target" "data_ok staged" using ok by (auto simp: table_ok_def)
  have le: "next_row_id staged \<le> next_row_id target" using tf by (simp add: table_from_def)
  then have "target\<lparr>rows := rs, next_row_id := max (next_row_id target) (next_row_id staged)\<rparr> = t1"
    by (simp add: rs(1) max_def)
  then have rebuilt: "rebuild_indexes_with_options P table_options_default t1 = (Ok (), t)"
    using run t1 rs(1) row_ids_between_empty [OF le]
    by (auto simp: merge_table_def split: prod.splits result.splits)
  have "indexes_ok t1" using d by (simp add: rs(1) data_ok_def indexes_ok_def)
  then have t: "t = reindexed P SimpleTok t1" "keyed_rows target rs"
    using rebuilt by (auto simp: rebuild_Ok_iff rows_indexable_def rs(1) keyed_rows_def table_options_default_def)
  have "bm_ok rs" using rs(2) d by (simp add: data_ok_def)
  then have "data_ok t1" unfolding rs(1) using merged_data_ok [OF d tf _ get t(2)] by blast
  then have "table_ok P SimpleTok t" unfolding t(1) by (rule table_ok_reindexed)
  moreover have "rows t = rs" "columns t = columns target" "tname t = tname target" "next_row_id t = next_row_id target"
    "indexes_for_encoding t = indexes_for_encoding target"
    "fulltext_indexes_for_encoding t = fulltext_indexes_for_encoding target"
    using same_shape_fields [OF reindexed_shape [of P SimpleTok t1]]
    by (simp_all add: t(1) rs(1) indexes_for_encoding_def fulltext_indexes_for_encoding_def)
  ultimately show ?thesis using get by (simp add: table_merged_def names_valid_def)
qed

subsection \<open>The catalog\<close>

text \<open>Tables in name order, well-formed: what \<open>catalog_ok\<close> says of the map alone.\<close>

definition tables_ok :: "platform \<Rightarrow> (string, table) bmap \<Rightarrow> bool" where
  "tables_ok P ts \<longleftrightarrow> bm_ok ts \<and> (\<forall>e \<in> set ts. fst e = tname (snd e) \<and> table_ok P SimpleTok (snd e) \<and> names_valid (snd e))"

lemma catalog_tables: "catalog_ok P SimpleTok c \<longleftrightarrow> tables_ok P (tables c)"
  by (simp add: catalog_ok_def tables_ok_def)

lemma tables_ok_get: "tables_ok P ts \<Longrightarrow> bm_get ts nm = Some t \<Longrightarrow> nm = tname t \<and> table_ok P SimpleTok t \<and> names_valid t"
  by (auto simp: tables_ok_def dest!: map_of_SomeD)

lemma tables_ok_insert:
  "tables_ok P ts \<Longrightarrow> nm = tname t \<Longrightarrow> table_ok P SimpleTok t \<Longrightarrow> names_valid t \<Longrightarrow> tables_ok P (bm_insert nm t ts)"
  using set_bm_insert_subset [of nm t ts] by (auto simp: tables_ok_def)

lemma merge_tables_ok:
  assumes "tables_ok P ts" "tables_ok P sts" "lock_keys_ok locked"
    and "\<forall>nm st. (nm, st) \<in> set sts \<longrightarrow> (\<exists>t. bm_get ts nm = Some t \<and> table_from t st)"
    and "merge_tables P locked sts ts = Ok merged"
  shows "tables_ok P merged \<and>
    (\<forall>nm. case bm_get sts nm of
       None \<Rightarrow> bm_get merged nm = bm_get ts nm
     | Some st \<Rightarrow> (\<exists>t0 t. bm_get ts nm = Some t0 \<and> bm_get merged nm = Some t \<and> table_merged nm locked t0 st t))"
  using assms
proof (induction sts arbitrary: ts)
  case (Cons e sts)
  obtain nm st where e: "e = (nm, st)" by fastforce
  obtain t0 where t0: "bm_get ts nm = Some t0" "table_from t0 st" using Cons.prems(4) e by auto
  have st: "table_ok P SimpleTok st" using Cons.prems(2) e by (auto simp: tables_ok_def)
  obtain t where t: "merge_table P nm st locked t0 = Ok t" "merge_tables P locked sts (bm_insert nm t ts) = Ok merged"
    using Cons.prems(5) e t0(1) by (auto simp: rbind_Ok_iff)
  have m: "table_ok P SimpleTok t" "table_merged nm locked t0 st t" "names_valid t"
    using merge_table_ok [OF _ st t0(2) Cons.prems(3) t(1)] tables_ok_get [OF Cons.prems(1) t0(1)] by auto
  have ts': "tables_ok P (bm_insert nm t ts)"
    using Cons.prems(1) m tables_ok_get [OF Cons.prems(1) t0(1)] by (intro tables_ok_insert) (auto simp: table_merged_def)
  have "bm_ok ((nm, st) # sts)" using Cons.prems(2) unfolding e tables_ok_def by blast
  moreover have sts: "tables_ok P sts" using Cons.prems(2) by (auto simp: tables_ok_def bm_ok_Cons)
  ultimately have fresh: "nm \<notin> fst ` set sts" unfolding bm_ok_Cons by auto
  have "\<forall>nm' st'. (nm', st') \<in> set sts \<longrightarrow> (\<exists>t'. bm_get (bm_insert nm t ts) nm' = Some t' \<and> table_from t' st')"
    using Cons.prems(4) fresh by (force simp: e)
  note IH = Cons.IH [OF ts' sts Cons.prems(3) this t(2)]
  have "bm_get sts nm = None" using fresh by (simp add: bm_get_dom)
  with IH t0 m(2) show ?case
    by (auto simp: e split: option.splits if_splits)
qed simp

lemma merge_catalogs_ok:
  assumes "catalog_ok P SimpleTok base" "catalog_ok P SimpleTok staged" "staged_from base staged"
    and "lock_keys_ok locked" "merge_catalogs P base staged locked = Ok merged"
  shows "catalog_ok P SimpleTok merged \<and>
    (\<forall>nm. case bm_get (tables staged) nm of
       None \<Rightarrow> bm_get (tables merged) nm = bm_get (tables base) nm
     | Some st \<Rightarrow> (\<exists>t0 t. bm_get (tables base) nm = Some t0 \<and> bm_get (tables merged) nm = Some t \<and>
         table_merged nm locked t0 st t))"
proof -
  have "bm_ok (tables staged)" using assms(2) by (simp add: catalog_ok_def)
  then have from_base: "\<forall>nm st. (nm, st) \<in> set (tables staged) \<longrightarrow>
      (\<exists>t. bm_get (tables base) nm = Some t \<and> table_from t st)"
    using assms(3) by (simp add: staged_from_def bm_get_iff)
  obtain ts where "merge_tables P locked (tables staged) (tables base) = Ok ts" "merged = \<lparr>tables = ts\<rparr>"
    using assms(5) by (auto simp: merge_catalogs_def rbind_Ok_iff)
  then show ?thesis
    using merge_tables_ok [OF _ _ assms(4) from_base] assms(1,2) by (simp add: catalog_tables)
qed

text \<open>A transaction that has locked nothing changes nothing: its merge always succeeds.\<close>

lemma merge_table_unlocked:
  assumes "table_ok P SimpleTok target" "table_from target staged"
  shows "merge_table P nm staged [] target = Ok target"
proof -
  have le: "next_row_id staged \<le> next_row_id target" using assms(2) by (simp add: table_from_def)
  have "rebuild_indexes_with_options P table_options_default target = (Ok (), target)"
    using assms(1) by (simp add: table_ok_def rebuild_data_ok table_options_default_def)
  then show ?thesis using le by (simp add: merge_table_def row_ids_between_empty max_def)
qed

lemma merge_tables_unlocked:
  assumes "tables_ok P ts" "\<forall>nm st. (nm, st) \<in> set sts \<longrightarrow> (\<exists>t. bm_get ts nm = Some t \<and> table_from t st)"
  shows "merge_tables P [] sts ts = Ok ts"
  using assms(2)
proof (induction sts)
  case (Cons e sts)
  obtain nm st where e: "e = (nm, st)" by fastforce
  obtain t0 where t0: "bm_get ts nm = Some t0" "table_from t0 st" using Cons.prems e by auto
  have "merge_table P nm st [] t0 = Ok t0" using tables_ok_get [OF assms(1) t0(1)] t0(2) by (simp add: merge_table_unlocked)
  moreover have "bm_insert nm t0 ts = ts" using assms(1) t0(1) by (simp add: tables_ok_def bm.insert_same)
  ultimately show ?case using t0(1) Cons by (auto simp: e)
qed simp

lemma merge_unlocked:
  assumes "catalog_ok P SimpleTok base" "catalog_ok P SimpleTok staged" "staged_from base staged"
  shows "merge_catalogs P base staged [] = Ok base"
proof -
  have "bm_ok (tables staged)" using assms(2) by (simp add: catalog_ok_def)
  then have "\<forall>nm st. (nm, st) \<in> set (tables staged) \<longrightarrow> (\<exists>t. bm_get (tables base) nm = Some t \<and> table_from t st)"
    using assms(3) by (simp add: staged_from_def bm_get_iff)
  then show ?thesis
    using merge_tables_unlocked [of P "tables base" "tables staged"] assms(1) by (simp add: merge_catalogs_def catalog_tables)
qed

text \<open>A merge never panics.\<close>

lemma merge_locked_shape: "merge_locked pre staged ks target = Ok t \<Longrightarrow> indexes t = indexes target \<and> fulltext_indexes t = fulltext_indexes target"
  by (induction ks arbitrary: target) (auto simp: merge_row_def split: if_splits option.splits)

lemma merge_locked_no_panic: "merge_locked pre staged ks target \<noteq> Panic m"
  by (induction ks arbitrary: target) (auto split: option.split)

lemma append_new_shape:
  "indexes (fold (append_new staged) ns t) = indexes t \<and> fulltext_indexes (fold (append_new staged) ns t) = fulltext_indexes t"
  by (induction ns arbitrary: t) (auto simp: append_new_def split: option.split)

lemma merge_table_safe:
  assumes "indexes_ok target"
  shows "merge_table P nm staged locked target \<noteq> Panic m"
    and "merge_table P nm staged locked target = Ok t \<Longrightarrow> indexes_ok t"
proof -
  define full where "full t1 = (fold (append_new staged) (row_ids_between (next_row_id t1) (next_row_id staged)) t1)
    \<lparr>next_row_id := max (next_row_id (fold (append_new staged) (row_ids_between (next_row_id t1) (next_row_id staged)) t1))
      (next_row_id staged)\<rparr>" for t1
  have full: "indexes_ok (full t1)" if "merge_locked (''row:'' @ nm @ '':'') staged locked target = Ok t1" for t1
    using merge_locked_shape [OF that] append_new_shape [of staged _ t1] assms by (simp add: indexes_ok_def full_def)
  have unfolded: "merge_table P nm staged locked target =
    rbind (merge_locked (''row:'' @ nm @ '':'') staged locked target) (\<lambda>t1.
      case rebuild_indexes_with_options P table_options_default (full t1) of
        (Ok _, t4) \<Rightarrow> Ok t4 | (Err e, t4) \<Rightarrow> Err e | (Panic m, t4) \<Rightarrow> Panic m)"
    by (simp add: merge_table_def full_def Let_def)
  show "merge_table P nm staged locked target \<noteq> Panic m"
    unfolding unfolded rbind_Panic_iff using rebuild_no_panic [OF full, of _ P table_options_default]
    by (fastforce simp: merge_locked_no_panic split: prod.splits result.splits)
  show "indexes_ok t" if run: "merge_table P nm staged locked target = Ok t"
  proof -
    obtain t1 where t1: "merge_locked (''row:'' @ nm @ '':'') staged locked target = Ok t1"
      and res: "(case rebuild_indexes_with_options P table_options_default (full t1) of
        (Ok _, t4) \<Rightarrow> Ok t4 | (Err e, t4) \<Rightarrow> Err e | (Panic m, t4) \<Rightarrow> Panic m) = Ok t"
      using run unfolding unfolded rbind_Ok_iff by blast
    have "rebuild_indexes_with_options P table_options_default (full t1) = (Ok (), t)"
      using res by (auto split: prod.splits result.splits)
    then have "same_shape t (full t1)" using rebuild_shape [OF full [OF t1], of P table_options_default] by simp
    then show ?thesis using same_shape_indexes_ok full [OF t1] by blast
  qed
qed

lemma merge_tables_no_panic: "(\<And>nm t. bm_get ts nm = Some t \<Longrightarrow> indexes_ok t) \<Longrightarrow> (\<And>e. e \<in> set sts \<Longrightarrow> indexes_ok (snd e)) \<Longrightarrow>
    merge_tables P locked sts ts \<noteq> Panic m"
proof (induction sts arbitrary: ts)
  case (Cons e sts)
  obtain nm st where e: "e = (nm, st)" by fastforce
  show ?case
  proof (cases "bm_get ts nm")
    case None
    have "indexes_ok st" using Cons.prems(2) [of e] e by simp
    then have "merge_tables P locked sts (bm_insert nm st ts) \<noteq> Panic m"
      using Cons.prems e by (intro Cons.IH) (auto split: if_splits)
    with None e show ?thesis by simp
  next
    case (Some target)
    have "merge_tables P locked sts (bm_insert nm t ts) \<noteq> Panic m" if "merge_table P nm st locked target = Ok t" for t
      using merge_table_safe(2) [OF Cons.prems(1) [OF Some] that] Cons.prems by (intro Cons.IH) (auto split: if_splits)
    with Some e merge_table_safe(1) [OF Cons.prems(1) [OF Some]] show ?thesis by (simp add: rbind_Panic_iff)
  qed
qed simp

lemma merge_catalogs_no_panic:
  assumes "catalog_ok P tk base" "catalog_ok P tk staged"
  shows "merge_catalogs P base staged locked \<noteq> Panic m"
proof -
  have "indexes_ok t" if "bm_get (tables base) nm = Some t" for nm t
    using assms(1) that by (auto simp: catalog_ok_def table_ok_def data_ok_def dest!: map_of_SomeD)
  moreover have "indexes_ok (snd e)" if "e \<in> set (tables staged)" for e
    using assms(2) that by (auto simp: catalog_ok_def table_ok_def data_ok_def)
  ultimately show ?thesis using merge_tables_no_panic by (auto simp: merge_catalogs_def rbind_Panic_iff)
qed

subsection \<open>Properties\<close>

text \<open>C19: A commit merges exactly the rows the transaction has locked: in the merged catalog, which is well-formed,
  every locked row is as the transaction left it (changed, inserted or deleted), every other row is as it is
  in the committed catalog, and tables, columns, indexes and row counters are those of the committed catalog.\<close>

theorem merge_exact:
  assumes "catalog_ok P SimpleTok base" "catalog_ok P SimpleTok staged" "staged_from base staged"
    and "lock_keys_ok locked" "merge_catalogs P base staged locked = Ok merged"
  shows "catalog_ok P SimpleTok merged \<and>
    (\<forall>nm. case bm_get (tables staged) nm of
       None \<Rightarrow> bm_get (tables merged) nm = bm_get (tables base) nm
     | Some st \<Rightarrow> (\<exists>t0 t. bm_get (tables base) nm = Some t0 \<and> bm_get (tables merged) nm = Some t \<and>
         table_merged nm locked t0 st t))"
  using merge_catalogs_ok [OF assms] .

definition demo_staged :: catalog where
  "demo_staged = \<lparr>tables = [(''t'', demo_table\<lparr>next_row_id := 2\<rparr>)]\<rparr>"

lemma demo_staged_ok: "catalog_ok demo_platform SimpleTok demo_staged"
proof -
  have "data_ok (demo_table\<lparr>next_row_id := 2\<rparr>)" "reindexed demo_platform SimpleTok (demo_table\<lparr>next_row_id := 2\<rparr>) = demo_table\<lparr>next_row_id := 2\<rparr>"
    by (simp_all add: data_ok_def schema_ok_def demo_table_def demo_columns_def indexes_ok_def keyed_rows_def reindexed_def clear_indexes_def)
  then show ?thesis
    by (simp add: catalog_ok_def demo_staged_def bm_ok_def table_ok_def)
      (simp add: demo_table_def demo_columns_def names_valid_def code_def indexes_for_encoding_def fulltext_indexes_for_encoding_def)
qed

lemma demo_one_row_reindexed:
  "reindexed P tk demo_one_row = demo_one_row\<lparr>primary := [(''I:'' @ show_i64 7, 1)]\<rparr>"
  by (simp add: reindexed_def enter_row_def demo_one_row_def demo_table_def clear_indexes_def primary_step_def row_key_def)

lemma demo_merge: "merge_catalogs demo_platform demo_base demo_staged [row_lock_key ''t'' 1] = Ok demo_staged"
proof -
  have "merge_locked (''row:'' @ ''t'' @ '':'') st [row_lock_key ''t'' 1] tg = Ok (merge_row st 1 tg)" for st tg
    using row_key_prefix [of "''t''" "''t''" 1] by (simp add: row_lock_key_def)
  then show ?thesis
    by (simp add: merge_catalogs_def merge_table_def demo_base_def demo_staged_def demo_one_row_reindexed)
      (simp add: demo_one_row_def demo_table_def merge_row_def bm_remove_def row_ids_between_def rebuild_unfold clear_indexes_def)
qed

theorem merge_exact_witness:
  "\<exists>t. bm_get (tables demo_staged) ''t'' = Some t \<and> bm_get (rows t) 1 = None \<and>
     (\<exists>t0. bm_get (tables demo_base) ''t'' = Some t0 \<and> bm_get (rows t0) 1 \<noteq> None)"
proof -
  have "staged_from demo_base demo_staged"
    by (simp add: staged_from_def demo_base_def demo_staged_def table_from_def) (simp add: demo_one_row_def demo_table_def)
  then have "\<exists>t0 t. bm_get (tables demo_base) ''t'' = Some t0 \<and> bm_get (tables demo_staged) ''t'' = Some t \<and>
      table_merged ''t'' [row_lock_key ''t'' 1] t0 (demo_table\<lparr>next_row_id := 2\<rparr>) t"
    using merge_exact [OF demo_base_ok demo_staged_ok _ _ demo_merge, THEN conjunct2, THEN spec, of "''t''"]
    by (simp add: demo_staged_def lock_keys_ok_def)
  then show ?thesis by (auto simp: table_merged_def demo_base_def demo_table_def demo_one_row_def)
qed

end
