(* ===== verification/Pool_Frame.thy ===== *)
theory Pool_Frame
  imports Pool_Merge
begin

section \<open>What the steps of the pool change\<close>

text \<open>
  Frame lemmas of the pool: statements keep the columns of every table and never lower a row counter, the
  lock table changes only for the transaction that acts, and the keys a statement locks name rows that
  exist. The locale \<open>growing_op\<close> states the first for a table operation and carries it to the catalog; the
  interpretations are the mutating operations.
\<close>

subsection \<open>Tables only grow\<close>

definition table_grows :: "table \<Rightarrow> table \<Rightarrow> bool" where
  "table_grows t t' \<longleftrightarrow> columns t' = columns t \<and> next_row_id t \<le> next_row_id t'"

definition catalog_grows :: "catalog \<Rightarrow> catalog \<Rightarrow> bool" where
  "catalog_grows c c' \<longleftrightarrow>
     (\<forall>nm t. bm_get (tables c) nm = Some t \<longrightarrow> (\<exists>t'. bm_get (tables c') nm = Some t' \<and> table_grows t t'))"

lemma table_grows_refl [simp]: "table_grows t t"
  by (simp add: table_grows_def)

lemma catalog_grows_refl [simp]: "catalog_grows c c"
  by (auto simp: catalog_grows_def)

lemma catalog_grows_insert:
  "bm_get (tables c) nm = Some t \<Longrightarrow> table_grows t t' \<Longrightarrow> catalog_grows c (c\<lparr>tables := bm_insert nm t' (tables c)\<rparr>)"
  by (auto simp: catalog_grows_def)

lemma catalog_grows_new:
  "bm_get (tables c) nm = None \<Longrightarrow> catalog_grows c (c\<lparr>tables := bm_insert nm t' (tables c)\<rparr>)"
  by (auto simp: catalog_grows_def)

lemma staged_from_grows: "staged_from c s \<Longrightarrow> catalog_grows c c' \<Longrightarrow> staged_from c' s"
  by (fastforce simp: staged_from_def catalog_grows_def table_from_def table_grows_def)

lemma staged_from_refl [simp]: "staged_from c c"
  by (auto simp: staged_from_def table_from_def)

locale growing_op =
  fixes pre :: "table \<Rightarrow> bool" and run :: "table \<Rightarrow> 'a result \<times> table"
  assumes grows: "pre t \<Longrightarrow> table_grows t (snd (run t))"
begin

lemma on_table_grows:
  assumes "\<And>t. bm_get (tables c) nm = Some t \<Longrightarrow> pre t"
  shows "catalog_grows c (snd (on_table nm run msg c))"
proof (cases "bm_get (tables c) nm")
  case (Some t)
  then show ?thesis
    using catalog_grows_insert [OF Some grows [OF assms [OF Some]]] by (cases "run t") (simp add: on_table_def)
qed (simp add: on_table_def)

end

text \<open>An operation that keeps the row counter as well: every mutating operation but the insertion.\<close>

locale counting_op =
  fixes pre :: "table \<Rightarrow> bool" and run :: "table \<Rightarrow> 'a result \<times> table"
  assumes keeps: "pre t \<Longrightarrow> columns (snd (run t)) = columns t \<and> next_row_id (snd (run t)) = next_row_id t"

sublocale counting_op \<subseteq> growing_op
  by unfold_locales (simp add: table_grows_def keeps)

context counting_op
begin

lemma on_table_staged:
  assumes "\<And>t. bm_get (tables s) nm = Some t \<Longrightarrow> pre t" "staged_from c s"
  shows "staged_from c (snd (on_table nm run msg s))"
proof (cases "bm_get (tables s) nm")
  case (Some t)
  then have "columns (snd (run t)) = columns t" "next_row_id (snd (run t)) = next_row_id t"
    using keeps [OF assms(1) [OF Some]] by auto
  then show ?thesis using assms(2) Some by (auto simp: on_table_def staged_from_def table_from_def split: prod.split)
qed (use assms in \<open>simp add: on_table_def\<close>)

end

interpretation update_grow: counting_op "\<lambda>t. table_ok P (fulltext_tokenizer opts) t \<and> (\<forall>e \<in> set asg. value_valid (snd e))"
  "update_with_options P asg f opts" for P opts asg f
proof (unfold_locales, goal_cases)
  case (1 t)
  then have ok: "table_ok P (fulltext_tokenizer opts) t" "\<forall>e \<in> set asg. value_valid (snd e)" by auto
  show ?case
  proof (cases "update_plan P asg f opts t")
    case (Ok plan)
    with update_outcome [OF ok(1) _ ok(2), of f "fst plan" "snd plan"] show ?thesis
      by (cases "keyed_rows t (updated (snd plan) (fst plan) (rows t))") auto
  next
    case (Panic m)
    with update_op.no_panic ok show ?thesis by (simp add: update_unfold)
  qed (simp add: update_rejected [OF ok(1)])
qed

interpretation delete_grow: counting_op "\<lambda>t. table_ok P (fulltext_tokenizer opts) t" "delete_with_options P f opts" for P opts f
  by unfold_locales (auto simp: delete_outcome split: result.splits)

interpretation index_grow: counting_op data_ok "create_index P nm col" for P nm col
  by unfold_locales (auto simp: create_index_outcome add_persisted_index_def split: result.splits)

interpretation fulltext_grow: counting_op data_ok "create_fulltext_index_with_options P nm col opts" for P nm col opts
  by unfold_locales (auto simp: create_fulltext_index_outcome add_persisted_fulltext_index_def split: result.splits)

interpretation insert_grow: growing_op "\<lambda>t. table_ok P (fulltext_tokenizer opts) t \<and> insert_pre vals t"
  "insert_with_options P cols vals opts" for P opts vals cols
proof (unfold_locales, goal_cases)
  case (1 t)
  then have "next_row_id t \<le> next_row_id t + 1" using u64_less_Suc [of "next_row_id t"] by (simp add: less_imp_le)
  with 1 show ?case by (auto simp: insert_outcome with_row_def table_grows_def split: result.splits)
qed

lemma catalog_table_ok: "catalog_ok P tk c \<Longrightarrow> bm_get (tables c) nm = Some t \<Longrightarrow> table_ok P tk t"
  by (auto simp: catalog_ok_def dest!: map_of_SomeD)

lemma statement_grows:
  assumes "catalog_ok P (fulltext_tokenizer opts) c" "statement_valid stmt"
    "statement_fits (fulltext_tokenizer opts) stmt c"
  shows "catalog_grows c (snd (execute_statement_with_options P stmt opts c))"
proof -
  note ok = catalog_table_ok [OF assms(1)]
  show ?thesis
  proof (cases stmt)
    case (CreateTable nm cols)
    then show ?thesis by (cases "bm_get (tables c) nm") (auto simp: catalog_grows_new split: result.split)
  next
    case (CreateIndex nm tbl col ft)
    then show ?thesis
      using fulltext_grow.on_table_grows [of c tbl P nm col opts] index_grow.on_table_grows [of c tbl P nm col] table_ok_data [OF ok]
      by (cases ft) auto
  next
    case (Insert tbl cols vals)
    with assms show ?thesis using insert_grow.on_table_grows [of c tbl P opts vals cols] ok by auto
  next
    case (Update tbl asg f)
    with assms show ?thesis using update_grow.on_table_grows [of c tbl P opts asg f] ok by auto
  next
    case (Delete tbl f)
    with assms show ?thesis using delete_grow.on_table_grows [of c tbl P opts f] ok by auto
  qed (auto split: option.split)
qed

text \<open>Inside a transaction: the copy stays behind the committed catalog; an insertion needs a reserved number.\<close>

lemma statement_staged:
  assumes "catalog_ok P (fulltext_tokenizer opts) s" "statement_valid stmt" "staged_from c s"
    and "\<not> is_ddl_statement stmt" "\<forall>tbl cols vals. stmt \<noteq> Insert tbl cols vals"
  shows "staged_from c (snd (execute_statement_with_options P stmt opts s))"
proof -
  note ok = catalog_table_ok [OF assms(1)]
  show ?thesis
  proof (cases stmt)
    case (Update tbl asg f)
    with assms show ?thesis using update_grow.on_table_staged [of s tbl P opts asg c f] ok by auto
  next
    case (Delete tbl f)
    with assms show ?thesis using delete_grow.on_table_staged [of s tbl P opts c f] ok by auto
  qed (use assms in \<open>auto simp: is_ddl_statement_def split: option.split\<close>)
qed

lemma insert_staged:
  assumes "catalog_ok P (fulltext_tokenizer opts) s" "list_all value_valid vals" "staged_from c s"
    and "bm_get (tables s) tbl = Some st" "bm_get (tables c) tbl = Some t0" "next_row_id st < next_row_id t0"
  shows "staged_from c (snd (execute_statement_with_options P (Insert tbl cols vals) opts s))"
proof -
  have ok: "table_ok P (fulltext_tokenizer opts) st" by (rule catalog_table_ok [OF assms(1,4)])
  have room: "next_row_id st \<noteq> - 1" using assms(6) word_order.extremum_strict [of "next_row_id t0"] by auto
  then have "next_row_id st + 1 \<le> next_row_id t0" using assms(6) by (metis inc_le)
  moreover have "next_row_id st \<le> next_row_id t0" "columns st = columns t0"
    using assms(3-6) by (auto simp: staged_from_def table_from_def dest!: spec [of _ tbl])
  ultimately show ?thesis
    using assms insert_outcome [OF ok assms(2) room, of cols]
    by (auto simp: on_table_def staged_from_def table_from_def with_row_def split: prod.split result.splits)
qed

subsection \<open>The lock table\<close>

text \<open>\<open>held i ls ks\<close>: the keys with owner \<open>i\<close> are exactly \<open>ks\<close>. \<open>others_same\<close>: other owners' entries are untouched.\<close>

definition held :: "u64 \<Rightarrow> (string, u64) bmap \<Rightarrow> string list \<Rightarrow> bool" where
  "held i ls ks \<longleftrightarrow> (\<forall>k. bm_get ls k = Some i \<longleftrightarrow> k \<in> set ks)"

definition others_same :: "u64 \<Rightarrow> (string, u64) bmap \<Rightarrow> (string, u64) bmap \<Rightarrow> bool" where
  "others_same i ls ls' \<longleftrightarrow> (\<forall>k j. j \<noteq> i \<longrightarrow> (bm_get ls' k = Some j \<longleftrightarrow> bm_get ls k = Some j))"

lemma others_same_refl [simp]: "others_same i ls ls"
  by (simp add: others_same_def)

lemma others_same_trans: "others_same i a b \<Longrightarrow> others_same i b c \<Longrightarrow> others_same i a c"
  by (simp add: others_same_def)

lemma held_others: "held j ls ks \<Longrightarrow> others_same i ls ls' \<Longrightarrow> j \<noteq> i \<Longrightarrow> held j ls' ks"
  by (simp add: held_def others_same_def)

text \<open>Taking a key that is free or already one's own.\<close>

lemma take_key:
  assumes "held i ls ks" "bm_get ls k = None \<or> bm_get ls k = Some i"
  shows "held i (bm_insert k i ls) (bs_insert k ks)" "others_same i ls (bm_insert k i ls)"
  using assms by (auto simp: held_def others_same_def) (metis option.inject)

lemma acquire_keeps: "acquire ks (ls, tx) = (r, ls', tx') \<Longrightarrow> k \<in> set (locked_rows tx) \<Longrightarrow> k \<in> set (locked_rows tx')"
  by (induction ks arbitrary: ls tx) (auto split: if_splits)

lemma acquire_locks:
  assumes "acquire ks (ls, tx) = (r, ls', tx')" "held (tx_id tx) ls (locked_rows tx)" "bm_ok ls" "bs_ok (locked_rows tx)"
  shows "tx' = tx\<lparr>locked_rows := locked_rows tx'\<rparr> \<and> held (tx_id tx) ls' (locked_rows tx') \<and> others_same (tx_id tx) ls ls' \<and>
    bm_ok ls' \<and> bs_ok (locked_rows tx') \<and> set (locked_rows tx') \<subseteq> set (locked_rows tx) \<union> set ks \<and> \<not> is_panic r \<and>
    fst ` set ls' \<subseteq> fst ` set ls \<union> set ks \<and> (is_ok r \<longrightarrow> set ks \<subseteq> set (locked_rows tx'))"
  using assms
proof (induction ks arbitrary: ls tx)
  case (Cons k ks)
  show ?case
  proof (cases "bm_get ls k = None \<or> bm_get ls k = Some (tx_id tx)")
    case True
    define tx1 where "tx1 = tx\<lparr>locked_rows := bs_insert k (locked_rows tx)\<rparr>"
    define ls1 where "ls1 = bm_insert k (tx_id tx) ls"
    have rest: "acquire ks (ls1, tx1) = (r, ls', tx')" using Cons.prems(1) True by (auto simp: tx1_def ls1_def)
    have "held (tx_id tx1) ls1 (locked_rows tx1)" "others_same (tx_id tx) ls ls1" "bm_ok ls1" "bs_ok (locked_rows tx1)"
      using take_key [OF Cons.prems(2) True] Cons.prems(3,4) by (auto simp: tx1_def ls1_def)
    note IH = Cons.IH [OF rest this(1,3,4)] and first = this
    have "others_same (tx_id tx) ls ls'" using IH first(2) others_same_trans by (auto simp: tx1_def)
    moreover have "k \<in> set (locked_rows tx')" using acquire_keeps [OF rest] by (simp add: tx1_def)
    ultimately show ?thesis using IH by (auto simp: tx1_def ls1_def)
  next
    case False
    with Cons.prems show ?thesis by auto
  qed
qed auto

lemma release_get:
  "bm_get (fold (release_key i) ks ls) k = (if k \<in> set ks \<and> bm_get ls k = Some i then None else bm_get ls k)"
  by (induction ks arbitrary: ls) (auto simp: release_key_def)

lemma release_bm_ok: "bm_ok ls \<Longrightarrow> bm_ok (fold (release_key i) ks ls)"
  by (induction ks arbitrary: ls) (auto simp: release_key_def)

lemma release_locks_frees:
  assumes "held (tx_id tx) ls (locked_rows tx)"
  shows "bm_get (release_locks ls tx) k = (if bm_get ls k = Some (tx_id tx) then None else bm_get ls k)"
    and "others_same (tx_id tx) ls (release_locks ls tx)"
  using assms by (simp_all add: release_locks_def release_get held_def others_same_def) (metis option.inject)

lemma release_locks_ok: "bm_ok ls \<Longrightarrow> bm_ok (release_locks ls tx)"
  by (simp add: release_locks_def release_bm_ok)

end
