(* ===== verification/Pool_Locks.thy ===== *)
theory Pool_Locks
  imports Pool_Frame
begin

section \<open>Interleaved connections\<close>

text \<open>
  Any number of threads, each on its own connection, as a step relation: a step is what one thread does
  while it holds the mutex of the shared database (checking a connection out or in, one statement inside or
  outside a transaction, the two halves of a table or index definition), or a private step (parsing, writing
  a log line). Every I/O operation may fail. The invariant relates the lock table, the open transactions
  and the committed catalog; mutual exclusion of row locks and the durability of the committed catalog
  follow from it.
\<close>

record system =
  sys_pool :: pool
  sys_conns :: "nat \<Rightarrow> connection option"
  sys_ddl :: "nat \<Rightarrow> statement option"
  sys_world :: world

text \<open>
  What the statements rely on: valid text, row identifiers not used up, and identifiers of transactions
  not used up (both counters are \<^verbatim>\<open>u64\<close>).
\<close>

definition pool_allowed :: "statement \<Rightarrow> pool \<Rightarrow> bool" where
  "pool_allowed stmt p \<longleftrightarrow>
     statement_valid stmt \<and> statement_fits SimpleTok stmt (pool_catalog p) \<and> next_transaction_id p \<noteq> - 1"

inductive pool_step :: "platform \<Rightarrow> nat \<Rightarrow> system \<Rightarrow> system \<Rightarrow> bool" for P pid where
  step_get: "sys_conns s i = None \<Longrightarrow> get (sys_pool s) = Some (Ok c, p) \<Longrightarrow>
    pool_step P pid s (s\<lparr>sys_pool := p, sys_conns := (sys_conns s)(i \<mapsto> c)\<rparr>)"
| step_drop: "sys_conns s i = Some c \<Longrightarrow> sys_ddl s i = None \<Longrightarrow> conn_drop (sys_pool s, c) = (p, c') \<Longrightarrow>
    pool_step P pid s (s\<lparr>sys_pool := p, sys_conns := (sys_conns s)(i := None)\<rparr>)"
| step_parse: "sys_conns s i = Some c \<Longrightarrow> conn_parse P sql (sys_pool s, c) = (r, c') \<Longrightarrow>
    pool_step P pid s (s\<lparr>sys_conns := (sys_conns s)(i \<mapsto> c')\<rparr>)"
| step_statement: "sys_conns s i = Some c \<Longrightarrow> sys_ddl s i = None \<Longrightarrow> \<not> is_ddl_statement stmt \<Longrightarrow>
    pool_allowed stmt (sys_pool s) \<Longrightarrow>
    pool_execute_statement P pid stmt (pool_options (sys_pool s)) (sys_pool s, c, (sys_world s)\<lparr>outcomes := os\<rparr>) =
      (r, p, c', w) \<Longrightarrow>
    pool_step P pid s (s\<lparr>sys_pool := p, sys_conns := (sys_conns s)(i \<mapsto> c'\<lparr>transaction_poisoned := transaction_poisoned c' \<or> is_panic r\<rparr>), sys_world := w\<rparr>)"
| step_ddl_check: "sys_conns s i = Some c \<Longrightarrow> sys_ddl s i = None \<Longrightarrow> is_ddl_statement stmt \<Longrightarrow>
    ddl_check stmt (sys_pool s, c) = Ok () \<Longrightarrow>
    pool_step P pid s (s\<lparr>sys_ddl := (sys_ddl s)(i \<mapsto> stmt)\<rparr>)"
| step_ddl_run: "sys_conns s i = Some c \<Longrightarrow> sys_ddl s i = Some stmt \<Longrightarrow> pool_allowed stmt (sys_pool s) \<Longrightarrow>
    auto_statement P pid stmt (pool_options (sys_pool s)) (sys_pool s, (sys_world s)\<lparr>outcomes := os\<rparr>) = (r, p, w) \<Longrightarrow>
    pool_step P pid s (s\<lparr>sys_pool := p, sys_ddl := (sys_ddl s)(i := None), sys_world := w\<rparr>)"
| step_log: "same_except (log_files (pool_options (sys_pool s))) (sys_world s) w \<Longrightarrow>
    pool_step P pid s (s\<lparr>sys_world := w\<rparr>)"

inductive pool_reachable :: "platform \<Rightarrow> nat \<Rightarrow> system \<Rightarrow> system \<Rightarrow> bool" for P pid s0 where
  reach_start: "pool_reachable P pid s0 s0"
| reach_step: "pool_reachable P pid s0 s \<Longrightarrow> pool_step P pid s s' \<Longrightarrow> pool_reachable P pid s0 s'"

subsection \<open>The invariant\<close>

definition pool_ok :: "platform \<Rightarrow> pool \<Rightarrow> world \<Rightarrow> bool" where
  "pool_ok P p w \<longleftrightarrow>
     \<not> shared_poisoned p \<and> db_ok P (shared_db (shared p)) \<and> tokenizer_of (shared_db (shared p)) = SimpleTok \<and>
     db_transaction (shared_db (shared p)) = None \<and> stored (db_path (shared_db (shared p))) (pool_catalog p) w"

text \<open>Every lock is for a row number that has been given out, or for an insertion.\<close>

definition lock_target :: "catalog \<Rightarrow> string \<Rightarrow> bool" where
  "lock_target c k \<longleftrightarrow>
     is_insert_key k \<or> (\<exists>tbl n t. k = row_lock_key tbl n \<and> bm_get (tables c) tbl = Some t \<and> n < next_row_id t)"

definition locks_ok :: "pool \<Rightarrow> bool" where
  "locks_ok p \<longleftrightarrow> bm_ok (pool_locks p) \<and>
     (\<forall>k i. bm_get (pool_locks p) k = Some i \<longrightarrow> i < next_transaction_id p \<and> lock_target (pool_catalog p) k)"

definition tx_ok :: "platform \<Rightarrow> pool \<Rightarrow> transaction_state \<Rightarrow> bool" where
  "tx_ok P p tx \<longleftrightarrow>
     catalog_ok P SimpleTok (tx_catalog tx) \<and> staged_from (pool_catalog p) (tx_catalog tx) \<and>
     tx_id tx < next_transaction_id p \<and> bs_ok (locked_rows tx) \<and> held (tx_id tx) (pool_locks p) (locked_rows tx)"

definition open_tx :: "system \<Rightarrow> nat \<Rightarrow> transaction_state option" where
  "open_tx s i = Option.bind (sys_conns s i) transaction"

definition sys_ok :: "platform \<Rightarrow> system \<Rightarrow> bool" where
  "sys_ok P s \<longleftrightarrow>
     pool_ok P (sys_pool s) (sys_world s) \<and> locks_ok (sys_pool s) \<and>
     (\<forall>i tx. open_tx s i = Some tx \<longrightarrow> tx_ok P (sys_pool s) tx) \<and>
     (\<forall>i j tx ty. open_tx s i = Some tx \<longrightarrow> open_tx s j = Some ty \<longrightarrow> tx_id tx = tx_id ty \<longrightarrow> i = j)"

lemma tx_lock_keys: "tx_ok P p tx \<Longrightarrow> locks_ok p \<Longrightarrow> lock_keys_ok (locked_rows tx)"
  unfolding tx_ok_def locks_ok_def held_def lock_keys_ok_def lock_target_def by blast

text \<open>What a step of one connection may do to the pool as far as the others are concerned.\<close>

definition pool_moves :: "platform \<Rightarrow> u64 \<Rightarrow> pool \<times> world \<Rightarrow> pool \<times> world \<Rightarrow> bool" where
  "pool_moves P i s s' \<longleftrightarrow>
     pool_ok P (fst s') (snd s') \<and> locks_ok (fst s') \<and> catalog_grows (pool_catalog (fst s)) (pool_catalog (fst s')) \<and>
     next_transaction_id (fst s) \<le> next_transaction_id (fst s') \<and> others_same i (pool_locks (fst s)) (pool_locks (fst s'))"

lemma tx_ok_moves:
  "tx_ok P p tx \<Longrightarrow> pool_moves P i (p, w) (p', w') \<Longrightarrow> tx_id tx \<noteq> i \<Longrightarrow> tx_ok P p' tx"
  using held_others staged_from_grows by (fastforce simp: tx_ok_def pool_moves_def)

text \<open>The invariant after a step of connection \<open>i\<close> whose transaction had or gets identifier \<open>n\<close>.\<close>

lemma sys_ok_moves:
  assumes ok: "sys_ok P s" and moves: "pool_moves P n (sys_pool s, sys_world s) (p, w)"
    and mine: "\<And>tx. Option.bind c transaction = Some tx \<Longrightarrow> tx_ok P p tx \<and> tx_id tx = n"
    and others: "\<And>j tx. j \<noteq> i \<Longrightarrow> open_tx s j = Some tx \<Longrightarrow> tx_id tx \<noteq> n"
  shows "sys_ok P (s\<lparr>sys_pool := p, sys_conns := (sys_conns s)(i := c), sys_ddl := d, sys_world := w\<rparr>)"
proof -
  let ?s = "s\<lparr>sys_pool := p, sys_conns := (sys_conns s)(i := c), sys_ddl := d, sys_world := w\<rparr>"
  have tx: "open_tx ?s j = (if j = i then Option.bind c transaction else open_tx s j)" for j
    by (simp add: open_tx_def)
  have "tx_ok P p tx" if "open_tx ?s j = Some tx" for j tx
  proof (cases "j = i")
    case False
    then have old: "open_tx s j = Some tx" using that tx by simp
    then have "tx_ok P (sys_pool s) tx" using ok unfolding sys_ok_def by blast
    then show ?thesis using tx_ok_moves [OF _ moves] others [OF False old] by blast
  qed (use mine that tx in auto)
  moreover have "j = l" if "open_tx ?s j = Some tx" "open_tx ?s l = Some ty" "tx_id tx = tx_id ty" for j l tx ty
  proof (cases "j = i \<or> l = i")
    case True
    then show ?thesis using that mine others tx by (metis (no_types, lifting))
  next
    case False
    then show ?thesis using that tx ok unfolding sys_ok_def by (metis (no_types, lifting))
  qed
  ultimately show ?thesis using moves unfolding sys_ok_def pool_moves_def by auto
qed

subsection \<open>Fields\<close>

lemma pool_fields [simp]:
  "pool_catalog (set_pool_catalog c p) = c" "pool_catalog (set_pool_locks ls p) = pool_catalog p"
  "pool_locks (set_pool_catalog c p) = pool_locks p" "pool_locks (set_pool_locks ls p) = ls"
  "pool_options (set_pool_catalog c p) = pool_options p" "pool_options (set_pool_locks ls p) = pool_options p"
  "next_transaction_id (set_pool_catalog c p) = next_transaction_id p"
  "next_transaction_id (set_pool_locks ls p) = next_transaction_id p"
  "shared_poisoned (set_pool_catalog c p) = shared_poisoned p" "shared_poisoned (set_pool_locks ls p) = shared_poisoned p"
  "shared_db (shared (set_pool_locks ls p)) = shared_db (shared p)"
  "shared_db (shared (set_pool_catalog c p)) = (shared_db (shared p))\<lparr>db_catalog := c\<rparr>"
  "set_pool_catalog c (set_pool_catalog d p) = set_pool_catalog c p" "set_pool_catalog (pool_catalog p) p = p"
  by (simp_all add: set_pool_catalog_def set_pool_locks_def)

lemma replace_set: "db_transaction (shared_db (shared p)) = None \<Longrightarrow> replace_pool_catalog c p = set_pool_catalog c p"
  by (cases p; cases "shared p"; cases "shared_db (shared p)")
    (simp add: replace_pool_catalog_def set_pool_catalog_def replace_catalog_def)

lemma pool_ok_simps [simp]:
  "pool_ok P (set_pool_locks ls p) w = pool_ok P p w" "pool_ok P (p\<lparr>next_transaction_id := n\<rparr>) w = pool_ok P p w"
  "pool_ok P (p\<lparr>permits := k\<rparr>) w = pool_ok P p w"
  by (simp_all add: pool_ok_def)

lemma pool_ok_catalog: "pool_ok P p w \<Longrightarrow> catalog_ok P SimpleTok (pool_catalog p)"
  by (auto simp: pool_ok_def db_ok_def)

lemma pool_ok_lock: "pool_ok P p w \<Longrightarrow> lock_shared p = Ok (shared p)"
  by (simp add: pool_ok_def lock_shared_def)

lemma pool_ok_stored:
  assumes "pool_ok P p w" "catalog_ok P SimpleTok c" "stored (db_path (shared_db (shared p))) c w'"
  shows "pool_ok P (set_pool_catalog c p) w'"
  using assms by (auto simp: pool_ok_def db_ok_def)

lemma pool_ok_world:
  "pool_ok P p w \<Longrightarrow> (\<And>c. stored (db_path (shared_db (shared p))) c w \<Longrightarrow> stored (db_path (shared_db (shared p))) c w') \<Longrightarrow>
     pool_ok P p w'"
  by (auto simp: pool_ok_def)

lemma pool_ok_outcomes [simp]: "pool_ok P p (w\<lparr>outcomes := os\<rparr>) = pool_ok P p w"
  by (simp add: pool_ok_def stored_def)

lemma lock_target_grows: "lock_target c k \<Longrightarrow> catalog_grows c c' \<Longrightarrow> lock_target c' k"
  unfolding lock_target_def catalog_grows_def table_grows_def by (blast intro: order_less_le_trans)

lemma locks_ok_grows: "locks_ok p \<Longrightarrow> catalog_grows (pool_catalog p) c \<Longrightarrow> locks_ok (set_pool_catalog c p)"
  by (auto simp: locks_ok_def intro: lock_target_grows)

lemma locks_ok_next: "locks_ok p \<Longrightarrow> next_transaction_id p \<le> n \<Longrightarrow> locks_ok (p\<lparr>next_transaction_id := n\<rparr>)"
  unfolding locks_ok_def by (auto intro: order_less_le_trans)

lemma locks_ok_permits [simp]: "locks_ok (p\<lparr>permits := n\<rparr>) = locks_ok p"
  by (simp add: locks_ok_def)

lemma tx_ok_permits [simp]: "tx_ok P (p\<lparr>permits := n\<rparr>) tx = tx_ok P p tx"
  by (simp add: tx_ok_def)

lemma pool_moves_refl: "pool_ok P p w' \<Longrightarrow> locks_ok p \<Longrightarrow> pool_moves P i (p, w) (p, w')"
  by (simp add: pool_moves_def)

lemma pool_moves_permits: "pool_moves P i s (p, w) \<Longrightarrow> pool_moves P i s (p\<lparr>permits := n\<rparr>, w)"
  by (simp add: pool_moves_def)

text \<open>Replacing the committed catalog by a larger one that is on disk.\<close>

lemma catalog_moves:
  assumes "pool_ok P p w" "locks_ok p" "catalog_ok P SimpleTok c" "catalog_grows (pool_catalog p) c"
    and "stored (db_path (shared_db (shared p))) c w'"
  shows "pool_moves P i (p, w) (set_pool_catalog c p, w')"
  using assms pool_ok_stored [OF assms(1,3,5)] locks_ok_grows [OF assms(2,4)] by (simp add: pool_moves_def)

subsection \<open>Steps\<close>

lemma release_moves:
  assumes "pool_ok P p w" "locks_ok p" "tx_ok P p tx"
  shows "pool_moves P (tx_id tx) (p, w) (set_pool_locks (release_locks (pool_locks p) tx) p, w)"
proof -
  have h: "held (tx_id tx) (pool_locks p) (locked_rows tx)" using assms(3) by (simp add: tx_ok_def)
  have "locks_ok (set_pool_locks (release_locks (pool_locks p) tx) p)"
    using assms(2) release_locks_frees(1) [OF h] release_locks_ok [of "pool_locks p" tx]
    by (auto simp: locks_ok_def split: if_splits)
  then show ?thesis using assms(1) release_locks_frees(2) [OF h] by (simp add: pool_moves_def)
qed

lemma begin_moves:
  assumes "pool_ok P p w" "locks_ok p" "next_transaction_id p \<noteq> - 1" "pool_begin (p, c) = (r, p', c')"
  shows "p' = p \<and> c' = c \<and> \<not> is_panic r \<or>
    transaction c = None \<and> pool_moves P (next_transaction_id p) (p, w) (p', w) \<and>
    (\<exists>tx. transaction c' = Some tx \<and> tx_ok P p' tx \<and> tx_id tx = next_transaction_id p) \<and> \<not> is_panic r"
proof (cases "transaction c")
  case None
  have le: "next_transaction_id p < next_transaction_id p + 1" using assms(3) by (simp add: u64_less_Suc)
  have "held (next_transaction_id p) (pool_locks p) []" using assms(2) by (auto simp: held_def locks_ok_def)
  moreover have "active_catalog (shared_db (shared p)) = pool_catalog p"
    using assms(1) by (simp add: pool_ok_def active_catalog_def)
  ultimately show ?thesis
    using None assms(1,2,4) le locks_ok_next [OF assms(2), of "next_transaction_id p + 1"] pool_ok_catalog [OF assms(1)]
    by (auto simp: pool_begin_def pool_ok_lock [OF assms(1)] pool_moves_def tx_ok_def)
qed (use assms(4) in \<open>auto simp: pool_begin_def\<close>)

lemma rollback_moves:
  assumes "pool_ok P p w" "locks_ok p" "\<And>tx. transaction c = Some tx \<Longrightarrow> tx_ok P p tx" "pool_rollback (p, c) = (r, p', c')"
  shows "p' = p \<and> c' = c \<and> \<not> is_panic r \<or>
    (\<exists>tx. transaction c = Some tx \<and> pool_moves P (tx_id tx) (p, w) (p', w) \<and> transaction c' = None \<and> \<not> is_panic r)"
proof (cases "transaction c")
  case (Some tx)
  then show ?thesis
    using assms release_moves [OF assms(1,2) assms(3) [OF Some]] by (auto simp: pool_rollback_def pool_ok_lock)
qed (use assms(4) in \<open>auto simp: pool_rollback_def\<close>)

lemma auto_moves:
  assumes ok: "pool_ok P p w" and locks: "locks_ok p" and allowed: "pool_allowed stmt p"
    and run: "auto_statement P pid stmt (pool_options p) (p, w) = (r, p', w')"
  shows "pool_moves P i (p, w) (p', w') \<and> \<not> is_panic r"
proof -
  define topts where "topts = table_runtime_options (pool_options p)"
  have tok: "fulltext_tokenizer topts = SimpleTok" and db: "db_ok P (shared_db (shared p))"
    and none: "db_transaction (shared_db (shared p)) = None" using ok by (auto simp: pool_ok_def topts_def)
  have c: "catalog_ok P (fulltext_tokenizer topts) (pool_catalog p)" "statement_valid stmt"
      "statement_fits (fulltext_tokenizer topts) stmt (pool_catalog p)"
    using allowed pool_ok_catalog [OF ok] tok by (auto simp: pool_allowed_def)
  obtain r1 c1 where ex: "execute_statement_with_options P stmt topts (pool_catalog p) = (r1, c1)" by fastforce
  have good: "catalog_ok P SimpleTok c1" "catalog_grows (pool_catalog p) c1" "\<not> is_panic r1"
    using statement_keeps [OF c] statement_grows [OF c] statement_no_panic [OF c] ex tok by auto
  have restored: "replace_pool_catalog (pool_catalog p) p = p" using replace_set [OF none] by simp
  show ?thesis
  proof (cases r1)
    case (Ok res)
    show ?thesis
    proof (rule persist_cases [OF db, of pid c1 w])
      fix w1 assume "persist pid ((shared_db (shared p))\<lparr>db_catalog := c1\<rparr>) w = (Ok (), w1)"
        and st: "stored (db_path (shared_db (shared p))) c1 w1"
      then have "p' = set_pool_catalog c1 p" "w' = w1" "\<not> is_panic r"
        using run ex Ok by (auto simp: auto_statement_def pool_ok_lock [OF ok] topts_def persist_def)
      then show ?thesis using catalog_moves [OF ok locks good(1,2) st] by simp
    next
      fix e w1 assume "persist pid ((shared_db (shared p))\<lparr>db_catalog := c1\<rparr>) w = (Err e, w1)"
        and st: "\<And>c'. stored (db_path (shared_db (shared p))) c' w \<Longrightarrow> stored (db_path (shared_db (shared p))) c' w1"
      then have "p' = p" "w' = w1" "\<not> is_panic r"
        using run ex Ok restored by (auto simp: auto_statement_def pool_ok_lock [OF ok] topts_def persist_def)
      then show ?thesis using pool_moves_refl [OF pool_ok_world [OF ok st] locks] by simp
    qed
  next
    case (Err e)
    then have "p' = p" "w' = w" "\<not> is_panic r"
      using run ex restored by (auto simp: auto_statement_def pool_ok_lock [OF ok] topts_def)
    then show ?thesis using pool_moves_refl [OF ok locks] by simp
  qed (use good in simp)
qed

lemma catalog_grows_trans: "catalog_grows a b \<Longrightarrow> catalog_grows b c \<Longrightarrow> catalog_grows a c"
  by (fastforce simp: catalog_grows_def table_grows_def)

lemma pool_moves_trans: "pool_moves P i a b \<Longrightarrow> pool_moves P i b c \<Longrightarrow> pool_moves P i a c"
  unfolding pool_moves_def by (blast intro: catalog_grows_trans others_same_trans order_trans)

lemma tx_ok_grows: "tx_ok P p tx \<Longrightarrow> catalog_grows (pool_catalog p) c \<Longrightarrow> tx_ok P (set_pool_catalog c p) tx"
  using staged_from_grows by (auto simp: tx_ok_def)

lemma merged_grows:
  assumes "\<forall>nm. case bm_get (tables staged) nm of
       None \<Rightarrow> bm_get (tables merged) nm = bm_get (tables base) nm
     | Some st \<Rightarrow> (\<exists>t0 t. bm_get (tables base) nm = Some t0 \<and> bm_get (tables merged) nm = Some t \<and>
         table_merged nm locked t0 st t)"
  shows "catalog_grows base merged"
  unfolding catalog_grows_def
proof (intro allI impI)
  fix nm t assume "bm_get (tables base) nm = Some t"
  then show "\<exists>t'. bm_get (tables merged) nm = Some t' \<and> table_grows t t'"
    using spec [OF assms, of nm] by (auto simp: table_merged_def table_grows_def split: option.splits)
qed

lemma commit_moves:
  assumes ok: "pool_ok P p w" and locks: "locks_ok p" and mine: "\<And>tx. transaction c = Some tx \<Longrightarrow> tx_ok P p tx"
    and run: "pool_commit P pid (pool_options p) (p, c, w) = (r, p', c', w')"
  shows "p' = p \<and> c' = c \<and> w' = w \<and> \<not> is_panic r \<or>
    (\<exists>tx. transaction c = Some tx \<and> pool_moves P (tx_id tx) (p, w) (p', w') \<and> transaction c' = None \<and> \<not> is_panic r)"
proof (cases "transaction c")
  case (Some tx)
  have tx: "tx_ok P p tx" using mine Some by blast
  have db: "db_ok P (shared_db (shared p))" and none: "db_transaction (shared_db (shared p)) = None"
    using ok by (auto simp: pool_ok_def)
  have cats: "catalog_ok P SimpleTok (pool_catalog p)" "catalog_ok P SimpleTok (tx_catalog tx)"
      "staged_from (pool_catalog p) (tx_catalog tx)" "lock_keys_ok (locked_rows tx)"
    using ok tx locks pool_ok_catalog tx_lock_keys by (auto simp: tx_ok_def)
  show ?thesis
  proof (cases "merge_catalogs P (pool_catalog p) (tx_catalog tx) (locked_rows tx)")
    case (Ok merged)
    have good: "catalog_ok P SimpleTok merged" "catalog_grows (pool_catalog p) merged"
      using merge_catalogs_ok [OF cats Ok] merged_grows by auto
    have free: "pool_moves P (tx_id tx) (p1, w1) (set_pool_locks (release_locks (pool_locks p1) tx) p1, w1)"
      if "pool_moves P (tx_id tx) (p, w) (p1, w1)" "tx_ok P p1 tx" for p1 w1
      using that by (intro release_moves) (auto simp: pool_moves_def)
    show ?thesis
    proof (rule persist_cases [OF db, of pid merged w])
      fix w1 assume "persist pid ((shared_db (shared p))\<lparr>db_catalog := merged\<rparr>) w = (Ok (), w1)"
        and st: "stored (db_path (shared_db (shared p))) merged w1"
      then have res: "p' = set_pool_locks (release_locks (pool_locks p) tx) (set_pool_catalog merged p)"
          "w' = w1" "transaction c' = None" "\<not> is_panic r"
        using run Some Ok by (auto simp: pool_commit_def pool_ok_lock [OF ok] replace_set [OF none] persist_def)
      note m1 = catalog_moves [OF ok locks good st, of "tx_id tx"]
      show ?thesis
        using pool_moves_trans [OF m1 free [OF m1 tx_ok_grows [OF tx good(2)]]] res Some by simp
    next
      fix e w1 assume "persist pid ((shared_db (shared p))\<lparr>db_catalog := merged\<rparr>) w = (Err e, w1)"
        and st: "\<And>c'. stored (db_path (shared_db (shared p))) c' w \<Longrightarrow> stored (db_path (shared_db (shared p))) c' w1"
      then have res: "p' = set_pool_locks (release_locks (pool_locks p) tx) p" "w' = w1" "transaction c' = None" "\<not> is_panic r"
        using run Some Ok none
        by (auto simp: pool_commit_def pool_ok_lock [OF ok] replace_set [OF none] replace_set persist_def)
      have m1: "pool_moves P (tx_id tx) (p, w) (p, w1)" using pool_moves_refl [OF pool_ok_world [OF ok st] locks] .
      show ?thesis using pool_moves_trans [OF m1 free [OF m1 tx]] res Some by simp
    qed
  next
    case (Err e)
    then have "p' = p" "w' = w" "transaction c' = None" "\<not> is_panic r"
      using run Some by (auto simp: pool_commit_def pool_ok_lock [OF ok])
    then show ?thesis using pool_moves_refl [OF ok locks] Some by simp
  qed (use merge_catalogs_no_panic [OF cats(1,2)] in blast)
qed (use run in \<open>auto simp: pool_commit_def\<close>)

subsection \<open>Statements inside a transaction\<close>

lemma table_ok_next: "table_ok P tk t \<Longrightarrow> next_row_id t \<le> n \<Longrightarrow> table_ok P tk (t\<lparr>next_row_id := n\<rparr>)"
  by (auto simp: table_ok_def reindexed_renumbered data_ok_def schema_ok_def keyed_rows_def indexes_ok_def
      intro: order_less_le_trans)

lemma catalog_ok_next:
  assumes "catalog_ok P SimpleTok c" "bm_get (tables c) nm = Some t" "next_row_id t \<le> n"
  shows "catalog_ok P SimpleTok (c\<lparr>tables := bm_insert nm (t\<lparr>next_row_id := n\<rparr>) (tables c)\<rparr>)"
proof -
  have "nm = tname t \<and> table_ok P SimpleTok t \<and> names_valid t"
    using tables_ok_get assms(1,2) unfolding catalog_tables by blast
  with assms show ?thesis
    using tables_ok_insert [of P "tables c" nm "t\<lparr>next_row_id := n\<rparr>"] by (simp add: catalog_tables table_ok_next)
qed

lemma encode_next:
  assumes "bm_ok (tables c)" "bm_get (tables c) nm = Some t"
  shows "encode (c\<lparr>tables := bm_insert nm (t\<lparr>next_row_id := n\<rparr>) (tables c)\<rparr>) = encode c"
proof -
  have "map (\<lambda>e. encode_table (snd e)) (bm_insert nm (t\<lparr>next_row_id := n\<rparr>) ts) = map (\<lambda>e. encode_table (snd e)) ts"
    if "bm_ok ts" "bm_get ts nm = Some t" for ts
    using that
  proof (induction ts)
    case (Cons e ts)
    then have "fst e \<noteq> nm \<Longrightarrow> nm \<in> fst ` set ts" by (metis bm_get_dom map_of_Cons_code(2) option.distinct(1) prod.collapse)
    with Cons show ?case
      by (cases e) (auto simp: bm_ok_Cons encode_table_def indexes_for_encoding_def fulltext_indexes_for_encoding_def)
  qed simp
  with assms show ?thesis by (simp add: encode_def)
qed

lemma matched_keys_target:
  assumes "catalog_ok P (fulltext_tokenizer opts) s" "staged_from c s" "matched_lock_keys P s tbl f opts = Ok ks" "k \<in> set ks"
  shows "lock_target c k"
proof -
  obtain t rids where t: "bm_get (tables s) tbl = Some t" "matching_row_ids_for_lock P t f opts = Ok rids"
      and ks: "ks = map (row_lock_key tbl) rids"
    using assms(3) by (auto simp: matched_lock_keys_def outcome_simps)
  have ok: "table_ok P (fulltext_tokenizer opts) t" by (rule catalog_table_ok [OF assms(1) t(1)])
  then have "set rids \<subseteq> fst ` set (rows t)"
    using t(2) matching_ids [OF ok] by (fastforce simp: matching_row_ids_for_lock_def outcome_simps)
  moreover have "n < next_row_id t" if "n \<in> fst ` set (rows t)" for n
    using ok that by (auto simp: table_ok_def data_ok_def)
  moreover obtain n where "n \<in> set rids" "k = row_lock_key tbl n" using assms(4) ks by auto
  ultimately have n: "k = row_lock_key tbl n" "n < next_row_id t" by blast+
  obtain t0 where "bm_get (tables c) tbl = Some t0" "next_row_id t \<le> next_row_id t0"
    using assms(2) t(1) by (auto simp: staged_from_def table_from_def)
  with n show ?thesis unfolding lock_target_def by (blast intro: order_less_le_trans)
qed

lemma insert_key_target: "insert_lock_key s tbl stmt = Ok k \<Longrightarrow> is_insert_key k"
  by (cases stmt; cases "bm_get (tables s) tbl")
    (auto simp: insert_lock_key_def outcome_simps is_insert_key_def Let_def split: option.split_asm)

lemma rows_to_lock_target:
  assumes "catalog_ok P (fulltext_tokenizer opts) s" "staged_from c s" "rows_to_lock P s stmt opts = Ok ks" "k \<in> set ks"
  shows "lock_target c k"
  using assms(3,4) matched_keys_target [OF assms(1,2)]
  by (cases stmt) (auto simp: rows_to_lock_def rbind_Ok_iff lock_target_def dest: insert_key_target)

lemma rows_to_lock_no_panic: "rows_to_lock P s stmt opts \<noteq> Panic m"
proof -
  have "index_key v \<noteq> Panic n" for v n by (cases v) auto
  then show ?thesis
    by (cases stmt) (auto simp: rows_to_lock_def insert_lock_key_def matched_lock_keys_def matching_row_ids_for_lock_def
        outcome_simps Let_def split: option.split)
qed

lemma acquire_moves:
  assumes ok: "pool_ok P p w" and locks: "locks_ok p" and tx: "tx_ok P p tx"
    and ks: "\<And>k. k \<in> set ks \<Longrightarrow> lock_target (pool_catalog p) k"
    and run: "acquire ks (pool_locks p, tx) = (r, ls, tx')"
  shows "pool_moves P (tx_id tx) (p, w) (set_pool_locks ls p, w) \<and> tx_ok P (set_pool_locks ls p) tx' \<and>
    tx_id tx' = tx_id tx \<and> tx_catalog tx' = tx_catalog tx \<and> \<not> is_panic r"
proof -
  have h: "held (tx_id tx) (pool_locks p) (locked_rows tx)" "bm_ok (pool_locks p)" "bs_ok (locked_rows tx)"
    using tx locks by (auto simp: tx_ok_def locks_ok_def)
  note a = acquire_locks [OF run h]
  have id: "tx_id tx' = tx_id tx" "tx_catalog tx' = tx_catalog tx" using a by (metis transaction_state.select_convs(1,2)
      transaction_state.surjective transaction_state.update_convs(3))+
  have "i < next_transaction_id p \<and> lock_target (pool_catalog p) k" if k: "bm_get ls k = Some i" for k i
  proof (cases "i = tx_id tx")
    case True
    then have "k \<in> set (locked_rows tx')" using a k by (simp add: held_def)
    then have "k \<in> set ks \<or> bm_get (pool_locks p) k = Some (tx_id tx)" using a h(1) unfolding held_def by blast
    then show ?thesis using True ks locks tx by (auto simp: locks_ok_def tx_ok_def)
  next
    case False
    then have "bm_get (pool_locks p) k = Some i" using a k unfolding others_same_def by blast
    then show ?thesis using locks by (auto simp: locks_ok_def)
  qed
  then have "locks_ok (set_pool_locks ls p)" using a by (simp add: locks_ok_def)
  with a ok tx id show ?thesis by (simp add: pool_moves_def tx_ok_def)
qed

text \<open>Reserving a row number: the number is fresh, so nobody else can hold its lock.\<close>

lemma fresh_row_key:
  assumes "locks_ok p" "bm_get (tables (pool_catalog p)) tbl = Some t"
  shows "bm_get (pool_locks p) (row_lock_key tbl (next_row_id t)) = None"
proof (rule ccontr)
  assume "bm_get (pool_locks p) (row_lock_key tbl (next_row_id t)) \<noteq> None"
  then have "lock_target (pool_catalog p) (row_lock_key tbl (next_row_id t))" using assms(1) by (auto simp: locks_ok_def)
  then show False using assms(2) by (auto simp: lock_target_def)
qed

lemma bump_moves:
  assumes ok: "pool_ok P p w" and locks: "locks_ok p"
    and t: "bm_get (tables (pool_catalog p)) tbl = Some t" "next_row_id t \<noteq> - 1"
  shows "pool_moves P i (p, w) (set_pool_catalog (set_next tbl t (next_row_id t + 1) (pool_catalog p)) p, w)"
proof (rule catalog_moves [OF ok locks])
  have le: "next_row_id t \<le> next_row_id t + 1" using u64_less_Suc [OF t(2)] by (simp add: less_imp_le)
  have c: "catalog_ok P SimpleTok (pool_catalog p)" using pool_ok_catalog [OF ok] .
  show "catalog_ok P SimpleTok (set_next tbl t (next_row_id t + 1) (pool_catalog p))"
    using catalog_ok_next [OF c t(1) le] by (simp add: set_next_def)
  show "catalog_grows (pool_catalog p) (set_next tbl t (next_row_id t + 1) (pool_catalog p))"
    unfolding set_next_def by (rule catalog_grows_insert [OF t(1)]) (simp add: table_grows_def le)
  have "encode (set_next tbl t (next_row_id t + 1) (pool_catalog p)) = encode (pool_catalog p)" "pool_catalog p \<noteq> catalog_empty"
    using encode_next [OF _ t(1)] c t(1) by (auto simp: set_next_def catalog_ok_def catalog_empty_def)
  then show "stored (db_path (shared_db (shared p))) (set_next tbl t (next_row_id t + 1) (pool_catalog p)) w"
    using ok by (auto simp: pool_ok_def stored_def)
qed

text \<open>What a statement inside a transaction finds after it has its locks.\<close>

definition ready :: "statement \<Rightarrow> pool \<Rightarrow> transaction_state \<Rightarrow> bool" where
  "ready stmt p tx \<longleftrightarrow> (\<forall>tbl cols vals. stmt = Insert tbl cols vals \<longrightarrow>
     (\<exists>st t0. bm_get (tables (tx_catalog tx)) tbl = Some st \<and> bm_get (tables (pool_catalog p)) tbl = Some t0 \<and>
        next_row_id st < next_row_id t0))"

lemma staged_fromD:
  "staged_from c s \<Longrightarrow> bm_get (tables s) nm = Some st \<Longrightarrow> bm_get (tables c) nm = Some t \<Longrightarrow> table_from t st"
  by (auto simp: staged_from_def dest!: spec [of _ nm])

lemma raise_next_ok:
  assumes c: "catalog_ok P SimpleTok s" and st: "bm_get (tables s) tbl = Some st" and le: "next_row_id st \<le> n"
  shows "catalog_ok P SimpleTok (raise_next tbl st n s) \<and>
    bm_get (tables (raise_next tbl st n s)) = (bm_get (tables s))(tbl \<mapsto> st\<lparr>next_row_id := n\<rparr>)"
proof (cases "next_row_id st < n")
  case True
  then show ?thesis using catalog_ok_next [OF c st le] by (simp add: raise_next_def)
next
  case False
  then have "st\<lparr>next_row_id := n\<rparr> = st" using le by simp
  with False c st show ?thesis by (simp add: raise_next_def fun_upd_idem)
qed

lemma reserve_moves:
  assumes ok: "pool_ok P p w" and locks: "locks_ok p" and tx: "tx_ok P p tx" and allowed: "pool_allowed stmt p"
    and run: "reserve_insert_row_id P stmt (p, tx) = (r, p', tx')"
  shows "pool_moves P (tx_id tx) (p, w) (p', w) \<and> tx_ok P p' tx' \<and> tx_id tx' = tx_id tx \<and> \<not> is_panic r \<and>
    (is_ok r \<longrightarrow> ready stmt p' tx')"
proof (cases "\<exists>tbl cols vals t. stmt = Insert tbl cols vals \<and> bm_get (tables (pool_catalog p)) tbl = Some t")
  case True
  then obtain tbl cols vals t where stmt: "stmt = Insert tbl cols vals" and t: "bm_get (tables (pool_catalog p)) tbl = Some t"
    by blast
  define p1 where "p1 = set_pool_catalog (set_next tbl t (next_row_id t + 1) (pool_catalog p)) p"
  define n where "n = next_row_id t"
  have room: "n \<noteq> - 1" using allowed stmt t by (auto simp: pool_allowed_def n_def)
  then have lt: "n < n + 1" by (simp add: u64_less_Suc)
  have m1: "pool_moves P (tx_id tx) (p, w) (p1, w)" unfolding p1_def using bump_moves [OF ok locks t] room n_def by blast
  have tx1: "tx_ok P p1 tx" unfolding p1_def using m1 by (intro tx_ok_grows [OF tx]) (simp add: pool_moves_def p1_def)
  show ?thesis
  proof (cases "bm_get (tables (tx_catalog tx)) tbl")
    case None
    then show ?thesis using run stmt t m1 tx1 room by (auto simp: reserve_insert_row_id_def Let_def n_def simp flip: p1_def)
  next
    case (Some st)
    define k where "k = row_lock_key tbl n"
    define ls where "ls = bm_insert k (tx_id tx) (pool_locks p1)"
    define tx2 where "tx2 = tx\<lparr>tx_catalog := raise_next tbl st n (tx_catalog tx), locked_rows := bs_insert k (locked_rows tx)\<rparr>"
    have res: "r = Ok ()" "p' = set_pool_locks ls p1" "tx' = tx2"
      using run stmt t Some room by (auto simp: reserve_insert_row_id_def Let_def ls_def tx2_def k_def n_def simp flip: p1_def)
    have t1: "bm_get (tables (pool_catalog p1)) tbl = Some (t\<lparr>next_row_id := n + 1\<rparr>)" by (simp add: p1_def set_next_def n_def)
    have st: "columns st = columns t" "next_row_id st \<le> n"
      using tx staged_fromD [OF _ Some t] by (auto simp: tx_ok_def table_from_def n_def)
    note staged = raise_next_ok [OF _ Some st(2), of P]
    have "bm_get (pool_locks p) k = None" using fresh_row_key [OF locks t] by (simp add: k_def n_def)
    then have key: "bm_get (pool_locks p1) k = None" by (simp add: p1_def)
    have "held (tx_id tx) (pool_locks p1) (locked_rows tx)" using tx1 by (simp add: tx_ok_def)
    note key2 = take_key [OF this, of k]
    have "lock_target (pool_catalog p1) k" using t1 lt by (auto simp: lock_target_def k_def)
    moreover have "locks_ok p1" "pool_ok P p1 w" using m1 by (auto simp: pool_moves_def)
    moreover have "tx_id tx < next_transaction_id p1" using tx1 by (simp add: tx_ok_def)
    ultimately have m2: "pool_moves P (tx_id tx) (p1, w) (p', w)"
      using key2(2) key by (auto simp: res(2) pool_moves_def locks_ok_def ls_def split: if_splits)
    have "staged_from (pool_catalog p1) (tx_catalog tx2)"
      using tx1 staged t1 st lt tx by (auto simp: tx_ok_def staged_from_def tx2_def table_from_def)
    then have "tx_ok P p' tx2"
      using tx1 staged key2(1) key tx by (auto simp: tx_ok_def res(2) tx2_def ls_def)
    moreover have "ready stmt p' tx2" using staged t1 lt tx by (auto simp: ready_def stmt tx2_def res(2) tx_ok_def)
    ultimately show ?thesis using pool_moves_trans [OF m1 m2] res by (simp add: tx2_def)
  qed
next
  case False
  then have "p' = p" "tx' = tx" "\<not> is_panic r" "is_ok r \<longrightarrow> ready stmt p tx"
    using run by (auto simp: reserve_insert_row_id_def Let_def ready_def split: statement.splits option.splits)
  then show ?thesis using pool_moves_refl [OF ok locks] tx by simp
qed

lemma pool_allowed_locks [simp]: "pool_allowed stmt (set_pool_locks ls p) = pool_allowed stmt p"
  by (simp add: pool_allowed_def)

lemma lock_rows_moves:
  assumes ok: "pool_ok P p w" and locks: "locks_ok p" and tx: "tx_ok P p tx" and allowed: "pool_allowed stmt p"
    and run: "lock_statement_rows P stmt (pool_options p) (p, tx) = (r, p', tx')"
  shows "pool_moves P (tx_id tx) (p, w) (p', w) \<and> tx_ok P p' tx' \<and> tx_id tx' = tx_id tx \<and> \<not> is_panic r \<and>
    (is_ok r \<longrightarrow> ready stmt p' tx')"
proof (cases "rows_to_lock P (tx_catalog tx) stmt (table_runtime_options (pool_options p))")
  case (Ok ks)
  have "catalog_ok P (fulltext_tokenizer (table_runtime_options (pool_options p))) (tx_catalog tx)"
    "staged_from (pool_catalog p) (tx_catalog tx)" using ok tx by (auto simp: pool_ok_def tx_ok_def)
  note target = rows_to_lock_target [OF this Ok]
  obtain r1 ls tx1 where acq: "acquire ks (pool_locks p, tx) = (r1, ls, tx1)" by (metis prod_cases3)
  note a = acquire_moves [OF ok locks tx target acq, simplified]
  show ?thesis
  proof (cases r1)
    case (Ok u)
    then have rest: "reserve_insert_row_id P stmt (set_pool_locks ls p, tx1) = (r, p', tx')"
      using run \<open>rows_to_lock _ _ _ _ = Ok ks\<close> acq by (simp add: lock_statement_rows_def pool_ok_lock [OF ok])
    have "pool_ok P (set_pool_locks ls p) w" "locks_ok (set_pool_locks ls p)" using a by (auto simp: pool_moves_def)
    from reserve_moves [OF this _ _ rest] a allowed show ?thesis using pool_moves_trans by fastforce
  next
    case (Err e)
    then have "r = Err e" "p' = set_pool_locks ls p" "tx' = tx1"
      using run \<open>rows_to_lock _ _ _ _ = Ok ks\<close> acq by (auto simp: lock_statement_rows_def pool_ok_lock [OF ok])
    then show ?thesis using a by simp
  qed (use a in simp)
next
  case (Err e)
  then have "r = Err e" "p' = p" "tx' = tx" using run by (auto simp: lock_statement_rows_def pool_ok_lock [OF ok])
  then show ?thesis using pool_moves_refl [OF ok locks] tx by simp
qed (use rows_to_lock_no_panic in blast)

lemma tx_run_ok:
  assumes ok: "pool_ok P p w" and tx: "tx_ok P p tx" and valid: "statement_valid stmt" and ddl: "\<not> is_ddl_statement stmt"
    and rdy: "ready stmt p tx"
    and run: "execute_statement_with_options P stmt (table_runtime_options (pool_options p)) (tx_catalog tx) = (r, cat)"
  shows "tx_ok P p (tx\<lparr>tx_catalog := cat\<rparr>) \<and> \<not> is_panic r"
proof -
  define topts where "topts = table_runtime_options (pool_options p)"
  have tok: "fulltext_tokenizer topts = SimpleTok" using ok by (simp add: pool_ok_def topts_def)
  have c: "catalog_ok P (fulltext_tokenizer topts) (tx_catalog tx)" "statement_valid stmt"
    and from_c: "staged_from (pool_catalog p) (tx_catalog tx)"
    using tx valid tok by (auto simp: tx_ok_def)
  have fits: "statement_fits (fulltext_tokenizer topts) stmt (tx_catalog tx)"
    using rdy ddl word_order.extremum_strict
    by (cases stmt) (auto simp: ready_def is_ddl_statement_def)
  have "staged_from (pool_catalog p) (snd (execute_statement_with_options P stmt topts (tx_catalog tx)))"
  proof (cases "\<exists>tbl cols vals. stmt = Insert tbl cols vals")
    case True
    then obtain tbl cols vals where stmt: "stmt = Insert tbl cols vals" by blast
    then obtain st t0 where "bm_get (tables (tx_catalog tx)) tbl = Some st" "bm_get (tables (pool_catalog p)) tbl = Some t0"
        "next_row_id st < next_row_id t0" using rdy by (auto simp: ready_def)
    then show ?thesis unfolding stmt using c(2) stmt by (intro insert_staged [OF c(1) _ from_c]) auto
  next
    case False
    then show ?thesis using statement_staged [OF c from_c ddl] by blast
  qed
  with statement_keeps [OF c fits] statement_no_panic [OF c fits] run tx tok show ?thesis
    by (simp add: tx_ok_def topts_def)
qed

lemma lock_rows_options:
  "lock_statement_rows P stmt opts (p, tx) = (r, p', tx') \<Longrightarrow> pool_options p' = pool_options p"
  by (auto simp: lock_statement_rows_def reserve_insert_row_id_def poison_shared_def Let_def
      split: result.splits prod.splits statement.splits option.splits)

text \<open>A statement of a connection, in any of its forms.\<close>

definition conn_moves :: "platform \<Rightarrow> connection \<Rightarrow> connection \<Rightarrow> pool \<times> world \<Rightarrow> pool \<times> world \<Rightarrow> bool" where
  "conn_moves P c c' s s' \<longleftrightarrow>
     (\<exists>n. pool_moves P n s s' \<and> (\<forall>tx. transaction c' = Some tx \<longrightarrow> tx_ok P (fst s') tx \<and> tx_id tx = n) \<and>
        (case transaction c of Some tx \<Rightarrow> n = tx_id tx | None \<Rightarrow> n = next_transaction_id (fst s)))"

lemma conn_moves_stay:
  assumes "pool_ok P p w'" "locks_ok p" "\<And>tx. transaction c = Some tx \<Longrightarrow> tx_ok P p tx"
  shows "conn_moves P c c (p, w) (p, w')"
proof -
  define n where "n = (case transaction c of Some tx \<Rightarrow> tx_id tx | None \<Rightarrow> next_transaction_id p)"
  have "pool_moves P n (p, w) (p, w')" by (rule pool_moves_refl [OF assms(1,2)])
  moreover have "tx_ok P p tx \<and> tx_id tx = n" if "transaction c = Some tx" for tx
    using assms(3) [OF that] that by (simp add: n_def)
  ultimately show ?thesis unfolding conn_moves_def fst_conv by (intro exI [of _ n]) (simp add: n_def split: option.split)
qed

lemma conn_moves_tx:
  assumes "transaction c = Some tx" "pool_moves P (tx_id tx) s s'"
    "\<And>tx'. transaction c' = Some tx' \<Longrightarrow> tx_ok P (fst s') tx' \<and> tx_id tx' = tx_id tx"
  shows "conn_moves P c c' s s'"
proof -
  have "case transaction c of Some ty \<Rightarrow> tx_id tx = tx_id ty | None \<Rightarrow> tx_id tx = next_transaction_id (fst s)"
    unfolding assms(1) option.case by (rule refl)
  then show ?thesis unfolding conn_moves_def using assms(2,3) by blast
qed

lemma tx_statement_moves:
  assumes ok: "pool_ok P p w" and locks: "locks_ok p" and mine: "transaction c = Some tx" "tx_ok P p tx"
    and allowed: "pool_allowed stmt p" and ddl: "\<not> is_ddl_statement stmt"
    and run: "tx_statement P stmt (pool_options p) tx (p, c) = (r, p', c')"
  shows "conn_moves P c c' (p, w) (p', w) \<and> \<not> is_panic r"
proof -
  obtain r1 p1 tx1 where l: "lock_statement_rows P stmt (pool_options p) (p, tx) = (r1, p1, tx1)" by (metis prod_cases3)
  note m = lock_rows_moves [OF ok locks mine(2) allowed l] and opts = lock_rows_options [OF l]
  show ?thesis
  proof (cases r1)
    case (Ok u)
    obtain r2 cat where ex: "execute_statement_with_options P stmt (table_runtime_options (pool_options p1)) (tx_catalog tx1) = (r2, cat)"
      by fastforce
    have res: "r = r2" "p' = p1" "c' = c\<lparr>transaction := Some (tx1\<lparr>tx_catalog := cat\<rparr>)\<rparr>"
      using run l Ok ex opts by (auto simp: tx_statement_def)
    have "tx_ok P p1 (tx1\<lparr>tx_catalog := cat\<rparr>) \<and> \<not> is_panic r2"
      using m Ok allowed by (intro tx_run_ok [OF _ _ _ ddl _ ex]) (auto simp: pool_moves_def pool_allowed_def)
    with m res have "conn_moves P c c' (p, w) (p', w)" by (intro conn_moves_tx [OF mine(1)]) auto
    then show ?thesis using \<open>tx_ok _ _ _ \<and> _\<close> res(1) by blast
  next
    case (Err e)
    then have "r = Err e" "p' = p1" "c' = c\<lparr>transaction := Some tx1\<rparr>" using run l by (auto simp: tx_statement_def)
    with m have "conn_moves P c c' (p, w) (p', w)" by (intro conn_moves_tx [OF mine(1)]) simp_all
    then show ?thesis using \<open>r = Err e\<close> by simp
  qed (use m in simp)
qed

lemma statement_moves:
  assumes ok: "pool_ok P p w" and locks: "locks_ok p" and mine: "\<And>tx. transaction c = Some tx \<Longrightarrow> tx_ok P p tx"
    and allowed: "pool_allowed stmt p" and ddl: "\<not> is_ddl_statement stmt"
    and run: "pool_execute_statement P pid stmt (pool_options p) (p, c, w) = (r, p', c', w')"
  shows "conn_moves P c c' (p, w) (p', w') \<and> \<not> is_panic r"
proof -
  have stay: "conn_moves P c c (p, w) (p, w)" using conn_moves_stay [OF ok locks mine] by blast
  have ends: "conn_moves P c c' (p, w) (p', w')"
    if "transaction c = Some tx \<and> pool_moves P (tx_id tx) (p, w) (p', w') \<and> transaction c' = None \<and> \<not> is_panic r" for tx
    using that by (intro conn_moves_tx [of c tx]) simp_all
  consider "stmt = Begin" | "stmt = Commit" | "stmt = Rollback"
    | (cat) "pool_execute_statement P pid stmt (pool_options p) (p, c, w) = pool_catalog_statement P pid stmt (pool_options p) (p, c, w)"
    by (cases stmt) (simp_all add: pool_execute_statement_def)
  then show ?thesis
  proof cases
    case 1
    have b: "pool_begin (p, c) = (r, p', c')" "w' = w"
      using run 1 by (auto simp: pool_execute_statement_def split: prod.splits)
    have "next_transaction_id p \<noteq> - 1" using allowed by (simp add: pool_allowed_def)
    from begin_moves [OF ok locks this b(1)] show ?thesis
    proof
      assume new: "transaction c = None \<and> pool_moves P (next_transaction_id p) (p, w) (p', w) \<and>
        (\<exists>tx. transaction c' = Some tx \<and> tx_ok P p' tx \<and> tx_id tx = next_transaction_id p) \<and> \<not> is_panic r"
      then show ?thesis unfolding conn_moves_def b(2) by (intro conjI exI [of _ "next_transaction_id p"]) auto
    qed (use stay b(2) in blast)
  next
    case 2
    have "pool_commit P pid (pool_options p) (p, c, w) = (r, p', c', w')" using run 2 by (simp add: pool_execute_statement_def)
    from commit_moves [OF ok locks mine this] show ?thesis using stay ends by blast
  next
    case 3
    have b: "pool_rollback (p, c) = (r, p', c')" "w' = w"
      using run 3 by (auto simp: pool_execute_statement_def split: prod.splits)
    from rollback_moves [OF ok locks mine b(1)] show ?thesis using stay ends unfolding b(2) by blast
  next
    case cat
    have check: "ddl_check stmt (p, c) = Ok ()" using ddl by (simp add: ddl_check_def)
    show ?thesis
    proof (cases "transaction c")
      case None
      then have a: "auto_statement P pid stmt (pool_options p) (p, w) = (r, p', w')" "c' = c"
        using run cat check by (auto simp: pool_catalog_statement_def split: prod.splits)
      have "pool_moves P (next_transaction_id p) (p, w) (p', w') \<and> \<not> is_panic r" by (rule auto_moves [OF ok locks allowed a(1)])
      then show ?thesis unfolding conn_moves_def a(2) using None by (intro conjI exI [of _ "next_transaction_id p"]) auto
    next
      case (Some tx)
      then have a: "tx_statement P stmt (pool_options p) tx (p, c) = (r, p', c')" "w' = w"
        using run cat check by (auto simp: pool_catalog_statement_def split: prod.splits)
      then show ?thesis using tx_statement_moves [OF ok locks Some mine [OF Some] allowed ddl a(1)] by simp
    qed
  qed
qed

subsection \<open>The invariant holds in every reachable state\<close>

lemma sys_ok_conn:
  assumes ok: "sys_ok P s" and c: "sys_conns s i = Some c"
    and moves: "conn_moves P c c' (sys_pool s, sys_world s) (p, w)" and same: "transaction c'' = transaction c'"
  shows "sys_ok P (s\<lparr>sys_pool := p, sys_conns := (sys_conns s)(i \<mapsto> c''), sys_ddl := d, sys_world := w\<rparr>)"
proof -
  obtain n where n: "pool_moves P n (sys_pool s, sys_world s) (p, w)"
      "\<forall>tx. transaction c' = Some tx \<longrightarrow> tx_ok P p tx \<and> tx_id tx = n"
      "case transaction c of Some tx \<Rightarrow> n = tx_id tx | None \<Rightarrow> n = next_transaction_id (sys_pool s)"
    using moves unfolding conn_moves_def fst_conv by blast
  have "tx_id tx \<noteq> n" if "j \<noteq> i" "open_tx s j = Some tx" for j tx
  proof (cases "transaction c")
    case None
    then have "n = next_transaction_id (sys_pool s)" using n(3) by simp
    moreover have "tx_id tx < next_transaction_id (sys_pool s)" using ok that by (auto simp: sys_ok_def tx_ok_def)
    ultimately show ?thesis by simp
  next
    case (Some ty)
    then have "open_tx s i = Some ty" "n = tx_id ty" using c n(3) by (auto simp: open_tx_def)
    then show ?thesis using ok that unfolding sys_ok_def by metis
  qed
  then show ?thesis using sys_ok_moves [OF ok n(1), of "Some c''" i d] n(2) same by simp
qed

text \<open>A step that belongs to no open transaction.\<close>

lemma sys_ok_outside:
  assumes ok: "sys_ok P s" and moves: "\<And>n. pool_moves P n (sys_pool s, sys_world s) (p, w)"
  shows "sys_ok P (s\<lparr>sys_pool := p, sys_ddl := d, sys_world := w\<rparr>)"
proof -
  have "tx_ok P p tx" if "open_tx s j = Some tx" for j tx
  proof -
    have tx: "tx_ok P (sys_pool s) tx" using ok that unfolding sys_ok_def by blast
    then have "tx_id tx \<noteq> next_transaction_id (sys_pool s)" by (auto simp: tx_ok_def)
    then show ?thesis using tx_ok_moves [OF tx moves] by blast
  qed
  moreover have "pool_ok P p w" "locks_ok p" using moves by (auto simp: pool_moves_def)
  ultimately show ?thesis using ok unfolding sys_ok_def by (simp add: open_tx_def)
qed

lemma pool_ok_world_outcomes: "pool_moves P n (p, w\<lparr>outcomes := os\<rparr>) s' = pool_moves P n (p, w) s'"
  by (simp add: pool_moves_def)

lemma conn_moves_outcomes: "conn_moves P c c' (p, w\<lparr>outcomes := os\<rparr>) s' = conn_moves P c c' (p, w) s'"
  unfolding conn_moves_def pool_ok_world_outcomes fst_conv by (rule refl)

lemma drop_moves:
  assumes ok: "pool_ok P p w" and locks: "locks_ok p" and mine: "\<And>tx. transaction c = Some tx \<Longrightarrow> tx_ok P p tx"
    and run: "conn_drop (p, c) = (p', c')"
  shows "conn_moves P c (c\<lparr>transaction := None\<rparr>) (p, w) (p', w)"
proof (cases "released c \<or> transaction_poisoned c")
  case True
  then have "p' = p \<or> p' = p\<lparr>permits := permits p + 1\<rparr>" using run by (auto simp: conn_drop_def Let_def split: if_splits)
  then have "pool_moves P n (p, w) (p', w)" for n
    using pool_moves_refl [OF ok locks] pool_moves_permits by blast
  then show ?thesis unfolding conn_moves_def by (cases "transaction c") auto
next
  case False
  show ?thesis
  proof (cases "transaction c")
    case None
    then have "p' = p\<lparr>permits := permits p + 1\<rparr>" using run False by (auto simp: conn_drop_def Let_def)
    then show ?thesis using pool_moves_permits [OF pool_moves_refl [OF ok locks]] None unfolding conn_moves_def by auto
  next
    case (Some tx)
    have "p' = (set_pool_locks (release_locks (pool_locks p) tx) p)\<lparr>permits := permits p + 1\<rparr>"
      using run False Some ok by (auto simp: conn_drop_def Let_def pool_ok_def set_pool_locks_def)
    then show ?thesis
      using pool_moves_permits [OF release_moves [OF ok locks mine [OF Some]]] by (intro conn_moves_tx [OF Some]) simp_all
  qed
qed

lemma sys_ok_less:
  assumes "sys_ok P s" "sys_pool s' = sys_pool s" "pool_ok P (sys_pool s) (sys_world s')"
    and "\<And>j tx. open_tx s' j = Some tx \<Longrightarrow> open_tx s j = Some tx"
  shows "sys_ok P s'"
  using assms(1,3,4) unfolding sys_ok_def assms(2) by blast

lemma get_result:
  assumes "get p = Some (Ok c, p')"
  shows "p' = p\<lparr>permits := permits p - 1\<rparr>" "transaction c = None"
  using assms by (auto simp: get_def checkout_def Let_def rbind_Ok_iff new_connection_def split: if_splits)

lemma conn_parse_transaction: "conn_parse P sql (p, c) = (r, c') \<Longrightarrow> transaction c' = transaction c"
  by (auto simp: conn_parse_def Let_def split: result.splits if_splits prod.splits)

lemma pool_step_ok:
  assumes "sys_ok P s" "pool_step P pid s s'"
  shows "sys_ok P s'"
proof -
  have ok: "pool_ok P (sys_pool s) (sys_world s)" and locks: "locks_ok (sys_pool s)" using assms(1) unfolding sys_ok_def by blast+
  have mine: "tx_ok P (sys_pool s) tx" if "sys_conns s i = Some c" "transaction c = Some tx" for i c tx
    using assms(1) that unfolding sys_ok_def open_tx_def by (metis Option.bind.bind_lunit)
  have stay: "conn_moves P c c (sys_pool s, sys_world s) (sys_pool s, w)"
    if "sys_conns s i = Some c" "pool_ok P (sys_pool s) w" for i c w
    using conn_moves_stay [OF that(2) locks mine [OF that(1)]] by blast
  show ?thesis
    using assms(2)
  proof cases
    case (step_get i c p)
    note p = get_result [OF step_get(3)]
    have "pool_moves P (next_transaction_id (sys_pool s)) (sys_pool s, sys_world s) (p, sys_world s)"
      unfolding p(1) by (intro pool_moves_permits pool_moves_refl ok locks)
    note moves = this
    have "tx_id tx \<noteq> next_transaction_id (sys_pool s)" if "open_tx s j = Some tx" for j tx
      using assms(1) that unfolding sys_ok_def tx_ok_def by (metis order_less_irrefl)
    then have "sys_ok P (s\<lparr>sys_pool := p, sys_conns := (sys_conns s)(i := Some c), sys_ddl := sys_ddl s, sys_world := sys_world s\<rparr>)"
      using p(2) by (intro sys_ok_moves [OF assms(1) moves]) simp_all
    then show ?thesis using step_get(1) by simp
  next
    case (step_drop i c p c')
    have "sys_ok P (s\<lparr>sys_pool := p, sys_conns := (sys_conns s)(i \<mapsto> c\<lparr>transaction := None\<rparr>), sys_ddl := sys_ddl s, sys_world := sys_world s\<rparr>)"
      by (rule sys_ok_conn [OF assms(1) step_drop(2) drop_moves [OF ok locks mine [OF step_drop(2)] step_drop(4)]]) simp_all
    note dropped = this
    have "pool_ok P p (sys_world s)" using dropped unfolding sys_ok_def by simp
    then show ?thesis
      by (intro sys_ok_less [OF dropped]) (use step_drop(1) in \<open>simp_all add: open_tx_def split: if_splits\<close>)
  next
    case (step_parse i c sql r c')
    from sys_ok_conn [OF assms(1) step_parse(2) stay [OF step_parse(2) ok] conn_parse_transaction [OF step_parse(3)], of "sys_ddl s"]
    show ?thesis
      using step_parse(1) by simp
  next
    case (step_statement i c stmt os r p c' w)
    have "pool_ok P (sys_pool s) ((sys_world s)\<lparr>outcomes := os\<rparr>)" using ok by simp
    from statement_moves [OF this locks mine [OF step_statement(2)] step_statement(5,4,6)]
    have "conn_moves P c c' (sys_pool s, sys_world s) (p, w)" by (simp add: conn_moves_outcomes)
    from sys_ok_conn [OF assms(1) step_statement(2) this, where d = "sys_ddl s"] show ?thesis using step_statement(1) by simp
  next
    case (step_ddl_check i c stmt)
    show ?thesis by (rule sys_ok_less [OF assms(1)]) (use ok step_ddl_check(1) in \<open>simp_all add: open_tx_def\<close>)
  next
    case (step_ddl_run i c stmt os r p w)
    have "pool_ok P (sys_pool s) ((sys_world s)\<lparr>outcomes := os\<rparr>)" using ok by simp
    from auto_moves [OF this locks step_ddl_run(4,5)]
    have "pool_moves P n (sys_pool s, sys_world s) (p, w)" for n by (simp add: pool_ok_world_outcomes)
    then show ?thesis using sys_ok_outside [OF assms(1)] step_ddl_run(1) by blast
  next
    case (step_log w)
    have "pool_ok P (sys_pool s) w"
      by (rule pool_ok_world [OF ok]) (use ok step_log(2) in \<open>auto simp: pool_ok_def db_ok_def elim!: stored_same\<close>)
    then show ?thesis by (intro sys_ok_less [OF assms(1)]) (use step_log(1) in \<open>simp_all add: open_tx_def\<close>)
  qed
qed

end
