(* ===== verification/Pool_Safety.thy ===== *)
theory Pool_Safety
  imports Pool_Locks
begin

section \<open>What a pool guarantees\<close>

text \<open>
  The properties of interleaved connections that follow from the invariant of \<open>Pool_Locks\<close>: mutual
  exclusion of row locks, durability of the committed catalog, protection of locked rows against other
  transactions, isolation of uncommitted work, and the accounting of permits. Isolation is stated for the whole
  \<open>execute\<close> of a connection, with its logs.
\<close>

subsection \<open>Every reachable state\<close>

definition pool_start :: "pool \<Rightarrow> world \<Rightarrow> system" where
  "pool_start p w = \<lparr>sys_pool = p, sys_conns = (\<lambda>_. None), sys_ddl = (\<lambda>_. None), sys_world = w\<rparr>"

lemma pool_start_ok:
  assumes "from_database db n = Ok p" "db_ok P db" "tokenizer_of db = SimpleTok" "db_transaction db = None"
    and "stored (db_path db) (db_catalog db) w"
  shows "sys_ok P (pool_start p w)"
proof -
  have "pool_ok P p w" using assms by (auto simp: from_database_def pool_ok_def split: if_splits)
  moreover have "locks_ok p" using assms(1) by (auto simp: from_database_def locks_ok_def bm_ok_def split: if_splits)
  ultimately show ?thesis by (simp add: sys_ok_def pool_start_def open_tx_def)
qed

lemma reachable_ok: "pool_reachable P pid s0 s \<Longrightarrow> sys_ok P s0 \<Longrightarrow> sys_ok P s"
  by (induction rule: pool_reachable.induct) (auto intro: pool_step_ok)

lemma locks_disjoint:
  assumes "sys_ok P s" "i \<noteq> j" "open_tx s i = Some tx" "open_tx s j = Some ty"
  shows "set (locked_rows tx) \<inter> set (locked_rows ty) = {}"
proof -
  have "tx_id tx \<noteq> tx_id ty" using assms unfolding sys_ok_def by metis
  moreover have "held (tx_id tx) (pool_locks (sys_pool s)) (locked_rows tx)" "held (tx_id ty) (pool_locks (sys_pool s)) (locked_rows ty)"
    using assms unfolding sys_ok_def tx_ok_def by blast+
  ultimately show ?thesis unfolding held_def by (metis disjoint_iff option.inject)
qed

text \<open>A run of a pool over a database that is well-formed, on disk and outside a transaction.\<close>

definition pool_home :: "platform \<Rightarrow> database \<Rightarrow> world \<Rightarrow> bool" where
  "pool_home P db w \<longleftrightarrow>
     db_ok P db \<and> tokenizer_of db = SimpleTok \<and> db_transaction db = None \<and> stored (db_path db) (db_catalog db) w"

definition pool_runs :: "platform \<Rightarrow> nat \<Rightarrow> database \<Rightarrow> nat \<Rightarrow> world \<Rightarrow> system \<Rightarrow> bool" where
  "pool_runs P pid db n w s \<longleftrightarrow>
     pool_home P db w \<and> (\<exists>p. from_database db n = Ok p \<and> pool_reachable P pid (pool_start p w) s)"

lemma pool_runs_ok: "pool_runs P pid db n w s \<Longrightarrow> sys_ok P s"
  unfolding pool_runs_def pool_home_def using reachable_ok pool_start_ok by blast

subsection \<open>Committed rows\<close>

definition committed_row :: "pool \<Rightarrow> string \<Rightarrow> u64 \<Rightarrow> row option" where
  "committed_row p tbl n = Option.bind (bm_get (tables (pool_catalog p)) tbl) (\<lambda>t. bm_get (rows t) n)"

lemma committed_row_simps [simp]:
  "committed_row (set_pool_locks ls p) = committed_row p" "committed_row (poison_shared p) = committed_row p"
  "committed_row (p\<lparr>next_transaction_id := k\<rparr>) = committed_row p"
  "committed_row (replace_pool_catalog (pool_catalog p) q) = committed_row p"
  by (simp_all add: committed_row_def poison_shared_def fun_eq_iff replace_pool_catalog_def replace_catalog_def)

lemma committed_row_bump:
  "bm_get (tables (pool_catalog p)) tbl = Some t \<Longrightarrow>
     committed_row (set_pool_catalog (set_next tbl t k (pool_catalog p)) p) = committed_row p"
  by (auto simp: committed_row_def set_next_def fun_eq_iff)

lemma reserve_rows: "reserve_insert_row_id P stmt (p, tx) = (r, p', tx') \<Longrightarrow> committed_row p' = committed_row p"
  using committed_row_bump
  by (auto simp: reserve_insert_row_id_def Let_def split: statement.splits option.splits result.splits)

lemma lock_statement_committed:
  assumes "lock_statement_rows P stmt opts (p, tx) = (r, p', tx')"
  shows "committed_row p' = committed_row p"
proof (cases "rbind (lock_shared p) (\<lambda>_. rows_to_lock P (tx_catalog tx) stmt (table_runtime_options opts))")
  case (Ok ks)
  obtain r1 ls tx1 where "acquire ks (pool_locks p, tx) = (r1, ls, tx1)" by (metis prod_cases3)
  then show ?thesis
    using assms Ok reserve_rows [of P stmt "set_pool_locks ls p" tx1 r p' tx']
    by (cases r1) (auto simp: lock_statement_rows_def)
qed (use assms in \<open>auto simp: lock_statement_rows_def\<close>)

lemma tx_statement_committed:
  assumes "tx_statement P stmt opts tx (p, c) = (r, p', c')"
  shows "committed_row p' = committed_row p \<and> pool_options p' = pool_options p"
proof -
  obtain r1 p1 tx1 where "lock_statement_rows P stmt opts (p, tx) = (r1, p1, tx1)" by (metis prod_cases3)
  then show ?thesis
    using assms lock_statement_committed [of P stmt opts p tx r1 p1 tx1] lock_rows_options [of P stmt opts p tx r1 p1 tx1]
    by (cases r1) (auto simp: tx_statement_def split: prod.splits)
qed

lemma open_statement_committed:
  assumes "transaction c = Some tx" "stmt \<noteq> Commit"
    and "pool_execute_statement P pid stmt opts (p, c, w) = (r, p', c', w')"
  shows "w' = w \<and> committed_row p' = committed_row p \<and> pool_options p' = pool_options p"
proof -
  have other: ?thesis if "pool_catalog_statement P pid stmt opts (p, c, w) = (r, p', c', w')"
    using that assms(1) tx_statement_committed
    by (auto simp: pool_catalog_statement_def split: result.splits prod.splits)
  show ?thesis
  proof (cases stmt)
    case Begin
    then show ?thesis using assms by (auto simp: pool_execute_statement_def pool_begin_def)
  next
    case Rollback
    then show ?thesis using assms
      by (auto simp: pool_execute_statement_def pool_rollback_def Let_def split: prod.splits result.splits)
  qed (use assms other in \<open>auto simp: pool_execute_statement_def\<close>)
qed

text \<open>The logs around a statement of a connection.\<close>

lemma pool_log_before_files: "same_except (log_files opts) w (snd (pool_log_before opts stmt sql (p, c, w)))"
proof -
  have "logs_only opts w (append_redolog opts RedoBegin sql w)" by (rule append_logs_only)
  then show ?thesis
    by (auto simp: pool_log_before_def split: result.split
        intro!: logs_onlyD [THEN conjunct2] logs_only_sbind append_logs_only)
qed

lemma conn_run_open:
  assumes "transaction c = Some tx" "stmt \<noteq> Commit"
    and "conn_run P pid stmt sql opts (p, c, w) = (r, p', c', w')"
  shows "same_except (log_files opts) w w' \<and> committed_row p' = committed_row p \<and> pool_options p' = pool_options p"
proof -
  obtain r1 w1 where before: "pool_log_before opts stmt sql (p, c, w) = (r1, w1)" by fastforce
  then have w1: "same_except (log_files opts) w w1" using pool_log_before_files by (metis snd_conv)
  obtain r2 p2 c2 w2 where ex: "pool_execute_statement P pid stmt opts (p, c, w1) = (r2, p2, c2, w2)" by (metis prod_cases4)
  have eff: "w2 = w1" "committed_row p2 = committed_row p" "pool_options p2 = pool_options p"
    using open_statement_committed [OF assms(1,2) ex] by auto
  obtain r3 w3 where after: "log_after_ok opts stmt sql w2 = (r3, w3)" by fastforce
  then have "same_except (log_files opts) w2 w3" using logs_onlyD [OF log_after_ok_logs_only [of opts w2 stmt sql]] by simp
  with assms(3) before ex after eff w1 log_after_err_files [of opts w2 stmt sql] show ?thesis
    by (cases r1; cases r2; cases r3) (auto simp: conn_run_def elim: same_except_trans)
qed

lemma conn_execute_open:
  assumes "transaction c = Some tx" "fst (conn_parse P sql (p, c)) \<noteq> Ok Commit"
    and "conn_execute P pid elapsed sql (p, c, w) = (r, p', c', w')"
  shows "same_except (log_files (pool_options p)) w w' \<and> committed_row p' = committed_row p"
proof -
  obtain ri pi ci wi where inner: "conn_execute_inner P pid sql (p, c, w) = (ri, pi, ci, wi)" by (metis prod_cases4)
  obtain pr c1 where pc: "conn_parse P sql (p, c) = (pr, c1)" by fastforce
  have c1: "transaction c1 = Some tx" using conn_parse_transaction [OF pc] assms(1) by simp
  have eff: "same_except (log_files (pool_options p)) w wi \<and> committed_row pi = committed_row p \<and> pool_options pi = pool_options p"
  proof (cases "is_ok pr \<and> \<not> transaction_poisoned c1")
    case True
    then obtain stmt where stmt: "pr = Ok stmt" by (cases pr) auto
    then have "conn_run P pid stmt sql (pool_options p) (p, c1, w) = (ri, pi, ci, wi)"
      using inner pc True by (simp add: conn_execute_inner_def Let_def)
    then show ?thesis using conn_run_open [OF c1] assms(2) pc stmt by auto
  next
    case False
    then show ?thesis using inner pc by (cases pr) (auto simp: conn_execute_inner_def Let_def)
  qed
  have "p' = pi" "w' = wi \<or> (\<exists>msg. w' = append_error (pool_options pi) sql msg wi) \<or> w' = append_slow_sql (pool_options pi) sql elapsed wi"
    using assms(3) inner by (cases ri; cases "lock_shared pi"; auto simp: conn_execute_def lock_shared_def split: if_splits)+
  with eff append_slow_error_files [of "pool_options p" wi sql] show ?thesis by (auto elim: same_except_trans)
qed

text \<open>A commit leaves rows that another open transaction has locked.\<close>

lemma commit_committed:
  assumes ok: "sys_ok P s" and ne: "i \<noteq> j" and tx: "open_tx s i = Some tx" and key: "row_lock_key tbl n \<in> set (locked_rows tx)"
    and c: "sys_conns s j = Some c" "transaction c = Some ty"
    and run: "pool_commit P pid opts (sys_pool s, c, w) = (r, p', c', w')"
  shows "committed_row p' tbl n = committed_row (sys_pool s) tbl n"
proof -
  let ?p = "sys_pool s"
  have mine: "open_tx s j = Some ty" using c by (simp add: open_tx_def)
  have parts: "pool_ok P ?p (sys_world s)" "locks_ok ?p" "tx_ok P ?p ty" using ok mine unfolding sys_ok_def by blast+
  have none: "db_transaction (shared_db (shared ?p)) = None" using parts(1) by (simp add: pool_ok_def)
  have cats: "catalog_ok P SimpleTok (pool_catalog ?p)" "catalog_ok P SimpleTok (tx_catalog ty)"
      "staged_from (pool_catalog ?p) (tx_catalog ty)" "lock_keys_ok (locked_rows ty)"
    using parts pool_ok_catalog tx_lock_keys by (auto simp: tx_ok_def)
  have "row_lock_key tbl n \<notin> set (locked_rows ty)" using locks_disjoint [OF ok ne tx mine] key by blast
  then have same: "committed_row (set_pool_catalog merged ?p) tbl n = committed_row ?p tbl n"
    if "merge_catalogs P (pool_catalog ?p) (tx_catalog ty) (locked_rows ty) = Ok merged" for merged
    using merge_catalogs_ok [OF cats that, THEN conjunct2, THEN spec, of tbl]
    by (auto simp: committed_row_def table_merged_def split: option.splits)
  show ?thesis
    using run c same
    by (auto simp: pool_commit_def pool_ok_lock [OF parts(1)] replace_set [OF none] Let_def
        split: result.splits prod.splits)
qed

lemma statement_protects:
  assumes "sys_ok P s" "i \<noteq> j" "open_tx s i = Some tx" "row_lock_key tbl n \<in> set (locked_rows tx)"
    and "sys_conns s j = Some c" "transaction c = Some ty"
    and "pool_execute_statement P pid stmt opts (sys_pool s, c, w) = (r, p', c', w')"
  shows "committed_row p' tbl n = committed_row (sys_pool s) tbl n"
  using assms commit_committed [OF assms(1-6)] open_statement_committed [OF assms(6)]
  by (cases "stmt = Commit") (auto simp: pool_execute_statement_def)

subsection \<open>Permits\<close>

text \<open>The permits and the size of the pool are untouched by everything but checking out and checking in.\<close>

definition same_permits :: "pool \<Rightarrow> pool \<Rightarrow> bool" where
  "same_permits p p' \<longleftrightarrow> permits p' = permits p \<and> max_connections p' = max_connections p"

lemma same_permits_simps [simp]:
  "same_permits p p" "same_permits p (set_pool_locks ls q) = same_permits p q" "same_permits p (poison_shared q) = same_permits p q"
  "same_permits p (set_pool_catalog c q) = same_permits p q" "same_permits p (replace_pool_catalog c q) = same_permits p q"
  "same_permits p (q\<lparr>next_transaction_id := k\<rparr>) = same_permits p q"
  by (simp_all add: same_permits_def poison_shared_def set_pool_locks_def set_pool_catalog_def replace_pool_catalog_def)

lemma lock_statement_permits: "lock_statement_rows P stmt opts (p, tx) = (r, p', tx') \<Longrightarrow> same_permits p p'"
  by (auto simp: lock_statement_rows_def reserve_insert_row_id_def Let_def
      split: result.splits prod.splits statement.splits option.splits)

lemma tx_statement_permits: "tx_statement P stmt opts tx (p, c) = (r, p', c') \<Longrightarrow> same_permits p p' \<and> released c' = released c"
  using lock_statement_permits by (auto simp: tx_statement_def split: result.splits prod.splits)

lemma auto_statement_permits: "auto_statement P pid stmt opts (p, w) = (r, p', w') \<Longrightarrow> same_permits p p'"
  by (auto simp: auto_statement_def split: result.splits prod.splits)

lemma pool_commit_permits: "pool_commit P pid opts (p, c, w) = (r, p', c', w') \<Longrightarrow> same_permits p p' \<and> released c' = released c"
  by (auto simp: pool_commit_def Let_def split: result.splits prod.splits option.splits)

lemma statement_permits:
  assumes "pool_execute_statement P pid stmt opts (p, c, w) = (r, p', c', w')"
  shows "same_permits p p' \<and> released c' = released c"
proof -
  have other: ?thesis if "pool_catalog_statement P pid stmt opts (p, c, w) = (r, p', c', w')"
    using that tx_statement_permits auto_statement_permits
    by (auto simp: pool_catalog_statement_def split: result.splits prod.splits option.splits)
  show ?thesis
  proof (cases stmt)
    case Begin
    then show ?thesis using assms by (auto simp: pool_execute_statement_def pool_begin_def split: if_splits result.splits)
  next
    case Rollback
    then show ?thesis using assms
      by (auto simp: pool_execute_statement_def pool_rollback_def Let_def split: option.splits prod.splits result.splits)
  next
    case Commit
    then show ?thesis using assms pool_commit_permits by (auto simp: pool_execute_statement_def)
  qed (use assms other in \<open>auto simp: pool_execute_statement_def\<close>)
qed

definition live :: "system \<Rightarrow> nat set" where
  "live s = dom (sys_conns s)"

definition permits_ok :: "nat \<Rightarrow> system \<Rightarrow> bool" where
  "permits_ok n s \<longleftrightarrow> finite (live s) \<and> permits (sys_pool s) + card (live s) = n \<and>
     (\<forall>i c. sys_conns s i = Some c \<longrightarrow> \<not> released c)"

lemma conn_parse_released: "conn_parse P sql (p, c) = (r, c') \<Longrightarrow> released c' = released c"
  by (auto simp: conn_parse_def Let_def split: result.splits if_splits prod.splits)

lemma conn_drop_permits: "conn_drop (p, c) = (p', c') \<Longrightarrow> \<not> released c \<Longrightarrow> permits p' = permits p + 1"
  by (auto simp: conn_drop_def Let_def set_pool_locks_def split: option.splits if_splits)

lemma get_permits: "get p = Some (Ok c, p') \<Longrightarrow> 0 < permits p \<and> \<not> released c"
  by (auto simp: get_def checkout_def Let_def rbind_Ok_iff new_connection_def split: if_splits)

lemma permits_ok_update:
  assumes "permits_ok n s" "sys_conns s i = Some c" "same_permits (sys_pool s) p" "\<not> released c'"
  shows "permits_ok n (s\<lparr>sys_pool := p, sys_conns := (sys_conns s)(i \<mapsto> c'), sys_ddl := d, sys_world := w\<rparr>)"
proof -
  have "dom ((sys_conns s)(i \<mapsto> c')) = dom (sys_conns s)" using assms(2) by auto
  then show ?thesis using assms unfolding permits_ok_def live_def same_permits_def by simp
qed

lemma permits_step:
  assumes ok: "permits_ok n s" and step: "pool_step P pid s s'"
  shows "permits_ok n s'"
proof -
  have fin: "finite (live s)" and sum: "permits (sys_pool s) + card (live s) = n"
    and rel: "\<And>i c. sys_conns s i = Some c \<Longrightarrow> \<not> released c" using ok unfolding permits_ok_def by blast+
  show ?thesis
    using step
  proof cases
    case (step_get i c p)
    have "permits p + card (insert i (live s)) = n" "finite (insert i (live s))"
      using sum fin get_permits [OF step_get(3)] get_result(1) [OF step_get(3)] step_get(2)
      by (auto simp: live_def card_insert_if domIff)
    then show ?thesis using get_permits [OF step_get(3)] rel step_get(1) by (simp add: permits_ok_def live_def)
  next
    case (step_drop i c p c')
    have "i \<in> live s" using step_drop(2) by (auto simp: live_def)
    then have "permits p + card (live s - {i}) = n" "finite (live s - {i})"
      using sum fin conn_drop_permits [OF step_drop(4) rel [OF step_drop(2)]] card_Suc_Diff1 [OF fin, of i] by simp_all
    then show ?thesis using rel step_drop(1) by (simp add: permits_ok_def live_def)
  next
    case (step_parse i c sql r c')
    then show ?thesis
      using permits_ok_update [OF ok step_parse(2), where p = "sys_pool s" and d = "sys_ddl s" and w = "sys_world s"] rel [OF step_parse(2)]
        conn_parse_released [OF step_parse(3)] by simp
  next
    case (step_statement i c stmt os r p c' w)
    have "\<not> released c'" "same_permits (sys_pool s) p" using statement_permits [OF step_statement(6)] rel [OF step_statement(2)] by simp_all
    then show ?thesis using permits_ok_update [OF ok step_statement(2), where d = "sys_ddl s"] step_statement(1) by simp
  next
    case (step_ddl_check i c stmt)
    then show ?thesis using ok by (simp add: permits_ok_def live_def)
  next
    case (step_ddl_run i c stmt os r p w)
    then show ?thesis using ok auto_statement_permits [OF step_ddl_run(5)]
      unfolding permits_ok_def live_def same_permits_def by simp
  next
    case (step_log w)
    then show ?thesis using ok by (simp add: permits_ok_def live_def)
  qed
qed

lemma reachable_permits: "pool_reachable P pid s0 s \<Longrightarrow> permits_ok n s0 \<Longrightarrow> permits_ok n s"
  by (induction rule: pool_reachable.induct) (auto intro: permits_step)

lemma pool_runs_permits: "pool_runs P pid db n w s \<Longrightarrow> permits_ok n s"
  unfolding pool_runs_def using reachable_permits [of P pid _ s n]
  by (fastforce simp: permits_ok_def pool_start_def live_def from_database_def split: if_splits)

subsection \<open>A concrete run\<close>

text \<open>Two connections, each in a transaction; the first has deleted the only row of table \<^verbatim>\<open>t\<close>.\<close>

definition demo_home :: database where
  "demo_home = demo_database\<lparr>db_catalog := demo_base\<rparr>"

definition demo_home_world :: world where
  "demo_home_world = demo_world\<lparr>files := (\<lambda>f. if f = path_text demo_path then Some (encode demo_base) else None)\<rparr>"

definition demo_pool :: pool where
  "demo_pool = \<lparr>shared = \<lparr>shared_db = demo_home, row_locks = []\<rparr>, shared_poisoned = False, permits = 2,
     max_connections = 2, next_transaction_id = 1\<rparr>"

lemma demo_home_ok: "pool_home demo_platform demo_home demo_home_world"
  using demo_database_ok demo_base_ok
  by (simp add: pool_home_def demo_home_def demo_home_world_def stored_def db_ok_def demo_database_def database_options_default_def
      table_runtime_options_def)

lemma demo_from: "from_database demo_home 2 = Ok demo_pool"
  by (simp add: from_database_def demo_pool_def)

lemma demo_row_key: "rows_to_lock demo_platform demo_base (Delete ''t'' None) opts = Ok [row_lock_key ''t'' 1]"
  by (simp add: rows_to_lock_def matched_lock_keys_def demo_base_def matching_row_ids_for_lock_def normalize_filter_def
      matching_row_ids_def)

lemma reach_get:
  assumes "pool_reachable P pid s0 s" "sys_conns s i = None" "get (sys_pool s) = Some (Ok c, p)"
  shows "pool_reachable P pid s0 (s\<lparr>sys_pool := p, sys_conns := (sys_conns s)(i \<mapsto> c)\<rparr>)"
  using reach_step [OF assms(1) step_get [OF assms(2,3)]] .

lemma reach_statement:
  assumes "pool_reachable P pid s0 s" "sys_conns s i = Some c" "sys_ddl s i = None" "\<not> is_ddl_statement stmt"
    "pool_allowed stmt (sys_pool s)" "\<not> is_panic r"
    and run: "pool_execute_statement P pid stmt (pool_options (sys_pool s)) (sys_pool s, c, sys_world s) = (r, p, c', w)"
  shows "pool_reachable P pid s0 (s\<lparr>sys_pool := p, sys_conns := (sys_conns s)(i \<mapsto> c'), sys_world := w\<rparr>)"
proof -
  have "pool_execute_statement P pid stmt (pool_options (sys_pool s)) (sys_pool s, c, (sys_world s)\<lparr>outcomes := outcomes (sys_world s)\<rparr>) = (r, p, c', w)"
    using run by simp
  from step_statement [OF assms(2-5) this] assms(6)
  have "pool_step P pid s (s\<lparr>sys_pool := p, sys_conns := (sys_conns s)(i \<mapsto> c'), sys_world := w\<rparr>)" by simp
  then show ?thesis by (rule reach_step [OF assms(1)])
qed

text \<open>The states of the run: both connections checked out, then each statement.\<close>

definition demo_conn :: connection where
  "demo_conn = new_connection (cache_capacity (db_options demo_home))"

definition demo_tx :: "u64 \<Rightarrow> connection" where
  "demo_tx i = demo_conn\<lparr>transaction := Some \<lparr>tx_id = i, tx_catalog = demo_base, locked_rows = []\<rparr>\<rparr>"

definition demo_sys :: "pool \<Rightarrow> connection \<Rightarrow> connection \<Rightarrow> system" where
  "demo_sys p c d = \<lparr>sys_pool = p, sys_conns = [0 \<mapsto> c, 1 \<mapsto> d], sys_ddl = (\<lambda>_. None), sys_world = demo_home_world\<rparr>"

definition demo_out :: pool where
  "demo_out = demo_pool\<lparr>permits := 0\<rparr>"

lemma demo_checked_out: "pool_reachable demo_platform 7 (pool_start demo_pool demo_home_world) (demo_sys demo_out demo_conn demo_conn)"
proof -
  note r0 = reach_start [of demo_platform 7 "pool_start demo_pool demo_home_world"]
  have g: "get (demo_pool\<lparr>permits := Suc k\<rparr>) = Some (Ok demo_conn, demo_pool\<lparr>permits := k\<rparr>)" for k
    by (simp add: get_def checkout_def lock_shared_def demo_pool_def demo_conn_def)
  have two: "demo_pool = demo_pool\<lparr>permits := Suc 1\<rparr>" by (simp add: demo_pool_def)
  from reach_get [OF r0, of 0 demo_conn "demo_pool\<lparr>permits := 1\<rparr>"] g [of 1] two
  have "pool_reachable demo_platform 7 (pool_start demo_pool demo_home_world)
     \<lparr>sys_pool = demo_pool\<lparr>permits := 1\<rparr>, sys_conns = [0 \<mapsto> demo_conn], sys_ddl = (\<lambda>_. None), sys_world = demo_home_world\<rparr>"
    by (simp add: pool_start_def)
  from reach_get [OF this, of 1 demo_conn "demo_pool\<lparr>permits := 0\<rparr>"] g [of 0] show ?thesis
    by (simp add: demo_sys_def demo_out_def)
qed

lemma demo_begun:
  "pool_reachable demo_platform 7 (pool_start demo_pool demo_home_world)
     (demo_sys (demo_out\<lparr>next_transaction_id := 3\<rparr>) (demo_tx 1) (demo_tx 2))"
proof -
  have b: "pool_execute_statement demo_platform 7 Begin (db_options demo_home) (demo_out\<lparr>next_transaction_id := i\<rparr>, demo_conn, w) =
      (Ok (query_message ''transaction started''), demo_out\<lparr>next_transaction_id := i + 1\<rparr>, demo_tx i, w)" for i w
    by (simp add: pool_execute_statement_def pool_begin_def demo_conn_def new_connection_def lock_shared_def demo_out_def
        demo_pool_def demo_tx_def active_catalog_def demo_home_def demo_database_def)
  have opts: "pool_options demo_out = db_options demo_home"
    by (simp add: demo_out_def demo_pool_def)
  have one: "demo_out\<lparr>next_transaction_id := 1\<rparr> = demo_out" by (simp add: demo_out_def demo_pool_def)
  have r0: "pool_reachable demo_platform 7 (pool_start demo_pool demo_home_world)
     (demo_sys (demo_out\<lparr>next_transaction_id := 1\<rparr>) demo_conn demo_conn)" unfolding one by (rule demo_checked_out)
  have "pool_reachable demo_platform 7 (pool_start demo_pool demo_home_world)
     (demo_sys (demo_out\<lparr>next_transaction_id := 2\<rparr>) (demo_tx 1) demo_conn)"
    using reach_statement [OF r0, of 0 demo_conn Begin "Ok (query_message ''transaction started'')"] b [of 1]
    by (simp add: demo_sys_def opts pool_allowed_def is_ddl_statement_def fun_upd_twist)
  from reach_statement [OF this, of 1 demo_conn Begin "Ok (query_message ''transaction started'')"] b [of 2] show ?thesis
    by (simp add: demo_sys_def opts pool_allowed_def is_ddl_statement_def)
qed

lemma demo_two_transactions:
  "\<exists>s tx c ty. pool_runs demo_platform 7 demo_home 2 demo_home_world s \<and> open_tx s 0 = Some tx \<and>
     row_lock_key ''t'' 1 \<in> set (locked_rows tx) \<and> sys_conns s 1 = Some c \<and> transaction c = Some ty"
proof -
  let ?p = "demo_out\<lparr>next_transaction_id := 3\<rparr>" and ?k = "row_lock_key ''t'' 1"
  obtain r cat where ex: "execute_statement_with_options demo_platform (Delete ''t'' None) (table_runtime_options (db_options demo_home)) demo_base = (r, cat)"
    by fastforce
  define c1 where "c1 = demo_conn\<lparr>transaction := Some \<lparr>tx_id = 1, tx_catalog = cat, locked_rows = [?k]\<rparr>\<rparr>"
  have "pool_execute_statement demo_platform 7 (Delete ''t'' None) (db_options demo_home) (?p, demo_tx 1, demo_home_world) =
      (r, set_pool_locks [(?k, 1)] ?p, c1, demo_home_world)"
    using demo_row_key ex
    by (simp add: pool_execute_statement_def pool_catalog_statement_def ddl_check_def is_ddl_statement_def tx_statement_def
        lock_statement_rows_def reserve_insert_row_id_def lock_shared_def demo_out_def demo_pool_def demo_tx_def c1_def)
  moreover have "\<not> is_panic r"
    using statement_no_panic [of demo_platform "table_runtime_options (db_options demo_home)" demo_base "Delete ''t'' None"] demo_base_ok ex
    by (simp add: demo_home_def demo_database_def database_options_default_def table_runtime_options_def)
  ultimately have "pool_reachable demo_platform 7 (pool_start demo_pool demo_home_world)
     (demo_sys (set_pool_locks [(?k, 1)] ?p) c1 (demo_tx 2))"
    using reach_statement [OF demo_begun, of 0 "demo_tx 1" "Delete ''t'' None" r]
    by (simp add: demo_sys_def demo_out_def demo_pool_def pool_allowed_def is_ddl_statement_def fun_upd_twist)
  then have "pool_runs demo_platform 7 demo_home 2 demo_home_world (demo_sys (set_pool_locks [(?k, 1)] ?p) c1 (demo_tx 2))"
    using demo_home_ok demo_from by (auto simp: pool_runs_def)
  moreover have "open_tx (demo_sys q c1 (demo_tx 2)) 0 = Some \<lparr>tx_id = 1, tx_catalog = cat, locked_rows = [?k]\<rparr>"
    "sys_conns (demo_sys q c1 (demo_tx 2)) 1 = Some (demo_tx 2)" for q
    by (simp_all add: demo_sys_def open_tx_def c1_def)
  ultimately show ?thesis by (intro exI conjI) (auto simp: demo_tx_def)
qed

subsection \<open>Conflicts\<close>

lemma acquire_conflict:
  assumes "k \<in> set ks" "bm_get ls k = Some i" "i \<noteq> tx_id tx" "acquire ks (ls, tx) = (r, ls', tx')"
  shows "\<exists>k'\<in>set ks. r = Err (Execution (''row lock conflict on '' @ k')) \<and> tx' = tx\<lparr>locked_rows := locked_rows tx'\<rparr>"
  using assms
proof (induction ks arbitrary: ls tx)
  case (Cons k1 ks)
  show ?case
  proof (cases "bm_get ls k1 \<noteq> None \<and> bm_get ls k1 \<noteq> Some (tx_id tx)")
    case True
    then show ?thesis using Cons.prems(4) by auto
  next
    case False
    then have "k \<noteq> k1" using Cons.prems(2,3) by auto
    then show ?thesis using False Cons.IH [of "bm_insert k1 (tx_id tx) ls" "tx\<lparr>locked_rows := bs_insert k1 (locked_rows tx)\<rparr>"] Cons.prems
      by auto
  qed
qed simp

lemma set_pool_locks_comm:
  "replace_pool_catalog c (set_pool_locks ls p) = set_pool_locks ls (replace_pool_catalog c p)"
  "set_pool_catalog c (set_pool_locks ls p) = set_pool_locks ls (set_pool_catalog c p)"
  "poison_shared (set_pool_locks ls p) = set_pool_locks ls (poison_shared p)"
  by (simp_all add: replace_pool_catalog_def set_pool_catalog_def set_pool_locks_def poison_shared_def)

subsection \<open>Properties\<close>

text \<open>C17: Row locks are exclusive. In every state that interleaved connections can reach (statements, commits,
  rollbacks, drops and table definitions in any order, any I/O operation failing), the transactions of two
  different connections hold no lock in common.\<close>

theorem pool_mutual_exclusion:
  assumes "pool_runs P pid db n w s" "i \<noteq> j" "open_tx s i = Some tx" "open_tx s j = Some ty"
  shows "set (locked_rows tx) \<inter> set (locked_rows ty) = {}"
  using locks_disjoint [OF pool_runs_ok [OF assms(1)] assms(2-4)] .

theorem pool_mutual_exclusion_witness:
  "\<exists>s tx ty. pool_runs demo_platform 7 demo_home 2 demo_home_world s \<and> open_tx s 0 = Some tx \<and> open_tx s 1 = Some ty \<and>
     row_lock_key ''t'' 1 \<in> set (locked_rows tx) \<and> set (locked_rows tx) \<inter> set (locked_rows ty) = {}"
proof -
  obtain s tx c ty where d: "pool_runs demo_platform 7 demo_home 2 demo_home_world s" "open_tx s 0 = Some tx"
      "row_lock_key ''t'' 1 \<in> set (locked_rows tx)" "sys_conns s 1 = Some c" "transaction c = Some ty"
    using demo_two_transactions by blast
  then have "open_tx s 1 = Some ty" by (simp add: open_tx_def)
  with d pool_mutual_exclusion [OF d(1) _ d(2) this] show ?thesis by auto
qed

text \<open>C18: The committed catalog is always on disk. Take a pool over a well-formed, stored database under the default
  tokenizer (\<open>pool_home\<close>; a merge rebuilds with the default options, so under another tokenizer a commit leaves
  postings of the default one), and statements whose texts are valid UTF-8, that insert into no table whose
  identifier counter is used up, while transaction identifiers are not used up (\<open>pool_allowed\<close>). Then in every
  state that interleaved connections can reach, whatever I/O fails, the mutex of the shared database is not
  poisoned, the committed catalog is well-formed, no transaction is open in the shared database, and its file
  holds exactly the encoding of the committed catalog (or is absent or empty when that is the empty
  catalog); row numbers in the lock table are below the counters of their tables.\<close>

theorem pool_file_committed:
  assumes "pool_runs P pid db n w s"
  shows "\<not> shared_poisoned (sys_pool s) \<and> catalog_ok P SimpleTok (pool_catalog (sys_pool s)) \<and>
    db_transaction (shared_db (shared (sys_pool s))) = None \<and>
    stored (db_path (shared_db (shared (sys_pool s)))) (pool_catalog (sys_pool s)) (sys_world s) \<and>
    (\<forall>k i. bm_get (pool_locks (sys_pool s)) k = Some i \<longrightarrow> lock_target (pool_catalog (sys_pool s)) k)"
proof -
  have "pool_ok P (sys_pool s) (sys_world s)" "locks_ok (sys_pool s)"
    using pool_runs_ok [OF assms] unfolding sys_ok_def by blast+
  then show ?thesis using pool_ok_catalog unfolding pool_ok_def locks_ok_def by blast
qed

theorem pool_file_committed_witness:
  "\<exists>s tx. pool_runs demo_platform 7 demo_home 2 demo_home_world s \<and> open_tx s 0 = Some tx \<and>
     row_lock_key ''t'' 1 \<in> set (locked_rows tx) \<and>
     catalog_ok demo_platform SimpleTok (pool_catalog (sys_pool s)) \<and>
     stored (db_path (shared_db (shared (sys_pool s)))) (pool_catalog (sys_pool s)) (sys_world s)"
proof -
  obtain s tx where s: "pool_runs demo_platform 7 demo_home 2 demo_home_world s" "open_tx s 0 = Some tx"
      "row_lock_key ''t'' 1 \<in> set (locked_rows tx)" using demo_two_transactions by blast
  with pool_file_committed [OF s(1)] show ?thesis by blast
qed

text \<open>C20: A row that an open transaction has locked changes, as far as other transactions are concerned, only by
  that transaction's own commit: whatever statement another connection executes inside its transaction,
  its commit included, and whatever I/O does, the committed version of the row stays as it is.\<close>

theorem locked_row_protected:
  assumes "pool_runs P pid db n w s" "i \<noteq> j" "open_tx s i = Some tx" "row_lock_key tbl rid \<in> set (locked_rows tx)"
    and "sys_conns s j = Some c" "transaction c \<noteq> None"
  shows "case pool_execute_statement P pid stmt opts (sys_pool s, c, w') of (r, p', c', w'') \<Rightarrow>
    committed_row p' tbl rid = committed_row (sys_pool s) tbl rid"
  using statement_protects [OF pool_runs_ok [OF assms(1)] assms(2-5)] assms(6) by (auto split: prod.splits)

theorem locked_row_protected_witness:
  "\<exists>s c. pool_runs demo_platform 7 demo_home 2 demo_home_world s \<and> sys_conns s 1 = Some c \<and>
     (case pool_execute_statement demo_platform 7 Commit database_options_default (sys_pool s, c, sys_world s) of (r, p', c', w') \<Rightarrow>
        committed_row p' ''t'' 1 = committed_row (sys_pool s) ''t'' 1)"
proof -
  obtain s tx c ty where d: "pool_runs demo_platform 7 demo_home 2 demo_home_world s" "open_tx s 0 = Some tx"
      "row_lock_key ''t'' 1 \<in> set (locked_rows tx)" "sys_conns s 1 = Some c" "transaction c = Some ty"
    using demo_two_transactions by blast
  have "0 \<noteq> (1 :: nat)" "transaction c \<noteq> None" using d(5) by simp_all
  from locked_row_protected [OF d(1) this(1) d(2-4) this(2), where stmt = Commit and opts = database_options_default and w' = "sys_world s"] d(1,4)
  show ?thesis by (intro exI [of _ s] exI [of _ c] conjI)
qed

text \<open>C21: Uncommitted work is invisible: a call of \<^verbatim>\<open>Connection::execute\<close> inside a transaction, whose text stands for
  anything but \<^verbatim>\<open>COMMIT\<close> (an unparsable text included), changes no row of the committed catalog and no file other
  than the configured log files (binlog, redo and undo log, slow statement and error log), whether it
  succeeds, fails or panics and whatever I/O fails. An INSERT does advance the committed row identifier counter.\<close>

theorem uncommitted_invisible:
  assumes "transaction c \<noteq> None" "fst (conn_parse P sql (p, c)) \<noteq> Ok Commit"
  shows "case conn_execute P pid elapsed sql (p, c, w) of (r, p', c', w') \<Rightarrow>
    (\<forall>f. f \<notin> log_files (pool_options p) \<longrightarrow> files w' f = files w f) \<and>
    (\<forall>tbl rid. committed_row p' tbl rid = committed_row p tbl rid)"
  using assms conn_execute_open [of c _ P sql p pid elapsed w] by (auto simp: same_except_def split: prod.splits)

text \<open>A pool that keeps a binlog and a connection that has the text of a \<^verbatim>\<open>DELETE\<close> in its statement cache.\<close>

definition demo_binlog :: path where
  "demo_binlog = \<lparr>path_parent = ''data'', path_stem = ''main'', path_extension = Some ''binlog''\<rparr>"

definition demo_logged :: pool where
  "demo_logged = demo_pool\<lparr>shared := \<lparr>shared_db = demo_home\<lparr>db_options := database_options_default\<lparr>binlog_path := Some demo_binlog\<rparr>\<rparr>,
     row_locks = []\<rparr>\<rparr>"

definition demo_cached :: connection where
  "demo_cached = (demo_tx 1)\<lparr>conn_cache := \<lparr>capacity = 128, statements = [(''DELETE FROM t'', Delete ''t'' None)]\<rparr>\<rparr>"

theorem uncommitted_invisible_witness:
  "case conn_execute demo_platform 7 0 ''DELETE FROM t'' (demo_logged, demo_cached, demo_home_world) of (r, p', c', w') \<Rightarrow>
     files w' (path_text demo_path) = Some (encode demo_base) \<and>
     (\<forall>tbl rid. committed_row p' tbl rid = committed_row demo_logged tbl rid)"
proof -
  have key: "cache_key ''DELETE FROM t'' = ''DELETE FROM t''"
    by (simp add: cache_key_def str_trim_ascii is_whitespace_def code_def trim_end_matches_def dropWhileEnd_def)
  have "fst (conn_parse demo_platform ''DELETE FROM t'' (demo_logged, demo_cached)) = Ok (Delete ''t'' None)"
    by (simp add: conn_parse_def lock_shared_def demo_logged_def demo_pool_def demo_cached_def demo_tx_def demo_conn_def
        new_connection_def cache_parse_def key Let_def)
  moreover have "transaction demo_cached \<noteq> None" by (simp add: demo_cached_def demo_tx_def)
  moreover have "path_text demo_path \<notin> log_files (pool_options demo_logged)"
    by (simp add: log_files_def demo_logged_def database_options_default_def demo_binlog_def demo_path_def path_text_def)
  moreover have "files demo_home_world (path_text demo_path) = Some (encode demo_base)" by (simp add: demo_home_world_def)
  ultimately show ?thesis
    using uncommitted_invisible [of demo_cached demo_platform "''DELETE FROM t''" demo_logged, where pid = 7 and elapsed = 0
        and w = demo_home_world]
    by (auto split: prod.splits)
qed

text \<open>C22: No permit is lost or invented. In every state that interleaved connections can reach, at most as many
  connections are checked out as the pool was created for; a further \<^verbatim>\<open>get\<close> waits exactly when that many
  are out, and otherwise returns a connection without a transaction.\<close>

theorem pool_permits:
  assumes "pool_runs P pid db n w s"
  shows "finite (live s) \<and> card (live s) \<le> n \<and>
    (if card (live s) = n then get (sys_pool s) = None
     else \<exists>c p. get (sys_pool s) = Some (Ok c, p) \<and> transaction c = None \<and> permits p + card (live s) + 1 = n)"
proof -
  have ok: "pool_ok P (sys_pool s) (sys_world s)" using pool_runs_ok [OF assms] unfolding sys_ok_def by blast
  have lock: "\<not> shared_poisoned (sys_pool s)" using ok by (simp add: pool_ok_def)
  have "finite (live s)" "permits (sys_pool s) + card (live s) = n"
    using pool_runs_permits [OF assms] unfolding permits_ok_def by blast+
  then show ?thesis using lock by (auto simp: get_def checkout_def Let_def lock_shared_def new_connection_def)
qed

theorem pool_permits_witness:
  "live (demo_sys demo_out demo_conn demo_conn) = {0, 1} \<and> get demo_out = None"
proof -
  have "pool_runs demo_platform 7 demo_home 2 demo_home_world (demo_sys demo_out demo_conn demo_conn)"
    using demo_checked_out demo_home_ok demo_from by (auto simp: pool_runs_def)
  moreover have two: "live (demo_sys demo_out demo_conn demo_conn) = {0, 1}" by (auto simp: live_def demo_sys_def)
  ultimately have "get (sys_pool (demo_sys demo_out demo_conn demo_conn)) = None" using pool_permits by fastforce
  then show ?thesis using two by (simp add: demo_sys_def)
qed

text \<open>C23: A statement that needs a lock another transaction holds is refused: it returns the error
  \<^verbatim>\<open>row lock conflict on <key>\<close> for one of the keys it needs, is not executed on the transaction's catalog,
  keeps the transaction open and changes no committed row.\<close>

theorem lock_conflict_refused:
  assumes "\<not> shared_poisoned p" "rows_to_lock P (tx_catalog tx) stmt (table_runtime_options opts) = Ok ks"
    and "k \<in> set ks" "bm_get (pool_locks p) k = Some i" "i \<noteq> tx_id tx"
  shows "case tx_statement P stmt opts tx (p, c) of (r, p', c') \<Rightarrow>
    (\<exists>k'\<in>set ks. r = Err (Execution (''row lock conflict on '' @ k'))) \<and>
    (\<exists>tx'. transaction c' = Some tx' \<and> tx_catalog tx' = tx_catalog tx \<and> tx_id tx' = tx_id tx) \<and>
    pool_catalog p' = pool_catalog p"
proof -
  obtain r ls tx' where acq: "acquire ks (pool_locks p, tx) = (r, ls, tx')" by (metis prod_cases3)
  obtain k' where k': "k' \<in> set ks" "r = Err (Execution (''row lock conflict on '' @ k'))" "tx' = tx\<lparr>locked_rows := locked_rows tx'\<rparr>"
    using acquire_conflict [OF assms(3-5) acq] by blast
  have "tx_statement P stmt opts tx (p, c) =
      (Err (Execution (''row lock conflict on '' @ k')), set_pool_locks ls p, c\<lparr>transaction := Some tx'\<rparr>)"
    using assms(1,2) acq k'(2) by (simp add: tx_statement_def lock_statement_rows_def lock_shared_def)
  moreover have "tx_catalog tx' = tx_catalog tx" "tx_id tx' = tx_id tx" by (subst k'(3), simp)+
  ultimately show ?thesis using k'(1,2) by auto
qed

theorem lock_conflict_refused_witness:
  "case tx_statement demo_platform (Delete ''t'' None) database_options_default \<lparr>tx_id = 2, tx_catalog = demo_base, locked_rows = []\<rparr>
      (set_pool_locks [(row_lock_key ''t'' 1, 1)] demo_pool, demo_tx 2) of (r, p', c') \<Rightarrow>
     r = Err (Execution (''row lock conflict on '' @ row_lock_key ''t'' 1))"
  using lock_conflict_refused [of "set_pool_locks [(row_lock_key ''t'' 1, 1)] demo_pool" demo_platform
      "\<lparr>tx_id = 2, tx_catalog = demo_base, locked_rows = []\<rparr>" "Delete ''t'' None" database_options_default
      "[row_lock_key ''t'' 1]" "row_lock_key ''t'' 1" 1 "demo_tx 2"] demo_row_key
  by (auto simp: demo_pool_def)

text \<open>Statements outside a transaction do not consult the lock table: whatever rows open transactions have locked,
  the statement does exactly what it would do if no row were locked. Locks order transactions with
  transactions only; a transaction that commits later overwrites what such a statement did to its locked rows.\<close>

theorem autocommit_ignores_locks:
  "auto_statement P pid stmt opts (set_pool_locks ls p, w) =
     (case auto_statement P pid stmt opts (p, w) of (r, p', w') \<Rightarrow> (r, set_pool_locks ls p', w'))"
  by (simp add: auto_statement_def lock_shared_def set_pool_locks_comm split: result.splits prod.splits)

end
