(* ===== verification/Pool_Orphans.thy ===== *)
theory Pool_Orphans
  imports Pool_Safety
begin

section \<open>Locks that nobody releases\<close>

text \<open>
  A commit whose merge fails takes the transaction away from its connection before it releases the
  locks. This theory follows such a lock through every later state of a pool: it keeps its owner, no
  connection has a transaction with that identifier again, and so definitions of tables and indexes are refused
  for good. A concrete run reaches such a state.
\<close>

subsection \<open>Orphaned locks stay\<close>

text \<open>Key \<open>k\<close> is locked for transaction \<open>n\<close>, which is an identifier given out before and no connection has.\<close>

definition orphan_lock :: "u64 \<Rightarrow> string \<Rightarrow> system \<Rightarrow> bool" where
  "orphan_lock n k s \<longleftrightarrow>
     n < next_transaction_id (sys_pool s) \<and> (\<forall>j tx. open_tx s j = Some tx \<longrightarrow> tx_id tx \<noteq> n) \<and>
     bm_get (pool_locks (sys_pool s)) k = Some n"

lemma orphan_moves:
  assumes "orphan_lock n k s" "pool_moves P m (sys_pool s, sys_world s) (sys_pool s', w)" "m \<noteq> n"
    and "\<And>j tx. open_tx s' j = Some tx \<Longrightarrow> tx_id tx \<noteq> n"
  shows "orphan_lock n k s'"
  using assms by (auto simp: orphan_lock_def pool_moves_def others_same_def)

lemma orphan_conn:
  assumes orphan: "orphan_lock n k s" and c: "sys_conns s i = Some c"
    and moves: "conn_moves P c c' (sys_pool s, sys_world s) (sys_pool s', w)"
    and conns: "\<And>j tx. open_tx s' j = Some tx \<Longrightarrow> j = i \<and> transaction c' = Some tx \<or> open_tx s j = Some tx"
  shows "orphan_lock n k s'"
proof -
  obtain m where m: "pool_moves P m (sys_pool s, sys_world s) (sys_pool s', w)"
      "\<forall>tx. transaction c' = Some tx \<longrightarrow> tx_id tx = m"
      "case transaction c of Some tx \<Rightarrow> m = tx_id tx | None \<Rightarrow> m = next_transaction_id (sys_pool s)"
    using moves unfolding conn_moves_def fst_conv by blast
  have "m \<noteq> n"
  proof (cases "transaction c")
    case None
    then show ?thesis using m(3) orphan by (auto simp: orphan_lock_def)
  next
    case (Some tx)
    then have "open_tx s i = Some tx" using c by (simp add: open_tx_def)
    then show ?thesis using m(3) Some orphan unfolding orphan_lock_def by auto
  qed
  moreover from this have "tx_id tx \<noteq> n" if "open_tx s' j = Some tx" for j tx
    using conns [OF that] m(2) orphan unfolding orphan_lock_def by blast
  ultimately show ?thesis by (rule orphan_moves [OF orphan m(1)])
qed

lemma orphan_step:
  assumes sys: "sys_ok P s" and orphan: "orphan_lock n k s" and step: "pool_step P pid s s'"
  shows "orphan_lock n k s'"
proof -
  have ok: "pool_ok P (sys_pool s) (sys_world s)" and locks: "locks_ok (sys_pool s)" using sys unfolding sys_ok_def by blast+
  have mine: "tx_ok P (sys_pool s) tx" if "sys_conns s i = Some c" "transaction c = Some tx" for i c tx
    using sys that unfolding sys_ok_def open_tx_def by (metis Option.bind.bind_lunit)
  have fresh: "next_transaction_id (sys_pool s) \<noteq> n" using orphan by (auto simp: orphan_lock_def)
  show ?thesis
    using step
  proof cases
    case (step_get i c p)
    note p = get_result [OF step_get(3)]
    show ?thesis using orphan p by (auto simp: orphan_lock_def step_get(1) open_tx_def split: if_splits)
  next
    case (step_drop i c p c')
    from drop_moves [OF ok locks mine [OF step_drop(2)] step_drop(4)]
    show ?thesis by (intro orphan_conn [OF orphan step_drop(2)]) (auto simp: step_drop(1) open_tx_def split: if_splits)
  next
    case (step_parse i c sql r c')
    have "transaction c' = transaction c" by (rule conn_parse_transaction [OF step_parse(3)])
    then have "open_tx s' j = open_tx s j" for j using step_parse(2) by (simp add: step_parse(1) open_tx_def)
    then show ?thesis using orphan by (simp add: orphan_lock_def step_parse(1))
  next
    case (step_statement i c stmt os r p c' w)
    have "pool_ok P (sys_pool s) ((sys_world s)\<lparr>outcomes := os\<rparr>)" using ok by simp
    from statement_moves [OF this locks mine [OF step_statement(2)] step_statement(5,4,6)]
    have "conn_moves P c c' (sys_pool s, sys_world s) (p, w)" by (simp add: conn_moves_outcomes)
    then show ?thesis
      by (intro orphan_conn [OF orphan step_statement(2)]) (auto simp: step_statement(1) open_tx_def split: if_splits)
  next
    case (step_ddl_check i c stmt)
    then show ?thesis using orphan by (simp add: orphan_lock_def open_tx_def)
  next
    case (step_ddl_run i c stmt os r p w)
    have "pool_ok P (sys_pool s) ((sys_world s)\<lparr>outcomes := os\<rparr>)" using ok by simp
    from auto_moves [OF this locks step_ddl_run(4,5)]
    have "pool_moves P (next_transaction_id (sys_pool s)) (sys_pool s, sys_world s) (sys_pool s', w)"
      by (simp add: pool_ok_world_outcomes step_ddl_run(1))
    then show ?thesis
      using orphan fresh by (intro orphan_moves [OF orphan]) (auto simp: step_ddl_run(1) open_tx_def orphan_lock_def)
  next
    case (step_log w)
    then show ?thesis using orphan by (simp add: orphan_lock_def open_tx_def)
  qed
qed

lemma orphan_reachable: "pool_reachable P pid s0 s \<Longrightarrow> sys_ok P s0 \<Longrightarrow> orphan_lock n k s0 \<Longrightarrow> orphan_lock n k s \<and> sys_ok P s"
  by (induction rule: pool_reachable.induct) (auto intro: orphan_step pool_step_ok)

text \<open>Where a lock is held, no definition gets past its check.\<close>

definition ddl_refusal :: "connection \<Rightarrow> error" where
  "ddl_refusal c = Execution (if transaction c = None then ''ddl blocked by active dml transactions''
     else ''ddl is not allowed inside an active transaction'')"

lemma ddl_refused:
  assumes "\<not> shared_poisoned p" "bm_get (pool_locks p) k = Some n" "is_ddl_statement stmt"
  shows "pool_execute_statement P pid stmt opts (p, c, w) = (Err (ddl_refusal c), p, c, w)"
proof -
  have "row_locks (shared p) \<noteq> []" using assms(2) by auto
  moreover have "pool_execute_statement P pid stmt opts (p, c, w) = pool_catalog_statement P pid stmt opts (p, c, w)"
    using assms(3) by (cases stmt) (simp_all add: is_ddl_statement_def pool_execute_statement_def)
  ultimately show ?thesis
    using assms(1,3) by (simp add: pool_catalog_statement_def ddl_check_def ddl_refusal_def lock_shared_def)
qed

text \<open>A merge only fails for a transaction that has locked something.\<close>

lemma failed_merge_locked:
  assumes "sys_ok P s" "open_tx s i = Some tx"
    and "merge_catalogs P (pool_catalog (sys_pool s)) (tx_catalog tx) (locked_rows tx) = Err e"
  shows "locked_rows tx \<noteq> []"
proof
  assume "locked_rows tx = []"
  moreover have "pool_ok P (sys_pool s) (sys_world s)" "tx_ok P (sys_pool s) tx" using assms(1,2) unfolding sys_ok_def by blast+
  then have "catalog_ok P SimpleTok (pool_catalog (sys_pool s))" "catalog_ok P SimpleTok (tx_catalog tx)"
      "staged_from (pool_catalog (sys_pool s)) (tx_catalog tx)"
    using pool_ok_catalog by (auto simp: tx_ok_def)
  ultimately show False using merge_unlocked assms(3) by fastforce
qed

subsection \<open>A run that gets there\<close>

text \<open>
  One connection sets the key of the only row to 8 inside a transaction; another inserts a row with key 8
  outside a transaction, which no lock stops; the commit of the first then meets a duplicate key.
\<close>

definition orphan_home :: database where
  "orphan_home = demo_home\<lparr>db_path := None\<rparr>"

definition orphan_pool :: pool where
  "orphan_pool = demo_pool\<lparr>shared := \<lparr>shared_db = orphan_home, row_locks = []\<rparr>\<rparr>"

definition demo_rekey :: statement where
  "demo_rekey = Update ''t'' [(''id'', Integer 8)] None"

definition demo_second :: statement where
  "demo_second = Insert ''t'' None [Integer 8, Null]"

definition demo_rekeyed :: table where
  "demo_rekeyed = demo_one_row\<lparr>rows := [(1, [(''id'', Integer 8), (''name'', Null)])]\<rparr>"

definition demo_two_rows :: table where
  "demo_two_rows = demo_one_row\<lparr>rows := [(1, [(''id'', Integer 7), (''name'', Null)]), (2, [(''id'', Integer 8), (''name'', Null)])],
     next_row_id := 3\<rparr>"

abbreviation demo_topts :: table_options where
  "demo_topts \<equiv> table_runtime_options database_options_default"

abbreviation orphan_catalog :: "table \<Rightarrow> catalog" where
  "orphan_catalog t \<equiv> \<lparr>tables = [(''t'', reindexed demo_platform SimpleTok t)]\<rparr>"

lemma demo_topts_tokenizer [simp]: "fulltext_tokenizer demo_topts = SimpleTok"
  by (simp add: table_runtime_options_def database_options_default_def)

lemma reindexed_cong: "clear_indexes t = clear_indexes t' \<Longrightarrow> rows t = rows t' \<Longrightarrow> reindexed P tk t = reindexed P tk t'"
  by (simp add: reindexed_def)

lemma demo_rekey_runs:
  "execute_statement_with_options demo_platform demo_rekey demo_topts demo_base =
     (Ok (query_affected 1 ''row(s) updated''), orphan_catalog demo_rekeyed)"
proof -
  let ?t = "reindexed demo_platform SimpleTok demo_one_row"
  have plan: "update_plan demo_platform [(''id'', Integer 8)] None demo_topts ?t = Ok ([1], [(''id'', Integer 8)])"
    by (simp add: update_plan_def normalize_filter_def matching_row_ids_def table_column_def demo_columns_def
        validate_value_with_options_def)
  have rows: "updated [(''id'', Integer 8)] [1] (rows ?t) = rows demo_rekeyed"
    by (simp add: updated_def assign_row_def demo_rekeyed_def)
  moreover have "keyed_rows ?t (rows demo_rekeyed)" by (simp add: keyed_rows_def demo_rekeyed_def row_key_def)
  moreover have "reindexed demo_platform SimpleTok (?t\<lparr>rows := rows demo_rekeyed\<rparr>) = reindexed demo_platform SimpleTok demo_rekeyed"
    unfolding demo_one_row_reindexed
    by (rule reindexed_cong) (simp_all add: clear_indexes_def demo_rekeyed_def demo_one_row_def demo_table_def)
  ultimately have "update_with_options demo_platform [(''id'', Integer 8)] None demo_topts ?t =
      (Ok 1, reindexed demo_platform SimpleTok demo_rekeyed)"
    using update_outcome(1) [OF _ plan] demo_one_row_ok [of demo_platform SimpleTok] by simp
  then show ?thesis by (simp add: demo_rekey_def on_table_def demo_base_def)
qed

lemma demo_second_runs:
  "execute_statement_with_options demo_platform demo_second demo_topts demo_base =
     (Ok (query_affected 1 ''row inserted''), orphan_catalog demo_two_rows)"
proof -
  let ?t = "reindexed demo_platform SimpleTok demo_one_row" and ?r = "[(''id'', Integer 8), (''name'', Null)]"
  have id: "next_row_id demo_one_row = 2" by (simp add: demo_one_row_def)
  have row: "insert_row demo_platform None [Integer 8, Null] demo_topts ?t = Ok ?r"
    by (simp add: insert_row_def demo_columns_def table_column_def validate_value_with_options_def bm_from_def
        validate_primary_insert_def demo_one_row_reindexed)
  have "reindexed demo_platform SimpleTok (with_row ?r ?t) = reindexed demo_platform SimpleTok demo_two_rows"
    unfolding demo_one_row_reindexed
    by (rule reindexed_cong) (simp_all add: clear_indexes_def with_row_def demo_two_rows_def demo_one_row_def demo_table_def)
  then have "insert_with_options demo_platform None [Integer 8, Null] demo_topts ?t =
      (Ok (), reindexed demo_platform SimpleTok demo_two_rows)"
    using insert_outcome [of demo_platform demo_topts ?t "[Integer 8, Null]" None] row id demo_one_row_ok [of demo_platform SimpleTok]
    by simp
  then show ?thesis by (simp add: demo_second_def on_table_def demo_base_def)
qed

lemma orphan_merge_fails:
  "\<exists>e. merge_catalogs demo_platform (orphan_catalog demo_two_rows) (orphan_catalog demo_rekeyed) [row_lock_key ''t'' 1] = Err e"
proof -
  let ?tg = "reindexed demo_platform SimpleTok demo_two_rows" and ?st = "reindexed demo_platform SimpleTok demo_rekeyed"
  have locked: "merge_locked (''row:'' @ ''t'' @ '':'') st [row_lock_key ''t'' 1] tg = Ok (merge_row st 1 tg)" for st tg
    using row_key_prefix [of "''t''" "''t''" 1] by (simp add: row_lock_key_def)
  have fields: "rows demo_rekeyed = [(1, [(''id'', Integer 8), (''name'', Null)])]" "next_row_id demo_rekeyed = 2"
    "rows demo_two_rows = [(1, [(''id'', Integer 7), (''name'', Null)]), (2, [(''id'', Integer 8), (''name'', Null)])]"
    "next_row_id demo_two_rows = 3" "primary_key demo_two_rows = Some ''id''" "indexes demo_two_rows = []"
    "fulltext_indexes demo_two_rows = []"
    by (simp_all add: demo_rekeyed_def demo_two_rows_def demo_one_row_def demo_table_def)
  let ?rows = "[(1, [(''id'', Integer 8), (''name'', Null)]), (2, [(''id'', Integer 8), (''name'', Null)])]"
  let ?new = "?tg\<lparr>rows := ?rows, next_row_id := 3\<rparr>"
  have "merge_row ?st 1 ?tg = ?tg\<lparr>rows := ?rows\<rparr>" by (simp add: merge_row_def fields)
  moreover have "row_ids_between 3 2 = []" by (simp add: row_ids_between_def)
  ultimately have m: "merge_table demo_platform ''t'' ?st [row_lock_key ''t'' 1] ?tg =
      (case rebuild_indexes_with_options demo_platform table_options_default ?new of
         (Ok _, t4) \<Rightarrow> Ok t4 | (Err e, t4) \<Rightarrow> Err e | (Panic m, t4) \<Rightarrow> Panic m)"
    using locked [of ?st ?tg] by (simp add: merge_table_def fields)
  have "indexes_ok ?new"
    using same_shape_fields [OF reindexed_shape [of demo_platform SimpleTok demo_two_rows]] fields
    by (simp add: indexes_ok_def indexes_for_encoding_def fulltext_indexes_for_encoding_def bm_ok_def)
  moreover have "\<not> rows_indexable ?new" by (simp add: rows_indexable_def keyed_rows_def row_key_def fields)
  ultimately obtain e t' where "rebuild_indexes_with_options demo_platform table_options_default ?new = (Err e, t')"
    using rebuild_fails by metis
  then show ?thesis using m by (simp add: merge_catalogs_def)
qed

lemma orphan_home_ok: "pool_home demo_platform orphan_home demo_home_world" "from_database orphan_home 2 = Ok orphan_pool"
  using demo_home_ok
  by (simp_all add: pool_home_def orphan_home_def db_ok_def stored_def demo_home_def demo_database_def from_database_def
      orphan_pool_def demo_pool_def)

abbreviation orphan_tx :: connection where
  "orphan_tx \<equiv> demo_conn\<lparr>transaction := Some \<lparr>tx_id = 1, tx_catalog = orphan_catalog demo_rekeyed,
     locked_rows = [row_lock_key ''t'' 1]\<rparr>\<rparr>"

definition orphan_state :: pool where
  "orphan_state = set_pool_catalog (orphan_catalog demo_two_rows)
     (set_pool_locks [(row_lock_key ''t'' 1, 1)] (orphan_pool\<lparr>permits := 0, next_transaction_id := 2\<rparr>))"

lemma orphan_steps:
  "get (orphan_pool\<lparr>permits := Suc k\<rparr>) = Some (Ok demo_conn, orphan_pool\<lparr>permits := k\<rparr>)"
  "pool_execute_statement demo_platform 7 Begin database_options_default (orphan_pool\<lparr>permits := 0\<rparr>, demo_conn, w) =
     (Ok (query_message ''transaction started''), orphan_pool\<lparr>permits := 0, next_transaction_id := 2\<rparr>, demo_tx 1, w)"
  "pool_execute_statement demo_platform 7 demo_rekey database_options_default
       (orphan_pool\<lparr>permits := 0, next_transaction_id := 2\<rparr>, demo_tx 1, w) =
     (Ok (query_affected 1 ''row(s) updated''),
      set_pool_locks [(row_lock_key ''t'' 1, 1)] (orphan_pool\<lparr>permits := 0, next_transaction_id := 2\<rparr>), orphan_tx, w)"
  "pool_execute_statement demo_platform 7 demo_second database_options_default
       (set_pool_locks [(row_lock_key ''t'' 1, 1)] (orphan_pool\<lparr>permits := 0, next_transaction_id := 2\<rparr>), demo_conn, w) =
     (Ok (query_affected 1 ''row inserted''), orphan_state, demo_conn, w)"
proof -
  have keys: "rows_to_lock demo_platform demo_base demo_rekey demo_topts = Ok [row_lock_key ''t'' 1]"
    using demo_row_key [of demo_topts] by (simp add: rows_to_lock_def demo_rekey_def)
  show "get (orphan_pool\<lparr>permits := Suc k\<rparr>) = Some (Ok demo_conn, orphan_pool\<lparr>permits := k\<rparr>)"
    by (simp add: get_def checkout_def lock_shared_def orphan_pool_def demo_pool_def demo_conn_def orphan_home_def)
  show "pool_execute_statement demo_platform 7 Begin database_options_default (orphan_pool\<lparr>permits := 0\<rparr>, demo_conn, w) =
     (Ok (query_message ''transaction started''), orphan_pool\<lparr>permits := 0, next_transaction_id := 2\<rparr>, demo_tx 1, w)"
    by (simp add: pool_execute_statement_def pool_begin_def demo_conn_def new_connection_def lock_shared_def orphan_pool_def
        demo_pool_def demo_tx_def active_catalog_def orphan_home_def demo_home_def demo_database_def)
  show "pool_execute_statement demo_platform 7 demo_rekey database_options_default
       (orphan_pool\<lparr>permits := 0, next_transaction_id := 2\<rparr>, demo_tx 1, w) =
     (Ok (query_affected 1 ''row(s) updated''),
      set_pool_locks [(row_lock_key ''t'' 1, 1)] (orphan_pool\<lparr>permits := 0, next_transaction_id := 2\<rparr>), orphan_tx, w)"
    using keys demo_rekey_runs
    by (simp add: demo_rekey_def pool_execute_statement_def pool_catalog_statement_def ddl_check_def is_ddl_statement_def
        tx_statement_def lock_statement_rows_def reserve_insert_row_id_def lock_shared_def orphan_pool_def demo_pool_def demo_tx_def)
  show "pool_execute_statement demo_platform 7 demo_second database_options_default
       (set_pool_locks [(row_lock_key ''t'' 1, 1)] (orphan_pool\<lparr>permits := 0, next_transaction_id := 2\<rparr>), demo_conn, w) =
     (Ok (query_affected 1 ''row inserted''), orphan_state, demo_conn, w)"
    using demo_second_runs
    by (simp add: demo_second_def pool_execute_statement_def pool_catalog_statement_def ddl_check_def is_ddl_statement_def
        auto_statement_def lock_shared_def orphan_state_def orphan_pool_def demo_pool_def demo_conn_def new_connection_def
        orphan_home_def demo_home_def persist_catalog_def set_pool_locks_def set_pool_catalog_def)
qed

lemma orphan_run: "pool_runs demo_platform 7 orphan_home 2 demo_home_world (demo_sys orphan_state orphan_tx demo_conn)"
proof -
  let ?reach = "pool_reachable demo_platform 7 (pool_start orphan_pool demo_home_world)"
  have opts: "pool_options orphan_pool = database_options_default" "permits orphan_pool = 2"
    by (simp_all add: orphan_pool_def orphan_home_def demo_home_def demo_database_def demo_pool_def)
  have two: "orphan_pool = orphan_pool\<lparr>permits := Suc 1\<rparr>" by (simp add: orphan_pool_def demo_pool_def)
  note r0 = reach_start [of demo_platform 7 "pool_start orphan_pool demo_home_world"]
  from reach_get [OF r0, of 0 demo_conn "orphan_pool\<lparr>permits := 1\<rparr>"] orphan_steps(1) [of 1] two
  have "?reach \<lparr>sys_pool = orphan_pool\<lparr>permits := 1\<rparr>, sys_conns = [0 \<mapsto> demo_conn], sys_ddl = (\<lambda>_. None),
      sys_world = demo_home_world\<rparr>"
    by (simp add: pool_start_def)
  from reach_get [OF this, of 1 demo_conn "orphan_pool\<lparr>permits := 0\<rparr>"] orphan_steps(1) [of 0]
  have r2: "?reach (demo_sys (orphan_pool\<lparr>permits := 0\<rparr>) demo_conn demo_conn)" by (simp add: demo_sys_def)
  have room: "next_transaction_id orphan_pool = 1" "pool_catalog orphan_pool = demo_base"
    by (simp_all add: orphan_pool_def demo_pool_def orphan_home_def demo_home_def)
  from reach_statement [OF r2, of 0 demo_conn Begin "Ok (query_message ''transaction started'')"] orphan_steps(2) [of demo_home_world]
  have r3: "?reach (demo_sys (orphan_pool\<lparr>permits := 0, next_transaction_id := 2\<rparr>) (demo_tx 1) demo_conn)"
    by (simp add: demo_sys_def opts pool_allowed_def is_ddl_statement_def room fun_upd_twist)
  from reach_statement [OF r3, of 0 "demo_tx 1" demo_rekey "Ok (query_affected 1 ''row(s) updated'')"] orphan_steps(3) [of demo_home_world]
  have r4: "?reach (demo_sys (set_pool_locks [(row_lock_key ''t'' 1, 1)] (orphan_pool\<lparr>permits := 0, next_transaction_id := 2\<rparr>))
      orphan_tx demo_conn)"
    by (simp add: demo_sys_def opts pool_allowed_def is_ddl_statement_def demo_rekey_def fun_upd_twist)
  from reach_statement [OF r4, of 1 demo_conn demo_second "Ok (query_affected 1 ''row inserted'')"] orphan_steps(4) [of demo_home_world]
  have "?reach (demo_sys orphan_state orphan_tx demo_conn)"
    by (simp add: demo_sys_def opts pool_allowed_def is_ddl_statement_def demo_second_def room demo_base_def)
      (simp add: demo_one_row_def demo_table_def)
  then show ?thesis using orphan_home_ok by (auto simp: pool_runs_def)
qed

subsection \<open>Property\<close>

text \<open>C24: A commit whose merge fails leaves its locks behind for good. \<^verbatim>\<open>commit\<close> has taken the transaction from its
  connection and returns the error before it releases anything, although its doc comment says that the ownership
  of locks ends after a success or with a release on the error path. Under the conditions of C18, in every state that interleaved connections can
  reach after it: every key the transaction had locked (there is at least one, since a merge that fails has
  locked something) is still locked under its identifier, no connection has a transaction with that identifier, and any
  connection that executes a table or index definition gets an error, with nothing changed. (A definition that had
  passed its check before the commit may still run.)\<close>

theorem failed_merge_keeps_locks:
  assumes run: "pool_runs P pid db m w s" and c: "sys_conns s i = Some c" "transaction c = Some tx"
    and failed: "merge_catalogs P (pool_catalog (sys_pool s)) (tx_catalog tx) (locked_rows tx) = Err e"
  shows "pool_execute_statement P pid Commit (pool_options (sys_pool s)) (sys_pool s, c, sys_world s) =
      (Err e, sys_pool s, c\<lparr>transaction := None\<rparr>, sys_world s) \<and>
    locked_rows tx \<noteq> [] \<and>
    (\<forall>s'. pool_reachable P pid (s\<lparr>sys_conns := (sys_conns s)(i \<mapsto> c\<lparr>transaction := None\<rparr>)\<rparr>) s' \<longrightarrow>
       (\<forall>k \<in> set (locked_rows tx). bm_get (pool_locks (sys_pool s')) k = Some (tx_id tx)) \<and>
       (\<forall>j ty. open_tx s' j = Some ty \<longrightarrow> tx_id ty \<noteq> tx_id tx) \<and>
       (\<forall>c' stmt opts w'. is_ddl_statement stmt \<longrightarrow>
          pool_execute_statement P pid stmt opts (sys_pool s', c', w') = (Err (ddl_refusal c'), sys_pool s', c', w')))"
proof -
  let ?s1 = "s\<lparr>sys_conns := (sys_conns s)(i \<mapsto> c\<lparr>transaction := None\<rparr>)\<rparr>"
  have sys: "sys_ok P s" by (rule pool_runs_ok [OF run])
  have mine: "open_tx s i = Some tx" using c by (simp add: open_tx_def)
  have ok: "pool_ok P (sys_pool s) (sys_world s)" "locks_ok (sys_pool s)" "tx_ok P (sys_pool s) tx"
    using sys mine unfolding sys_ok_def by blast+
  have commit: "pool_commit P pid (pool_options (sys_pool s)) (sys_pool s, c, sys_world s) =
      (Err e, sys_pool s, c\<lparr>transaction := None\<rparr>, sys_world s)"
    using c failed by (simp add: pool_commit_def pool_ok_lock [OF ok(1)])
  have some: "locked_rows tx \<noteq> []" by (rule failed_merge_locked [OF sys mine failed])
  have ids: "tx_id ty \<noteq> tx_id tx" if "open_tx ?s1 j = Some ty" for j ty
  proof -
    have "j \<noteq> i" "open_tx s j = Some ty" using that by (auto simp: open_tx_def split: if_splits)
    then show ?thesis using sys mine unfolding sys_ok_def by metis
  qed
  have sys1: "sys_ok P ?s1"
    by (rule sys_ok_less [OF sys]) (use ok(1) in \<open>auto simp: open_tx_def split: if_splits\<close>)
  have orphan: "orphan_lock (tx_id tx) k ?s1" if "k \<in> set (locked_rows tx)" for k
    using ok(3) ids that by (auto simp: orphan_lock_def tx_ok_def held_def)
  obtain k0 where k0: "k0 \<in> set (locked_rows tx)" using some by (cases "locked_rows tx") auto
  have later: "(\<forall>k \<in> set (locked_rows tx). bm_get (pool_locks (sys_pool s')) k = Some (tx_id tx)) \<and>
      (\<forall>j ty. open_tx s' j = Some ty \<longrightarrow> tx_id ty \<noteq> tx_id tx) \<and>
      (\<forall>c' stmt opts w'. is_ddl_statement stmt \<longrightarrow>
         pool_execute_statement P pid stmt opts (sys_pool s', c', w') = (Err (ddl_refusal c'), sys_pool s', c', w'))"
    if r: "pool_reachable P pid ?s1 s'" for s'
  proof -
    have kept: "orphan_lock (tx_id tx) k s'" if "k \<in> set (locked_rows tx)" for k
      using orphan_reachable [OF r sys1 orphan [OF that]] by blast
    have "pool_ok P (sys_pool s') (sys_world s')" using orphan_reachable [OF r sys1 orphan [OF k0]] unfolding sys_ok_def by blast
    then have "\<not> shared_poisoned (sys_pool s')" by (simp add: pool_ok_def)
    with kept k0 ddl_refused [of "sys_pool s'" k0 "tx_id tx"] show ?thesis unfolding orphan_lock_def by blast
  qed
  show ?thesis using commit some later by (simp add: pool_execute_statement_def)
qed

theorem failed_merge_keeps_locks_witness:
  "pool_runs demo_platform 7 orphan_home 2 demo_home_world (demo_sys orphan_state orphan_tx demo_conn) \<and>
   (\<exists>e. pool_execute_statement demo_platform 7 Commit database_options_default (orphan_state, orphan_tx, demo_home_world) =
      (Err e, orphan_state, demo_conn, demo_home_world)) \<and>
   pool_execute_statement demo_platform 7 (CreateTable ''u'' []) database_options_default (orphan_state, demo_conn, demo_home_world) =
      (Err (Execution ''ddl blocked by active dml transactions''), orphan_state, demo_conn, demo_home_world)"
proof -
  let ?s = "demo_sys orphan_state orphan_tx demo_conn"
  have fields: "sys_pool ?s = orphan_state" "sys_conns ?s 0 = Some orphan_tx" "sys_world ?s = demo_home_world"
    "pool_options orphan_state = database_options_default" "pool_catalog orphan_state = orphan_catalog demo_two_rows"
    by (simp_all add: demo_sys_def orphan_state_def orphan_pool_def orphan_home_def demo_home_def demo_database_def)
  obtain e where e: "merge_catalogs demo_platform (pool_catalog (sys_pool ?s)) (orphan_catalog demo_rekeyed) [row_lock_key ''t'' 1] = Err e"
    using orphan_merge_fails by (auto simp: fields)
  let ?tx = "\<lparr>tx_id = 1, tx_catalog = orphan_catalog demo_rekeyed, locked_rows = [row_lock_key ''t'' 1]\<rparr>"
  have tx: "transaction orphan_tx = Some ?tx"
    "merge_catalogs demo_platform (pool_catalog (sys_pool ?s)) (tx_catalog ?tx) (locked_rows ?tx) = Err e" using e by simp_all
  have conn: "orphan_tx\<lparr>transaction := None\<rparr> = demo_conn" by (simp add: demo_conn_def new_connection_def)
  note whole = failed_merge_keeps_locks [OF orphan_run fields(2) tx, unfolded fields conn]
  note after = whole [THEN conjunct2, THEN conjunct2, THEN spec, THEN mp, OF reach_start]
  have "is_ddl_statement (CreateTable ''u'' [])" by (simp add: is_ddl_statement_def)
  then have "pool_execute_statement demo_platform 7 (CreateTable ''u'' []) database_options_default (orphan_state, demo_conn, demo_home_world) =
      (Err (ddl_refusal demo_conn), orphan_state, demo_conn, demo_home_world)"
    using after by (simp add: fields)
  then show ?thesis using orphan_run whole by (simp add: ddl_refusal_def demo_conn_def new_connection_def)
qed

end
