(* ===== verification/Parser_Text.thy ===== *)
theory Parser_Text
  imports Parser
begin

section \<open>Character boundaries\<close>

text \<open>
  Where the parser may cut a valid text: \<open>cut s i\<close> says that byte \<open>i\<close> is between two characters. Positions next
  to ASCII characters are such places, so every search for a keyword or a bracket returns one, and the
  pieces of a text that is cut there are valid texts again.
\<close>

lemma not_cont_ascii: "code c < 128 \<Longrightarrow> \<not> is_cont c"
  by (simp add: is_cont_def)

lemma utf8_valid_hd: "utf8_valid (c # s) \<Longrightarrow> \<not> is_cont c"
  by (auto simp: is_cont_def split: if_splits)

lemma second_ok_cont: "second_ok a b \<Longrightarrow> is_cont b"
  by (auto simp: second_ok_def is_cont_def split: if_splits)

lemma utf8_valid_append: "utf8_valid a \<Longrightarrow> utf8_valid b \<Longrightarrow> utf8_valid (a @ b)"
  by (induction a rule: utf8_valid.induct) (auto split: if_splits list.splits)

lemma utf8_valid_ascii: "code a < 128 \<Longrightarrow> utf8_valid (a # s) = utf8_valid s"
  by simp

lemma utf8_valid_two: "194 \<le> code a \<Longrightarrow> code a < 224 \<Longrightarrow> utf8_valid (a # s) \<longleftrightarrow> (\<exists>b s'. s = b # s' \<and> is_cont b \<and> utf8_valid s')"
  by (auto split: list.splits)

lemma utf8_valid_three:
  "224 \<le> code a \<Longrightarrow> code a < 240 \<Longrightarrow>
     utf8_valid (a # s) \<longleftrightarrow> (\<exists>b c s'. s = b # c # s' \<and> second_ok a b \<and> is_cont c \<and> utf8_valid s')"
  by (auto split: list.splits)

lemma utf8_valid_four:
  "240 \<le> code a \<Longrightarrow> code a < 245 \<Longrightarrow>
     utf8_valid (a # s) \<longleftrightarrow> (\<exists>b c d s'. s = b # c # d # s' \<and> second_ok a b \<and> is_cont c \<and> is_cont d \<and> utf8_valid s')"
  by (auto split: list.splits)

lemma utf8_valid_lead:
  assumes "utf8_valid (a # s)"
  obtains "code a < 128" | "194 \<le> code a" "code a < 224" | "224 \<le> code a" "code a < 240" | "240 \<le> code a" "code a < 245"
  using assms by (auto split: if_splits)

declare utf8_valid.simps(2) [simp del]
declare utf8_valid_ascii [simp]

lemma utf8_valid_split:
  "utf8_valid (a @ b) \<Longrightarrow> b = [] \<or> \<not> is_cont (hd b) \<Longrightarrow> utf8_valid a \<and> utf8_valid b"
proof (induction "length a" arbitrary: a rule: less_induct)
  case less
  show ?case
  proof (cases a)
    case (Cons x s)
    have no: "\<not> is_cont c" if "b = c # t" for c t using less.prems(2) that by simp
    have rec: "utf8_valid u \<and> utf8_valid b" if "utf8_valid (u @ b)" "length u < length a" for u
      using less.hyps [OF that(2,1)] less.prems(2) by blast
    have v: "utf8_valid (x # s @ b)" using less.prems(1) Cons by simp
    then show ?thesis
    proof (cases rule: utf8_valid_lead)
      case 1
      then show ?thesis using rec [of s] v Cons by simp
    next
      case 2
      then obtain y z where "s @ b = y # z" "is_cont y" "utf8_valid z" using v by (auto simp: utf8_valid_two)
      then show ?thesis using no rec [of "tl s"] Cons 2 by (cases s) (auto simp: utf8_valid_two)
    next
      case 3
      then obtain y1 y2 z where "s @ b = y1 # y2 # z" "second_ok x y1" "is_cont y2" "utf8_valid z"
        using v by (auto simp: utf8_valid_three)
      then show ?thesis using no second_ok_cont rec [of "tl (tl s)"] Cons 3
        by (cases s; cases "tl s") (auto simp: utf8_valid_three)
    next
      case 4
      then obtain y1 y2 y3 z where "s @ b = y1 # y2 # y3 # z" "second_ok x y1" "is_cont y2" "is_cont y3" "utf8_valid z"
        using v by (auto simp: utf8_valid_four)
      then show ?thesis using no second_ok_cont rec [of "tl (tl (tl s))"] Cons 4
        by (cases s; cases "tl s"; cases "tl (tl s)") (auto simp: utf8_valid_four)
    qed
  qed (use less.prems in simp)
qed

subsection \<open>Cuts\<close>

definition cut :: "string \<Rightarrow> nat \<Rightarrow> bool" where
  "cut s i \<longleftrightarrow> i \<le> length s \<and> utf8_valid (take i s) \<and> utf8_valid (drop i s)"

lemma cut_boundary: "cut s i \<Longrightarrow> boundary s i"
proof (cases "i = length s")
  case False
  assume "cut s i"
  with False have "i < length s" "utf8_valid (s ! i # drop (Suc i) s)" by (auto simp: cut_def Cons_nth_drop_Suc)
  then show ?thesis using utf8_valid_hd unfolding boundary_def by blast
qed (simp add: boundary_def)

lemma boundary_cut: "utf8_valid s \<Longrightarrow> boundary s i \<Longrightarrow> cut s i"
proof -
  assume "utf8_valid s" "boundary s i"
  moreover have "drop i s = [] \<or> \<not> is_cont (hd (drop i s))" "i \<le> length s"
    using \<open>boundary s i\<close> by (auto simp: boundary_def hd_drop_conv_nth)
  ultimately show ?thesis using utf8_valid_split [of "take i s" "drop i s"] by (simp add: cut_def)
qed

lemma cut_ascii:
  assumes "utf8_valid s" "i < length s" "code (s ! i) < 128"
  shows "cut s i" "cut s (Suc i)"
proof -
  show c: "cut s i" using assms not_cont_ascii by (intro boundary_cut) (auto simp: boundary_def)
  have "drop i s = s ! i # drop (Suc i) s" "take (Suc i) s = take i s @ [s ! i]"
    using assms(2) by (simp_all add: Cons_nth_drop_Suc take_Suc_conv_app_nth)
  then show "cut s (Suc i)" using c assms(2,3) utf8_valid_append [of "take i s" "[s ! i]"] by (simp add: cut_def)
qed

lemma cut_0 [simp]: "cut s 0 = utf8_valid s"
  by (simp add: cut_def)

lemma cut_length [simp]: "cut s (length s) = utf8_valid s"
  by (simp add: cut_def)

lemma slice_cut:
  assumes "utf8_valid s" "cut s a" "cut s b" "a \<le> b"
  shows "slice s a b = Ok (take (b - a) (drop a s))" "utf8_valid (take (b - a) (drop a s))"
proof -
  show "slice s a b = Ok (take (b - a) (drop a s))" using assms cut_boundary by (simp add: slice_def)
  have "utf8_valid (take (b - a) (drop a s) @ drop b s)" "b \<le> length s"
    using assms by (auto simp: cut_def) (metis add_diff_inverse_nat append_take_drop_id drop_drop add.commute not_less)
  moreover have "drop b s = [] \<or> \<not> is_cont (hd (drop b s))"
    using cut_boundary [OF assms(3)] \<open>b \<le> length s\<close> by (auto simp: boundary_def hd_drop_conv_nth)
  ultimately show "utf8_valid (take (b - a) (drop a s))" using utf8_valid_split by blast
qed

subsection \<open>Searching\<close>

lemma char_find_nth: "char_find s c = Some i \<Longrightarrow> i < length s \<and> s ! i = c"
  by (induction s c arbitrary: i rule: char_find.induct) (auto split: if_splits)

lemma char_rfind_nth: "char_rfind s c = Some i \<Longrightarrow> i < length s \<and> s ! i = c"
  by (auto simp: char_rfind_def rev_nth dest!: char_find_nth)

lemma str_find_nth: "str_find s n = Some i \<Longrightarrow> i + length n \<le> length s \<and> take (length n) (drop i s) = n"
proof (induction s n arbitrary: i rule: str_find.induct)
  case (2 c s n)
  show ?case
  proof (cases "take (length n) (c # s) = n")
    case True
    then have "i = 0" using "2.prems" by simp
    moreover have "length n \<le> length (c # s)" using True by (metis length_take min_def nat_le_linear)
    ultimately show ?thesis using True by simp
  next
    case False
    then show ?thesis using 2 by auto
  qed
qed (simp split: if_splits)

lemma ascii_lower_ascii: "code (ascii_lower c) < 128 \<longleftrightarrow> code c < 128"
  by (auto simp: ascii_lower_def)

lemma find_ci_ascii:
  assumes "find_ci s n = Some i" "ascii n" "j < length n"
  shows "i + j < length s \<and> code (s ! (i + j)) < 128"
proof -
  have f: "i + length n \<le> length s" "take (length n) (drop i (to_ascii_lowercase s)) = to_ascii_lowercase n"
    using str_find_nth [OF assms(1) [unfolded find_ci_def]] by auto
  have "ascii_lower (s ! (i + j)) = ascii_lower (n ! j)"
    using arg_cong [OF f(2), of "\<lambda>l. l ! j"] assms(3) f(1) by (simp add: to_ascii_lowercase_def)
  moreover have "code (n ! j) < 128" using assms(2,3) by (simp add: ascii_def)
  ultimately show ?thesis using f(1) assms(3) ascii_lower_ascii by (metis add_less_cancel_left order_less_le_trans)
qed

lemma cut_around:
  assumes "utf8_valid s" "n \<noteq> []" "\<And>j. j < length n \<Longrightarrow> i + j < length s \<and> code (s ! (i + j)) < 128"
  shows "cut s i" "cut s (i + length n)"
proof -
  show "cut s i" using assms(3) [of 0] assms(1,2) cut_ascii(1) by simp
  have "length n - 1 < length n" "Suc (i + (length n - 1)) = i + length n" using assms(2) by (cases n; simp)+
  then show "cut s (i + length n)" using assms(3) [of "length n - 1"] cut_ascii(2) [OF assms(1)] by metis
qed

lemma find_ci_cut:
  assumes "utf8_valid s" "find_ci s n = Some i" "ascii n" "n \<noteq> []"
  shows "cut s i" "cut s (i + length n)"
  using cut_around [OF assms(1,4)] find_ci_ascii [OF assms(2,3)] by blast+

lemma str_find_cut:
  assumes "utf8_valid s" "str_find s n = Some i" "ascii n" "n \<noteq> []"
  shows "cut s i" "cut s (i + length n)"
proof -
  have "i + j < length s \<and> code (s ! (i + j)) < 128" if "j < length n" for j
  proof -
    have f: "i + length n \<le> length s" "take (length n) (drop i s) = n" using str_find_nth [OF assms(2)] by auto
    have "s ! (i + j) = n ! j" using arg_cong [OF f(2), of "\<lambda>l. l ! j"] that f(1) by simp
    then show ?thesis using f(1) that assms(3) by (simp add: ascii_def)
  qed
  then show "cut s i" "cut s (i + length n)" using cut_around [OF assms(1,4)] by blast+
qed

lemma char_find_cut:
  assumes "utf8_valid s" "char_find s c = Some i" "code c < 128"
  shows "cut s i" "cut s (Suc i)"
  using char_find_nth [OF assms(2)] cut_ascii [OF assms(1), of i] assms(3) by auto

lemma char_rfind_cut:
  assumes "utf8_valid s" "char_rfind s c = Some i" "code c < 128"
  shows "cut s i" "cut s (Suc i)"
  using char_rfind_nth [OF assms(2)] cut_ascii [OF assms(1), of i] assms(3) by auto

lemma starts_with_cut: "utf8_valid s \<Longrightarrow> starts_with_ci s p \<Longrightarrow> cut s (length p)"
  using boundary_cut by (simp add: starts_with_ci_def)

subsection \<open>Pieces are valid\<close>

lemma utf8_chars_heads: "s = [] \<or> \<not> is_cont (hd s) \<Longrightarrow> ch \<in> set (utf8_chars s) \<Longrightarrow> ch \<noteq> [] \<and> \<not> is_cont (hd ch)"
proof (induction s rule: utf8_chars.induct)
  case (2 c s)
  have "dropWhile is_cont s = [] \<or> \<not> is_cont (hd (dropWhile is_cont s))" using hd_dropWhile by blast
  then show ?case using 2 by auto
qed simp

lemma utf8_chars_rest:
  assumes "s = [] \<or> \<not> is_cont (hd s)" "utf8_chars s = xs @ ys"
  shows "concat ys = [] \<or> \<not> is_cont (hd (concat ys))"
proof (cases ys)
  case (Cons y zs)
  then have "y \<in> set (utf8_chars s)" using assms(2) by simp
  from utf8_chars_heads [OF assms(1) this] show ?thesis using Cons by (simp add: hd_append)
qed simp

lemma utf8_chars_pieces:
  assumes "utf8_valid s" "utf8_chars s = xs @ ys"
  shows "utf8_valid (concat xs) \<and> utf8_valid (concat ys)"
proof -
  have "utf8_valid (concat xs @ concat ys)" using assms concat_utf8_chars [of s] by (metis concat_append)
  moreover have "s = [] \<or> \<not> is_cont (hd s)" using assms(1) utf8_valid_hd by (cases s) auto
  then have "concat ys = [] \<or> \<not> is_cont (hd (concat ys))" by (rule utf8_chars_rest [OF _ assms(2)])
  ultimately show ?thesis using utf8_valid_split by blast
qed

lemma utf8_chars_sub:
  assumes "utf8_valid s" "utf8_chars s = xs @ ys @ zs"
  shows "utf8_valid (concat ys)"
proof -
  have v: "utf8_valid (concat (ys @ zs))" using utf8_chars_pieces [OF assms] by blast
  have "s = [] \<or> \<not> is_cont (hd s)" using assms(1) utf8_valid_hd by (cases s) auto
  then have "concat zs = [] \<or> \<not> is_cont (hd (concat zs))" using utf8_chars_rest [of s "xs @ ys" zs] assms(2) by simp
  then show ?thesis using utf8_valid_split [OF v [unfolded concat_append]] by blast
qed

lemma dropWhileEnd_split: "\<exists>zs. xs = dropWhileEnd Q xs @ zs"
  by (metis dropWhileEnd_def rev_append rev_rev_ident takeWhile_dropWhile_id)

lemma str_trim_valid [simp]: "utf8_valid s \<Longrightarrow> utf8_valid (str_trim s)"
proof -
  assume v: "utf8_valid s"
  obtain zs where "dropWhile is_whitespace (utf8_chars s) = dropWhileEnd is_whitespace (dropWhile is_whitespace (utf8_chars s)) @ zs"
    using dropWhileEnd_split by blast
  then have "utf8_chars s = takeWhile is_whitespace (utf8_chars s) @ dropWhileEnd is_whitespace (dropWhile is_whitespace (utf8_chars s)) @ zs"
    by (metis takeWhile_dropWhile_id)
  then show ?thesis unfolding str_trim_def using utf8_chars_sub [OF v] by blast
qed

lemma utf8_valid_snoc: "utf8_valid (s @ [c]) \<Longrightarrow> code c < 128 \<Longrightarrow> utf8_valid s"
  using utf8_valid_split [of s "[c]"] not_cont_ascii by simp

lemma trim_end_matches_valid: "utf8_valid s \<Longrightarrow> code c < 128 \<Longrightarrow> utf8_valid (trim_end_matches c s)"
proof (induction s rule: rev_induct)
  case (snoc x s)
  then show ?case using utf8_valid_snoc by (auto simp: trim_end_matches_def dropWhileEnd_def)
qed (simp add: trim_end_matches_def dropWhileEnd_def)

lemma statement_text_valid: "utf8_valid s \<Longrightarrow> utf8_valid (statement_text s)"
  unfolding statement_text_def by (intro str_trim_valid trim_end_matches_valid) (simp_all add: code_def)

lemma utf8_valid_around: "utf8_valid (a @ d # b) \<Longrightarrow> code d < 128 \<Longrightarrow> utf8_valid a \<and> utf8_valid b"
  using utf8_valid_split [of a "d # b"] not_cont_ascii by simp

lemma split_loop_valid:
  "utf8_valid (cur @ s) \<Longrightarrow> code d < 128 \<Longrightarrow> x \<in> set (split_loop d st cur s) \<Longrightarrow> utf8_valid x"
proof (induction s arbitrary: cur st)
  case (Cons ch s)
  show ?case
  proof (cases "scan_delim d ch st")
    case True
    then have "ch = d" by (simp add: scan_delim_def)
    then have v: "utf8_valid cur \<and> utf8_valid s" using Cons.prems(1,2) utf8_valid_around by blast
    show ?thesis
    proof (cases "x \<in> set (split_loop d st [] s)")
      case True
      show ?thesis by (rule Cons.IH [OF _ Cons.prems(2) True]) (simp add: v)
    qed (use v Cons.prems(3) True in simp)
  next
    case False
    then have "x \<in> set (split_loop d (scan_char ch st) (cur @ [ch]) s)" using Cons.prems(3) by simp
    moreover have "utf8_valid ((cur @ [ch]) @ s)" using Cons.prems(1) by simp
    ultimately show ?thesis using Cons.IH Cons.prems(2) by blast
  qed
qed simp

lemma split_top_level_valid: "utf8_valid s \<Longrightarrow> code d < 128 \<Longrightarrow> x \<in> set (split_top_level s d) \<Longrightarrow> utf8_valid x"
  unfolding split_top_level_def by (rule split_loop_valid [of "[]"]) simp_all

lemma split_once_loop_valid:
  "utf8_valid (l @ s) \<Longrightarrow> code d < 128 \<Longrightarrow> split_once_loop d st l s = Some (a, b) \<Longrightarrow> utf8_valid a \<and> utf8_valid b"
proof (induction s arbitrary: l st)
  case (Cons ch s)
  show ?case
  proof (cases "scan_delim d ch st")
    case True
    then have "ch = d" by (simp add: scan_delim_def)
    then have "utf8_valid l \<and> utf8_valid s" using Cons.prems(1,2) utf8_valid_around by blast
    then show ?thesis using Cons.prems(3) True by simp
  next
    case False
    then have "split_once_loop d (scan_char ch st) (l @ [ch]) s = Some (a, b)" using Cons.prems(3) by simp
    moreover have "utf8_valid ((l @ [ch]) @ s)" using Cons.prems(1) by simp
    ultimately show ?thesis using Cons.IH Cons.prems(2) by blast
  qed
qed simp

lemma split_once_valid: "utf8_valid s \<Longrightarrow> code d < 128 \<Longrightarrow> split_once_top_level s d = Some (a, b) \<Longrightarrow> utf8_valid a \<and> utf8_valid b"
  unfolding split_once_top_level_def by (rule split_once_loop_valid [of "[]"]) simp_all

end
