(* ===== verification/Parser_Safety.thy ===== *)
theory Parser_Safety
  imports Parser_Text
begin

section \<open>When the parser panics\<close>

text \<open>
  The parser slices its input at computed positions. On valid UTF-8 every position it computes is between two
  characters, so a slice can only panic because its bounds are in the wrong order. That is possible in three
  places: the text between two clauses of a \<^verbatim>\<open>SELECT\<close> when the keywords overlap (\<^verbatim>\<open>WHERE LIMIT\<close>), and the text
  between the first opening and the last closing parenthesis of an \<^verbatim>\<open>INSERT\<close> target or a \<^verbatim>\<open>CREATE INDEX\<close> when
  they are crossed. Everything else never panics.
\<close>

named_theorems parser_safe "functions of the parser that do not panic on valid text"

lemma rbind_safe: "\<not> is_panic r \<Longrightarrow> (\<And>x. r = Ok x \<Longrightarrow> \<not> is_panic (f x)) \<Longrightarrow> \<not> is_panic (rbind r f)"
  by (auto simp: is_panic_rbind)

lemma ok_or_safe [simp]: "\<not> is_panic (ok_or e x)"
  by (cases x) simp_all

lemma slice_safe: "utf8_valid s \<Longrightarrow> cut s a \<Longrightarrow> cut s b \<Longrightarrow> a \<le> b \<Longrightarrow> \<not> is_panic (slice s a b)"
  by (simp add: slice_cut(1))

lemma slice_valid: "utf8_valid s \<Longrightarrow> slice s a b = Ok t \<Longrightarrow> utf8_valid t"
  using slice_cut(2) [of s a b] boundary_cut [of s] by (auto simp: slice_def split: if_splits)

lemma slice_from_safe: "utf8_valid s \<Longrightarrow> cut s a \<Longrightarrow> \<not> is_panic (slice_from s a)"
  by (rule slice_safe) (auto simp: cut_def)

lemma slice_to_safe: "utf8_valid s \<Longrightarrow> cut s b \<Longrightarrow> \<not> is_panic (slice_to s b)"
  by (rule slice_safe) (auto simp: cut_def)

lemma prefix_safe: "utf8_valid s \<Longrightarrow> starts_with_ci s p \<Longrightarrow> \<not> is_panic (slice_from s (length p))"
  by (rule slice_from_safe) (auto dest: starts_with_cut)

lemma rmap_safe: "(\<And>x. x \<in> set xs \<Longrightarrow> \<not> is_panic (f x)) \<Longrightarrow> \<not> is_panic (rmap f xs)"
  by (rule rmap_no_panic)

text \<open>A text between two ASCII characters at its ends.\<close>

lemma inner_safe:
  assumes "utf8_valid s" "2 \<le> length s" "code (hd s) < 128" "code (last s) < 128"
  shows "\<not> is_panic (slice s 1 (length s - 1))"
proof -
  have "hd s = s ! 0" "last s = s ! (length s - 1)" using assms(2) by (cases s; simp add: hd_conv_nth last_conv_nth)+
  moreover have "0 < length s" "length s - 1 < length s" using assms(2) by auto
  ultimately have "cut s (Suc 0)" "cut s (length s - 1)"
    using cut_ascii(2) [OF assms(1), of 0] cut_ascii(1) [OF assms(1), of "length s - 1"] assms(3,4) by metis+
  then show ?thesis using assms(1,2) by (intro slice_safe) auto
qed

lemma two_ends: "s \<noteq> [] \<Longrightarrow> hd s \<noteq> last s \<Longrightarrow> 2 \<le> length s"
  by (cases s; cases "tl s") auto

subsection \<open>Values and clauses\<close>

lemma ends_safe: "utf8_valid s \<Longrightarrow> s \<noteq> [] \<Longrightarrow> hd s \<noteq> last s \<Longrightarrow> code (hd s) < 128 \<Longrightarrow> code (last s) < 128 \<Longrightarrow>
    \<not> is_panic (slice s 1 (length s - 1))"
  by (rule inner_safe) (auto intro: two_ends)

lemma parenthesized_body_safe: "utf8_valid s \<Longrightarrow> \<not> is_panic (parenthesized_body s ctxt)"
  using ends_safe [of "str_trim s"] unfolding parenthesized_body_def Let_def by (auto simp: code_def)

lemma parenthesized_body_valid: "utf8_valid s \<Longrightarrow> parenthesized_body s ctxt = Ok b \<Longrightarrow> utf8_valid b"
  unfolding parenthesized_body_def Let_def by (auto split: if_splits intro: slice_valid [OF str_trim_valid])

lemma parse_float_safe [simp]: "\<not> is_panic (parse_f64 P s)" "\<not> is_panic (parse_f32 P s)"
  by (auto simp: parse_f64_def parse_f32_def is_panic_rbind)

lemma parse_quoted_string_safe:
  assumes "utf8_valid s"
  shows "\<not> is_panic (parse_quoted_string s)"
proof (cases "length s < 2 \<or> (hd s \<noteq> squote \<and> hd s \<noteq> dquote) \<or> last s \<noteq> hd s")
  case False
  then have "code (hd s) < 128" "code (last s) < 128" by (auto simp: code_def)
  then have "\<not> is_panic (slice s 1 (length s - 1))" using False assms by (intro inner_safe) auto
  then show ?thesis using False by (simp add: parse_quoted_string_def is_panic_rbind Let_def)
qed (auto simp: parse_quoted_string_def)

lemma parse_point_safe:
  assumes "utf8_valid s" "starts_with_ci s ''POINT''"
  shows "\<not> is_panic (parse_point P s)"
  unfolding parse_point_def
proof (intro rbind_safe)
  show "\<not> is_panic (slice_from s (length ''POINT''))" by (rule prefix_safe [OF assms])
  fix r assume "slice_from s (length ''POINT'') = Ok r"
  then show "\<not> is_panic (parenthesized_body r ''POINT'')" using slice_valid [OF assms(1)] parenthesized_body_safe by blast
qed (simp add: Let_def is_panic_rbind)

lemma parse_vector_safe:
  assumes "utf8_valid s" "s \<noteq> []" "hd s = CHR ''[''" "last s = CHR '']''"
  shows "\<not> is_panic (parse_vector P s)"
  unfolding parse_vector_def
proof (intro rbind_safe)
  show "\<not> is_panic (slice s 1 (length s - 1))" using assms by (intro ends_safe) (simp_all add: code_def)
  show "\<not> is_panic (if str_trim b = [] then Ok [] else rmap (parse_f32 P) (split_top_level b (CHR '','')))" for b
    using rmap_safe [of "split_top_level b (CHR '','')" "parse_f32 P"] by simp
qed simp

lemma parse_value_safe: "utf8_valid s \<Longrightarrow> \<not> is_panic (parse_value P s)"
  unfolding parse_value_def Let_def
  by (auto simp: is_panic_rbind parse_quoted_string_safe parse_point_safe parse_vector_safe split: option.splits)

lemma parts_valid: "utf8_valid b \<Longrightarrow> length (split_top_level b (CHR '','')) = 2 \<Longrightarrow> i < 2 \<Longrightarrow> utf8_valid (split_top_level b (CHR '','') ! i)"
  by (rule split_top_level_valid [of b "CHR '',''"]) (auto simp: code_def)

lemma call_safe:
  assumes "utf8_valid s" "starts_with_ci s name"
    and "\<And>b. utf8_valid b \<Longrightarrow> \<not> is_panic (k b)"
  shows "\<not> is_panic (rbind (slice_from s (length name)) (\<lambda>r. rbind (parenthesized_body r ctxt) k))"
proof (intro rbind_safe)
  show "\<not> is_panic (slice_from s (length name))" by (rule prefix_safe [OF assms(1,2)])
  fix r assume "slice_from s (length name) = Ok r"
  then have r: "utf8_valid r" using slice_valid [OF assms(1)] by blast
  then show "\<not> is_panic (parenthesized_body r ctxt)" by (rule parenthesized_body_safe)
  fix b assume "parenthesized_body r ctxt = Ok b"
  then show "\<not> is_panic (k b)" using parenthesized_body_valid [OF r] assms(3) by blast
qed

lemma two_parts_safe:
  assumes "utf8_valid b" "\<And>parts v. \<not> is_panic (g parts v)"
  shows "\<not> is_panic (let parts = split_top_level b (CHR '','')
    in if length parts \<noteq> 2 then Err e else rbind (parse_value P (parts ! 1)) (g parts))"
  using assms by (simp add: Let_def is_panic_rbind parse_value_safe parts_valid)

lemma parse_match_safe: "utf8_valid s \<Longrightarrow> starts_with_ci s ''MATCH'' \<Longrightarrow> \<not> is_panic (parse_match P s)"
  unfolding parse_match_def by (rule call_safe, assumption, assumption, rule two_parts_safe) (simp_all split: sql_value.split)

lemma starts_with_before:
  assumes "starts_with_ci s p" "i < length s" "ascii_lower (s ! i) \<notin> set (to_ascii_lowercase p)"
  shows "length p \<le> i"
proof (rule ccontr)
  assume "\<not> length p \<le> i"
  then have i: "i < length p" by simp
  have "to_ascii_lowercase (take (length p) s) = to_ascii_lowercase p"
    using assms(1) by (simp add: starts_with_ci_def eq_ignore_ascii_case_def)
  from arg_cong [OF this, of "\<lambda>l. l ! i"] have "ascii_lower (s ! i) = ascii_lower (p ! i)"
    using i assms(2) by (simp add: to_ascii_lowercase_def)
  then show False using assms(3) i by (simp add: to_ascii_lowercase_def)
qed

lemma starts_with_take:
  assumes "starts_with_ci s p" "length p \<le> i" "i \<le> length s"
  shows "starts_with_ci (take i s) p"
  using assms by (auto simp: starts_with_ci_def boundary_def min_def)

lemma geo_operator_safe: "utf8_valid s \<Longrightarrow> \<not> is_panic (geo_operator s)"
proof -
  assume v: "utf8_valid s"
  have le: "\<not> is_panic (rbind (slice_to s pos) (\<lambda>fn. rbind (slice_from s (pos + k)) (\<lambda>m. Ok (fn, m, b))))"
    if "cut s pos" "cut s (pos + k)" for pos k b
    using slice_to_safe [OF v that(1)] slice_from_safe [OF v that(2)] by (simp add: is_panic_rbind)
  show ?thesis
    unfolding geo_operator_def
  proof (cases "str_find s ''<=''"; cases "char_find s (CHR ''<'')"; simp only: option.case)
    fix pos assume "str_find s ''<='' = Some pos"
    then have "cut s pos" "cut s (pos + 2)" using str_find_cut [OF v, of "''<=''"] by (auto simp: code_def)
    then show "\<not> is_panic (rbind (slice_to s pos) (\<lambda>fn. rbind (slice_from s (pos + 2)) (\<lambda>m. Ok (fn, m, True))))"
      by (rule le)
    then show "\<not> is_panic (rbind (slice_to s pos) (\<lambda>fn. rbind (slice_from s (pos + 2)) (\<lambda>m. Ok (fn, m, True))))" .
  next
    fix pos assume "char_find s (CHR ''<'') = Some pos"
    then have "cut s pos" "cut s (pos + 1)" using char_find_cut [OF v, of "CHR ''<''"] by (auto simp: code_def)
    then show "\<not> is_panic (rbind (slice_to s pos) (\<lambda>fn. rbind (slice_from s (pos + 1)) (\<lambda>m. Ok (fn, m, False))))"
      by (rule le)
  qed simp
qed

lemma geo_operator_parts:
  assumes "utf8_valid s" "starts_with_ci s ''GEO_DISTANCE''" "geo_operator s = Ok (fn, m, b)"
  shows "utf8_valid fn \<and> starts_with_ci fn ''GEO_DISTANCE''"
proof -
  obtain pos where pos: "pos < length s" "s ! pos = CHR ''<''" "slice_to s pos = Ok fn"
  proof (cases "str_find s ''<=''")
    case None
    with assms(3) obtain pos where "char_find s (CHR ''<'') = Some pos" "slice_to s pos = Ok fn"
      unfolding geo_operator_def by (auto simp: rbind_Ok_iff split: option.splits)
    then show ?thesis using char_find_nth that by blast
  next
    case (Some pos)
    have f: "pos + 2 \<le> length s" "take 2 (drop pos s) = ''<=''" using str_find_nth [OF Some] by (auto simp: numeral_2_eq_2)
    have "s ! pos = CHR ''<''" using arg_cong [OF f(2), of "\<lambda>l. l ! 0"] f(1) by simp
    moreover have "slice_to s pos = Ok fn" using assms(3) Some unfolding geo_operator_def by (auto simp: rbind_Ok_iff)
    ultimately show ?thesis using that [of pos] f(1) by simp
  qed
  have "length ''GEO_DISTANCE'' \<le> pos"
    by (rule starts_with_before [OF assms(2) pos(1)], unfold pos(2)) code_simp
  moreover have "fn = take pos s" using pos(3) by (auto simp: slice_def split: if_splits)
  ultimately show ?thesis using starts_with_take [OF assms(2)] pos(1) slice_valid [OF assms(1) pos(3)] by auto
qed

lemma parse_geo_safe:
  assumes "utf8_valid s" "starts_with_ci s ''GEO_DISTANCE''"
  shows "\<not> is_panic (parse_geo P s)"
  unfolding parse_geo_def
proof (rule rbind_safe)
  show "\<not> is_panic (geo_operator s)" by (rule geo_operator_safe [OF assms(1)])
  fix x assume x: "geo_operator s = Ok x"
  obtain fn m b where split: "x = (fn, m, b)" by (cases x)
  note parts = geo_operator_parts [OF assms x [unfolded split]]
  show "\<not> is_panic (case x of (fn, meters, inclusive) \<Rightarrow>
      rbind (slice_from fn (length ''GEO_DISTANCE'')) (\<lambda>s. rbind (parenthesized_body s ''GEO_DISTANCE'') (\<lambda>body.
        let parts = split_top_level body (CHR '','')
        in if length parts \<noteq> 2 then Err (Parse ''GEO_DISTANCE requires column and point'')
           else rbind (parse_value P (parts ! 1)) (\<lambda>v. case v of
               PointV p \<Rightarrow> rbind (ok_or (Parse ''GEO_DISTANCE threshold must be numeric'') (str_parse_f64 P (str_trim meters)))
                  (\<lambda>m. Ok (GeoWithin (normalize_identifier (parts ! 0)) p m inclusive))
             | _ \<Rightarrow> Err (Parse ''GEO_DISTANCE target must be POINT'')))))"
    unfolding split prod.case
    by (rule call_safe [OF parts [THEN conjunct1] parts [THEN conjunct2]], rule two_parts_safe) (simp_all add: is_panic_rbind split: sql_value.split)
qed

lemma parse_filter_safe: "utf8_valid s \<Longrightarrow> \<not> is_panic (parse_filter P s)"
  unfolding parse_filter_def
proof -
  assume v: "utf8_valid s"
  have "\<not> is_panic (parse_value P x)" if "split_once_top_level s (CHR ''='') = Some (c, x)" for c x
    using split_once_valid [OF v _ that] parse_value_safe by (simp add: code_def)
  then show "\<not> is_panic (if starts_with_ci s ''MATCH'' then parse_match P s
      else if starts_with_ci s ''GEO_DISTANCE'' then parse_geo P s
      else case split_once_top_level s (CHR ''='') of
          Some (col, v) \<Rightarrow> rbind (parse_value P v) (\<lambda>x. Ok (Equals (normalize_identifier col) x))
        | None \<Rightarrow> Err (Parse ''unsupported WHERE clause''))"
    by (simp add: parse_match_safe [OF v] parse_geo_safe [OF v] is_panic_rbind split: option.split prod.split)
qed

lemma strip_suffix_safe: "utf8_valid s \<Longrightarrow> \<not> is_panic (strip_suffix_ci s x)"
  unfolding strip_suffix_ci_def Let_def using slice_to_safe boundary_cut by (auto simp: is_panic_rbind)

lemma strip_suffix_valid: "utf8_valid s \<Longrightarrow> strip_suffix_ci s x = Ok (Some t) \<Longrightarrow> utf8_valid t"
  unfolding strip_suffix_ci_def Let_def using slice_valid by (auto simp: rbind_Ok_iff split: if_splits)

lemma order_direction_safe: "utf8_valid s \<Longrightarrow> \<not> is_panic (order_direction s)"
  unfolding order_direction_def by (auto simp: is_panic_rbind strip_suffix_safe split: option.splits)

lemma order_direction_valid: "utf8_valid s \<Longrightarrow> order_direction s = Ok (t, d) \<Longrightarrow> utf8_valid t"
  unfolding order_direction_def using strip_suffix_valid [of s] by (auto simp: rbind_Ok_iff split: option.splits)

lemma parse_order_safe: "utf8_valid s \<Longrightarrow> \<not> is_panic (parse_order P s)"
  unfolding parse_order_def
proof (rule rbind_safe)
  assume v: "utf8_valid s"
  then show "\<not> is_panic (order_direction s)" by (rule order_direction_safe)
  fix x assume x: "order_direction s = Ok x"
  obtain t d where split: "x = (t, d)" by (cases x)
  have "utf8_valid t" using order_direction_valid [OF v] x split by blast
  then show "\<not> is_panic (case x of (input, descending) \<Rightarrow>
      if \<not> starts_with_ci input ''VECTOR_DISTANCE'' then Err (Parse ''only VECTOR_DISTANCE ordering is currently supported'')
      else rbind (slice_from input (length ''VECTOR_DISTANCE'')) (\<lambda>s. rbind (parenthesized_body s ''VECTOR_DISTANCE'') (\<lambda>body.
        let parts = split_top_level body (CHR '','')
        in if length parts \<noteq> 2 then Err (Parse ''VECTOR_DISTANCE requires column and vector'')
           else rbind (parse_value P (parts ! 1)) (\<lambda>v. case v of
               Vector target \<Rightarrow> Ok (VectorDistance (normalize_identifier (parts ! 0)) target descending)
             | _ \<Rightarrow> Err (Parse ''VECTOR_DISTANCE target must be a vector'')))))"
    unfolding split prod.case
  proof (cases "starts_with_ci t ''VECTOR_DISTANCE''", goal_cases)
    case 1
    show ?case
      by (subst if_not_P, use 1(2) in blast, rule call_safe [OF 1], rule two_parts_safe) (simp_all split: sql_value.split)
  qed simp
qed

lemma test_ok_safe: "\<not> is_panic r \<Longrightarrow> \<not> is_panic (test_ok r)"
  by (cases r) (simp_all add: test_ok_def)

lemma advanced_where_safe: "utf8_valid s \<Longrightarrow> \<not> is_panic (is_advanced_where_clause P s)"
  unfolding is_advanced_where_clause_def Let_def
  using test_ok_safe [OF parse_filter_safe [OF str_trim_valid]] by (simp add: is_panic_rbind)

lemma advanced_order_safe: "utf8_valid s \<Longrightarrow> \<not> is_panic (is_advanced_order_clause P s)"
  unfolding is_advanced_order_clause_def Let_def
  using test_ok_safe [OF parse_order_safe [OF str_trim_valid]] by (simp add: is_panic_rbind)

subsection \<open>Clauses of a SELECT\<close>

text \<open>A clause keyword that starts inside the keyword of the clause before it.\<close>

definition squeezed :: "string \<Rightarrow> bool" where
  "squeezed r \<longleftrightarrow>
     (\<exists>pos q. find_ci r '' WHERE '' = Some pos \<and> (find_ci r '' ORDER BY '' = Some q \<or> find_ci r '' LIMIT '' = Some q) \<and>
        pos < q \<and> q < pos + length '' WHERE '') \<or>
     (\<exists>pos q. find_ci r '' ORDER BY '' = Some pos \<and> find_ci r '' LIMIT '' = Some q \<and>
        pos < q \<and> q < pos + length '' ORDER BY '')"

lemma min_pos_Some:
  assumes "min_pos ps = Some i"
  shows "Some i \<in> set ps"
proof -
  have fold_in: "fold min xs x \<in> insert x (set xs)" for x :: nat and xs by (induction xs arbitrary: x) (auto simp: min_def)
  have "i \<in> set (List.map_filter id ps)" using assms fold_in by (auto simp: min_pos_def split: list.splits)
  then show ?thesis by (auto simp: List.map_filter_def)
qed

lemma clause_cut:
  assumes "utf8_valid r" "find_ci r n = Some i" "n \<in> {'' WHERE '', '' ORDER BY '', '' LIMIT '', '' FROM '', '' SET '', ''VALUES'', '' ON ''}"
  shows "cut r i" "cut r (i + length n)"
  using find_ci_cut [OF assms(1,2)] assms(3) by (auto simp: code_def)

lemma position_cut:
  assumes "utf8_valid r" "\<And>i. Some i \<in> set ps \<Longrightarrow> cut r i"
  shows "cut r (position_or (min_pos ps) (length r))"
  using assms min_pos_Some [of ps] by (cases "min_pos ps") (simp_all add: position_or_def)

lemma after_pos_Some: "after_pos pos p = Some i \<longleftrightarrow> p = Some i \<and> pos < i"
  by (auto simp: after_pos_def split: option.splits if_splits)

text \<open>The end of a clause: the first of the later clauses, or the end of the text.\<close>

lemma clause_end:
  assumes "utf8_valid r" "cut r a" "\<And>i. Some i \<in> set ps \<Longrightarrow> a \<le> i \<and> cut r i"
  shows "\<not> is_panic (rbind (slice r a (position_or (min_pos ps) (length r))) (\<lambda>s. Ok (f s)))"
proof (rule rbind_safe)
  have "cut r (position_or (min_pos ps) (length r))" using assms(1,3) by (intro position_cut) auto
  moreover have "a \<le> position_or (min_pos ps) (length r)"
    using assms(2,3) min_pos_Some [of ps] by (cases "min_pos ps") (auto simp: position_or_def cut_def)
  ultimately show "\<not> is_panic (slice r a (position_or (min_pos ps) (length r)))" by (intro slice_safe assms(1,2))
qed simp

lemma where_text_safe:
  assumes "utf8_valid r" "\<not> squeezed r" "find_ci r '' WHERE '' = Some pos"
  shows "\<not> is_panic (where_text r pos (find_ci r '' ORDER BY '') (find_ci r '' LIMIT ''))"
  unfolding where_text_def
proof (rule clause_end [OF assms(1)])
  show "cut r (pos + length '' WHERE '')" by (rule clause_cut(2) [OF assms(1,3)]) simp
  fix i assume "Some i \<in> set [after_pos pos (find_ci r '' ORDER BY ''), after_pos pos (find_ci r '' LIMIT '')]"
  then have i: "find_ci r '' ORDER BY '' = Some i \<or> find_ci r '' LIMIT '' = Some i" "pos < i"
    using after_pos_Some [of pos _ i] by (metis list.set_cases set_ConsD empty_iff empty_set)+
  have "pos + length '' WHERE '' \<le> i" using assms(2,3) i unfolding squeezed_def by (meson not_le)
  moreover have "cut r i" using i(1) clause_cut(1) [OF assms(1), of _ i] by blast
  ultimately show "pos + length '' WHERE '' \<le> i \<and> cut r i" ..
qed

lemma position_min: "position_or p n = position_or (min_pos [p]) n"
  by (cases p) (simp_all add: min_pos_def List.map_filter_def position_or_def)

lemma order_text_safe:
  assumes "utf8_valid r" "\<not> squeezed r" "find_ci r '' ORDER BY '' = Some pos"
  shows "\<not> is_panic (order_text r pos (find_ci r '' LIMIT ''))"
  unfolding order_text_def position_min [of "after_pos _ _"]
proof (rule clause_end [OF assms(1)])
  show "cut r (pos + length '' ORDER BY '')" by (rule clause_cut(2) [OF assms(1,3)]) simp
  fix i assume "Some i \<in> set [after_pos pos (find_ci r '' LIMIT '')]"
  then have i: "find_ci r '' LIMIT '' = Some i" "pos < i"
    using after_pos_Some [of pos _ i] by (metis list.set_cases set_ConsD empty_iff empty_set)+
  have "pos + length '' ORDER BY '' \<le> i" using assms(2,3) i unfolding squeezed_def by (meson not_le)
  moreover have "cut r i" using i(1) clause_cut(1) [OF assms(1), of _ i] by blast
  ultimately show "pos + length '' ORDER BY '' \<le> i \<and> cut r i" ..
qed

lemma where_text_valid: "utf8_valid r \<Longrightarrow> where_text r pos p q = Ok t \<Longrightarrow> utf8_valid t"
  unfolding where_text_def rbind_Ok_iff using slice_valid str_trim_valid by auto

lemma order_text_valid: "utf8_valid r \<Longrightarrow> order_text r pos p = Ok t \<Longrightarrow> utf8_valid t"
  unfolding order_text_def rbind_Ok_iff using slice_valid str_trim_valid by auto

lemma table_end_safe:
  assumes "utf8_valid r"
  shows "\<not> is_panic (slice_to r (position_or (min_pos [find_ci r '' WHERE '', find_ci r '' ORDER BY '', find_ci r '' LIMIT '']) (length r)))"
proof (intro slice_to_safe position_cut assms)
  fix i assume "Some i \<in> set [find_ci r '' WHERE '', find_ci r '' ORDER BY '', find_ci r '' LIMIT '']"
  then have "find_ci r '' WHERE '' = Some i \<or> find_ci r '' ORDER BY '' = Some i \<or> find_ci r '' LIMIT '' = Some i"
    by (metis list.set_cases set_ConsD empty_iff empty_set)
  then show "cut r i" using clause_cut(1) [OF assms, of _ i] by blast
qed

end
