(* ===== verification/Parser_Total.thy ===== *)
theory Parser_Total
  imports Parser_Safety
begin

section \<open>Statements and panics\<close>

text \<open>
  Every parser function of a statement, on a valid text that begins with its keyword: it panics at most when the
  clauses of a \<^verbatim>\<open>SELECT\<close> are squeezed or parentheses are crossed. The entry point composes these facts over
  the dispatch and over \<^verbatim>\<open>EXPLAIN\<close>.
\<close>

subsection \<open>Clauses\<close>

lemma slice_from_eq: "slice_from s a = Ok t \<Longrightarrow> t = drop a s"
  by (auto simp: slice_def split: if_splits)

lemma slice_from_cut: "utf8_valid s \<Longrightarrow> cut s a \<Longrightarrow> slice_from s a = Ok (drop a s) \<and> utf8_valid (drop a s)"
  using slice_cut [of s a "length s"] by (simp add: cut_def)

lemma slice_to_cut: "utf8_valid s \<Longrightarrow> cut s b \<Longrightarrow> slice_to s b = Ok (take b s) \<and> utf8_valid (take b s)"
  using slice_cut [of s 0 b] by (simp add: cut_def)

lemma after_prefix:
  assumes "utf8_valid s" "starts_with_ci s p"
  shows "slice_from s (length p) = Ok (drop (length p) s)" "utf8_valid (str_trim (drop (length p) s))"
  using slice_from_cut [OF assms(1) starts_with_cut [OF assms]] str_trim_valid by blast+

lemma if_safe: "(b \<Longrightarrow> \<not> is_panic x) \<Longrightarrow> (\<not> b \<Longrightarrow> \<not> is_panic y) \<Longrightarrow> \<not> is_panic (if b then x else y)"
  by simp

lemma option_safe: "\<not> is_panic (case p of None \<Rightarrow> Ok x | Some i \<Rightarrow> f i)" if "\<And>i. p = Some i \<Longrightarrow> \<not> is_panic (f i)"
  using that by (cases p) simp_all

lemma advanced_clauses_safe:
  assumes "utf8_valid r" "\<not> squeezed r"
  shows "\<not> is_panic (is_advanced_clauses P r)"
proof -
  have w: "\<not> is_panic (rbind (where_text r pos (find_ci r '' ORDER BY '') (find_ci r '' LIMIT '')) (is_advanced_where_clause P))"
    if "find_ci r '' WHERE '' = Some pos" for pos
    by (intro rbind_safe where_text_safe [OF assms that] advanced_where_safe) (rule where_text_valid [OF assms(1)])
  have ord: "\<not> is_panic (rbind (order_text r pos (find_ci r '' LIMIT '')) (is_advanced_order_clause P))"
    if "find_ci r '' ORDER BY '' = Some pos" for pos
    by (intro rbind_safe order_text_safe [OF assms that] advanced_order_safe) (rule order_text_valid [OF assms(1)])
  have rest: "\<not> is_panic (rbind (case find_ci r '' WHERE '' of None \<Rightarrow> Ok False
        | Some pos \<Rightarrow> rbind (where_text r pos (find_ci r '' ORDER BY '') (find_ci r '' LIMIT '')) (is_advanced_where_clause P))
      (\<lambda>w. if w then Ok True else case find_ci r '' ORDER BY '' of None \<Rightarrow> Ok False
        | Some pos \<Rightarrow> rbind (order_text r pos (find_ci r '' LIMIT '')) (is_advanced_order_clause P)))"
    by (intro rbind_safe option_safe if_safe w ord is_panic_simps(1))
  show ?thesis
    unfolding is_advanced_clauses_def Let_def
    by (rule rbind_safe [OF table_end_safe [OF assms(1)]], rule if_safe, rule is_panic_simps(1), rule rest)
qed

lemma parse_clauses_safe:
  assumes "utf8_valid r" "\<not> squeezed r"
  shows "\<not> is_panic (parse_clauses P r)"
proof -
  have w: "\<not> is_panic (rbind (where_text r pos (find_ci r '' ORDER BY '') (find_ci r '' LIMIT ''))
      (\<lambda>w. rbind (parse_filter P w) (\<lambda>f. Ok (Some f))))"
    if "find_ci r '' WHERE '' = Some pos" for pos
    by (intro rbind_safe where_text_safe [OF assms that] parse_filter_safe is_panic_simps(1)) (rule where_text_valid [OF assms(1)])
  have ord: "\<not> is_panic (rbind (order_text r pos (find_ci r '' LIMIT '')) (\<lambda>t. rbind (parse_order P t) (\<lambda>ord. Ok (Some ord))))"
    if "find_ci r '' ORDER BY '' = Some pos" for pos
    by (intro rbind_safe order_text_safe [OF assms that] parse_order_safe is_panic_simps(1)) (rule order_text_valid [OF assms(1)])
  have lim: "\<not> is_panic (rbind (slice_from r (pos + length '' LIMIT '')) (\<lambda>t. rbind (ok_or e (parse_unsigned 64 10 (str_trim t))) (\<lambda>n. Ok (Some n))))"
    if "find_ci r '' LIMIT '' = Some pos" for pos e
    by (intro rbind_safe slice_from_safe assms(1) clause_cut(2) [OF assms(1) that] ok_or_safe is_panic_simps(1)) simp
  show ?thesis
    unfolding parse_clauses_def Let_def
    by (intro rbind_safe option_safe w ord lim table_end_safe assms(1) is_panic_simps(1))
qed

text \<open>The text after \<^verbatim>\<open>FROM\<close>.\<close>

definition select_source :: "string \<Rightarrow> string option" where
  "select_source sql =
     (let rest = str_trim (drop (length ''SELECT'') sql)
      in map_option (\<lambda>p. str_trim (drop (p + length '' FROM '') rest)) (find_ci rest '' FROM ''))"

lemma parse_projection_safe: "\<not> is_panic (parse_projection s)"
  by (simp add: parse_projection_def Let_def)

lemma parse_select_safe:
  assumes "utf8_valid sql" "starts_with_ci sql ''SELECT''" "\<And>r. select_source sql = Some r \<Longrightarrow> \<not> squeezed r"
  shows "\<not> is_panic (parse_select P sql)" (is ?A) and "\<not> is_panic (is_advanced_select P sql)" (is ?B)
proof -
  define rest where "rest = str_trim (drop (length ''SELECT'') sql)"
  note pre = after_prefix [OF assms(1,2), folded rest_def]
  have src: "utf8_valid (str_trim (drop (p + length '' FROM '') rest)) \<and> \<not> squeezed (str_trim (drop (p + length '' FROM '') rest))"
      and cuts: "\<not> is_panic (slice_to rest p)" "slice_from rest (p + length '' FROM '') = Ok (drop (p + length '' FROM '') rest)"
    if "find_ci rest '' FROM '' = Some p" for p
  proof -
    have "cut rest (p + length '' FROM '')" by (rule clause_cut(2) [OF pre(2) that]) simp
    note f = slice_from_cut [OF pre(2) this]
    show "slice_from rest (p + length '' FROM '') = Ok (drop (p + length '' FROM '') rest)" using f by blast
    have "select_source sql = Some (str_trim (drop (p + length '' FROM '') rest))"
      using that by (simp add: select_source_def rest_def)
    then show "utf8_valid (str_trim (drop (p + length '' FROM '') rest)) \<and> \<not> squeezed (str_trim (drop (p + length '' FROM '') rest))"
      using f assms(3) str_trim_valid by blast
    have "cut rest p" by (rule clause_cut(1) [OF pre(2) that]) simp
    then show "\<not> is_panic (slice_to rest p)" by (rule slice_to_safe [OF pre(2)])
  qed
  show ?A
    unfolding parse_select_def pre(1) rbind.simps Let_def rest_def [symmetric]
  proof (rule rbind_safe [OF ok_or_safe])
    fix p assume "ok_or (Parse ''SELECT requires FROM'') (find_ci rest '' FROM '') = Ok p"
    then have p: "find_ci rest '' FROM '' = Some p" by (simp add: ok_or_iff)
    show "\<not> is_panic (rbind (slice_to rest p) (\<lambda>pr. rbind (parse_projection pr) (\<lambda>proj.
        rbind (slice_from rest (p + length '' FROM '')) (\<lambda>f. rbind (parse_clauses P (str_trim f)) (\<lambda>(tbl, filt, ord, lim).
          Ok (Select tbl proj filt ord lim))))))"
      unfolding cuts(2) [OF p] rbind.simps
      by (intro rbind_safe cuts(1) [OF p] parse_projection_safe parse_clauses_safe) (use src [OF p] in \<open>auto split: prod.split\<close>)
  qed
  show ?B
    unfolding is_advanced_select_def pre(1) rbind.simps Let_def rest_def [symmetric]
  proof (intro if_safe is_panic_simps(1), cases "find_ci rest '' FROM ''"; simp only: option.case is_panic_simps not_False_eq_True)
    fix p assume p: "find_ci rest '' FROM '' = Some p"
    show "\<not> is_panic (rbind (slice_to rest p) (\<lambda>pr. if is_advanced_projection pr then Ok True
        else rbind (slice_from rest (p + length '' FROM '')) (\<lambda>f.
          if find_ci (str_trim f) '' GROUP BY '' \<noteq> None \<or> find_ci (str_trim f) '' HAVING '' \<noteq> None \<or>
             find_ci (str_trim f) '' OFFSET '' \<noteq> None \<or> find_ci (str_trim f) '' WINDOW '' \<noteq> None
          then Ok True else is_advanced_clauses P (str_trim f))))"
      unfolding cuts(2) [OF p] rbind.simps
      by (intro rbind_safe if_safe cuts(1) [OF p] is_panic_simps(1) advanced_clauses_safe) (use src [OF p] in blast)+
  qed
qed

subsection \<open>Parentheses\<close>

text \<open>The last closing parenthesis stands before the first opening one.\<close>

definition crossed :: "string \<Rightarrow> bool" where
  "crossed s \<longleftrightarrow> (\<exists>a b. char_find s (CHR ''('') = Some a \<and> char_rfind s (CHR '')'') = Some b \<and> b < a)"

lemma parens_cut:
  assumes "utf8_valid s" "char_find s (CHR ''('') = Some a" "char_rfind s (CHR '')'') = Some b"
  shows "cut s a" "cut s (a + 1)" "cut s b" "a \<noteq> b"
  using char_find_cut [OF assms(1,2)] char_rfind_cut [OF assms(1,3)] char_find_nth [OF assms(2)] char_rfind_nth [OF assms(3)]
  by (auto simp: code_def)

lemma between_parens_safe:
  assumes "utf8_valid s" "\<not> crossed s" "char_find s (CHR ''('') = Some a" "char_rfind s (CHR '')'') = Some b"
  shows "\<not> is_panic (slice s (a + 1) b)"
proof -
  have "a < b" using parens_cut(4) [OF assms(1,3,4)] assms(2-4) unfolding crossed_def by (meson linorder_neqE_nat)
  then show ?thesis using parens_cut(2,3) [OF assms(1,3,4)] by (intro slice_safe assms(1)) simp_all
qed

lemma before_paren_safe: "utf8_valid s \<Longrightarrow> char_find s (CHR ''('') = Some a \<Longrightarrow> \<not> is_panic (slice_to s a)"
  using char_find_cut(1) [of s "CHR ''(''" a] by (intro slice_to_safe) (auto simp: code_def)

lemma parse_column_def_safe: "\<not> is_panic (parse_column_def s)"
  by (auto simp: parse_column_def_def column_type_parse_def Let_def is_panic_rbind)

lemma parse_create_table_safe:
  assumes "utf8_valid sql" "starts_with_ci sql ''CREATE TABLE''"
  shows "\<not> is_panic (parse_create_table sql)"
proof -
  define rest where "rest = str_trim (drop (length ''CREATE TABLE'') sql)"
  note pre = after_prefix [OF assms(1,2), folded rest_def]
  have "\<not> is_panic (slice rest (a + 1) b)" if "char_find rest (CHR ''('') = Some a" "char_rfind rest (CHR '')'') = Some b" "\<not> b \<le> a" for a b
    using that by (intro between_parens_safe [OF pre(2)]) (auto simp: crossed_def)
  then show ?thesis
    unfolding parse_create_table_def pre(1) rbind.simps Let_def rest_def [symmetric]
    by (intro rbind_safe if_safe ok_or_safe is_panic_simps before_paren_safe [OF pre(2)] rmap_safe parse_column_def_safe)
      (auto simp: ok_or_iff)
qed

definition insert_target_text :: "string \<Rightarrow> string option" where
  "insert_target_text sql =
     (let rest = str_trim (drop (length ''INSERT INTO'') sql)
      in map_option (\<lambda>p. str_trim (take p rest)) (find_ci rest ''VALUES''))"

lemma insert_target_safe:
  assumes "utf8_valid s" "\<not> crossed s"
  shows "\<not> is_panic (insert_target s)"
  unfolding insert_target_def
proof (cases "char_find s (CHR ''('')"; simp only: option.case is_panic_simps not_False_eq_True)
  fix a assume a: "char_find s (CHR ''('') = Some a"
  show "\<not> is_panic (rbind (ok_or (Parse ''INSERT column list is not closed'') (char_rfind s (CHR '')''))) (\<lambda>close_pos.
      rbind (slice_to s a) (\<lambda>nm. rbind (slice s (a + 1) close_pos) (\<lambda>cols.
        Ok (normalize_identifier nm, Some (map normalize_identifier (split_top_level cols (CHR '',''))))))))"
    by (intro rbind_safe ok_or_safe is_panic_simps before_paren_safe [OF assms(1) a] between_parens_safe [OF assms a])
      (simp add: ok_or_iff)
qed

lemma comma_valid: "utf8_valid b \<Longrightarrow> x \<in> set (split_top_level b (CHR '','')) \<Longrightarrow> utf8_valid x"
  by (rule split_top_level_valid [of b "CHR '',''"]) (simp_all add: code_def)

lemma values_cut:
  assumes "utf8_valid rest" "find_ci rest ''VALUES'' = Some p"
  shows "slice_to rest p = Ok (take p rest)" "utf8_valid (str_trim (take p rest))"
    "slice_from rest (p + length ''VALUES'') = Ok (drop (p + length ''VALUES'') rest)"
    "utf8_valid (drop (p + length ''VALUES'') rest)"
proof -
  have "cut rest p" "cut rest (p + length ''VALUES'')" by (rule clause_cut [OF assms], simp)+
  then show "slice_to rest p = Ok (take p rest)" "utf8_valid (str_trim (take p rest))"
    "slice_from rest (p + length ''VALUES'') = Ok (drop (p + length ''VALUES'') rest)"
    "utf8_valid (drop (p + length ''VALUES'') rest)"
    using slice_to_cut [OF assms(1)] slice_from_cut [OF assms(1)] str_trim_valid by blast+
qed

lemma parse_insert_safe:
  assumes "utf8_valid sql" "starts_with_ci sql ''INSERT INTO''" "\<And>r. insert_target_text sql = Some r \<Longrightarrow> \<not> crossed r"
  shows "\<not> is_panic (parse_insert P sql)" (is ?A) and "\<not> is_panic (is_advanced_insert sql)" (is ?B)
proof -
  define rest where "rest = str_trim (drop (length ''INSERT INTO'') sql)"
  note pre = after_prefix [OF assms(1,2), folded rest_def]
  have target: "\<not> crossed (str_trim (take p rest))" if "find_ci rest ''VALUES'' = Some p" for p
    using assms(3) that by (simp add: insert_target_text_def rest_def)
  show ?A
    unfolding parse_insert_def pre(1) rbind.simps Let_def rest_def [symmetric]
  proof (rule rbind_safe [OF ok_or_safe])
    fix p assume "ok_or (Parse ''INSERT requires VALUES'') (find_ci rest ''VALUES'') = Ok p"
    then have p: "find_ci rest ''VALUES'' = Some p" by (simp add: ok_or_iff)
    note c = values_cut [OF pre(2) p]
    let ?v = "str_trim (drop (p + length ''VALUES'') rest)"
    have body: "\<not> is_panic (rbind (parenthesized_body ?v ''INSERT VALUES'') (\<lambda>body.
        rbind (rmap (parse_value P) (split_top_level body (CHR '',''))) (\<lambda>vals. Ok (Insert tbl cols vals))))" for tbl cols
    proof (intro rbind_safe is_panic_simps rmap_safe parse_value_safe)
      show "\<not> is_panic (parenthesized_body ?v ''INSERT VALUES'')" using c(4) by (intro parenthesized_body_safe str_trim_valid)
      fix b x assume "parenthesized_body ?v ''INSERT VALUES'' = Ok b" "x \<in> set (split_top_level b (CHR '',''))"
      then show "utf8_valid x" using comma_valid parenthesized_body_valid [OF str_trim_valid [OF c(4)]] by blast
    qed
    show "\<not> is_panic (rbind (slice_to rest p) (\<lambda>tg. rbind (slice_from rest (p + length ''VALUES'')) (\<lambda>vp.
        rbind (insert_target (str_trim tg)) (\<lambda>(tbl, cols). rbind (parenthesized_body (str_trim vp) ''INSERT VALUES'') (\<lambda>body.
        rbind (rmap (parse_value P) (split_top_level body (CHR '',''))) (\<lambda>vals. Ok (Insert tbl cols vals)))))))"
      unfolding c(1,3) rbind.simps
      by (rule rbind_safe [OF insert_target_safe [OF c(2) target [OF p]]]) (use body in \<open>auto split: prod.split\<close>)
  qed
  show ?B
    unfolding is_advanced_insert_def is_advanced_insert_rest_def pre(1) rbind.simps Let_def rest_def [symmetric]
  proof (intro if_safe is_panic_simps(1), cases "find_ci rest ''VALUES''"; simp only: option.case is_panic_simps not_False_eq_True)
    fix p assume p: "find_ci rest ''VALUES'' = Some p"
    show "\<not> is_panic (rbind (slice_from rest (p + length ''VALUES'')) (\<lambda>v. Ok (has_multiple_top_level_parenthesized_groups (str_trim v))))"
      unfolding values_cut(3) [OF pre(2) p] by simp
  qed
qed

definition index_target_text :: "string \<Rightarrow> string option" where
  "index_target_text sql =
     (let rest = str_trim (drop (length (if starts_with_ci sql ''CREATE FULLTEXT INDEX'' then ''CREATE FULLTEXT INDEX'' else ''CREATE INDEX'')) sql)
      in map_option (\<lambda>p. str_trim (drop (p + length '' ON '') rest)) (find_ci rest '' ON ''))"

lemma advanced_index_safe:
  assumes "utf8_valid sql" "\<not> crossed sql"
  shows "\<not> is_panic (is_advanced_create_index sql)"
  unfolding is_advanced_create_index_def Let_def
proof (intro if_safe is_panic_simps(1) option_safe rbind_safe)
  fix a b assume "char_find sql (CHR ''('') = Some a" "char_rfind sql (CHR '')'') = Some b"
  then show "\<not> is_panic (slice sql (a + 1) b)" by (rule between_parens_safe [OF assms])
qed

lemma parse_create_index_safe:
  assumes "utf8_valid sql" "starts_with_ci sql ''CREATE FULLTEXT INDEX'' \<or> starts_with_ci sql ''CREATE INDEX''"
    and "\<And>r. index_target_text sql = Some r \<Longrightarrow> \<not> crossed r"
  shows "\<not> is_panic (parse_create_index sql)"
proof -
  define kw where "kw = (if starts_with_ci sql ''CREATE FULLTEXT INDEX'' then ''CREATE FULLTEXT INDEX'' else ''CREATE INDEX'')"
  define rest where "rest = str_trim (drop (length kw) sql)"
  have "starts_with_ci sql kw" using assms(2) unfolding kw_def by presburger
  note pre = after_prefix [OF assms(1) this, folded rest_def]
  show ?thesis
    unfolding parse_create_index_def Let_def kw_def [symmetric] pre(1) rbind.simps rest_def [symmetric]
  proof (rule rbind_safe [OF ok_or_safe])
    fix p assume "ok_or (Parse ''CREATE INDEX requires ON table(column)'') (find_ci rest '' ON '') = Ok p"
    then have p: "find_ci rest '' ON '' = Some p" by (simp add: ok_or_iff)
    define tg where "tg = str_trim (drop (p + length '' ON '') rest)"
    have "cut rest (p + length '' ON '')" by (rule clause_cut(2) [OF pre(2) p]) simp
    note f = slice_from_cut [OF pre(2) this]
    have v: "utf8_valid tg" using f str_trim_valid by (simp add: tg_def)
    have "index_target_text sql = Some tg" using p by (simp add: index_target_text_def tg_def rest_def kw_def Let_def)
    then have nc: "\<not> crossed tg" by (rule assms(3))
    have before: "\<not> is_panic (slice_to rest p)"
      by (rule slice_to_safe [OF pre(2)], rule clause_cut(1) [OF pre(2) p]) simp
    show "\<not> is_panic (rbind (slice_from rest (p + length '' ON '')) (\<lambda>tg.
        rbind (ok_or (Parse ''CREATE INDEX requires a column'') (char_find (str_trim tg) (CHR ''(''))) (\<lambda>open_pos.
        rbind (ok_or (Parse ''CREATE INDEX requires a closing parenthesis'') (char_rfind (str_trim tg) (CHR '')''))) (\<lambda>close_pos.
        rbind (slice_to rest p) (\<lambda>nm. rbind (slice_to (str_trim tg) open_pos) (\<lambda>tbl.
        rbind (slice (str_trim tg) (open_pos + 1) close_pos) (\<lambda>col.
          Ok (CreateIndex (normalize_identifier nm) (normalize_identifier tbl) (normalize_identifier col)
            (starts_with_ci sql ''CREATE FULLTEXT INDEX'')))))))))"
      unfolding f [THEN conjunct1] rbind.simps tg_def [symmetric]
      by (intro rbind_safe ok_or_safe is_panic_simps before before_paren_safe [OF v] between_parens_safe [OF v nc])
        (simp_all add: ok_or_iff)
  qed
qed

subsection \<open>UPDATE and DELETE\<close>

lemma where_cut:
  assumes "utf8_valid r" "find_ci r '' WHERE '' = Some p"
  shows "\<not> is_panic (slice_to r p)" "\<not> is_panic (slice_from r (p + length '' WHERE ''))"
    "slice_from r (p + length '' WHERE '') = Ok w \<Longrightarrow> utf8_valid (str_trim w)"
proof -
  have c: "cut r p" "cut r (p + length '' WHERE '')" by (rule clause_cut [OF assms], simp)+
  show "\<not> is_panic (slice_to r p)" "\<not> is_panic (slice_from r (p + length '' WHERE ''))"
    using slice_to_safe [OF assms(1) c(1)] slice_from_safe [OF assms(1) c(2)] by blast+
  show "slice_from r (p + length '' WHERE '') = Ok w \<Longrightarrow> utf8_valid (str_trim w)" using slice_valid [OF assms(1)] str_trim_valid by blast
qed

lemma before_where:
  assumes "utf8_valid r"
  shows "\<not> is_panic (case find_ci r '' WHERE '' of None \<Rightarrow> Ok r | Some p \<Rightarrow> slice_to r p)"
    and "(case find_ci r '' WHERE '' of None \<Rightarrow> Ok r | Some p \<Rightarrow> slice_to r p) = Ok t \<Longrightarrow> utf8_valid (str_trim t)"
  using assms where_cut(1) [OF assms] slice_valid [OF assms] str_trim_valid by (auto split: option.splits)

lemma where_filter_safe:
  assumes "utf8_valid r"
  shows "\<not> is_panic (case find_ci r '' WHERE '' of None \<Rightarrow> Ok None
      | Some p \<Rightarrow> rbind (slice_from r (p + length '' WHERE '')) (\<lambda>w. rbind (parse_filter P (str_trim w)) (\<lambda>f. Ok (Some f))))"
  by (intro option_safe rbind_safe is_panic_simps(1) parse_filter_safe) (rule where_cut [OF assms], assumption+)+

lemma where_advanced_safe:
  assumes "utf8_valid r"
  shows "\<not> is_panic (case find_ci r '' WHERE '' of None \<Rightarrow> Ok False
      | Some p \<Rightarrow> rbind (slice_from r (p + length '' WHERE '')) (\<lambda>w. is_advanced_where_clause P (str_trim w)))"
  by (intro option_safe rbind_safe advanced_where_safe) (rule where_cut [OF assms], assumption+)+

lemma parse_assignment_safe: "utf8_valid s \<Longrightarrow> \<not> is_panic (parse_assignment P s)"
  unfolding parse_assignment_def
proof (rule rbind_safe [OF ok_or_safe])
  assume v: "utf8_valid s"
  fix x assume "ok_or (Parse ''assignment requires ='') (split_once_top_level s (CHR ''='')) = Ok x"
  then obtain c e where x: "x = (c, e)" "split_once_top_level s (CHR ''='') = Some (c, e)" by (cases x) (simp add: ok_or_iff)
  then have "utf8_valid e" using split_once_valid [OF v _ x(2)] by (simp add: code_def)
  then show "\<not> is_panic (case x of (col, v) \<Rightarrow> rbind (parse_value P v) (\<lambda>x. Ok (normalize_identifier col, x)))"
    using parse_value_safe x(1) by (simp add: is_panic_rbind)
qed

lemma advanced_assignments_safe: "(\<And>x. x \<in> set as \<Longrightarrow> utf8_valid x) \<Longrightarrow> \<not> is_panic (advanced_assignments P as)"
proof (induction as)
  case (Cons a as)
  have "\<not> is_panic (test_ok (parse_value P e))" if "split_once_top_level a (CHR ''='') = Some (c, e)" for c e
  proof -
    have "utf8_valid e" using split_once_valid [of a "CHR ''=''" c e] Cons.prems [of a] that by (simp add: code_def)
    then show ?thesis by (intro test_ok_safe parse_value_safe)
  qed
  moreover have "\<not> is_panic (advanced_assignments P as)" using Cons by simp
  ultimately show ?case by (auto simp: is_panic_rbind split: option.split prod.split)
qed simp

lemma parse_update_safe:
  assumes "utf8_valid sql" "starts_with_ci sql ''UPDATE''"
  shows "\<not> is_panic (parse_update P sql)" (is ?A) and "\<not> is_panic (is_advanced_update P sql)" (is ?B)
proof -
  define rest where "rest = str_trim (drop (length ''UPDATE'') sql)"
  note pre = after_prefix [OF assms(1,2), folded rest_def]
  have after: "slice_from rest (p + length '' SET '') = Ok (drop (p + length '' SET '') rest)" "utf8_valid (str_trim (drop (p + length '' SET '') rest))"
      "\<not> is_panic (slice_to rest p)"
    if "find_ci rest '' SET '' = Some p" for p
  proof -
    have "cut rest p" "cut rest (p + length '' SET '')" by (rule clause_cut [OF pre(2) that], simp)+
    then show "slice_from rest (p + length '' SET '') = Ok (drop (p + length '' SET '') rest)"
        "utf8_valid (str_trim (drop (p + length '' SET '') rest))" "\<not> is_panic (slice_to rest p)"
      using slice_from_cut [OF pre(2)] slice_to_safe [OF pre(2)] str_trim_valid by blast+
  qed
  show ?A
    unfolding parse_update_def pre(1) rbind.simps Let_def rest_def [symmetric]
  proof (rule rbind_safe [OF ok_or_safe])
    fix p assume "ok_or (Parse ''UPDATE requires SET'') (find_ci rest '' SET '') = Ok p"
    then have p: "find_ci rest '' SET '' = Some p" by (simp add: ok_or_iff)
    define r where "r = str_trim (drop (p + length '' SET '') rest)"
    note v = after(2) [OF p, folded r_def]
    show "\<not> is_panic (rbind (slice_from rest (p + length '' SET '')) (\<lambda>a.
        rbind (case find_ci (str_trim a) '' WHERE '' of None \<Rightarrow> Ok (str_trim a) | Some pos \<Rightarrow> slice_to (str_trim a) pos) (\<lambda>asg.
        rbind (case find_ci (str_trim a) '' WHERE '' of None \<Rightarrow> Ok None
          | Some pos \<Rightarrow> rbind (slice_from (str_trim a) (pos + length '' WHERE '')) (\<lambda>w.
              rbind (parse_filter P (str_trim w)) (\<lambda>f. Ok (Some f)))) (\<lambda>filt.
        rbind (rmap (parse_assignment P) (split_top_level (str_trim asg) (CHR '',''))) (\<lambda>assignments.
        rbind (slice_to rest p) (\<lambda>tbl. Ok (Update (normalize_identifier tbl) assignments filt)))))))"
      unfolding after(1) [OF p] rbind.simps r_def [symmetric]
      by (intro rbind_safe is_panic_simps(1) before_where(1) [OF v] where_filter_safe [OF v] after(3) [OF p] rmap_safe parse_assignment_safe)
        (rule comma_valid [OF before_where(2) [OF v]], assumption+)
  qed
  show ?B
    unfolding is_advanced_update_def pre(1) rbind.simps Let_def rest_def [symmetric]
  proof (intro if_safe is_panic_simps(1), cases "find_ci rest '' SET ''"; simp only: option.case is_panic_simps not_False_eq_True)
    fix p assume p: "find_ci rest '' SET '' = Some p"
    define r where "r = str_trim (drop (p + length '' SET '') rest)"
    note v = after(2) [OF p, folded r_def]
    show "\<not> is_panic (rbind (slice_from rest (p + length '' SET '')) (\<lambda>a.
        rbind (case find_ci (str_trim a) '' WHERE '' of None \<Rightarrow> Ok (str_trim a) | Some pos \<Rightarrow> slice_to (str_trim a) pos) (\<lambda>asg.
        if str_trim asg = [] then Ok False
        else rbind (advanced_assignments P (split_top_level (str_trim asg) (CHR '',''))) (\<lambda>d.
          case d of Some b \<Rightarrow> Ok b
          | None \<Rightarrow> (case find_ci (str_trim a) '' WHERE '' of None \<Rightarrow> Ok False
              | Some pos \<Rightarrow> rbind (slice_from (str_trim a) (pos + length '' WHERE ''))
                  (\<lambda>w. is_advanced_where_clause P (str_trim w)))))))"
      unfolding after(1) [OF p] rbind.simps r_def [symmetric]
    proof (intro rbind_safe if_safe is_panic_simps(1) before_where(1) [OF v] advanced_assignments_safe)
      fix d :: "bool option"
      show "\<not> is_panic (case d of Some b \<Rightarrow> Ok b | None \<Rightarrow> (case find_ci r '' WHERE '' of None \<Rightarrow> Ok False
          | Some pos \<Rightarrow> rbind (slice_from r (pos + length '' WHERE '')) (\<lambda>w. is_advanced_where_clause P (str_trim w))))"
        using where_advanced_safe [OF v] by (cases d) (simp_all only: option.case is_panic_simps not_False_eq_True)
    qed (rule comma_valid [OF before_where(2) [OF v]], assumption+)
  qed
qed

lemma parse_delete_safe:
  assumes "utf8_valid sql" "starts_with_ci sql ''DELETE FROM''"
  shows "\<not> is_panic (parse_delete P sql)" (is ?A) and "\<not> is_panic (is_advanced_delete P sql)" (is ?B)
proof -
  define rest where "rest = str_trim (drop (length ''DELETE FROM'') sql)"
  note pre = after_prefix [OF assms(1,2), folded rest_def]
  show ?A
    unfolding parse_delete_def pre(1) rbind.simps Let_def rest_def [symmetric]
    by (intro rbind_safe if_safe is_panic_simps before_where(1) [OF pre(2)] where_filter_safe [OF pre(2)])
  show ?B
    unfolding is_advanced_delete_def pre(1) rbind.simps Let_def rest_def [symmetric]
    by (intro rbind_safe if_safe is_panic_simps before_where(1) [OF pre(2)] where_advanced_safe [OF pre(2)])
qed

subsection \<open>The dispatcher\<close>

lemma parsed_only_safe:
  assumes "utf8_valid sql" "starts_with_ci sql prefix"
  shows "\<not> is_panic (parse_parsed_only sql kind prefix)" "\<not> is_panic (parse_attach_or_detach sql kind prefix)"
    "\<not> is_panic (parse_drop sql kind prefix)" "\<not> is_panic (parse_advanced_insert_kind sql kind prefix)"
  unfolding parse_parsed_only_def parse_attach_or_detach_def parse_drop_def parse_advanced_insert_kind_def after_prefix(1) [OF assms]
  by simp_all

text \<open>A statement that begins with a longer keyword begins with the shorter one.\<close>

lemma starts_with_shorter:
  assumes "utf8_valid sql" "starts_with_ci sql (p @ q)" "ascii p" "q \<noteq> []"
  shows "starts_with_ci sql p"
proof -
  have low: "to_ascii_lowercase (take (length (p @ q)) sql) = to_ascii_lowercase (p @ q)"
    using assms(2) by (simp add: starts_with_ci_def eq_ignore_ascii_case_def)
  from arg_cong [OF low, of length] have len: "length (p @ q) \<le> length sql" by (simp add: min_def split: if_splits)
  from arg_cong [OF low, of "take (length p)"] have eq: "to_ascii_lowercase (take (length p) sql) = to_ascii_lowercase p"
    by (simp add: to_ascii_lowercase_def take_map min_def)
  have "cut sql (length p)"
  proof (cases "p = []")
    case False
    have "j < length sql \<and> code (sql ! j) < 128" if "j < length p" for j
    proof -
      have "ascii_lower (sql ! j) = ascii_lower (p ! j)"
        using arg_cong [OF eq, of "\<lambda>l. l ! j"] that len by (simp add: to_ascii_lowercase_def)
      moreover have "code (p ! j) < 128" using assms(3) that by (simp add: ascii_def)
      ultimately show ?thesis using ascii_lower_ascii len that by (metis add_lessD1 length_append order_less_le_trans trans_less_add1)
    qed
    then show ?thesis using cut_around(2) [OF assms(1) False, of 0] by simp
  qed (use assms(1) in simp)
  then show ?thesis using eq cut_boundary by (simp add: starts_with_ci_def eq_ignore_ascii_case_def)
qed

lemma some_if_safe:
  assumes "(if b then Some x else y) = Some r" "b \<Longrightarrow> \<not> is_panic x" "\<not> b \<Longrightarrow> y = Some r \<Longrightarrow> \<not> is_panic r"
  shows "\<not> is_panic r"
  using assms by (auto split: if_splits)

definition panic_cause :: "string \<Rightarrow> bool" where
  "panic_cause sql \<longleftrightarrow>
     starts_with_ci sql ''SELECT'' \<and> (\<exists>r. select_source sql = Some r \<and> squeezed r) \<or>
     starts_with_ci sql ''INSERT INTO'' \<and> (\<exists>r. insert_target_text sql = Some r \<and> crossed r) \<or>
     (starts_with_ci sql ''CREATE INDEX'' \<or> starts_with_ci sql ''CREATE FULLTEXT INDEX'') \<and>
       (crossed sql \<or> (\<exists>r. index_target_text sql = Some r \<and> crossed r))"

lemma keyword_create:
  assumes "utf8_valid sql" "starts_with_ci sql p" "\<exists>q. q \<noteq> [] \<and> p = ''CREATE'' @ q"
  shows "\<not> is_panic (parse_parsed_only sql kind ''CREATE'')"
proof -
  have "starts_with_ci sql ''CREATE''" using starts_with_shorter [of sql "''CREATE''"] assms by (auto simp: code_def)
  then show ?thesis by (rule parsed_only_safe(1) [OF assms(1)])
qed

lemma parse_create_safe:
  assumes "utf8_valid sql" "\<not> panic_cause sql" "parse_create sql = Some r"
  shows "\<not> is_panic r"
proof -
  have temp: "\<not> is_panic (parse_parsed_only sql KCreateTable ''CREATE'')"
    if "starts_with_ci sql ''CREATE TEMP TABLE'' \<or> starts_with_ci sql ''CREATE TEMPORARY TABLE''"
    using that keyword_create [OF assms(1)] by auto
  have unique: "\<not> is_panic (parse_parsed_only sql KCreateIndex ''CREATE'')"
    if "starts_with_ci sql ''CREATE UNIQUE INDEX'' \<or> starts_with_ci sql ''CREATE INDEX IF NOT EXISTS'' \<or>
        starts_with_ci sql ''CREATE UNIQUE INDEX IF NOT EXISTS'' \<or> starts_with_ci sql ''CREATE FULLTEXT INDEX'' \<or> starts_with_ci sql ''CREATE INDEX''"
    using that keyword_create [OF assms(1)] by auto
  have table: "\<not> is_panic (if is_advanced_create_table sql then parse_parsed_only sql KCreateTable ''CREATE TABLE'' else parse_create_table sql)"
    if "starts_with_ci sql ''CREATE TABLE''"
    using parsed_only_safe(1) [OF assms(1) that] parse_create_table_safe [OF assms(1) that] by (rule if_safe)
  have index: "\<not> is_panic (rbind (is_advanced_create_index sql) (\<lambda>adv.
      if adv then parse_parsed_only sql KCreateIndex ''CREATE'' else parse_create_index sql))"
    if "starts_with_ci sql ''CREATE FULLTEXT INDEX'' \<or> starts_with_ci sql ''CREATE INDEX''"
  proof (intro rbind_safe if_safe)
    have "\<not> crossed sql" "\<And>r. index_target_text sql = Some r \<Longrightarrow> \<not> crossed r"
      using assms(2) that unfolding panic_cause_def by blast+
    then show "\<not> is_panic (is_advanced_create_index sql)" "\<not> is_panic (parse_create_index sql)"
      using advanced_index_safe [OF assms(1)] parse_create_index_safe [OF assms(1) that] by blast+
    show "\<not> is_panic (parse_parsed_only sql KCreateIndex ''CREATE'')" using unique that by blast
  qed
  have plain: "\<not> is_panic (parse_create_view sql)" "\<not> is_panic (parse_create_trigger sql)" "\<not> is_panic (parse_create_virtual_table sql)"
    by (simp_all add: parse_create_view_def parse_create_trigger_def parse_create_virtual_table_def)
  show ?thesis
    using assms(3) unfolding parse_create_def
    by (elim some_if_safe) (use temp unique table index plain in \<open>blast | simp\<close>)+
qed

lemma parse_row_statement_safe:
  assumes "utf8_valid sql" "\<not> panic_cause sql" "parse_row_statement P sql = Some r"
  shows "\<not> is_panic r"
proof -
  have ins: "\<not> is_panic (rbind (is_advanced_insert sql) (\<lambda>adv. if adv then parse_advanced_insert sql else parse_insert P sql))"
    if "starts_with_ci sql ''INSERT INTO''"
  proof (intro rbind_safe if_safe)
    have "\<And>r. insert_target_text sql = Some r \<Longrightarrow> \<not> crossed r" using assms(2) that unfolding panic_cause_def by blast
    then show "\<not> is_panic (is_advanced_insert sql)" "\<not> is_panic (parse_insert P sql)"
      using parse_insert_safe [OF assms(1) that] by blast+
    show "\<not> is_panic (parse_advanced_insert sql)"
      unfolding parse_advanced_insert_def by (rule parsed_only_safe(4) [OF assms(1) that])
  qed
  have sel: "\<not> is_panic (rbind (is_advanced_select P sql) (\<lambda>adv. if adv then parse_parsed_only sql KSelect ''SELECT'' else parse_select P sql))"
    if "starts_with_ci sql ''SELECT''"
  proof (intro rbind_safe if_safe parsed_only_safe(1) [OF assms(1) that])
    have "\<And>r. select_source sql = Some r \<Longrightarrow> \<not> squeezed r" using assms(2) that unfolding panic_cause_def by blast
    then show "\<not> is_panic (is_advanced_select P sql)" "\<not> is_panic (parse_select P sql)"
      using parse_select_safe [OF assms(1) that] by blast+
  qed
  have upd: "\<not> is_panic (rbind (is_advanced_update P sql) (\<lambda>adv. if adv then parse_parsed_only sql KUpdate ''UPDATE'' else parse_update P sql))"
    if "starts_with_ci sql ''UPDATE''"
    by (intro rbind_safe if_safe parse_update_safe parsed_only_safe(1) assms(1) that)
  have del: "\<not> is_panic (rbind (is_advanced_delete P sql) (\<lambda>adv. if adv then parse_parsed_only sql KDelete ''DELETE FROM'' else parse_delete P sql))"
    if "starts_with_ci sql ''DELETE FROM''"
    by (intro rbind_safe if_safe parse_delete_safe parsed_only_safe(1) assms(1) that)
  show ?thesis
    using assms(3) unfolding parse_row_statement_def
    by (elim some_if_safe) (use ins sel upd del parsed_only_safe(4) [OF assms(1)] in \<open>blast | simp\<close>)+
qed

lemma parse_plain_safe:
  assumes "utf8_valid sql" "\<not> panic_cause sql"
  shows "\<not> is_panic (parse_plain P sql d)"
proof -
  note parsed = parsed_only_safe [OF assms(1)]
  have ins: "\<not> is_panic (parse_advanced_insert_kind sql KInsert ''INSERT'')" if "starts_with_ci sql ''INSERT OR ''"
    using starts_with_shorter [of sql "''INSERT''" "'' OR ''"] assms(1) that parsed(4) by (simp add: code_def)
  have upd: "\<not> is_panic (parse_parsed_only sql KUpdate ''UPDATE'')" if "starts_with_ci sql ''UPDATE OR ''"
    using starts_with_shorter [of sql "''UPDATE''" "'' OR ''"] assms(1) that parsed(1) by (simp add: code_def)
  have alter: "\<not> is_panic (parse_alter_table sql)" if "starts_with_ci sql ''ALTER TABLE''"
    unfolding parse_alter_table_def after_prefix(1) [OF assms(1) that] by (simp add: Let_def)
  have opt: "\<not> is_panic (case x of Some r \<Rightarrow> r | None \<Rightarrow> y)"
    if "\<And>r. x = Some r \<Longrightarrow> \<not> is_panic r" "\<not> is_panic y" for x :: "statement result option" and y
    using that by (cases x) simp_all
  show ?thesis
    unfolding parse_plain_def
    by (intro if_safe is_panic_simps opt parsed ins upd alter)
      (use parse_create_safe [OF assms] parse_row_statement_safe [OF assms] in blast)+
qed

subsection \<open>The entry point\<close>

text \<open>The text that is parsed as a statement: the whole text, or what follows \<^verbatim>\<open>EXPLAIN\<close>.\<close>

inductive parses_text :: "string \<Rightarrow> string \<Rightarrow> bool" where
  whole: "parses_text sql (statement_text sql)"
| explained: "starts_with_ci (statement_text sql) ''EXPLAIN'' \<Longrightarrow> explain_target (statement_text sql) = Ok rest \<Longrightarrow>
    parses_text rest t \<Longrightarrow> parses_text sql t"

lemma explain_target_safe:
  assumes "utf8_valid sql" "starts_with_ci sql ''EXPLAIN''"
  shows "\<not> is_panic (explain_target sql)" and "explain_target sql = Ok rest \<Longrightarrow> utf8_valid rest"
proof -
  define r where "r = str_trim (drop (length ''EXPLAIN'') sql)"
  note pre = after_prefix [OF assms, folded r_def]
  have "\<not> is_panic (skip_query_plan r)"
    unfolding skip_query_plan_def by (intro if_safe rbind_safe is_panic_simps prefix_safe [OF pre(2)])
  then show "\<not> is_panic (explain_target sql)"
    unfolding explain_target_def pre(1) rbind.simps r_def [symmetric] by (intro rbind_safe if_safe is_panic_simps)
  have "utf8_valid t" if "skip_query_plan r = Ok t" for t
    using that slice_valid [OF pre(2)] str_trim_valid pre(2) by (auto simp: skip_query_plan_def rbind_Ok_iff split: if_splits)
  then show "explain_target sql = Ok rest \<Longrightarrow> utf8_valid rest"
    unfolding explain_target_def pre(1) rbind.simps r_def [symmetric] by (auto simp: rbind_Ok_iff split: if_splits)
qed

lemma parse_panics:
  "utf8_valid sql \<Longrightarrow> is_panic (parse_sql_with_dialect P sql d) \<Longrightarrow> \<exists>t. parses_text sql t \<and> panic_cause t"
proof (induction P sql d rule: parse_sql_with_dialect.induct)
  case (1 P sql d)
  let ?t = "statement_text sql"
  have v: "utf8_valid ?t" by (rule statement_text_valid [OF 1(2)])
  have ne: "?t \<noteq> []" using 1(3) by (subst (asm) parse_sql_with_dialect.simps) (simp split: if_splits)
  show ?case
  proof (cases "starts_with_ci ?t ''EXPLAIN''")
    case True
    have "is_panic (rbind (explain_target ?t) (\<lambda>rest. rbind (parse_sql_with_dialect P rest d) (\<lambda>s. Ok (Explain s))))"
      using 1(3) ne True by (subst (asm) parse_sql_with_dialect.simps) (simp only: if_True if_False)
    then obtain rest where rest: "explain_target ?t = Ok rest" "is_panic (parse_sql_with_dialect P rest d)"
      using explain_target_safe(1) [OF v True] by (auto simp: is_panic_rbind)
    from 1(1) [OF ne True rest(1) explain_target_safe(2) [OF v True rest(1)] rest(2)] show ?thesis
      using parses_text.explained [OF True rest(1)] by blast
  next
    case False
    have "is_panic (parse_plain P ?t d)"
      using 1(3) ne False by (subst (asm) parse_sql_with_dialect.simps) (simp only: if_False)
    then have "panic_cause ?t" using parse_plain_safe [OF v] by blast
    then show ?thesis using parses_text.whole by blast
  qed
qed

end
