(* ===== verification/Parser_Valid.thy ===== *)
theory Parser_Valid
  imports Parser_Total Sessions
begin

section \<open>Parsed statements are valid\<close>

text \<open>
  The parser only cuts valid texts into valid texts, so that the names and texts of a parsed statement are
  valid UTF-8: what the file format relies on. With it the guarantees of a session hold for every valid
  statement text, with no assumption on what the parser makes of it.
\<close>

declare utf8_valid.simps(2) [simp del]

subsection \<open>Identifiers and literals\<close>

text \<open>Replacing ASCII characters by ASCII texts.\<close>

lemma utf8_valid_replace:
  assumes "\<And>c. 128 \<le> code c \<Longrightarrow> f c = [c]" "\<And>c. code c < 128 \<Longrightarrow> ascii (f c)"
  shows "utf8_valid s \<Longrightarrow> utf8_valid (concat (map f s))"
proof (induction "length s" arbitrary: s rule: less_induct)
  case less
  have cont: "is_cont c \<Longrightarrow> f c = [c]" for c by (intro assms(1)) (simp add: is_cont_def)
  show ?case
  proof (cases s)
    case (Cons x t)
    have v: "utf8_valid (x # t)" using less.prems Cons by simp
    have rec: "utf8_valid u \<Longrightarrow> length u < length s \<Longrightarrow> utf8_valid (concat (map f u))" for u using less.hyps by blast
    from v show ?thesis
    proof (cases rule: utf8_valid_lead)
      case 1
      then show ?thesis using rec [of t] v Cons assms(2) utf8_valid_append [OF ascii_utf8_valid] by simp
    next
      case 2
      then obtain y z where "t = y # z" "is_cont y" "utf8_valid z" using v by (auto simp: utf8_valid_two)
      then show ?thesis using rec [of z] Cons 2 assms(1) [of x] cont by (simp add: utf8_valid_two)
    next
      case 3
      then obtain y1 y2 z where "t = y1 # y2 # z" "second_ok x y1" "is_cont y2" "utf8_valid z"
        using v by (auto simp: utf8_valid_three)
      then show ?thesis using rec [of z] Cons 3 assms(1) [of x] cont second_ok_cont by (simp add: utf8_valid_three)
    next
      case 4
      then obtain y1 y2 y3 z where "t = y1 # y2 # y3 # z" "second_ok x y1" "is_cont y2" "is_cont y3" "utf8_valid z"
        using v by (auto simp: utf8_valid_four)
      then show ?thesis using rec [of z] Cons 4 assms(1) [of x] cont second_ok_cont by (simp add: utf8_valid_four)
    qed
  qed simp
qed

lemma utf8_valid_lower: "utf8_valid s \<Longrightarrow> utf8_valid (to_ascii_lowercase s)"
proof -
  assume "utf8_valid s"
  then have "utf8_valid (concat (map (\<lambda>c. [ascii_lower c]) s))"
    using ascii_lower_ascii by (intro utf8_valid_replace) (simp_all add: ascii_lower_def)
  moreover have "concat (map (\<lambda>c. [ascii_lower c]) s) = to_ascii_lowercase s"
    by (simp add: to_ascii_lowercase_def concat_map_singleton)
  ultimately show ?thesis by simp
qed

lemma dropWhile_valid: "utf8_valid s \<Longrightarrow> code c < 128 \<Longrightarrow> utf8_valid (dropWhile ((=) c) s)"
  by (induction s) auto

lemma trim_matches_valid: "utf8_valid s \<Longrightarrow> code c < 128 \<Longrightarrow> utf8_valid (trim_matches c s)"
  using trim_end_matches_valid [of "dropWhile ((=) c) s" c] dropWhile_valid by (simp add: trim_matches_def trim_end_matches_def)

lemma normalize_valid: "utf8_valid s \<Longrightarrow> utf8_valid (normalize_identifier s)"
  unfolding normalize_identifier_def
  by (intro utf8_valid_lower trim_matches_valid str_trim_valid) (simp_all add: code_def)

lemma undouble_step: "c \<noteq> q \<Longrightarrow> undouble q (c # s) = c # undouble q s"
  by (cases s) simp_all

lemma undouble_valid: "utf8_valid s \<Longrightarrow> code q < 128 \<Longrightarrow> utf8_valid (undouble q s)"
proof (induction "length s" arbitrary: s rule: less_induct)
  case less
  have ne: "c \<noteq> q" if "128 \<le> code c" for c using that less.prems(2) by auto
  have cont: "is_cont c \<Longrightarrow> c \<noteq> q" for c by (intro ne) (simp add: is_cont_def)
  show ?case
  proof (cases s)
    case (Cons x t)
    have v: "utf8_valid (x # t)" using less.prems Cons by simp
    have rec: "utf8_valid u \<Longrightarrow> length u < length s \<Longrightarrow> utf8_valid (undouble q u)" for u using less.hyps less.prems(2) by blast
    from v show ?thesis
    proof (cases rule: utf8_valid_lead)
      case 1
      show ?thesis
      proof (cases "x = q \<and> (\<exists>u. t = q # u)")
        case True
        then show ?thesis using rec [of "tl t"] v Cons 1 by auto
      next
        case False
        then have "undouble q s = x # undouble q t" using Cons by (cases t) auto
        then show ?thesis using rec [of t] v Cons 1 by simp
      qed
    next
      case 2
      then obtain y z where "t = y # z" "is_cont y" "utf8_valid z" using v by (auto simp: utf8_valid_two)
      then show ?thesis using rec [of z] Cons 2 ne [of x] cont by (simp add: undouble_step utf8_valid_two)
    next
      case 3
      then obtain y1 y2 z where "t = y1 # y2 # z" "second_ok x y1" "is_cont y2" "utf8_valid z"
        using v by (auto simp: utf8_valid_three)
      then show ?thesis using rec [of z] Cons 3 ne [of x] cont second_ok_cont by (simp add: undouble_step utf8_valid_three)
    next
      case 4
      then obtain y1 y2 y3 z where "t = y1 # y2 # y3 # z" "second_ok x y1" "is_cont y2" "is_cont y3" "utf8_valid z"
        using v by (auto simp: utf8_valid_four)
      then show ?thesis using rec [of z] Cons 4 ne [of x] cont second_ok_cont by (simp add: undouble_step utf8_valid_four)
    qed
  qed simp
qed

lemma parse_quoted_valid:
  assumes "utf8_valid s" "parse_quoted_string s = Ok (Some t)"
  shows "utf8_valid t"
proof -
  have q: "hd s = squote \<or> hd s = dquote" using assms(2) by (auto simp: parse_quoted_string_def Let_def split: if_splits)
  obtain inner where i: "slice s 1 (length s - 1) = Ok inner" "t = undouble (hd s) inner"
    using assms(2) by (auto simp: parse_quoted_string_def Let_def rbind_Ok_iff split: if_splits)
  show ?thesis unfolding i(2) by (rule undouble_valid [OF slice_valid [OF assms(1) i(1)]]) (use q in \<open>auto simp: code_def\<close>)
qed

lemma parse_value_valid:
  assumes "utf8_valid s" "parse_value P s = Ok v"
  shows "value_valid v"
proof (cases v)
  case (Text t)
  then have "parse_quoted_string (str_trim s) = Ok (Some t)"
    using assms(2) unfolding parse_value_def parse_point_def parse_vector_def Let_def
    by (auto simp: rbind_Ok_iff split: if_splits option.splits)
  then have "utf8_valid t" by (rule parse_quoted_valid [OF str_trim_valid [OF assms(1)]])
  then show ?thesis using Text by simp
qed simp_all

lemma split_pred_pieces:
  "split_pred Q xs = p # ps \<Longrightarrow> (\<exists>b. xs = p @ b) \<and> (\<forall>x \<in> set ps. \<exists>a b. xs = a @ x @ b)"
proof (induction xs arbitrary: p ps)
  case (Cons y ys)
  obtain p1 ps1 where s: "split_pred Q ys = p1 # ps1" by (cases "split_pred Q ys") auto
  have inside: "\<exists>a b. y # ys = a @ x @ b" if "\<exists>a b. ys = a @ x @ b" for x using that by (metis append_Cons)
  have all: "\<exists>a b. y # ys = a @ x @ b" if "x \<in> set (p1 # ps1)" for x
    using Cons.IH [OF s] that inside by (metis append_Nil set_ConsD)
  show ?case
  proof (cases "Q y")
    case True
    then have "p = []" "ps = p1 # ps1" using Cons.prems s by simp_all
    then show ?thesis using all by simp
  next
    case False
    then have "p = y # p1" "ps = ps1" using Cons.prems s by simp_all
    then show ?thesis using all Cons.IH [OF s] by simp
  qed
qed simp

lemma split_whitespace_valid:
  assumes "utf8_valid s" "x \<in> set (split_whitespace s)"
  shows "utf8_valid x"
proof -
  obtain w where w: "w \<in> set (split_pred is_whitespace (utf8_chars s))" "x = concat w"
    using assms(2) by (auto simp: split_whitespace_def)
  obtain p ps where s: "split_pred is_whitespace (utf8_chars s) = p # ps" by (cases "split_pred is_whitespace (utf8_chars s)") auto
  have "\<exists>a b. utf8_chars s = a @ w @ b" using split_pred_pieces [OF s] w(1) s by (metis append_Nil set_ConsD)
  then show ?thesis using utf8_chars_sub [OF assms(1)] w(2) by blast
qed

subsection \<open>Statements\<close>

lemma column_def_valid:
  assumes "utf8_valid s" "parse_column_def s = Ok c"
  shows "utf8_valid (col_name c)"
proof -
  have "2 \<le> length (split_whitespace s)" "col_name c = normalize_identifier (split_whitespace s ! 0)"
    using assms(2) by (auto simp: parse_column_def_def Let_def rbind_Ok_iff split: if_splits)
  moreover have "split_whitespace s ! 0 \<in> set (split_whitespace s)" using calculation(1) by (intro nth_mem) auto
  ultimately show ?thesis using split_whitespace_valid [OF assms(1)] normalize_valid by simp
qed

lemma rmap_set: "rmap f xs = Ok ys \<Longrightarrow> y \<in> set ys \<Longrightarrow> \<exists>x \<in> set xs. f x = Ok y"
  by (induction xs arbitrary: ys) (auto simp: rbind_Ok_iff)

lemma create_table_valid:
  assumes "utf8_valid sql" "parse_create_table sql = Ok stmt"
  shows "statement_valid stmt"
proof -
  obtain r where r: "slice_from sql (length ''CREATE TABLE'') = Ok r" using assms(2) by (auto simp: parse_create_table_def rbind_Ok_iff)
  have v: "utf8_valid (str_trim r)" using slice_valid [OF assms(1) r] str_trim_valid by blast
  obtain a b nm body cols where p: "slice_to (str_trim r) a = Ok nm" "slice (str_trim r) (a + 1) b = Ok body"
      "rmap parse_column_def (split_top_level body (CHR '','')) = Ok cols" "stmt = CreateTable (normalize_identifier nm) cols"
    using assms(2) r unfolding parse_create_table_def by (auto simp: rbind_Ok_iff Let_def split: if_splits)
  have "utf8_valid (normalize_identifier nm)" using slice_valid [OF v p(1)] normalize_valid by blast
  moreover have "utf8_valid (col_name c)" if "c \<in> set cols" for c
    using rmap_set [OF p(3) that] column_def_valid comma_valid [OF slice_valid [OF v p(2)]] by blast
  ultimately show ?thesis using p(4) by (simp add: list_all_iff)
qed

lemma create_index_valid:
  assumes "utf8_valid sql" "parse_create_index sql = Ok stmt"
  shows "statement_valid stmt"
proof -
  define kw where "kw = (if starts_with_ci sql ''CREATE FULLTEXT INDEX'' then ''CREATE FULLTEXT INDEX'' else ''CREATE INDEX'')"
  obtain r p tg a b nm tbl col ft where p: "slice_from sql (length kw) = Ok r" "slice_from (str_trim r) (p + length '' ON '') = Ok tg"
      "slice_to (str_trim r) p = Ok nm" "slice (str_trim tg) (a + 1) b = Ok col"
      "stmt = CreateIndex (normalize_identifier nm) tbl (normalize_identifier col) ft"
    using assms(2) unfolding parse_create_index_def Let_def kw_def [symmetric] by (auto simp: rbind_Ok_iff)
  have v: "utf8_valid (str_trim r)" using slice_valid [OF assms(1) p(1)] str_trim_valid by blast
  have "utf8_valid (str_trim tg)" using slice_valid [OF v p(2)] str_trim_valid by blast
  then have "utf8_valid (normalize_identifier col)" "utf8_valid (normalize_identifier nm)"
    using slice_valid [OF _ p(4)] slice_valid [OF v p(3)] normalize_valid by blast+
  then show ?thesis using p(5) by simp
qed

lemma insert_valid:
  assumes "utf8_valid sql" "parse_insert P sql = Ok stmt"
  shows "statement_valid stmt"
proof -
  obtain r p vp body tbl cols vals where p: "slice_from sql (length ''INSERT INTO'') = Ok r"
      "slice_from (str_trim r) (p + length ''VALUES'') = Ok vp" "parenthesized_body (str_trim vp) ''INSERT VALUES'' = Ok body"
      "rmap (parse_value P) (split_top_level body (CHR '','')) = Ok vals" "stmt = Insert tbl cols vals"
    using assms(2) unfolding parse_insert_def Let_def by (auto simp: rbind_Ok_iff split: prod.splits)
  have "utf8_valid (str_trim r)" using slice_valid [OF assms(1) p(1)] str_trim_valid by blast
  from slice_valid [OF this p(2)] have "utf8_valid body" using parenthesized_body_valid [OF _ p(3)] str_trim_valid by blast
  then have "value_valid v" if "v \<in> set vals" for v
    using rmap_set [OF p(4) that] parse_value_valid comma_valid by blast
  then show ?thesis using p(5) by (simp add: list_all_iff)
qed

lemma update_valid:
  assumes "utf8_valid sql" "parse_update P sql = Ok stmt"
  shows "statement_valid stmt"
proof -
  obtain r p a where p: "slice_from sql (length ''UPDATE'') = Ok r" "slice_from (str_trim r) (p + length '' SET '') = Ok a"
    and rest: "\<exists>asg assignments tbl filt. (case find_ci (str_trim a) '' WHERE '' of None \<Rightarrow> Ok (str_trim a) | Some pos \<Rightarrow> slice_to (str_trim a) pos) = Ok asg \<and>
        rmap (parse_assignment P) (split_top_level (str_trim asg) (CHR '','')) = Ok assignments \<and> stmt = Update tbl assignments filt"
    using assms(2) unfolding parse_update_def Let_def rbind_Ok_iff by blast
  have "utf8_valid (str_trim r)" using slice_valid [OF assms(1) p(1)] str_trim_valid by blast
  from slice_valid [OF this p(2)] have v: "utf8_valid (str_trim a)" by (rule str_trim_valid)
  obtain asg assignments tbl filt where q: "(case find_ci (str_trim a) '' WHERE '' of None \<Rightarrow> Ok (str_trim a) | Some pos \<Rightarrow> slice_to (str_trim a) pos) = Ok asg"
      "rmap (parse_assignment P) (split_top_level (str_trim asg) (CHR '','')) = Ok assignments" "stmt = Update tbl assignments filt"
    using rest by blast
  have "value_valid (snd e)" if e_in: "e \<in> set assignments" for e
  proof -
    obtain x where x: "x \<in> set (split_top_level (str_trim asg) (CHR '',''))" "parse_assignment P x = Ok e" using rmap_set [OF q(2) e_in] by blast
    then obtain c w val where e: "split_once_top_level x (CHR ''='') = Some (c, w)" "parse_value P w = Ok val" "snd e = val"
      by (auto simp: parse_assignment_def rbind_Ok_iff ok_or_iff)
    have "utf8_valid w" using split_once_valid [OF comma_valid [OF before_where(2) [OF v q(1)] x(1)] _ e(1)] by (simp add: code_def)
    then show ?thesis using parse_value_valid [OF _ e(2)] e(3) by blast
  qed
  then show ?thesis using q(3) by simp
qed

text \<open>Statements that are only recognised carry no value that is stored.\<close>

lemma parsed_only_valid:
  "parse_parsed_only sql k p = Ok stmt \<Longrightarrow> statement_valid stmt" "parse_attach_or_detach sql k p = Ok stmt \<Longrightarrow> statement_valid stmt"
  "parse_drop sql k p = Ok stmt \<Longrightarrow> statement_valid stmt" "parse_advanced_insert_kind sql k p = Ok stmt \<Longrightarrow> statement_valid stmt"
  "parse_alter_table sql = Ok stmt \<Longrightarrow> statement_valid stmt" "parse_create_view sql = Ok stmt \<Longrightarrow> statement_valid stmt"
  "parse_create_trigger sql = Ok stmt \<Longrightarrow> statement_valid stmt" "parse_create_virtual_table sql = Ok stmt \<Longrightarrow> statement_valid stmt"
  "parse_advanced_insert sql = Ok stmt \<Longrightarrow> statement_valid stmt"
  by (auto simp: parse_parsed_only_def parse_attach_or_detach_def parse_drop_def parse_advanced_insert_kind_def
      parse_alter_table_def parse_create_view_def parse_create_trigger_def parse_create_virtual_table_def parse_advanced_insert_def
      rbind_Ok_iff Let_def split: if_splits)

lemma select_valid: "parse_select P sql = Ok stmt \<Longrightarrow> statement_valid stmt" "parse_delete P sql = Ok stmt \<Longrightarrow> statement_valid stmt"
  by (auto simp: parse_select_def parse_delete_def rbind_Ok_iff Let_def split: if_splits prod.splits)

lemma create_valid: "utf8_valid sql \<Longrightarrow> parse_create sql = Some (Ok stmt) \<Longrightarrow> statement_valid stmt"
  unfolding parse_create_def rbind_Ok_iff option.inject
  by (auto simp: rbind_Ok_iff split: if_splits dest: parsed_only_valid create_table_valid create_index_valid)

lemma row_statement_valid: "utf8_valid sql \<Longrightarrow> parse_row_statement P sql = Some (Ok stmt) \<Longrightarrow> statement_valid stmt"
  unfolding parse_row_statement_def
  by (auto simp: rbind_Ok_iff split: if_splits dest: parsed_only_valid insert_valid select_valid update_valid)

lemma plain_valid: "utf8_valid sql \<Longrightarrow> parse_plain P sql d = Ok stmt \<Longrightarrow> statement_valid stmt"
  unfolding parse_plain_def
  by (auto split: if_splits option.splits dest: parsed_only_valid create_valid row_statement_valid)

lemma parse_valid:
  assumes "utf8_valid sql" "parse_sql_with_dialect P sql d = Ok stmt"
  shows "statement_valid stmt"
  using assms(2) plain_valid [OF statement_text_valid [OF assms(1)], of P d stmt]
  by (subst (asm) parse_sql_with_dialect.simps) (auto simp: rbind_Ok_iff split: if_splits)

end
