(* ===== verification/Parser_Roundtrip.thy ===== *)
theory Parser_Roundtrip
  imports Parser_Valid
begin

section \<open>Printed statements parse back\<close>

text \<open>
  A reference printer for values and for \<^verbatim>\<open>INSERT\<close> statements, and the proof that the parser reads back what it
  prints: quotes inside texts are doubled, and commas, brackets and parentheses inside quotes do not split.
\<close>

declare utf8_valid.simps(2) [simp del]

subsection \<open>Trimming\<close>

lemma utf8_chars_snoc: "\<not> is_cont c \<Longrightarrow> utf8_chars (t @ [c]) = utf8_chars t @ [[c]]"
proof (induction t rule: utf8_chars.induct)
  case (2 x s)
  have "takeWhile is_cont (s @ [c]) = takeWhile is_cont s" "dropWhile is_cont (s @ [c]) = dropWhile is_cont s @ [c]"
    using 2(2) by (induction s) auto
  then show ?case using 2 by simp
qed simp

lemma utf8_chars_Cons: "s = [] \<or> \<not> is_cont (hd s) \<Longrightarrow> utf8_chars (c # s) = [c] # utf8_chars s"
  by (cases s) auto

lemma utf8_valid_next: "utf8_valid (c # s) \<Longrightarrow> code c < 128 \<Longrightarrow> s = [] \<or> \<not> is_cont (hd s)"
  using utf8_valid_hd by (cases s) auto

lemma trim_id:
  assumes "utf8_valid s" "s \<noteq> []" "code (hd s) < 128" "code (last s) < 128" "\<not> is_whitespace [hd s]" "\<not> is_whitespace [last s]"
  shows "str_trim s = s"
proof -
  obtain c t where s: "s = c # t" using assms(2) by (cases s) auto
  have first: "utf8_chars s = [c] # utf8_chars t" using utf8_valid_next [of c t] assms(1,3) s utf8_chars_Cons [of t c] by (simp del: utf8_chars.simps)
  have "utf8_chars s = utf8_chars (butlast s) @ [[last s]]"
    using utf8_chars_snoc [of "last s" "butlast s"] assms(2,4) not_cont_ascii by simp
  then have "last (utf8_chars s) = [last s]" by simp
  then show ?thesis using first assms(5,6) s unfolding str_trim_def
    by (subst dropWhile_id, simp, subst dropWhileEnd_id, simp) simp
qed

lemma trim_space: "utf8_valid s \<Longrightarrow> str_trim (CHR '' '' # s) = str_trim s"
proof -
  assume "utf8_valid s"
  then have "s = [] \<or> \<not> is_cont (hd s)" using utf8_valid_hd by (cases s) auto
  then have "utf8_chars (CHR '' '' # s) = '' '' # utf8_chars s" by (rule utf8_chars_Cons)
  moreover have "is_whitespace '' ''" by code_simp
  ultimately show ?thesis by (simp add: str_trim_def)
qed

subsection \<open>Literals\<close>

definition double_quotes :: "string \<Rightarrow> string" where
  "double_quotes s = concat (map (\<lambda>c. if c = squote then [squote, squote] else [c]) s)"

fun literal :: "sql_value \<Rightarrow> string" where
  "literal (Boolean True) = ''TRUE''"
| "literal (Boolean False) = ''FALSE''"
| "literal (Integer i) = show_i64 i"
| "literal (Text s) = squote # double_quotes s @ [squote]"
| "literal _ = ''NULL''"

fun printable :: "sql_value \<Rightarrow> bool" where
  "printable (Text s) = utf8_valid s"
| "printable (Float _) = False"
| "printable (Vector _) = False"
| "printable (PointV _) = False"
| "printable _ = True"

lemma double_simps [simp]: "double_quotes [] = []"
  "double_quotes (c # s) = (if c = squote then squote # squote # double_quotes s else c # double_quotes s)"
  by (simp_all add: double_quotes_def)

lemma undouble_double: "undouble squote (double_quotes s) = s"
  by (induction s) (simp_all add: undouble_step)

lemma double_append: "double_quotes (a @ b) = double_quotes a @ double_quotes b"
  by (simp add: double_quotes_def)

lemma double_valid: "utf8_valid s \<Longrightarrow> utf8_valid (double_quotes s)"
  unfolding double_quotes_def by (rule utf8_valid_replace) (auto simp: code_def)

subsection \<open>Scanning\<close>

lemma scan_plain:
  assumes "quote st = None" "\<not> scan_special c"
  shows "scan_char c st = st"
  using assms by (simp add: scan_char_def scan_special_def)

lemma split_plain:
  "quote st = None \<Longrightarrow> \<forall>c \<in> set s. \<not> scan_special c \<and> c \<noteq> d \<Longrightarrow> split_loop d st cur (s @ rest) = split_loop d st (cur @ s) rest"
proof (induction s arbitrary: cur)
  case (Cons c s)
  then show ?case using scan_plain [of st c] by (simp add: scan_delim_def)
qed simp

lemma split_quoted:
  "quote st = Some squote \<Longrightarrow> split_loop d st cur (double_quotes s @ rest) = split_loop d st (cur @ double_quotes s) rest"
proof (induction s arbitrary: cur)
  case (Cons c s)
  have "scan_char squote (scan_char squote st) = st" using Cons.prems by (simp add: scan_char_def)
  moreover have "c \<noteq> squote \<Longrightarrow> scan_char c st = st" using Cons.prems by (simp add: scan_char_def)
  ultimately show ?case using Cons by (simp add: scan_delim_def scan_special_def)
qed simp

definition digit_sign :: "char \<Rightarrow> bool" where
  "digit_sign c \<longleftrightarrow> code c = 45 \<or> 48 \<le> code c \<and> code c \<le> 57"

lemma show_nat_codes: "c \<in> set (show_nat n) \<Longrightarrow> 48 \<le> code c \<and> code c \<le> 57"
  using show_radix_digits [of 10 c n] code_digit_char by fastforce

lemma show_i64_codes: "c \<in> set (show_i64 i) \<Longrightarrow> digit_sign c"
  using show_nat_codes by (auto simp: show_i64_def digit_sign_def code_def split: if_splits)

lemma show_i64_ne [simp]: "show_i64 i \<noteq> []"
  by (simp add: show_i64_def)

lemma digit_sign_plain:
  "digit_sign c \<Longrightarrow> \<not> scan_special c \<and> c \<noteq> CHR '','' \<and> \<not> is_whitespace [c] \<and> code c < 128"
  by (auto simp: digit_sign_def scan_special_def is_whitespace_def code_def)

lemma split_literal:
  assumes "quote st = None"
  shows "split_loop (CHR '','') st cur (literal v @ rest) = split_loop (CHR '','') st (cur @ literal v) rest"
proof (cases v)
  case (Text s)
  have q: "quote (scan_char squote st) = Some squote" "scan_char squote (scan_char squote st) = st"
    using assms by (simp_all add: scan_char_def)
  show ?thesis
    using split_quoted [OF q(1), of "CHR '',''" "cur @ [squote]" s "squote # rest"] Text q
    by (simp add: scan_delim_def scan_special_def)
next
  case (Integer i)
  then show ?thesis using split_plain [OF assms, of "show_i64 i" "CHR '',''"] show_i64_codes digit_sign_plain by (metis literal.simps(3))
next
  case (Boolean b)
  then show ?thesis using split_plain [OF assms, of "literal v" "CHR '',''"] by (cases b) (auto simp: scan_special_def)
qed (use split_plain [OF assms, of "''NULL''" "CHR '',''"] in \<open>auto simp: scan_special_def\<close>)

lemma literal_ends:
  assumes "printable v"
  shows "utf8_valid (literal v) \<and> literal v \<noteq> [] \<and> str_trim (literal v) = literal v"
proof -
  have "utf8_valid (literal v) \<and> literal v \<noteq> [] \<and> code (hd (literal v)) < 128 \<and> code (last (literal v)) < 128 \<and>
      \<not> is_whitespace [hd (literal v)] \<and> \<not> is_whitespace [last (literal v)]"
  proof (cases v)
    case (Text s)
    have "utf8_valid (double_quotes s @ [squote])" using assms Text double_valid by (intro utf8_valid_append) (simp_all add: code_def)
    then show ?thesis using Text by (simp add: code_def is_whitespace_def)
  next
    case (Integer i)
    have "\<forall>c \<in> set (show_i64 i). \<not> is_whitespace [c] \<and> code c < 128" using show_i64_codes digit_sign_plain by blast
    then show ?thesis using Integer by (auto simp: ascii_def intro: ascii_utf8_valid)
  next
    case (Boolean b)
    then show ?thesis by (cases b) (auto simp: code_def is_whitespace_def)
  qed (use assms in \<open>auto simp: code_def is_whitespace_def\<close>)
  then show ?thesis using trim_id by blast
qed

lemma join_valid: "(\<And>x. x \<in> set xs \<Longrightarrow> utf8_valid x) \<Longrightarrow> ascii sep \<Longrightarrow> utf8_valid (join sep xs)"
  by (induction sep xs rule: join.induct) (auto intro!: utf8_valid_append intro: ascii_utf8_valid)

lemma split_literals:
  assumes "vs \<noteq> []" "\<And>v. v \<in> set vs \<Longrightarrow> printable v" "str_trim (cur @ literal (hd vs)) = literal (hd vs)"
  shows "split_loop (CHR '','') scan_start cur (join '', '' (map literal vs)) = map literal vs"
  using assms
proof (induction vs arbitrary: cur)
  case (Cons v vs)
  have q: "quote scan_start = None" by (simp add: scan_start_def)
  show ?case
  proof (cases vs)
    case Nil
    then show ?thesis using split_literal [OF q, of cur v "[]"] Cons.prems(3) by simp
  next
    case (Cons u us)
    have d: "scan_delim (CHR '','') (CHR '','') scan_start" by (simp add: scan_delim_def scan_start_def scan_special_def)
    have "str_trim ('' '' @ literal u) = literal u"
      using literal_ends [of u] Cons.prems(2) [of u] Cons trim_space by simp
    moreover have "split_loop (CHR '','') scan_start [] (CHR '' '' # s) = split_loop (CHR '','') scan_start '' '' s" for s
      by (simp add: scan_delim_def scan_plain [OF q] scan_special_def)
    ultimately show ?thesis
      using split_literal [OF q, of cur v] Cons.IH [of "'' ''"] Cons.prems Cons d by simp
  qed
qed simp

subsection \<open>Reading a literal\<close>

lemma eq_ci_Cons [simp]:
  "eq_ignore_ascii_case (c # s) (d # t) \<longleftrightarrow> ascii_lower c = ascii_lower d \<and> eq_ignore_ascii_case s t"
  "eq_ignore_ascii_case [] (d # t) = False" "eq_ignore_ascii_case (c # s) [] = False" "eq_ignore_ascii_case s s"
  by (auto simp: eq_ignore_ascii_case_def to_ascii_lowercase_def)

lemma code_ascii_lower: "code (ascii_lower c) = (if 65 \<le> code c \<and> code c \<le> 90 then code c + 32 else code c)"
  by (simp add: ascii_lower_def)

lemma lower_letter: "ascii_lower c = ascii_lower d \<Longrightarrow> 65 \<le> code d \<and> code d \<le> 90 \<Longrightarrow> 65 \<le> code c"
  using code_ascii_lower [of c] code_ascii_lower [of d] by (auto split: if_splits)

text \<open>A text whose first byte is below the letters begins with no keyword.\<close>

lemma low_no_keyword:
  assumes "code (hd s) < 65" "s \<noteq> []" "65 \<le> code d \<and> code d \<le> 90"
  shows "\<not> eq_ignore_ascii_case s (d # p)" "\<not> starts_with_ci s (d # p)"
  using assms lower_letter [of "hd s" d] by (cases s; auto simp: starts_with_ci_def)+

lemma parse_value_literal:
  assumes "printable v"
  shows "parse_value P (literal v) = Ok v"
proof -
  note ends = literal_ends [OF assms]
  show ?thesis
  proof (cases v)
    case (Text s)
    have low: "\<not> eq_ignore_ascii_case (literal v) (d # p)" if "65 \<le> code d \<and> code d \<le> 90" for d p
      using low_no_keyword(1) [OF _ _ that, of "literal v"] Text by (simp add: code_def)
    have "\<not> is_panic (slice (literal v) 1 (length (literal v) - 1))"
      using ends Text by (intro inner_safe) (simp_all add: code_def)
    then have "slice (literal v) 1 (length (literal v) - 1) = Ok (double_quotes s)"
      using Text by (auto simp: slice_def split: if_splits)
    then have "parse_quoted_string (literal v) = Ok (Some s)"
      using Text by (simp add: parse_quoted_string_def undouble_double)
    moreover have "\<not> eq_ignore_ascii_case (literal v) ''NULL''" "\<not> eq_ignore_ascii_case (literal v) ''TRUE''"
      "\<not> eq_ignore_ascii_case (literal v) ''FALSE''" by (rule low, simp add: code_def)+
    ultimately show ?thesis unfolding parse_value_def Let_def ends [THEN conjunct2, THEN conjunct2] by (simp only: if_False rbind.simps option.case Text)
  next
    case (Integer i)
    let ?s = "show_i64 i"
    have ds: "digit_sign c" if "c \<in> set ?s" for c using that by (rule show_i64_codes)
    have hd: "digit_sign (hd ?s)" using ds by simp
    then have lo: "code (hd ?s) < 65" by (auto simp: digit_sign_def)
    have no: "hd ?s \<noteq> squote" "hd ?s \<noteq> dquote" "hd ?s \<noteq> CHR ''[''" using hd by (auto simp: digit_sign_def code_def)
    have "CHR ''.'' \<notin> set ?s" "CHR ''e'' \<notin> set ?s" "CHR ''E'' \<notin> set ?s"
      using ds [of "CHR ''.''"] ds [of "CHR ''e''"] ds [of "CHR ''E''"] by (auto simp: digit_sign_def code_def)
    moreover have "parse_quoted_string ?s = Ok None" using no by (simp add: parse_quoted_string_def Let_def)
    moreover have "\<not> eq_ignore_ascii_case ?s ''NULL''" "\<not> eq_ignore_ascii_case ?s ''TRUE''" "\<not> eq_ignore_ascii_case ?s ''FALSE''"
        "\<not> starts_with_ci ?s ''POINT''"
      using low_no_keyword [OF lo, of "CHR ''N''"] low_no_keyword [OF lo, of "CHR ''T''"] low_no_keyword [OF lo, of "CHR ''F''"]
        low_no_keyword [OF lo, of "CHR ''P''"] by (simp_all add: code_def)
    ultimately show ?thesis using ends Integer no by (simp add: parse_value_def parse_i64_show)
  next
    case (Boolean b)
    have "str_trim ''TRUE'' = ''TRUE''" "str_trim ''FALSE'' = ''FALSE''" by code_simp+
    then show ?thesis using Boolean by (cases b) (simp_all add: parse_value_def ascii_lower_def code_def)
  next
    case Null
    have "str_trim ''NULL'' = ''NULL''" by code_simp
    then show ?thesis using Null by (simp add: parse_value_def)
  qed (use assms in simp_all)
qed

subsection \<open>Parentheses outside quotes\<close>

lemma groups_plain: "\<forall>c \<in> set s. \<not> scan_special c \<Longrightarrow> groups_loop None ps g (s @ rest) = groups_loop None ps g rest"
  by (induction s) (auto simp: scan_special_def)

lemma groups_quoted: "groups_loop (Some squote) ps g (double_quotes s @ rest) = groups_loop (Some squote) ps g rest"
  by (induction s) simp_all

lemma groups_literal: "groups_loop None ps g (literal v @ rest) = groups_loop None ps g rest"
proof (cases v)
  case (Text s)
  then show ?thesis using groups_quoted [of ps g s] by simp
next
  case (Integer i)
  then show ?thesis using groups_plain [of "show_i64 i"] show_i64_codes digit_sign_plain by auto
next
  case (Boolean b)
  then show ?thesis using groups_plain [of "literal v"] by (cases b) (auto simp: scan_special_def)
qed (use groups_plain [of "''NULL''"] in \<open>auto simp: scan_special_def\<close>)

lemma groups_literals: "groups_loop None ps g (join '', '' (map literal vs) @ rest) = groups_loop None ps g rest"
proof (induction vs)
  case (Cons v vs)
  then show ?case using groups_literal [of ps g v] by (cases vs) simp_all
qed simp

lemma one_group: "\<not> has_multiple_top_level_parenthesized_groups (''('' @ join '', '' (map literal vs) @ '')'')"
  using groups_literals [of 1 1 vs "'')''"] by (simp add: has_multiple_top_level_parenthesized_groups_def)

subsection \<open>Finding a keyword after a word\<close>

lemma str_find_later:
  assumes "str_find a n = None" "x \<notin> set n" "n \<noteq> []"
  shows "str_find (a @ x # b) n = map_option (\<lambda>i. length a + 1 + i) (str_find b n)"
  using assms
proof (induction a)
  case Nil
  then have "take (length n) (x # b) \<noteq> n" by (cases n) auto
  then show ?case by simp
next
  case (Cons c a)
  have "take (length n) (c # a) \<noteq> n" "str_find a n = None" using Cons.prems(1) by (auto split: if_splits)
  moreover have "take (length n) (c # a @ x # b) \<noteq> n"
  proof (cases "length n \<le> length (c # a)")
    case True
    then have "take (length n) (c # a @ x # b) = take (length n) (c # a)" by (cases n) simp_all
    then show ?thesis using calculation(1) by simp
  next
    case False
    then have "x \<in> set (take (length n) (c # a @ x # b))" by (cases "length n"; auto simp: take_Cons' in_set_conv_nth) (metis append.assoc nth_append_length nth_mem)?
    then show ?thesis using Cons.prems(2) by metis
  qed
  ultimately show ?case using Cons.IH Cons.prems(2,3) by (simp add: option.map_comp comp_def)
qed

subsection \<open>INSERT\<close>

text \<open>A table name the printer writes as it is: lower-case letters, digits and underscores.\<close>

definition plain_name :: "string \<Rightarrow> bool" where
  "plain_name s \<longleftrightarrow> s \<noteq> [] \<and> (\<forall>c \<in> set s. 97 \<le> code c \<and> code c \<le> 122 \<or> 48 \<le> code c \<and> code c \<le> 57 \<or> code c = 95)"

definition insert_tail :: "string \<Rightarrow> sql_value list \<Rightarrow> string" where
  "insert_tail tbl vs = tbl @ '' VALUES ('' @ join '', '' (map literal vs) @ '')''"

definition insert_sql :: "string \<Rightarrow> sql_value list \<Rightarrow> string" where
  "insert_sql tbl vs = ''INSERT INTO '' @ insert_tail tbl vs"

text \<open>What stands before \<^verbatim>\<open>VALUES\<close>: the name of a table, or a name and a list of columns.\<close>

definition target_text :: "string \<Rightarrow> bool" where
  "target_text tg \<longleftrightarrow>
     tg \<noteq> [] \<and> ascii tg \<and> to_ascii_lowercase tg = tg \<and> \<not> is_whitespace [hd tg] \<and> \<not> is_whitespace [last tg]"

text \<open>The phrases that make the parser treat an insertion as unsupported, wherever they occur.\<close>

definition insert_phrases :: "string list" where
  "insert_phrases = ['' default values'', '' on conflict'', '' returning '']"

lemma plain_char:
  assumes "plain_name s" "c \<in> set s"
  shows "code c < 128 \<and> ascii_lower c = c \<and> \<not> is_whitespace [c] \<and> c \<noteq> CHR ''('' \<and> c \<noteq> squote \<and> c \<noteq> dquote \<and> c \<noteq> backtick"
  using assms by (auto simp: plain_name_def ascii_lower_def is_whitespace_def code_def)

lemma plain_text:
  assumes "plain_name s"
  shows "ascii s" "to_ascii_lowercase s = s" "str_trim s = s" "normalize_identifier s = s" "char_find s (CHR ''('') = None"
proof -
  have ne: "s \<noteq> []" using assms by (simp add: plain_name_def)
  note ch = plain_char [OF assms]
  show asc: "ascii s" using ch by (auto simp: ascii_def)
  show low: "to_ascii_lowercase s = s" unfolding to_ascii_lowercase_def using ch by (intro map_idI) blast
  show trim: "str_trim s = s" using ch ne by (intro str_trim_ascii asc) auto
  have "trim_matches q s = s" if "q = squote \<or> q = dquote \<or> q = backtick" for q
    unfolding trim_matches_def using that ch ne by (subst dropWhile_id; (subst dropWhileEnd_id)?) (auto intro!: dropWhileEnd_id dest: hd_in_set last_in_set)
  then show "normalize_identifier s = s" by (simp add: normalize_identifier_def trim low)
  have "CHR ''('' \<notin> set s" using ch by blast
  then show "char_find s (CHR ''('') = None" by (induction s) auto
qed

lemma plain_target: "plain_name s \<Longrightarrow> target_text s"
  using plain_text [of s] plain_char [of s] by (auto simp: target_text_def plain_name_def)

lemma body_valid: "(\<And>v. v \<in> set vs \<Longrightarrow> printable v) \<Longrightarrow> utf8_valid (join '', '' (map literal vs))"
  using literal_ends by (intro join_valid) (auto simp: code_def)

lemma tail_text:
  assumes "target_text tbl" "\<And>v. v \<in> set vs \<Longrightarrow> printable v"
  shows "utf8_valid (insert_tail tbl vs)" "str_trim (insert_tail tbl vs) = insert_tail tbl vs"
    "utf8_valid (insert_sql tbl vs)" "statement_text (insert_sql tbl vs) = insert_sql tbl vs"
proof -
  have ne: "tbl \<noteq> []" "ascii tbl" using assms(1) by (simp_all add: target_text_def)
  then have "code (hd tbl) < 128" by (simp add: ascii_def)
  have h: "hd (insert_tail tbl vs) = hd tbl" "last (insert_tail tbl vs) = CHR '')''" using ne(1) by (simp_all add: insert_tail_def)
  have ascii_parts: "ascii '' VALUES (''" "ascii '')''" "ascii ''INSERT INTO ''" by (simp_all add: code_def)
  show v: "utf8_valid (insert_tail tbl vs)"
    unfolding insert_tail_def by (intro utf8_valid_append ascii_utf8_valid ne(2) ascii_parts body_valid) (rule assms(2))
  show "str_trim (insert_tail tbl vs) = insert_tail tbl vs"
    using assms(1) \<open>code (hd tbl) < 128\<close> h
    by (intro trim_id v) (auto simp: target_text_def insert_tail_def code_def is_whitespace_def)
  show vi: "utf8_valid (insert_sql tbl vs)"
    unfolding insert_sql_def by (intro utf8_valid_append ascii_utf8_valid v ascii_parts)
  have l: "last (insert_sql tbl vs) = CHR '')''" by (simp add: insert_sql_def insert_tail_def)
  have "str_trim (insert_sql tbl vs) = insert_sql tbl vs"
    using l by (intro trim_id vi) (simp_all add: insert_sql_def code_def is_whitespace_def)
  moreover have "trim_end_matches (CHR '';'') (insert_sql tbl vs) = insert_sql tbl vs"
    unfolding trim_end_matches_def using l by (intro dropWhileEnd_id) simp
  ultimately show "statement_text (insert_sql tbl vs) = insert_sql tbl vs" by (simp add: statement_text_def)
qed

lemma values_pos:
  assumes "target_text tbl" "\<not> contains tbl ''values''"
  shows "find_ci (insert_tail tbl vs) ''VALUES'' = Some (length tbl + 1)"
proof -
  have low: "to_ascii_lowercase '' VALUES ('' = '' values (''" "to_ascii_lowercase ''VALUES'' = ''values''" by code_simp+
  have "to_ascii_lowercase (insert_tail tbl vs) =
      tbl @ CHR '' '' # ''values ('' @ to_ascii_lowercase (join '', '' (map literal vs) @ '')'')"
    using low(1) assms(1) by (simp add: insert_tail_def target_text_def to_ascii_lowercase_def)
  then show ?thesis
    using str_find_later [of tbl "''values''" "CHR '' ''"] assms(2) low(2) by (simp add: find_ci_def contains_def)
qed

text \<open>The text begins with the letter I, so the dispatch passes every keyword with another first letter.\<close>

lemma other_keyword:
  assumes "code d \<noteq> 73" "code d \<noteq> 105"
  shows "\<not> starts_with_ci (CHR ''I'' # t) (d # p)" "\<not> eq_ignore_ascii_case (CHR ''I'' # t) (d # p)"
proof -
  have "code (ascii_lower (CHR ''I'')) = 105" by (simp add: code_ascii_lower) (simp add: code_def)
  moreover have "code (ascii_lower d) \<noteq> 105" using assms by (simp add: code_ascii_lower)
  ultimately have "ascii_lower (CHR ''I'') \<noteq> ascii_lower d" by metis
  then show "\<not> starts_with_ci (CHR ''I'' # t) (d # p)" "\<not> eq_ignore_ascii_case (CHR ''I'' # t) (d # p)"
    by (simp_all add: starts_with_ci_def)
qed

lemma insert_keyword:
  "\<not> starts_with_ci (''INSERT INTO '' @ t) ''INSERT OR ''" "starts_with_ci (''INSERT INTO '' @ t) ''INSERT INTO''"
proof -
  have "ascii_lower (CHR ''I'') \<noteq> ascii_lower (CHR ''O'')" by code_simp
  then show "\<not> starts_with_ci (''INSERT INTO '' @ t) ''INSERT OR ''" by (simp add: starts_with_ci_def)
  show "starts_with_ci (''INSERT INTO '' @ t) ''INSERT INTO''" by (simp add: starts_with_ci_def boundary_def is_cont_def code_def)
qed

lemma not_letter_I:
  "code (CHR ''A'') \<noteq> 73 \<and> code (CHR ''A'') \<noteq> 105" "code (CHR ''B'') \<noteq> 73 \<and> code (CHR ''B'') \<noteq> 105"
  "code (CHR ''C'') \<noteq> 73 \<and> code (CHR ''C'') \<noteq> 105" "code (CHR ''D'') \<noteq> 73 \<and> code (CHR ''D'') \<noteq> 105"
  "code (CHR ''E'') \<noteq> 73 \<and> code (CHR ''E'') \<noteq> 105" "code (CHR ''R'') \<noteq> 73 \<and> code (CHR ''R'') \<noteq> 105"
  "code (CHR ''S'') \<noteq> 73 \<and> code (CHR ''S'') \<noteq> 105" "code (CHR ''U'') \<noteq> 73 \<and> code (CHR ''U'') \<noteq> 105"
  "code (CHR ''V'') \<noteq> 73 \<and> code (CHR ''V'') \<noteq> 105" "code (CHR ''W'') \<noteq> 73 \<and> code (CHR ''W'') \<noteq> 105"
  by (simp_all add: code_def)

lemma insert_other_keyword:
  assumes "code d \<noteq> 73 \<and> code d \<noteq> 105"
  shows "starts_with_ci (''INSERT INTO '' @ t) (d # p) = False" "eq_ignore_ascii_case (''INSERT INTO '' @ t) (d # p) = False"
  using other_keyword [of d "''NSERT INTO '' @ t" p] assms by (simp_all del: eq_ci_Cons)

lemma parse_plain_insert:
  "parse_plain P (''INSERT INTO '' @ t) d =
     rbind (is_advanced_insert (''INSERT INTO '' @ t)) (\<lambda>adv.
       if adv then parse_advanced_insert (''INSERT INTO '' @ t) else parse_insert P (''INSERT INTO '' @ t))"
  unfolding parse_plain_def parse_create_def parse_row_statement_def is_begin_def is_commit_def is_rollback_def
  by (simp only: insert_other_keyword not_letter_I insert_keyword if_False if_True simp_thms option.case)

lemma dropWhileEnd_snoc: "Q x \<Longrightarrow> dropWhileEnd Q (xs @ [x]) = dropWhileEnd Q xs"
  by (simp add: dropWhileEnd_def)

lemma trim_target_space:
  assumes "target_text s"
  shows "str_trim (s @ '' '') = s"
proof -
  have t: "s \<noteq> []" "ascii s" "\<not> is_whitespace [hd s]" "\<not> is_whitespace [last s]" using assms by (simp_all add: target_text_def)
  have ch: "utf8_chars (s @ '' '') = map (\<lambda>c. [c]) s @ ['' '']"
    using utf8_chars_ascii [of "s @ '' ''"] t(2) by (simp add: code_def)
  have "dropWhile is_whitespace (map (\<lambda>c. [c]) s @ ['' '']) = map (\<lambda>c. [c]) s @ ['' '']"
    using t(1,3) by (intro dropWhile_id) (simp add: hd_append hd_map)
  moreover have "is_whitespace '' ''" by code_simp
  moreover have "dropWhileEnd is_whitespace (map (\<lambda>c. [c]) s) = map (\<lambda>c. [c]) s"
    using t(1,4) by (intro dropWhileEnd_id) (simp add: last_map)
  ultimately show ?thesis by (simp add: str_trim_def ch dropWhileEnd_snoc concat_map_singleton)
qed

lemmas trim_plain_space = trim_target_space [OF plain_target]

lemma insert_values:
  assumes "vs \<noteq> []" "\<And>v. v \<in> set vs \<Longrightarrow> printable v"
  defines "b \<equiv> ''('' @ join '', '' (map literal vs) @ '')''"
  shows "str_trim (CHR '' '' # b) = b" "parenthesized_body b ctxt = Ok (join '', '' (map literal vs))"
    "rmap (parse_value P) (split_top_level (join '', '' (map literal vs)) (CHR '','')) = Ok vs"
proof -
  have v: "utf8_valid b" unfolding b_def
    by (intro utf8_valid_append ascii_utf8_valid body_valid assms(2)) (simp_all add: code_def)
  have t: "str_trim b = b" by (intro trim_id v) (simp_all add: b_def code_def is_whitespace_def)
  show "str_trim (CHR '' '' # b) = b" using trim_space [OF v] t by simp
  have "\<not> is_panic (slice b 1 (length b - 1))" by (intro inner_safe v) (simp_all add: b_def code_def)
  then have "slice b 1 (length b - 1) = Ok (join '', '' (map literal vs))"
    by (auto simp: slice_def b_def split: if_splits)
  then show "parenthesized_body b ctxt = Ok (join '', '' (map literal vs))"
    unfolding parenthesized_body_def Let_def t by (simp add: b_def)
  have "split_top_level (join '', '' (map literal vs)) (CHR '','') = map literal vs"
    unfolding split_top_level_def using literal_ends [of "hd vs"] assms(1,2) by (intro split_literals) simp_all
  then show "rmap (parse_value P) (split_top_level (join '', '' (map literal vs)) (CHR '','')) = Ok vs"
    using rmap_map_Ok [of vs "parse_value P" literal id] parse_value_literal assms(2) by simp
qed

lemma lower_last: "s \<noteq> [] \<Longrightarrow> last (to_ascii_lowercase s) = ascii_lower (last s)"
  by (simp add: to_ascii_lowercase_def last_map)

lemma tail_not_default: "\<not> ends_with (to_ascii_lowercase (insert_tail tbl vs)) ''default values''"
proof
  let ?l = "to_ascii_lowercase (insert_tail tbl vs)"
  assume "ends_with ?l ''default values''"
  then have e: "drop (length ?l - length ''default values'') ?l = ''default values''" by (simp add: ends_with_def)
  then have "length ?l - length ''default values'' < length ?l" by (metis drop_all list.distinct(1) not_le)
  from last_drop [OF this] e have "last ?l = CHR ''s''" by simp
  moreover have "last ?l = ascii_lower (CHR '')'')" by (subst lower_last) (simp_all add: insert_tail_def)
  moreover have "ascii_lower (CHR '')'') \<noteq> CHR ''s''" by code_simp
  ultimately show False by simp
qed

lemma insert_parses:
  assumes "target_text tg" "\<not> contains tg ''values''" "vs \<noteq> []" "\<And>v. v \<in> set vs \<Longrightarrow> printable v"
    and "\<And>p. p \<in> set insert_phrases \<Longrightarrow> \<not> contains (to_ascii_lowercase (insert_tail tg vs)) p"
    and "insert_target tg = Ok (tbl, cols)"
  shows "parse_sql_with_dialect P (insert_sql tg vs) d = Ok (Insert tbl cols vs)"
proof -
  let ?sql = "insert_sql tg vs" and ?tail = "insert_tail tg vs" and ?body = "join '', '' (map literal vs)"
  note tail = tail_text [of tg vs, OF assms(1,4)]
  have sql: "?sql = ''INSERT INTO '' @ ?tail" by (simp add: insert_sql_def)
  have pre: "slice_from (''INSERT INTO '' @ ?tail) (length ''INSERT INTO'') = Ok (drop (length ''INSERT INTO'') (''INSERT INTO '' @ ?tail))"
    by (rule after_prefix(1) [OF tail(3) [unfolded sql] insert_keyword(2)])
  have rest: "str_trim (drop (length ''INSERT INTO'') (''INSERT INTO '' @ ?tail)) = ?tail"
    using trim_space [OF tail(1)] tail(2) by simp
  note pos = values_pos [OF assms(1,2), of vs]
  note cut = values_cut [OF tail(1) pos]
  have parts: "take (length tg + 1) ?tail = tg @ '' ''"
      "drop (length tg + 1 + length ''VALUES'') ?tail = CHR '' '' # ''('' @ ?body @ '')''"
    by (simp_all add: insert_tail_def)
  note vals = insert_values [OF assms(3,4)]
  have ne: "?tail \<noteq> []" by (simp add: insert_tail_def)
  have phrases: "\<not> contains (to_ascii_lowercase ?tail) '' default values''" "\<not> contains (to_ascii_lowercase ?tail) '' on conflict''"
      "\<not> contains (to_ascii_lowercase ?tail) '' returning ''"
    by (rule assms(5), simp add: insert_phrases_def)+
  have adv: "is_advanced_insert (''INSERT INTO '' @ ?tail) = Ok False"
    unfolding is_advanced_insert_def pre rbind.simps rest is_advanced_insert_rest_def Let_def pos option.case
    using ne phrases tail_not_default [of tg vs] one_group [of vs] cut(3) [unfolded parts(2)] vals(1) by simp
  have ins: "parse_insert P (''INSERT INTO '' @ ?tail) = Ok (Insert tbl cols vs)"
    unfolding parse_insert_def pre rbind.simps rest Let_def pos ok_or_simps
    using vals assms(6) cut(1) [unfolded parts(1)] cut(3) [unfolded parts(2)] trim_target_space [OF assms(1)] by simp
  have "starts_with_ci ?sql ''EXPLAIN'' = False" unfolding sql by (simp only: insert_other_keyword not_letter_I simp_thms)
  moreover have "?sql \<noteq> []" by (simp add: insert_sql_def)
  moreover have "parse_plain P ?sql d = Ok (Insert tbl cols vs)" unfolding sql parse_plain_insert adv ins by simp
  ultimately show ?thesis by (subst parse_sql_with_dialect.simps) (simp add: tail(4))
qed

lemma plain_insert_target: "plain_name tbl \<Longrightarrow> insert_target tbl = Ok (tbl, None)"
  using plain_text(4,5) by (simp add: insert_target_def)


subsection \<open>A statement that panics\<close>

definition demo_squeezed :: string where
  "demo_squeezed = ''SELECT * FROM t WHERE LIMIT 1''"

lemma not_letter_S:
  "ascii_lower (CHR ''S'') \<noteq> ascii_lower (CHR ''A'')" "ascii_lower (CHR ''S'') \<noteq> ascii_lower (CHR ''B'')"
  "ascii_lower (CHR ''S'') \<noteq> ascii_lower (CHR ''C'')" "ascii_lower (CHR ''S'') \<noteq> ascii_lower (CHR ''D'')"
  "ascii_lower (CHR ''S'') \<noteq> ascii_lower (CHR ''E'')" "ascii_lower (CHR ''S'') \<noteq> ascii_lower (CHR ''I'')"
  "ascii_lower (CHR ''S'') \<noteq> ascii_lower (CHR ''R'')" "ascii_lower (CHR ''S'') \<noteq> ascii_lower (CHR ''U'')"
  "ascii_lower (CHR ''S'') \<noteq> ascii_lower (CHR ''V'')" "ascii_lower (CHR ''S'') \<noteq> ascii_lower (CHR ''W'')"
  "ascii_lower (CHR ''E'') \<noteq> ascii_lower (CHR ''A'')"
  by code_simp+

lemma squeezed_other_keyword:
  assumes "ascii_lower (CHR ''S'') \<noteq> ascii_lower d"
  shows "starts_with_ci demo_squeezed (d # p) = False" "eq_ignore_ascii_case demo_squeezed (d # p) = False"
  using assms by (simp_all add: demo_squeezed_def starts_with_ci_def)

lemma squeezed_keyword:
  "starts_with_ci demo_squeezed ''SAVEPOINT'' = False" "starts_with_ci demo_squeezed ''SELECT'' = True"
  "statement_text demo_squeezed = demo_squeezed" "demo_squeezed \<noteq> []" "utf8_valid demo_squeezed"
  by code_simp+

lemma demo_squeezed_clauses: "is_panic (is_advanced_clauses P ''t WHERE LIMIT 1'')"
proof -
  have "find_ci ''t WHERE LIMIT 1'' '' WHERE '' = Some 1" "find_ci ''t WHERE LIMIT 1'' '' ORDER BY '' = None"
    "find_ci ''t WHERE LIMIT 1'' '' LIMIT '' = Some 7" "position_or (min_pos [Some 1, None, Some 7]) (length ''t WHERE LIMIT 1'') = 1"
    "slice_to ''t WHERE LIMIT 1'' 1 = Ok ''t''" "is_advanced_from ''t'' = False" "is_panic (where_text ''t WHERE LIMIT 1'' 1 None (Some 7))"
    by code_simp+
  then show ?thesis unfolding is_advanced_clauses_def Let_def by (simp only: rbind.simps if_False option.case is_panic_rbind simp_thms)
qed

lemma demo_squeezed_select: "is_panic (is_advanced_select P demo_squeezed)"
proof -
  let ?r = "''* FROM t WHERE LIMIT 1''" and ?f = "''t WHERE LIMIT 1''"
  have low: "to_ascii_lowercase ?r = ''* from t where limit 1''" "to_ascii_lowercase ?f = ''t where limit 1''"
    "to_ascii_lowercase '' FROM '' = '' from ''" "to_ascii_lowercase '' GROUP BY '' = '' group by ''"
    "to_ascii_lowercase '' HAVING '' = '' having ''" "to_ascii_lowercase '' OFFSET '' = '' offset ''"
    "to_ascii_lowercase '' WINDOW '' = '' window ''" by code_simp+
  have no: "contains (to_ascii_lowercase ?r) '' union '' = False" "contains (to_ascii_lowercase ?r) '' intersect '' = False"
    "contains (to_ascii_lowercase ?r) '' except '' = False" "contains (to_ascii_lowercase ?r) '' window '' = False"
    by (simp_all add: contains_def low)
  have find: "find_ci ?r '' FROM '' = Some 1" "find_ci ?f '' GROUP BY '' = None" "find_ci ?f '' HAVING '' = None"
    "find_ci ?f '' OFFSET '' = None" "find_ci ?f '' WINDOW '' = None"
    by (simp_all add: find_ci_def low)
  have "slice_from demo_squeezed (length ''SELECT'') = Ok '' * FROM t WHERE LIMIT 1''" "str_trim '' * FROM t WHERE LIMIT 1'' = ?r"
    "(?r = []) = False" "starts_with_ci ?r ''DISTINCT'' = False" "starts_with_ci ?r ''ALL'' = False"
    "slice_to ?r 1 = Ok ''*''" "is_advanced_projection ''*'' = False"
    "slice_from ?r (1 + length '' FROM '') = Ok ?f" "str_trim ?f = ?f"
    by code_simp+
  then show ?thesis
    unfolding is_advanced_select_def Let_def
    by (simp only: rbind.simps if_False option.case simp_thms demo_squeezed_clauses no find)
qed

lemma demo_squeezed_panics: "is_panic (parse_sql_with_dialect P demo_squeezed Fsql)"
proof -
  have "parse_plain P demo_squeezed Fsql =
      rbind (is_advanced_select P demo_squeezed) (\<lambda>adv.
        if adv then parse_parsed_only demo_squeezed KSelect ''SELECT'' else parse_select P demo_squeezed)"
    unfolding parse_plain_def parse_create_def parse_row_statement_def is_begin_def is_commit_def is_rollback_def
    by (simp only: squeezed_other_keyword not_letter_S squeezed_keyword if_False if_True simp_thms option.case)
  then have "is_panic (parse_plain P demo_squeezed Fsql)" using demo_squeezed_select by (simp add: is_panic_rbind)
  then show ?thesis
    by (subst parse_sql_with_dialect.simps) (simp add: squeezed_keyword squeezed_other_keyword not_letter_S)
qed

subsection \<open>Properties\<close>

text \<open>Printed insertions parse back: for a table with a plain name and any values that are null, Boolean, 64-bit
  integers or arbitrary valid texts (quotes, commas, parentheses, semicolons and brackets included), the parser
  reads the printed \<^verbatim>\<open>INSERT\<close> as exactly that insertion, in every dialect. The printed text must not contain one
  of the three phrases \<^verbatim>\<open>default values\<close>, \<^verbatim>\<open>on conflict\<close>, \<^verbatim>\<open>returning\<close>, which the parser searches for everywhere.\<close>

theorem insert_roundtrip:
  assumes "plain_name tbl" "\<not> contains tbl ''values''" "vs \<noteq> []" "list_all printable vs"
    and "list_all (\<lambda>p. \<not> contains (to_ascii_lowercase (insert_tail tbl vs)) p) insert_phrases"
  shows "parse_sql_with_dialect P (insert_sql tbl vs) d = Ok (Insert tbl None vs)"
  using insert_parses [OF plain_target [OF assms(1)] assms(2,3) _ _ plain_insert_target [OF assms(1)]] assms(4,5)
  by (simp add: list_all_iff)

definition demo_note :: sql_value where
  "demo_note = Text (''it'' @ squote # ''s, (a) ; [test'')"

theorem insert_roundtrip_witness:
  "parse_sql_with_dialect demo_platform
     (''INSERT INTO notes VALUES (7, '' @ squote # ''it'' @ squote # squote # ''s, (a) ; [test'' @ squote # '')'') PostgreSql =
     Ok (Insert ''notes'' None [Integer 7, demo_note])"
proof -
  have "insert_sql ''notes'' [Integer 7, demo_note] =
      ''INSERT INTO notes VALUES (7, '' @ squote # ''it'' @ squote # squote # ''s, (a) ; [test'' @ squote # '')''" by code_simp
  moreover have "plain_name ''notes''" by (simp add: plain_name_def code_def)
  moreover have "\<not> contains ''notes'' ''values''" by code_simp
  moreover have "list_all printable [Integer 7, demo_note]" by code_simp
  moreover have "list_all (\<lambda>p. \<not> contains (to_ascii_lowercase (insert_tail ''notes'' [Integer 7, demo_note])) p) insert_phrases" by code_simp
  ultimately show ?thesis using insert_roundtrip [of "''notes''" "[Integer 7, demo_note]" demo_platform PostgreSql] by simp
qed



text \<open>C13: The parser panics only for the known reasons: on any valid UTF-8 text in any dialect, a panic means that the
  statement (after \<^verbatim>\<open>EXPLAIN\<close>) is a \<^verbatim>\<open>SELECT\<close> in which a clause keyword starts inside the one before it, an
  \<^verbatim>\<open>INSERT\<close> whose target has its last closing parenthesis before its first opening one, or a \<^verbatim>\<open>CREATE INDEX\<close> with
  parentheses crossed like that. No position it slices at is ever inside a character.\<close>

theorem parser_panic_causes:
  assumes "utf8_valid sql" "is_panic (parse_sql_with_dialect P sql d)"
  shows "\<exists>t. parses_text sql t \<and> panic_cause t"
  using parse_panics [OF assms] .

theorem parser_panic_causes_witness:
  "is_panic (parse_sql_with_dialect demo_platform demo_squeezed Fsql) \<and> (\<exists>t. parses_text demo_squeezed t \<and> panic_cause t)"
  using parser_panic_causes [OF squeezed_keyword(5) demo_squeezed_panics] demo_squeezed_panics by blast

end
