(* ===== verification/Parser_Words.thy ===== *)
theory Parser_Words
  imports Parser_Roundtrip
begin

section \<open>Keywords between blanks\<close>

text \<open>
  The parser searches for keywords in the whole text. \<open>quiet n s\<close> says that the keyword \<open>n\<close>, which starts with a
  blank, does not begin inside \<open>s\<close>, whatever comes after; it is shown for names, literals and the clauses that the
  reference printer writes. With it every search of the parser in a printed statement has a known result. The
  last part is the dispatch on the first keyword.
\<close>

subsection \<open>Where a keyword begins\<close>

abbreviation blank :: char where "blank \<equiv> CHR '' ''"

lemma map_option_add:
  "map_option ((+) a) (map_option ((+) b) p) = map_option ((+) (a + b)) p" "map_option ((+) 0) p = p"
  "map_option Suc (map_option ((+) a) p) = map_option ((+) (Suc a)) p"
  for a b :: nat
  by (cases p; simp)+

definition quiet :: "string \<Rightarrow> string \<Rightarrow> bool" where
  "quiet n s \<longleftrightarrow> (\<forall>v. v = [] \<or> hd v = blank \<longrightarrow> str_find (s @ v) n = map_option ((+) (length s)) (str_find v n))"

lemma quietD:
  "quiet n s \<Longrightarrow> v = [] \<or> hd v = blank \<Longrightarrow> str_find (s @ v) n = map_option ((+) (length s)) (str_find v n)"
  unfolding quiet_def by blast

lemma quiet_Nil [simp]: "quiet n []"
  by (simp add: quiet_def map_option_add)

lemma quiet_append:
  assumes "quiet n s" "quiet n t" "t = [] \<or> hd t = blank"
  shows "quiet n (s @ t)"
  unfolding quiet_def
proof (intro allI impI)
  fix v :: string assume v: "v = [] \<or> hd v = blank"
  have "str_find (s @ (t @ v)) n = map_option ((+) (length s)) (str_find (t @ v) n)"
    using assms(3) v by (intro quietD [OF assms(1)]) (cases t; auto)
  then show "str_find ((s @ t) @ v) n = map_option ((+) (length (s @ t))) (str_find v n)"
    using quietD [OF assms(2) v] by (simp add: map_option_add)
qed

lemma str_find_skip:
  "d \<notin> set s \<Longrightarrow> str_find (s @ v) (d # m) = map_option ((+) (length s)) (str_find v (d # m))"
  by (induction s) (auto simp: map_option_add)

lemma quiet_word: "blank \<notin> set s \<Longrightarrow> quiet (blank # m) s"
  by (simp add: quiet_def str_find_skip)

text \<open>The words a keyword may be confused with: its first word, or what begins with it when it is only one word.\<close>

definition clash :: "string \<Rightarrow> string \<Rightarrow> bool" where
  "clash m w \<longleftrightarrow> (if blank \<in> set m then w = takeWhile (\<lambda>c. c \<noteq> blank) m else take (length m) w = m)"

lemma clash_word:
  assumes "blank \<notin> set w" "v = [] \<or> hd v = blank" "take (length m) (w @ v) = m" "m \<noteq> []"
  shows "clash m w"
proof (cases "blank \<in> set m")
  case True
  have "m @ drop (length m) (w @ v) = w @ v" using assms(3) by (metis append_take_drop_id)
  moreover have "takeWhile (\<lambda>c. c \<noteq> blank) (m @ z) = takeWhile (\<lambda>c. c \<noteq> blank) m" for z
    using True by (intro takeWhile_append1) auto
  moreover have "takeWhile (\<lambda>c. c \<noteq> blank) (w @ v) = w"
  proof -
    have "\<forall>c \<in> set w. c \<noteq> blank" using assms(1) by auto
    then show ?thesis using assms(2) by (cases v) (simp_all add: takeWhile_append2)
  qed
  ultimately have "takeWhile (\<lambda>c. c \<noteq> blank) m = w" by metis
  then show ?thesis using True by (simp add: clash_def)
next
  case False
  have "length m \<le> length w"
  proof (rule ccontr)
    assume "\<not> length m \<le> length w"
    then have len: "length w < length m" by simp
    then have "v \<noteq> []" using assms(3) by (metis append_Nil2 length_take min.strict_coboundedI1 nat_neq_iff min_def)
    then have "(w @ v) ! length w = blank" using assms(2) by (cases v) auto
    moreover have "m ! length w = (w @ v) ! length w" using assms(3) len by (metis nth_take)
    ultimately show False using False len by (metis nth_mem)
  qed
  then show ?thesis using assms(3) False by (simp add: clash_def)
qed

lemma quiet_blank_word:
  assumes "blank \<notin> set w" "\<not> clash m w" "m \<noteq> []"
  shows "quiet (blank # m) (blank # w)"
  unfolding quiet_def
proof (intro allI impI)
  fix v :: string assume v: "v = [] \<or> hd v = blank"
  have "take (length m) (w @ v) \<noteq> m" using clash_word [OF assms(1) v _ assms(3)] assms(2) by blast
  then show "str_find ((blank # w) @ v) (blank # m) = map_option ((+) (length (blank # w))) (str_find v (blank # m))"
    using str_find_skip [OF assms(1), of v m] by (simp add: map_option_add)
qed

text \<open>A keyword that does occur.\<close>

lemma find_after_quiet:
  assumes "quiet (blank # m) s"
  shows "str_find (s @ blank # m @ v) (blank # m) = Some (length s)"
  using quietD [OF assms, of "blank # m @ v"] by simp

lemma find_in_quiet: "quiet n s \<Longrightarrow> n \<noteq> [] \<Longrightarrow> str_find s n = None"
  using quietD [of n s "[]"] by simp

subsection \<open>Literals between keywords\<close>

lemma str_find_append_None:
  assumes "str_find s n = None" "x \<notin> set n" "n \<noteq> []" "str_find t n = None"
  shows "str_find (s @ x # t) n = None"
  using str_find_later [OF assms(1-3)] assms(4) by simp

lemma take_double:
  "squote \<notin> set n \<Longrightarrow> take (length n) (double_quotes s) = n \<Longrightarrow> take (length n) s = n"
proof (induction s arbitrary: n)
  case (Cons c s)
  show ?case
  proof (cases n)
    case (Cons d m)
    then show ?thesis using Cons.prems Cons.IH [of m] by (cases "c = squote") auto
  qed simp
qed simp

lemma find_double:
  assumes "squote \<notin> set n" "n \<noteq> []" "str_find s n = None"
  shows "str_find (double_quotes s) n = None"
  using assms(3)
proof (induction s)
  case (Cons c s)
  obtain d m where n: "n = d # m" using assms(2) by (cases n) auto
  have "take (length n) (c # s) \<noteq> n" "str_find s n = None" using Cons.prems by (auto split: if_splits)
  then show ?case using Cons.IH take_double [OF assms(1), of "c # s"] assms(1) n by auto
qed (use assms(2) in simp)

lemma lower_append: "to_ascii_lowercase (a @ b) = to_ascii_lowercase a @ to_ascii_lowercase b"
  "to_ascii_lowercase (c # a) = ascii_lower c # to_ascii_lowercase a" "to_ascii_lowercase [] = []"
  by (simp_all add: to_ascii_lowercase_def)

lemma lower_quote: "ascii_lower c = squote \<longleftrightarrow> c = squote" "ascii_lower squote = squote"
proof -
  have "code squote = 39" by (simp add: code_def)
  moreover have "code (ascii_lower c) = 39 \<longleftrightarrow> code c = 39" by (simp add: code_ascii_lower)
  moreover have "c = d \<longleftrightarrow> code c = code d" for d by (simp add: code_def)
  ultimately show "ascii_lower c = squote \<longleftrightarrow> c = squote" by metis
  show "ascii_lower squote = squote" by code_simp
qed

lemma lower_double: "to_ascii_lowercase (double_quotes s) = double_quotes (to_ascii_lowercase s)"
  by (induction s) (simp_all add: lower_append lower_quote)

text \<open>The keywords the parser looks for after a blank, in lower case.\<close>

definition clause_phrases :: "string list" where
  "clause_phrases =
     ['' union '', '' intersect '', '' except '', '' window '', '' from '', '' group by '', '' having '', '' offset '',
      '' where '', '' order by '', '' limit '', '' returning '', '' using '', '' set '']"

definition quiet_value :: "sql_value \<Rightarrow> bool" where
  "quiet_value v =
     (case v of Text s \<Rightarrow> list_all (\<lambda>p. \<not> contains (to_ascii_lowercase s) p) clause_phrases | _ \<Rightarrow> True)"

definition phrase_ok :: "string \<Rightarrow> bool" where
  "phrase_ok m \<longleftrightarrow>
     97 \<le> code (hd m) \<and> 2 \<le> length (takeWhile (\<lambda>c. c \<noteq> blank) m) \<and> take 2 m \<notin> {''tr'', ''fa'', ''nu''} \<and>
     squote \<notin> set m \<and> m \<noteq> []"

lemma phrases_ok: "list_all (\<lambda>p. hd p = blank \<and> p \<noteq> [] \<and> phrase_ok (tl p)) clause_phrases"
  by code_simp

lemma phrase_ok: "blank # m \<in> set clause_phrases \<Longrightarrow> phrase_ok m"
  using phrases_ok by (auto simp: list_all_iff)

lemma clash_start:
  assumes "clash m w" "phrase_ok m"
  shows "take 2 w = take 2 m" "w \<noteq> []" "hd w = hd m"
proof -
  have len: "2 \<le> length (takeWhile (\<lambda>c. c \<noteq> blank) m)" using assms(2) by (simp add: phrase_ok_def)
  have tw: "take 2 (takeWhile (\<lambda>c. c \<noteq> blank) m) = take 2 m"
    using len by (metis append_take_drop_id le_add_diff_inverse takeWhile_eq_take take_take min_def length_takeWhile_le length_take min.absorb2)
  have "2 \<le> length m" using len length_takeWhile_le [of "\<lambda>c. c \<noteq> blank" m] by linarith
  then show two: "take 2 w = take 2 m"
    using assms(1) tw by (auto simp: clash_def split: if_splits) (metis min.absorb1 take_take)
  then show "w \<noteq> []" using \<open>2 \<le> length m\<close> by auto
  then show "hd w = hd m" using two \<open>2 \<le> length m\<close> by (metis hd_take zero_less_numeral)
qed

lemma quiet_literal:
  assumes "printable v" "quiet_value v" "blank # m \<in> set clause_phrases" "blank \<notin> set u"
  shows "quiet (blank # m) (blank # to_ascii_lowercase (literal v) @ u)"
proof (cases v)
  case (Text s)
  have ok: "squote \<notin> set (blank # m)" using phrase_ok [OF assms(3)] by (simp add: phrase_ok_def)
  have "str_find (to_ascii_lowercase s) (blank # m) = None"
    using assms(2,3) Text by (auto simp: quiet_value_def list_all_iff contains_def)
  then have none: "str_find (double_quotes (to_ascii_lowercase s)) (blank # m) = None" by (intro find_double ok) simp
  show ?thesis unfolding quiet_def
  proof (intro allI impI)
    fix t :: string
    let ?d = "double_quotes (to_ascii_lowercase s)"
    have "str_find (?d @ squote # u @ t) (blank # m) = map_option (\<lambda>i. length ?d + 1 + i) (str_find (u @ t) (blank # m))"
      by (rule str_find_later [OF none ok]) simp
    moreover have "str_find (u @ t) (blank # m) = map_option ((+) (length u)) (str_find t (blank # m))"
      by (rule str_find_skip [OF assms(4)])
    moreover have "take (length m) (squote # x) \<noteq> m" for x
      using ok phrase_ok [OF assms(3)] by (cases m) (auto simp: phrase_ok_def)
    ultimately show "str_find ((blank # to_ascii_lowercase (literal v) @ u) @ t) (blank # m) =
        map_option ((+) (length (blank # to_ascii_lowercase (literal v) @ u))) (str_find t (blank # m))"
      using Text by (cases "str_find t (blank # m)") (simp_all add: lower_append lower_quote lower_double)
  qed
next
  case (Integer i)
  have ds: "digit_sign c" if "c \<in> set (show_i64 i)" for c using that by (rule show_i64_codes)
  have low: "to_ascii_lowercase (show_i64 i) = show_i64 i"
    unfolding to_ascii_lowercase_def
  proof (intro map_idI)
    show "ascii_lower c = c" if "c \<in> set (show_i64 i)" for c
      using ds [OF that] by (auto simp: ascii_lower_def digit_sign_def)
  qed
  have "\<not> digit_sign blank" by (simp add: digit_sign_def code_def)
  then have "blank \<notin> set (show_i64 i @ u)" using ds assms(4) by auto
  moreover have "\<not> clash m (show_i64 i @ u)"
  proof
    assume "clash m (show_i64 i @ u)"
    from clash_start(3) [OF this phrase_ok [OF assms(3)]] have "hd (show_i64 i) = hd m" by simp
    moreover have "digit_sign (hd (show_i64 i))" using ds by simp
    ultimately show False using phrase_ok [OF assms(3)] by (auto simp: phrase_ok_def digit_sign_def)
  qed
  ultimately show ?thesis
    using quiet_blank_word [of "show_i64 i @ u" m] phrase_ok [OF assms(3)] Integer low by (simp add: phrase_ok_def)
next
  case (Boolean b)
  have "to_ascii_lowercase (literal v) = (if b then ''true'' else ''false'')" using Boolean by (cases b) (simp_all, code_simp+)
  moreover have "\<not> clash m ((if b then ''true'' else ''false'') @ u)"
    using clash_start(1) [of m "(if b then ''true'' else ''false'') @ u"] phrase_ok [OF assms(3)]
    by (auto simp: phrase_ok_def split: if_splits)
  ultimately show ?thesis
    using quiet_blank_word [of "(if b then ''true'' else ''false'') @ u" m] phrase_ok [OF assms(3)] assms(4)
    by (auto simp: phrase_ok_def)
next
  case Null
  have "to_ascii_lowercase ''NULL'' = ''null''" by code_simp
  moreover have "\<not> clash m (''null'' @ u)"
    using clash_start(1) [of m "''null'' @ u"] phrase_ok [OF assms(3)] by (auto simp: phrase_ok_def)
  ultimately show ?thesis
    using quiet_blank_word [of "''null'' @ u" m] phrase_ok [OF assms(3)] assms(4) Null by (simp add: phrase_ok_def)
qed (use assms in simp_all)

subsection \<open>Names\<close>

text \<open>
  Names the printer writes as they are. Besides the keywords of the clauses, some beginnings are excluded, because
  the parser compares prefixes: a \<^verbatim>\<open>WHERE\<close> on a column whose name begins with \<^verbatim>\<open>match\<close> is read as a full-text
  filter, and a \<^verbatim>\<open>SELECT\<close> of a column whose name begins with \<^verbatim>\<open>all\<close> as a \<^verbatim>\<open>SELECT ALL\<close>.
\<close>

definition reserved_words :: "string list" where
  "reserved_words =
     [''union'', ''intersect'', ''except'', ''window'', ''from'', ''group'', ''having'', ''offset'', ''where'', ''order'',
      ''limit'', ''returning'', ''using'', ''set'', ''or'', ''check'']"

definition reserved_prefixes :: "string list" where
  "reserved_prefixes = [''all'', ''distinct'', ''match'', ''geo_distance'', ''unique'', ''autoincrement'']"

definition ordinary_name :: "string \<Rightarrow> bool" where
  "ordinary_name s \<longleftrightarrow>
     plain_name s \<and> s \<notin> set reserved_words \<and> \<not> contains s ''values'' \<and>
     list_all (\<lambda>p. take (length p) s \<noteq> p) reserved_prefixes"

text \<open>Each beginning is needed: with it the parser reads something else.\<close>

lemma keyword_prefixes:
  "parse_filter demo_platform ''match_id = 3'' = Err (Parse ''MATCH requires parentheses'')"
  "is_advanced_select demo_platform ''SELECT allergies FROM t'' = Ok True"
  "is_advanced_create_table ''CREATE TABLE t (id INTEGER, unique_id TEXT)''"
  by code_simp+

lemma ordinary_plain: "ordinary_name s \<Longrightarrow> plain_name s"
  by (simp add: ordinary_name_def)

lemma plain_no_blank: "plain_name s \<Longrightarrow> blank \<notin> set s"
  using plain_char by (force simp: is_whitespace_def code_def)

lemma phrase_words:
  "list_all (\<lambda>p. blank \<in> set (tl p) \<and> takeWhile (\<lambda>c. c \<noteq> blank) (tl p) \<in> set reserved_words) clause_phrases"
  by code_simp

lemma phrase_word:
  "blank # m \<in> set clause_phrases \<Longrightarrow> blank \<in> set m \<and> takeWhile (\<lambda>c. c \<noteq> blank) m \<in> set reserved_words"
  using phrase_words by (auto simp: list_all_iff)

lemma quiet_keyword:
  assumes "blank # m \<in> set clause_phrases" "blank \<notin> set w" "w \<noteq> takeWhile (\<lambda>c. c \<noteq> blank) m"
  shows "quiet (blank # m) (blank # w)"
  using assms phrase_word [OF assms(1)] phrase_ok [OF assms(1)]
  by (intro quiet_blank_word) (auto simp: clash_def phrase_ok_def)

lemma quiet_name:
  assumes "ordinary_name s" "blank # m \<in> set clause_phrases"
  shows "quiet (blank # m) (blank # s)"
  using assms phrase_word [OF assms(2)] plain_no_blank
  by (intro quiet_keyword) (auto simp: ordinary_name_def)

lemma quiet_sign:
  assumes "blank # m \<in> set clause_phrases" "blank \<notin> set w" "code (hd w) < 97"
  shows "quiet (blank # m) (blank # w)"
  using assms clash_start(3) [OF _ phrase_ok [OF assms(1)]] phrase_ok [OF assms(1)]
  by (intro quiet_blank_word) (auto simp: phrase_ok_def)

lemma distinct_words:
  "list_all (\<lambda>p. list_all (\<lambda>q. takeWhile (\<lambda>c. c \<noteq> blank) (tl p) = takeWhile (\<lambda>c. c \<noteq> blank) (tl q) \<longrightarrow> p = q) clause_phrases)
     clause_phrases"
  by code_simp

text \<open>The keyword of another clause.\<close>

lemma quiet_other:
  assumes "blank # m \<in> set clause_phrases" "blank # k @ '' '' \<in> set clause_phrases" "blank # m \<noteq> blank # k @ '' ''" "blank \<notin> set k"
  shows "quiet (blank # m) (blank # k)"
proof (rule quiet_keyword [OF assms(1,4)])
  have "takeWhile (\<lambda>c. c \<noteq> blank) (k @ '' '') = k"
    using assms(4) by (induction k) auto
  then show "k \<noteq> takeWhile (\<lambda>c. c \<noteq> blank) m"
    using distinct_words assms(1-3) by (force simp: list_all_iff)
qed

subsection \<open>The clauses\<close>

text \<open>A condition: equality with a literal, or a full-text search.\<close>

fun condition_sql :: "sql_filter \<Rightarrow> string" where
  "condition_sql (Equals c v) = c @ '' = '' @ literal v"
| "condition_sql (FullText c q) = ''MATCH('' @ c @ '', '' @ literal (Text q) @ '')''"
| "condition_sql (GeoWithin _ _ _ _) = []"

fun filter_ok :: "sql_filter \<Rightarrow> bool" where
  "filter_ok (Equals c v) = (ordinary_name c \<and> printable v \<and> quiet_value v)"
| "filter_ok (FullText c q) = (ordinary_name c \<and> printable (Text q) \<and> quiet_value (Text q))"
| "filter_ok (GeoWithin _ _ _ _) = False"

definition where_sql :: "sql_filter option \<Rightarrow> string" where
  "where_sql w = (case w of None \<Rightarrow> [] | Some f \<Rightarrow> '' WHERE '' @ condition_sql f)"

definition limit_sql :: "nat option \<Rightarrow> string" where
  "limit_sql l = (case l of None \<Rightarrow> [] | Some n \<Rightarrow> '' LIMIT '' @ show_nat n)"

definition where_ok :: "sql_filter option \<Rightarrow> bool" where
  "where_ok w \<longleftrightarrow> (case w of None \<Rightarrow> True | Some f \<Rightarrow> filter_ok f)"

lemma lower_plain [simp]: "ordinary_name s \<Longrightarrow> to_ascii_lowercase s = s"
  using plain_text(2) by (simp add: ordinary_name_def)

lemma lower_show_nat [simp]: "to_ascii_lowercase (show_nat n) = show_nat n"
  unfolding to_ascii_lowercase_def
proof (intro map_idI)
  show "ascii_lower c = c" if "c \<in> set (show_nat n)" for c
    using show_nat_codes [OF that] by (auto simp: ascii_lower_def)
qed

lemma show_nat_word: "blank \<notin> set (show_nat n)" "hd (show_nat n) \<in> set (show_nat n)" "show_nat n \<noteq> []"
  using show_nat_codes [of blank n] by (auto simp: code_def)

lemma lower_where: "to_ascii_lowercase (where_sql (Some f)) = '' where'' @ blank # to_ascii_lowercase (condition_sql f)"
  by (simp add: where_sql_def lower_append) code_simp

lemma lower_limit: "to_ascii_lowercase (limit_sql (Some n)) = '' limit'' @ blank # show_nat n"
  by (simp add: limit_sql_def lower_append) code_simp

lemma quiet_condition:
  assumes "filter_ok f" "blank # m \<in> set clause_phrases"
  shows "quiet (blank # m) (blank # to_ascii_lowercase (condition_sql f))"
proof (cases f)
  case (Equals c v)
  then have ok: "ordinary_name c" "printable v" "quiet_value v" using assms(1) by simp_all
  have "quiet (blank # m) ((blank # c) @ '' ='' @ blank # to_ascii_lowercase (literal v) @ [])"
  proof (intro quiet_append)
    show "quiet (blank # m) (blank # c)" by (rule quiet_name [OF ok(1) assms(2)])
    show "quiet (blank # m) '' =''" using assms(2) by (intro quiet_sign) (simp_all add: code_def)
    show "quiet (blank # m) (blank # to_ascii_lowercase (literal v) @ [])" by (rule quiet_literal [OF ok(2,3) assms(2)]) simp
  qed simp_all
  moreover have "to_ascii_lowercase '' = '' = '' = ''" by code_simp
  ultimately show ?thesis using Equals ok(1) by (simp add: lower_append)
next
  case (FullText c q)
  then have ok: "ordinary_name c" "printable (Text q)" "quiet_value (Text q)" using assms(1) by simp_all
  have "quiet (blank # m) ((blank # ''match('' @ c @ '','') @ blank # to_ascii_lowercase (literal (Text q)) @ '')'')"
  proof (intro quiet_append)
    have "''match('' @ c @ '','' \<noteq> takeWhile (\<lambda>ch. ch \<noteq> blank) m"
      using phrase_word [OF assms(2)] by (auto simp: reserved_words_def)
    then show "quiet (blank # m) (blank # ''match('' @ c @ '','')"
      using plain_no_blank [OF ordinary_plain [OF ok(1)]] by (intro quiet_keyword assms(2)) simp_all
    show "quiet (blank # m) (blank # to_ascii_lowercase (literal (Text q)) @ '')'')" by (rule quiet_literal [OF ok(2,3) assms(2)]) simp
  qed simp
  moreover have "to_ascii_lowercase ''MATCH('' = ''match(''" "to_ascii_lowercase '', '' = '', ''" "to_ascii_lowercase '')'' = '')''"
    by code_simp+
  ultimately show ?thesis using FullText ok(1) by (simp add: lower_append del: literal.simps)
qed (use assms in simp)

lemma quiet_where:
  assumes "where_ok w" "blank # m \<in> set clause_phrases" "blank # m \<noteq> '' where ''"
  shows "quiet (blank # m) (to_ascii_lowercase (where_sql w))"
proof (cases w)
  case (Some f)
  have "quiet (blank # m) ('' where'' @ blank # to_ascii_lowercase (condition_sql f))"
  proof (intro quiet_append quiet_condition assms(2))
    show "quiet (blank # m) '' where''" using assms by (intro quiet_other) (simp_all add: clause_phrases_def)
    show "filter_ok f" using assms(1) Some by (simp add: where_ok_def)
  qed simp
  then show ?thesis using Some lower_where by simp
qed (simp add: where_sql_def lower_append)

lemma quiet_limit:
  assumes "blank # m \<in> set clause_phrases" "blank # m \<noteq> '' limit ''"
  shows "quiet (blank # m) (to_ascii_lowercase (limit_sql l))"
proof (cases l)
  case (Some n)
  have "quiet (blank # m) ('' limit'' @ blank # show_nat n)"
  proof (intro quiet_append)
    show "quiet (blank # m) '' limit''" using assms by (intro quiet_other) (simp_all add: clause_phrases_def)
    show "quiet (blank # m) (blank # show_nat n)"
      using show_nat_word [of n] show_nat_codes [of "hd (show_nat n)" n] by (intro quiet_sign assms(1)) auto
  qed simp
  then show ?thesis using lower_limit Some by simp
qed (simp add: limit_sql_def lower_append)

subsection \<open>Dispatch\<close>

lemma lower_letters:
  "ascii_lower (CHR ''A'') = CHR ''a''" "ascii_lower (CHR ''B'') = CHR ''b''" "ascii_lower (CHR ''C'') = CHR ''c''"
  "ascii_lower (CHR ''D'') = CHR ''d''" "ascii_lower (CHR ''E'') = CHR ''e''" "ascii_lower (CHR ''F'') = CHR ''f''"
  "ascii_lower (CHR ''I'') = CHR ''i''" "ascii_lower (CHR ''L'') = CHR ''l''" "ascii_lower (CHR ''M'') = CHR ''m''"
  "ascii_lower (CHR ''O'') = CHR ''o''" "ascii_lower (CHR ''P'') = CHR ''p''" "ascii_lower (CHR ''Q'') = CHR ''q''"
  "ascii_lower (CHR ''R'') = CHR ''r''" "ascii_lower (CHR ''S'') = CHR ''s''" "ascii_lower (CHR ''T'') = CHR ''t''"
  "ascii_lower (CHR ''U'') = CHR ''u''" "ascii_lower (CHR ''V'') = CHR ''v''" "ascii_lower (CHR ''W'') = CHR ''w''"
  "ascii_lower (CHR ''N'') = CHR ''n''" "ascii_lower (CHR ''X'') = CHR ''x''" "ascii_lower blank = blank"
  "ascii_lower (CHR ''G'') = CHR ''g''" "ascii_lower (CHR ''H'') = CHR ''h''" "ascii_lower (CHR ''K'') = CHR ''k''"
  "ascii_lower (CHR ''Y'') = CHR ''y''" "ascii_lower (CHR ''='') = CHR ''=''" "ascii_lower (CHR '','') = CHR '',''"
  "ascii_lower (CHR ''('') = CHR ''(''" "ascii_lower (CHR '')'') = CHR '')''" "ascii_lower (CHR ''*'') = CHR ''*''"
  by code_simp+

lemma other_first:
  assumes "ascii_lower y \<noteq> ascii_lower x"
  shows "starts_with_ci (x # t) (y # p) = False" "eq_ignore_ascii_case (x # t) (y # p) = False"
  using assms by (auto simp: starts_with_ci_def)

lemma starts_keyword: "starts_with_ci (p @ blank # t) p"
proof -
  have "boundary (p @ blank # t) (length p)" by (simp add: boundary_def is_cont_def code_def nth_append)
  then show ?thesis by (simp add: starts_with_ci_def)
qed

text \<open>A keyword is not the beginning of a text with another word in its place.\<close>

lemma not_keyword:
  assumes "ascii_lower x \<noteq> ascii_lower y" "length a = length b"
  shows "starts_with_ci (a @ x # t) (b @ y # p) = False"
proof -
  have "to_ascii_lowercase (take (length (b @ y # p)) (a @ x # t)) ! length b = ascii_lower x"
    using assms(2) by (simp add: to_ascii_lowercase_def nth_append)
  moreover have "to_ascii_lowercase (b @ y # p) ! length b = ascii_lower y"
    by (simp add: to_ascii_lowercase_def nth_append)
  ultimately show ?thesis using assms(1) unfolding starts_with_ci_def eq_ignore_ascii_case_def by metis
qed

lemma dispatch_select:
  "parse_plain P (''SELECT '' @ t) d =
     rbind (is_advanced_select P (''SELECT '' @ t)) (\<lambda>adv.
       if adv then parse_parsed_only (''SELECT '' @ t) KSelect ''SELECT'' else parse_select P (''SELECT '' @ t))"
proof -
  have "starts_with_ci (''SELECT '' @ t) ''SAVEPOINT'' = False"
    using not_keyword [of "CHR ''E''" "CHR ''A''" "''S''" "''S''"] by (simp add: lower_letters)
  moreover have "starts_with_ci (''SELECT '' @ t) ''SELECT''" using starts_keyword [of "''SELECT''"] by simp
  ultimately show ?thesis
    unfolding parse_plain_def parse_create_def parse_row_statement_def is_begin_def is_commit_def is_rollback_def
    by (simp add: other_first lower_letters del: eq_ci_Cons)
qed

lemma dispatch_update:
  assumes "\<not> starts_with_ci (''UPDATE '' @ t) ''UPDATE OR ''"
  shows "parse_plain P (''UPDATE '' @ t) d =
     rbind (is_advanced_update P (''UPDATE '' @ t)) (\<lambda>adv.
       if adv then parse_parsed_only (''UPDATE '' @ t) KUpdate ''UPDATE'' else parse_update P (''UPDATE '' @ t))"
proof -
  have "starts_with_ci (''UPDATE '' @ t) ''UPDATE''" using starts_keyword [of "''UPDATE''"] by simp
  then show ?thesis using assms
    unfolding parse_plain_def parse_create_def parse_row_statement_def is_begin_def is_commit_def is_rollback_def
    by (simp add: other_first lower_letters del: eq_ci_Cons)
qed

lemma dispatch_delete:
  "parse_plain P (''DELETE FROM '' @ t) d =
     rbind (is_advanced_delete P (''DELETE FROM '' @ t)) (\<lambda>adv.
       if adv then parse_parsed_only (''DELETE FROM '' @ t) KDelete ''DELETE FROM'' else parse_delete P (''DELETE FROM '' @ t))"
proof -
  have "starts_with_ci (''DELETE FROM '' @ t) ''DELETE FROM''" using starts_keyword [of "''DELETE FROM''"] by simp
  moreover have "starts_with_ci (''DELETE FROM '' @ t) ''DETACH'' = False"
    using not_keyword [of "CHR ''L''" "CHR ''T''" "''DE''" "''DE''"] by (simp add: lower_letters)
  moreover have "starts_with_ci (''DELETE FROM '' @ t) (''DROP '' @ x) = False" for x
    using not_keyword [of "CHR ''E''" "CHR ''R''" "''D''" "''D''"] by (simp add: lower_letters)
  ultimately show ?thesis
    unfolding parse_plain_def parse_create_def parse_row_statement_def is_begin_def is_commit_def is_rollback_def
    by (simp add: other_first lower_letters del: eq_ci_Cons)
qed

lemma dispatch_create_table:
  "parse_plain P (''CREATE TABLE '' @ t) d =
     (if is_advanced_create_table (''CREATE TABLE '' @ t)
      then parse_parsed_only (''CREATE TABLE '' @ t) KCreateTable ''CREATE TABLE'' else parse_create_table (''CREATE TABLE '' @ t))"
proof -
  have "starts_with_ci (''CREATE TABLE '' @ t) ''CREATE TABLE''" using starts_keyword [of "''CREATE TABLE''"] by simp
  moreover have "eq_ignore_ascii_case (''CREATE TABLE '' @ t) (''COMMIT'' @ x) = False" for x by (simp add: lower_letters)
  ultimately show ?thesis
    unfolding parse_plain_def parse_create_def parse_row_statement_def is_begin_def is_commit_def is_rollback_def
    by (simp add: other_first lower_letters)
qed

text \<open>From the dispatch to the entry point.\<close>

lemma not_explain: "ascii_lower c \<noteq> CHR ''e'' \<Longrightarrow> \<not> starts_with_ci (c # t) ''EXPLAIN''"
  using other_first(1) [of "CHR ''E''" c] by (simp add: lower_letters)

lemma parse_entry:
  assumes "utf8_valid (c # s)" "code c < 128" "\<not> is_whitespace [c]" "ascii_lower c \<noteq> CHR ''e''"
    "code (last (c # s)) < 128" "\<not> is_whitespace [last (c # s)]" "last (c # s) \<noteq> CHR '';''"
  shows "parse_sql_with_dialect P (c # s) d = parse_plain P (c # s) d"
proof -
  have "str_trim (c # s) = c # s" using assms by (intro trim_id) simp_all
  moreover have "trim_end_matches (CHR '';'') (c # s) = c # s"
    unfolding trim_end_matches_def using assms(7) by (intro dropWhileEnd_id) auto
  ultimately have "statement_text (c # s) = c # s" by (simp add: statement_text_def)
  then show ?thesis using not_explain [OF assms(4)] by (subst parse_sql_with_dialect.simps) simp
qed

end
