(* ===== verification/Parser_Select.thy ===== *)
theory Parser_Select
  imports Parser_Words
begin

section \<open>Printed queries parse back\<close>

text \<open>
  The clauses of a printed statement (a condition on one column or a full-text search, a limit, a list of columns), what the parser reads
  in them, and that a printed \<^verbatim>\<open>SELECT\<close> is read as exactly that query.
\<close>

subsection \<open>Pieces of a printed statement\<close>

lemma literal_valid: "printable v \<Longrightarrow> utf8_valid (literal v)"
  using literal_ends by blast

lemma name_valid: "ordinary_name s \<Longrightarrow> utf8_valid s"
  using plain_text(1) ascii_utf8_valid ordinary_plain by blast

lemma name_ne: "ordinary_name s \<Longrightarrow> s \<noteq> []"
  by (simp add: ordinary_name_def plain_name_def)

lemma name_char: "ordinary_name s \<Longrightarrow> c \<in> set s \<Longrightarrow>
    code c < 128 \<and> \<not> is_whitespace [c] \<and> c \<noteq> CHR '';'' \<and> c \<noteq> CHR ''('' \<and> c \<noteq> CHR '')'' \<and> c \<noteq> CHR '','' \<and> c \<noteq> CHR ''='' \<and>
    c \<noteq> CHR ''*'' \<and> \<not> scan_special c \<and> c \<noteq> blank"
  by (auto simp: ordinary_name_def plain_name_def is_whitespace_def code_def scan_special_def)

lemma parse_value_space: "utf8_valid s \<Longrightarrow> parse_value P (blank # s) = parse_value P s"
  by (simp add: parse_value_def trim_space)

lemma limit_valid: "utf8_valid (limit_sql l)"
proof (cases l)
  case (Some n)
  have "ascii (show_nat n)" using show_nat_codes [of _ n] by (force simp: ascii_def)
  then show ?thesis using Some by (intro ascii_utf8_valid) (simp add: limit_sql_def code_def)
qed (simp add: limit_sql_def)

text \<open>A character that may end a printed statement.\<close>

definition end_char :: "char \<Rightarrow> bool" where
  "end_char c \<longleftrightarrow> code c < 128 \<and> \<not> is_whitespace [c] \<and> c \<noteq> CHR '';''"

lemma end_name: "ordinary_name s \<Longrightarrow> end_char (last s)"
  using name_char [of s "last s"] name_ne by (simp add: end_char_def)

lemma end_literal:
  assumes "printable v"
  shows "literal v \<noteq> []" "end_char (last (literal v))"
proof -
  show "literal v \<noteq> []" using literal_ends [OF assms] by simp
  show "end_char (last (literal v))"
  proof (cases v)
    case (Integer i)
    then have "digit_sign (last (literal v))" using show_i64_codes [of "last (show_i64 i)" i] by simp
    then show ?thesis by (auto simp: end_char_def digit_sign_def is_whitespace_def code_def)
  next
    case (Boolean b)
    then show ?thesis by (cases b) (simp_all add: end_char_def is_whitespace_def code_def)
  qed (use assms in \<open>auto simp: end_char_def is_whitespace_def code_def\<close>)
qed

lemma end_limit: "end_char (last (show_nat n))"
  using show_nat_codes [of "last (show_nat n)" n] show_nat_word(3) [of n]
  by (auto simp: end_char_def is_whitespace_def code_def)

text \<open>A printed condition has characters at both ends that trimming keeps.\<close>

lemma condition_ends:
  assumes "filter_ok f"
  shows "utf8_valid (condition_sql f)" "condition_sql f \<noteq> []" "end_char (hd (condition_sql f))"
    "end_char (last (condition_sql f))" "str_trim (condition_sql f) = condition_sql f"
proof -
  have "utf8_valid (condition_sql f) \<and> condition_sql f \<noteq> [] \<and> end_char (hd (condition_sql f)) \<and> end_char (last (condition_sql f))"
  proof (cases f)
    case (Equals c v)
    then have ok: "ordinary_name c" "printable v" using assms by simp_all
    have "utf8_valid (c @ '' = '' @ literal v)" by (intro utf8_valid_append name_valid [OF ok(1)] literal_valid [OF ok(2)]) (simp add: code_def)
    then show ?thesis
      using Equals name_char [OF ok(1), of "hd c"] name_ne [OF ok(1)] end_literal [OF ok(2)] by (simp add: end_char_def)
  next
    case (FullText c q)
    then have ok: "ordinary_name c" "printable (Text q)" using assms by simp_all
    have "utf8_valid (''MATCH('' @ c @ '', '' @ literal (Text q) @ '')'')"
      by (intro utf8_valid_append name_valid [OF ok(1)] literal_valid [OF ok(2)]) (simp_all add: code_def)
    then show ?thesis using FullText by (simp add: end_char_def is_whitespace_def code_def)
  qed (use assms in simp)
  then show ends: "utf8_valid (condition_sql f)" "condition_sql f \<noteq> []" "end_char (hd (condition_sql f))"
    "end_char (last (condition_sql f))" by blast+
  then show "str_trim (condition_sql f) = condition_sql f" by (intro trim_id) (simp_all add: end_char_def)
qed

lemma where_valid: "where_ok w \<Longrightarrow> utf8_valid (where_sql w)"
  using condition_ends(1) by (cases w) (simp_all add: where_sql_def where_ok_def utf8_valid_ascii code_def)

lemma end_clauses:
  assumes "where_ok w" "end_char (last s)" "s \<noteq> []"
  shows "end_char (last (s @ where_sql w @ limit_sql l))" "end_char (last (s @ where_sql w))"
  using assms condition_ends(2,4) end_limit show_nat_word(3)
  by (auto simp: where_sql_def limit_sql_def where_ok_def last_append split: option.splits)

subsection \<open>The condition\<close>

lemma split_once_plain:
  "quote st = None \<Longrightarrow> \<forall>c \<in> set s. \<not> scan_special c \<and> c \<noteq> d \<Longrightarrow>
     split_once_loop d st cur (s @ rest) = split_once_loop d st (cur @ s) rest"
proof (induction s arbitrary: cur)
  case (Cons c s)
  then show ?case using scan_plain [of st c] by (simp add: scan_delim_def)
qed simp

lemma split_assignment:
  assumes "ordinary_name c"
  shows "split_once_top_level (c @ '' = '' @ s) (CHR ''='') = Some (c @ '' '', blank # s)"
proof -
  have "split_once_top_level ((c @ '' '') @ CHR ''='' # blank # s) (CHR ''='') =
      split_once_loop (CHR ''='') scan_start (c @ '' '') (CHR ''='' # blank # s)"
    unfolding split_once_top_level_def using name_char [OF assms]
    by (subst split_once_plain) (auto simp: scan_start_def scan_special_def)
  then show ?thesis by (simp add: scan_delim_def scan_start_def scan_special_def)
qed

lemma normalize_name:
  assumes "ordinary_name c"
  shows "normalize_identifier (c @ '' '') = c" "normalize_identifier c = c"
proof -
  show c: "normalize_identifier c = c" using plain_text(4) ordinary_plain [OF assms] by blast
  have "str_trim (c @ '' '') = str_trim c" using trim_plain_space plain_text(3) ordinary_plain [OF assms] by simp
  then have "normalize_identifier (c @ '' '') = normalize_identifier c" by (simp add: normalize_identifier_def)
  then show "normalize_identifier (c @ '' '') = c" using c by simp
qed

text \<open>A name does not begin with a keyword that is excluded.\<close>

lemma name_prefix:
  assumes "ordinary_name c" "to_ascii_lowercase p \<in> set reserved_prefixes" "r = [] \<or> hd r = blank \<or> hd r = CHR '',''"
  shows "\<not> starts_with_ci (c @ r) p"
proof
  assume sw: "starts_with_ci (c @ r) p"
  then have e: "to_ascii_lowercase (take (length p) (c @ r)) = to_ascii_lowercase p"
    by (simp add: starts_with_ci_def eq_ignore_ascii_case_def)
  show False
  proof (cases "length p \<le> length c")
    case True
    then have "to_ascii_lowercase (take (length p) c) = to_ascii_lowercase p" using e by simp
    moreover have "to_ascii_lowercase (take (length p) c) = take (length p) c"
      using lower_plain [OF assms(1)] unfolding to_ascii_lowercase_def by (metis take_map)
    moreover have "take (length (to_ascii_lowercase p)) c \<noteq> to_ascii_lowercase p"
      using assms(1,2) by (auto simp: ordinary_name_def list_all_iff)
    ultimately show False by simp
  next
    case False
    have len: "length p \<le> length (c @ r)" using sw by (auto simp: starts_with_ci_def boundary_def)
    with False obtain x r' where r: "r = x # r'" by (cases r) auto
    have "to_ascii_lowercase p ! length c = ascii_lower x"
    proof -
      have "to_ascii_lowercase p ! length c = to_ascii_lowercase (take (length p) (c @ r)) ! length c" using e by simp
      also have "\<dots> = ascii_lower (take (length p) (c @ r) ! length c)"
        unfolding to_ascii_lowercase_def using False len by (intro nth_map) simp
      finally show ?thesis using False r by (simp add: nth_append)
    qed
    moreover have "ascii_lower x = x" using assms(3) r by (auto simp: ascii_lower_def code_def)
    moreover have "to_ascii_lowercase p ! length c \<in> set (to_ascii_lowercase p)" using False by (intro nth_mem) simp
    ultimately have "x \<in> set (to_ascii_lowercase p)" by simp
    moreover have "list_all (\<lambda>q. blank \<notin> set q \<and> CHR '','' \<notin> set q) reserved_prefixes" by code_simp
    ultimately show False using assms(2,3) r by (auto simp: list_all_iff)
  qed
qed

lemma condition_text:
  assumes "ordinary_name c" "printable v"
  shows "utf8_valid (c @ '' = '' @ literal v)" "str_trim (c @ '' = '' @ literal v) = c @ '' = '' @ literal v"
proof -
  show u: "utf8_valid (c @ '' = '' @ literal v)"
    using name_valid [OF assms(1)] literal_valid [OF assms(2)] by (intro utf8_valid_append) (simp_all add: code_def)
  show "str_trim (c @ '' = '' @ literal v) = c @ '' = '' @ literal v"
    using name_char [OF assms(1), of "hd c"] name_ne [OF assms(1)] end_literal [OF assms(2)]
    by (intro trim_id u) (simp_all add: end_char_def)
qed

subsection \<open>The clauses of a query\<close>

lemma find_ci_lower: "to_ascii_lowercase k = n \<Longrightarrow> find_ci s k = str_find (to_ascii_lowercase s) n"
  by (simp add: find_ci_def)

lemma lower_phrases:
  "to_ascii_lowercase '' WHERE '' = '' where ''" "to_ascii_lowercase '' LIMIT '' = '' limit ''"
  "to_ascii_lowercase '' ORDER BY '' = '' order by ''" "to_ascii_lowercase '' GROUP BY '' = '' group by ''"
  "to_ascii_lowercase '' HAVING '' = '' having ''" "to_ascii_lowercase '' OFFSET '' = '' offset ''"
  "to_ascii_lowercase '' WINDOW '' = '' window ''" "to_ascii_lowercase '' FROM '' = '' from ''"
  "to_ascii_lowercase '' SET '' = '' set ''" "to_ascii_lowercase ''='' = ''=''"
  by code_simp+

definition source_sql :: "string \<Rightarrow> sql_filter option \<Rightarrow> nat option \<Rightarrow> string" where
  "source_sql tbl w l = tbl @ where_sql w @ limit_sql l"

lemma clause_start: "where_sql w = [] \<or> hd (where_sql w) = blank" "limit_sql l = [] \<or> hd (limit_sql l) = blank"
    "to_ascii_lowercase (where_sql w) = [] \<or> hd (to_ascii_lowercase (where_sql w)) = blank"
    "to_ascii_lowercase (limit_sql l) = [] \<or> hd (to_ascii_lowercase (limit_sql l)) = blank"
  by (auto simp: where_sql_def limit_sql_def lower_append lower_letters split: option.splits)

lemma source_quiet:
  assumes "ordinary_name tbl" "where_ok w" "blank # m \<in> set clause_phrases" "blank # m \<noteq> '' where ''" "blank # m \<noteq> '' limit ''"
  shows "str_find (to_ascii_lowercase (source_sql tbl w l)) (blank # m) = None"
proof -
  have "quiet (blank # m) (tbl @ to_ascii_lowercase (where_sql w) @ to_ascii_lowercase (limit_sql l))"
    using clause_start
    by (intro quiet_append quiet_word quiet_where quiet_limit assms plain_no_blank ordinary_plain) (auto simp: hd_append)
  then show ?thesis using assms(1) by (intro find_in_quiet) (simp_all add: source_sql_def lower_append)
qed

lemma source_where:
  assumes "ordinary_name tbl"
  shows "find_ci (source_sql tbl w l) '' WHERE '' = (if w = None then None else Some (length tbl))"
proof (cases w)
  case None
  have "quiet '' where '' (tbl @ to_ascii_lowercase (limit_sql l))"
    using clause_start
    by (intro quiet_append quiet_word quiet_limit plain_no_blank ordinary_plain assms) (simp_all add: clause_phrases_def)
  then have "str_find (tbl @ to_ascii_lowercase (limit_sql l)) '' where '' = None" by (rule find_in_quiet) simp
  then show ?thesis using None assms by (simp add: find_ci_lower [OF lower_phrases(1)] source_sql_def where_sql_def lower_append)
next
  case (Some f)
  have "quiet '' where '' tbl" by (intro quiet_word plain_no_blank ordinary_plain assms)
  then show ?thesis using Some assms find_after_quiet [of "''where ''" tbl]
    by (simp add: find_ci_lower [OF lower_phrases(1)] source_sql_def where_sql_def lower_append lower_letters lower_phrases(1) [unfolded lower_append])
qed

lemma source_limit:
  assumes "ordinary_name tbl" "where_ok w"
  shows "find_ci (source_sql tbl w l) '' LIMIT '' = (if l = None then None else Some (length tbl + length (where_sql w)))"
proof -
  have q: "quiet '' limit '' (tbl @ to_ascii_lowercase (where_sql w))"
    using clause_start
    by (intro quiet_append quiet_word quiet_where plain_no_blank ordinary_plain assms) (simp_all add: clause_phrases_def)
  show ?thesis
  proof (cases l)
    case None
    then show ?thesis using find_in_quiet [OF q] assms(1)
      by (simp add: find_ci_lower [OF lower_phrases(2)] source_sql_def limit_sql_def lower_append)
  next
    case (Some n)
    have "str_find ((tbl @ to_ascii_lowercase (where_sql w)) @ blank # ''limit '' @ show_nat n) '' limit '' =
        Some (length (tbl @ to_ascii_lowercase (where_sql w)))"
      by (rule find_after_quiet [OF q])
    then show ?thesis using Some assms(1)
      by (simp add: find_ci_lower [OF lower_phrases(2)] source_sql_def limit_sql_def lower_append lower_letters)
  qed
qed

lemma source_other:
  assumes "ordinary_name tbl" "where_ok w"
  shows "find_ci (source_sql tbl w l) '' ORDER BY '' = None" "find_ci (source_sql tbl w l) '' GROUP BY '' = None"
    "find_ci (source_sql tbl w l) '' HAVING '' = None" "find_ci (source_sql tbl w l) '' OFFSET '' = None"
    "find_ci (source_sql tbl w l) '' WINDOW '' = None"
  using source_quiet [OF assms]
  by (simp_all add: find_ci_lower [OF lower_phrases(3)] find_ci_lower [OF lower_phrases(4)] find_ci_lower [OF lower_phrases(5)]
      find_ci_lower [OF lower_phrases(6)] find_ci_lower [OF lower_phrases(7)] clause_phrases_def)

subsection \<open>Slices of a printed statement\<close>

lemma cut_append: "utf8_valid a \<Longrightarrow> utf8_valid b \<Longrightarrow> cut (a @ b) (length a)"
  by (simp add: cut_def)

lemma slice_parts:
  assumes "utf8_valid a" "utf8_valid b" "utf8_valid c"
  shows "slice (a @ b @ c) (length a) (length a + length b) = Ok b"
proof -
  have v: "utf8_valid (a @ b @ c)" using assms by (intro utf8_valid_append)
  have "cut (a @ b @ c) (length a)" using assms by (intro cut_append utf8_valid_append)
  moreover have "cut ((a @ b) @ c) (length (a @ b))" using assms by (intro cut_append utf8_valid_append)
  ultimately show ?thesis using slice_cut(1) [OF v, of "length a" "length a + length b"] by simp
qed

lemma slice_last: "utf8_valid a \<Longrightarrow> utf8_valid b \<Longrightarrow> slice_from (a @ b) (length a) = Ok b"
  using slice_parts [of a b "[]"] by simp

lemma slice_first: "utf8_valid a \<Longrightarrow> utf8_valid b \<Longrightarrow> slice_to (a @ b) (length a) = Ok a"
  using slice_parts [of "[]" a b] by simp

lemma split_whitespace_word:
  assumes "ordinary_name s"
  shows "split_whitespace s = [s]"
proof -
  have "utf8_chars s = map (\<lambda>c. [c]) s" using plain_text(1) ordinary_plain [OF assms] by (intro utf8_chars_ascii) blast
  moreover have "split_pred is_whitespace (map (\<lambda>c. [c]) s) = [map (\<lambda>c. [c]) s]"
    using name_char [OF assms] by (intro split_pred_none) auto
  ultimately show ?thesis using name_ne [OF assms] by (simp add: split_whitespace_def concat_map_singleton)
qed

lemma word_contains: "blank \<notin> set s \<Longrightarrow> \<not> contains s (blank # m)"
  using str_find_skip [of blank s "[]" m] by (simp add: contains_def)

lemma plain_source:
  assumes "ordinary_name tbl"
  shows "is_advanced_from tbl = False"
proof -
  have "CHR '','' \<notin> set tbl" "CHR ''('' \<notin> set tbl" using name_char [OF assms] by blast+
  then show ?thesis
    using word_contains [OF plain_no_blank] plain_text(3) ordinary_plain [OF assms] split_whitespace_word [OF assms] assms
    by (simp add: is_advanced_from_def)
qed

subsection \<open>Reading a condition\<close>

lemma parse_equality:
  assumes "ordinary_name c" "printable v"
  shows "parse_filter P (c @ '' = '' @ literal v) = Ok (Equals c v)"
proof -
  have "\<not> starts_with_ci (c @ '' = '' @ literal v) p" if "p = ''MATCH'' \<or> p = ''GEO_DISTANCE''" for p
  proof (rule name_prefix [OF assms(1)])
    show "to_ascii_lowercase p \<in> set reserved_prefixes" using that by (elim disjE; simp; code_simp)
  qed simp
  then show ?thesis
    using split_assignment [OF assms(1)] parse_value_space [OF literal_valid [OF assms(2)]] parse_value_literal [OF assms(2)]
      normalize_name [OF assms(1)]
    by (simp add: parse_filter_def)
qed

lemma split_search:
  assumes "ordinary_name c" "printable v"
  shows "split_top_level (c @ '', '' @ literal v) (CHR '','') = [c, literal v]"
proof -
  have q: "quote scan_start = None" by (simp add: scan_start_def)
  have d: "scan_delim (CHR '','') (CHR '','') scan_start" "\<not> scan_delim (CHR '','') blank scan_start" "scan_char blank scan_start = scan_start"
    using scan_plain [OF q, of blank] by (simp_all add: scan_delim_def scan_special_def scan_start_def)
  have "str_trim (blank # literal v) = literal v" using literal_ends [OF assms(2)] trim_space by simp
  then have "split_loop (CHR '','') scan_start [] (blank # literal v) = [literal v]"
    using split_literal [OF q, of "'' ''" v "[]"] d by simp
  moreover have "str_trim c = c" using plain_text(3) ordinary_plain [OF assms(1)] by blast
  moreover have "split_loop (CHR '','') scan_start [] (c @ '', '' @ literal v) = split_loop (CHR '','') scan_start c ('', '' @ literal v)"
    using split_plain [OF q, of c "CHR '',''" "[]"] name_char [OF assms(1)] by simp
  ultimately show ?thesis using d(1) by (simp add: split_top_level_def)
qed

lemma parse_search:
  assumes "ordinary_name c" "printable (Text q)"
  shows "parse_filter P (''MATCH('' @ c @ '', '' @ literal (Text q) @ '')'') = Ok (FullText c q)"
proof -
  define body where "body = c @ '', '' @ literal (Text q)"
  have b: "utf8_valid body"
    unfolding body_def by (intro utf8_valid_append name_valid [OF assms(1)] literal_valid [OF assms(2)]) (simp add: code_def)
  have p: "utf8_valid (''('' @ body @ '')'')" by (intro utf8_valid_append b) (simp_all add: code_def)
  have start: "starts_with_ci (''MATCH'' @ ''('' @ body @ '')'') ''MATCH''"
    by (simp add: starts_with_ci_def boundary_def is_cont_def code_def)
  have cut: "slice_from (''MATCH'' @ ''('' @ body @ '')'') (length ''MATCH'') = Ok (''('' @ body @ '')'')"
    by (rule slice_last [OF _ p]) (simp add: code_def)
  have trim: "str_trim (''('' @ body @ '')'') = ''('' @ body @ '')''"
    by (rule trim_id [OF p]) (simp_all add: is_whitespace_def code_def)
  have "slice (''('' @ body @ '')'') 1 (length (''('' @ body @ '')'') - 1) = Ok body"
    using slice_parts [of "''(''" body "'')''"] b by (simp add: code_def)
  then have "parenthesized_body (''('' @ body @ '')'') ''MATCH'' = Ok body"
    unfolding parenthesized_body_def trim Let_def by simp
  moreover have "split_top_level body (CHR '','') = [c, literal (Text q)]"
    unfolding body_def by (rule split_search [OF assms])
  ultimately have "parse_match P (''MATCH'' @ ''('' @ body @ '')'') = Ok (FullText c q)"
    unfolding parse_match_def cut rbind.simps
    using parse_value_literal [OF assms(2)] normalize_name(2) [OF assms(1)] by (simp del: literal.simps)
  then show ?thesis using start unfolding parse_filter_def by (simp add: body_def del: literal.simps)
qed

lemma parse_condition: "filter_ok f \<Longrightarrow> parse_filter P (condition_sql f) = Ok f"
  using parse_equality parse_search by (cases f) (simp_all del: literal.simps)

lemma plain_condition: "filter_ok f \<Longrightarrow> is_advanced_where_clause P (condition_sql f) = Ok False"
  using condition_ends [of f] parse_condition [of f] by (simp add: is_advanced_where_clause_def test_ok_def)

subsection \<open>The source of a query\<close>

lemma source_valid: "ordinary_name tbl \<Longrightarrow> where_ok w \<Longrightarrow> utf8_valid (source_sql tbl w l)"
  unfolding source_sql_def by (intro utf8_valid_append name_valid where_valid limit_valid)

lemma source_end:
  "position_or (min_pos [if w = None then None else Some (length tbl), None,
      if l = None then None else Some (length tbl + length (where_sql w))]) (length (source_sql tbl w l)) = length tbl"
  by (simp add: min_pos_def position_or_def source_sql_def map_filter_def where_sql_def limit_sql_def split: option.splits)

lemma source_table:
  assumes "ordinary_name tbl" "where_ok w"
  shows "slice_to (source_sql tbl w l) (length tbl) = Ok tbl"
  unfolding source_sql_def by (intro slice_first name_valid utf8_valid_append where_valid limit_valid assms)

lemma source_condition:
  assumes "ordinary_name tbl" "filter_ok f"
  shows "where_text (source_sql tbl (Some f) l) (length tbl) None
      (if l = None then None else Some (length tbl + length (where_sql (Some f)))) = Ok (condition_sql f)"
proof -
  let ?w = "'' WHERE ''" and ?c = "condition_sql f"
  note cond = condition_ends [OF assms(2)]
  have src: "source_sql tbl (Some f) l = (tbl @ ?w) @ ?c @ limit_sql l"
    by (simp add: source_sql_def where_sql_def)
  have "position_or (min_pos [after_pos (length tbl) None,
      after_pos (length tbl) (if l = None then None else Some (length tbl + length (where_sql (Some f))))])
      (length (source_sql tbl (Some f) l)) = length (tbl @ ?w) + length ?c"
    by (simp add: after_pos_def min_pos_def position_or_def map_filter_def source_sql_def where_sql_def limit_sql_def
        split: option.splits)
  moreover have "slice ((tbl @ ?w) @ ?c @ limit_sql l) (length (tbl @ ?w)) (length (tbl @ ?w) + length ?c) = Ok ?c"
    by (intro slice_parts utf8_valid_append limit_valid cond(1) name_valid [OF assms(1)]) (simp add: code_def)
  moreover have "length tbl + length ?w = length (tbl @ ?w)" by simp
  ultimately show ?thesis using cond(5) unfolding where_text_def src by (simp only: rbind.simps)
qed

lemma source_plain:
  assumes "ordinary_name tbl" "where_ok w"
  shows "is_advanced_clauses P (source_sql tbl w l) = Ok False"
proof -
  note find = source_where [OF assms(1)] source_other(1) [OF assms] source_limit [OF assms]
  have start: "is_advanced_clauses P (source_sql tbl w l) =
      rbind (case if w = None then None else Some (length tbl) of
          None \<Rightarrow> Ok False
        | Some pos \<Rightarrow> rbind (where_text (source_sql tbl w l) pos None
            (if l = None then None else Some (length tbl + length (where_sql w)))) (is_advanced_where_clause P))
        (\<lambda>x. if x then Ok True else Ok False)"
    unfolding is_advanced_clauses_def Let_def find source_end source_table [OF assms] rbind.simps plain_source [OF assms(1)] if_False
      option.simps(4) ..
  show ?thesis
  proof (cases w)
    case (Some f)
    have ok: "filter_ok f" using assms(2) Some by (simp add: where_ok_def)
    have "where_text (source_sql tbl w l) (length tbl) None
        (if l = None then None else Some (length tbl + length (where_sql w))) = Ok (condition_sql f)"
      unfolding Some by (rule source_condition [OF assms(1) ok])
    with plain_condition [OF ok] show ?thesis unfolding start by (simp only: Some option.simps if_False rbind.simps)
  next
    case None
    show ?thesis unfolding start by (simp add: None)
  qed
qed

definition limit_ok :: "nat option \<Rightarrow> bool" where
  "limit_ok l \<longleftrightarrow> (case l of None \<Rightarrow> True | Some n \<Rightarrow> n < 2 ^ 64)"

lemma source_limit_value:
  assumes "ordinary_name tbl" "where_ok w" "n < 2 ^ 64"
  shows "rbind (slice_from (source_sql tbl w (Some n)) (length tbl + length (where_sql w) + length '' LIMIT '')) (\<lambda>t.
      rbind (ok_or e (parse_unsigned 64 10 (str_trim t))) (\<lambda>k. Ok (Some k))) = Ok (Some n)"
proof -
  let ?p = "tbl @ where_sql w @ '' LIMIT ''"
  have "ascii (show_nat n)" using show_nat_codes [of _ n] by (force simp: ascii_def)
  then have v: "utf8_valid (show_nat n)" by (rule ascii_utf8_valid)
  have src: "source_sql tbl w (Some n) = ?p @ show_nat n" by (simp add: source_sql_def limit_sql_def)
  have len: "length tbl + length (where_sql w) + length '' LIMIT '' = length ?p" by simp
  have "slice_from (?p @ show_nat n) (length ?p) = Ok (show_nat n)"
    by (intro slice_last utf8_valid_append where_valid v assms(2) name_valid [OF assms(1)]) (simp add: code_def)
  moreover have "str_trim (show_nat n) = show_nat n"
    using show_nat_codes [of "hd (show_nat n)" n] show_nat_word [of n] end_limit [of n]
    by (intro trim_id v) (auto simp: end_char_def is_whitespace_def code_def)
  moreover have "parse_unsigned 64 10 (show_nat n) = Some n" using assms(3) by (intro parse_unsigned_show) simp_all
  ultimately show ?thesis unfolding src len by (simp only: rbind.simps ok_or_simps)
qed

lemma parse_source:
  assumes "ordinary_name tbl" "where_ok w" "limit_ok l"
  shows "parse_clauses P (source_sql tbl w l) = Ok (tbl, w, None, l)"
proof -
  note find = source_where [OF assms(1)] source_other(1) [OF assms(1,2)] source_limit [OF assms(1,2)]
  have cond: "(case if w = None then None else Some (length tbl) of
        None \<Rightarrow> Ok None
      | Some pos \<Rightarrow> rbind (where_text (source_sql tbl w l) pos None
          (if l = None then None else Some (length tbl + length (where_sql w)))) (\<lambda>t. rbind (parse_filter P t) (\<lambda>f. Ok (Some f))))
      = Ok w"
  proof (cases w)
    case (Some f)
    have ok: "filter_ok f" using assms(2) Some by (simp add: where_ok_def)
    show ?thesis by (simp only: Some option.simps if_False source_condition [OF assms(1) ok] rbind.simps parse_condition [OF ok])
  qed simp
  have lim: "(case if l = None then None else Some (length tbl + length (where_sql w)) of
        None \<Rightarrow> Ok None
      | Some pos \<Rightarrow> rbind (slice_from (source_sql tbl w l) (pos + length '' LIMIT '')) (\<lambda>t.
          rbind (ok_or (Parse ''LIMIT requires a non-negative integer'') (parse_unsigned 64 10 (str_trim t))) (\<lambda>n. Ok (Some n))))
      = Ok l"
  proof (cases l)
    case (Some n)
    then show ?thesis using source_limit_value [OF assms(1,2)] assms(3) unfolding limit_ok_def by (simp del: list.size)
  qed simp
  show ?thesis
    unfolding parse_clauses_def Let_def find source_end cond lim rbind.simps option.case source_table [OF assms(1,2)]
      normalize_name(2) [OF assms(1)] by simp
qed

subsection \<open>Queries\<close>

definition projection_sql :: "projection \<Rightarrow> string" where
  "projection_sql p = (case p of AllColumns \<Rightarrow> ''*'' | Columns cs \<Rightarrow> join '','' cs)"

definition projection_ok :: "projection \<Rightarrow> bool" where
  "projection_ok p = (case p of AllColumns \<Rightarrow> True | Columns cs \<Rightarrow> cs \<noteq> [] \<and> list_all ordinary_name cs)"

lemma split_names:
  "cs \<noteq> [] \<Longrightarrow> list_all ordinary_name cs \<Longrightarrow> split_loop (CHR '','') scan_start [] (join '','' cs) = cs"
proof (induction cs)
  case (Cons c cs)
  have c: "ordinary_name c" using Cons.prems by simp
  have sep: "split_loop (CHR '','') scan_start [] (c @ rest) = split_loop (CHR '','') scan_start c rest" for rest
    using split_plain [of scan_start c "CHR '',''" "[]" rest] name_char [OF c] by (auto simp: scan_start_def)
  have trim: "str_trim c = c" using plain_text(3) ordinary_plain [OF c] by blast
  have d: "scan_delim (CHR '','') (CHR '','') scan_start" by (simp add: scan_delim_def scan_start_def scan_special_def)
  show ?case
  proof (cases cs)
    case Nil
    then show ?thesis using sep [of "[]"] trim by simp
  next
    case (Cons e es)
    then show ?thesis using sep trim d Cons.IH Cons.prems by simp
  qed
qed simp

lemma names_chars: "list_all ordinary_name cs \<Longrightarrow> x \<in> set (join '','' cs) \<Longrightarrow> x = CHR '','' \<or> (\<exists>c \<in> set cs. x \<in> set c)"
  by (induction "'',''" cs rule: join.induct) auto

lemma names_plain:
  assumes "list_all ordinary_name cs" "x \<in> set (join '','' cs)"
  shows "code x < 128 \<and> \<not> is_whitespace [x] \<and> x \<noteq> blank \<and> x \<noteq> CHR ''('' \<and> x \<noteq> CHR ''*'' \<and> ascii_lower x = x"
  using names_chars [OF assms]
proof
  assume "x = CHR '',''"
  then show ?thesis by (simp add: is_whitespace_def code_def lower_letters)
next
  assume "\<exists>c \<in> set cs. x \<in> set c"
  then obtain c where c: "ordinary_name c" "x \<in> set c" using assms(1) by (auto simp: list_all_iff)
  then show ?thesis using name_char [OF c] plain_char [OF ordinary_plain [OF c(1)] c(2)] by simp
qed

lemma projection_plain:
  assumes "projection_ok p" "x \<in> set (projection_sql p)"
  shows "code x < 128 \<and> \<not> is_whitespace [x] \<and> x \<noteq> blank \<and> x \<noteq> CHR ''('' \<and> ascii_lower x = x"
proof (cases p)
  case AllColumns
  then show ?thesis using assms(2) by (simp add: projection_sql_def is_whitespace_def code_def lower_letters)
next
  case (Columns cs)
  then show ?thesis using assms names_plain [of cs x] by (simp add: projection_sql_def projection_ok_def)
qed

lemma projection_text:
  assumes "projection_ok p"
  shows "projection_sql p \<noteq> []" "ascii (projection_sql p)" "to_ascii_lowercase (projection_sql p) = projection_sql p"
    "str_trim (projection_sql p) = projection_sql p" "blank \<notin> set (projection_sql p)" "utf8_valid (projection_sql p)"
proof -
  show ne: "projection_sql p \<noteq> []"
  proof (cases p)
    case (Columns cs)
    then obtain c es where "cs = c # es" "ordinary_name c" using assms by (cases cs) (auto simp: projection_ok_def)
    then show ?thesis using Columns name_ne [of c] by (cases es) (simp_all add: projection_sql_def)
  qed (simp add: projection_sql_def)
  note plain = projection_plain [OF assms]
  show a: "ascii (projection_sql p)" using plain by (simp add: ascii_def)
  show "to_ascii_lowercase (projection_sql p) = projection_sql p"
    unfolding to_ascii_lowercase_def using plain by (intro map_idI) blast
  show "str_trim (projection_sql p) = projection_sql p" using plain ne by (intro str_trim_ascii a) auto
  show "blank \<notin> set (projection_sql p)" using plain by blast
  show "utf8_valid (projection_sql p)" by (rule ascii_utf8_valid [OF a])
qed

lemma parse_projection_sql:
  assumes "projection_ok p"
  shows "parse_projection (projection_sql p) = Ok p"
proof (cases p)
  case AllColumns
  then show ?thesis using projection_text(4) [OF assms] by (simp add: parse_projection_def projection_sql_def)
next
  case (Columns cs)
  have cs: "cs \<noteq> []" "list_all ordinary_name cs" using assms Columns by (simp_all add: projection_ok_def)
  have "projection_sql p \<noteq> ''*''"
    using names_plain [OF cs(2), of "CHR ''*''"] Columns by (auto simp: projection_sql_def)
  moreover have "split_top_level (projection_sql p) (CHR '','') = cs"
    using split_names [OF cs] Columns by (simp add: split_top_level_def projection_sql_def)
  moreover have "map normalize_identifier cs = cs" using cs(2) normalize_name(2) by (intro map_idI) (simp add: list_all_iff)
  moreover have "\<not> list_ex (\<lambda>c. c = []) cs" using cs(2) name_ne by (auto simp: list_ex_iff list_all_iff)
  ultimately show ?thesis using projection_text(4) [OF assms] Columns by (simp add: parse_projection_def)
qed

lemma plain_projection:
  assumes "projection_ok p"
  shows "is_advanced_projection (projection_sql p) = False"
proof -
  have "CHR ''('' \<notin> set (projection_sql p)" using projection_plain [OF assms] by blast
  then show ?thesis using projection_text [OF assms] word_contains [of "projection_sql p"]
    by (simp add: is_advanced_projection_def)
qed

definition select_sql :: "string \<Rightarrow> projection \<Rightarrow> sql_filter option \<Rightarrow> nat option \<Rightarrow> string" where
  "select_sql tbl p w l = ''SELECT '' @ projection_sql p @ '' FROM '' @ source_sql tbl w l"

lemma select_rest:
  fixes l :: "nat option"
  assumes "ordinary_name tbl" "projection_ok p" "where_ok w"
  defines "rest \<equiv> projection_sql p @ '' FROM '' @ source_sql tbl w l"
  shows "utf8_valid rest" "str_trim rest = rest" "find_ci rest '' FROM '' = Some (length (projection_sql p))"
    "\<not> starts_with_ci rest ''DISTINCT''" "\<not> starts_with_ci rest ''ALL''"
    "m \<in> {''union '', ''intersect '', ''except '', ''window ''} \<Longrightarrow> \<not> contains (to_ascii_lowercase rest) (blank # m)"
proof -
  note proj = projection_text [OF assms(2)]
  have src: "source_sql tbl w l \<noteq> []" "end_char (last (source_sql tbl w l))"
    using end_clauses(1) [OF assms(3) end_name name_ne, OF assms(1) assms(1)] name_ne [OF assms(1)] by (simp_all add: source_sql_def)
  show v: "utf8_valid rest"
    unfolding rest_def by (intro utf8_valid_append proj(6) source_valid assms(1,3)) (simp add: code_def)
  show "str_trim rest = rest"
    using proj(1) src projection_plain [OF assms(2), of "hd (projection_sql p)"]
    by (intro trim_id v) (simp_all add: rest_def end_char_def)
  have "str_find (projection_sql p @ blank # ''from '' @ to_ascii_lowercase (source_sql tbl w l)) '' from '' = Some (length (projection_sql p))"
    by (rule find_after_quiet) (rule quiet_word [OF proj(5)])
  then show "find_ci rest '' FROM '' = Some (length (projection_sql p))"
    using proj(3) by (simp add: find_ci_lower [OF lower_phrases(8)] rest_def lower_append lower_letters)
  have "\<not> starts_with_ci rest k" if k: "k = ''DISTINCT'' \<or> k = ''ALL''" for k
  proof (cases p)
    case AllColumns
    then show ?thesis using k by (auto simp: rest_def projection_sql_def other_first lower_letters)
  next
    case (Columns cs)
    then obtain c es where cs: "cs = c # es" "ordinary_name c" using assms(2) by (cases cs) (auto simp: projection_ok_def)
    have "\<exists>r. rest = c @ r \<and> (hd r = blank \<or> hd r = CHR '','')"
      using cs Columns by (cases es) (simp_all add: rest_def projection_sql_def)
    moreover have "to_ascii_lowercase k \<in> set reserved_prefixes" using k by (elim disjE; simp; code_simp)
    ultimately show ?thesis using name_prefix [OF cs(2)] by metis
  qed
  then show "\<not> starts_with_ci rest ''DISTINCT''" "\<not> starts_with_ci rest ''ALL''" by blast+
  assume m: "m \<in> {''union '', ''intersect '', ''except '', ''window ''}"
  then have cl: "blank # m \<in> set clause_phrases" "blank # m \<noteq> '' where ''" "blank # m \<noteq> '' limit ''" "blank # m \<noteq> '' from ''"
    by (auto simp: clause_phrases_def)
  have "quiet (blank # m) (projection_sql p @ '' from'' @ (blank # tbl) @ to_ascii_lowercase (where_sql w) @ to_ascii_lowercase (limit_sql l))"
  proof (intro quiet_append)
    show "quiet (blank # m) (projection_sql p)" by (rule quiet_word [OF proj(5)])
    show "quiet (blank # m) '' from''" using cl by (intro quiet_other) (simp_all add: clause_phrases_def)
    show "quiet (blank # m) (blank # tbl)" by (rule quiet_name [OF assms(1) cl(1)])
    show "quiet (blank # m) (to_ascii_lowercase (where_sql w))" by (rule quiet_where [OF assms(3) cl(1,2)])
    show "quiet (blank # m) (to_ascii_lowercase (limit_sql l))" by (rule quiet_limit [OF cl(1,3)])
  qed (use clause_start in \<open>auto simp: hd_append\<close>)
  then show "\<not> contains (to_ascii_lowercase rest) (blank # m)"
    using find_in_quiet proj(3) assms(1)
    by (simp add: contains_def rest_def source_sql_def lower_append lower_letters)
qed

lemma select_parses:
  assumes "ordinary_name tbl" "projection_ok p" "where_ok w" "limit_ok l"
  shows "parse_sql_with_dialect P (select_sql tbl p w l) d = Ok (Select tbl p w None l)"
proof -
  define rest where "rest = projection_sql p @ '' FROM '' @ source_sql tbl w l"
  note rest = select_rest [OF assms(1-3), where l = l, folded rest_def]
  note proj = projection_text [OF assms(2)]
  have sql: "select_sql tbl p w l = ''SELECT '' @ rest" by (simp add: select_sql_def rest_def)
  have v: "utf8_valid (''SELECT '' @ rest)" using rest(1) by (intro utf8_valid_append) (simp_all add: code_def)
  have src: "source_sql tbl w l \<noteq> []" "end_char (last (source_sql tbl w l))" "end_char (hd (source_sql tbl w l))"
    using end_clauses(1) [OF assms(3) end_name name_ne, OF assms(1) assms(1)] name_ne [OF assms(1)] name_char [OF assms(1), of "hd tbl"]
    by (simp_all add: source_sql_def end_char_def)
  have ne: "rest \<noteq> []" by (simp add: rest_def)
  have pre: "slice_from (''SELECT '' @ rest) (length ''SELECT'') = Ok (blank # rest)"
    using slice_last [of "''SELECT''" "blank # rest"] rest(1) by (simp add: utf8_valid_ascii code_def)
  have rest_trim: "str_trim (blank # rest) = rest" using trim_space [OF rest(1)] rest(2) by simp
  have to: "slice_to rest (length (projection_sql p)) = Ok (projection_sql p)"
    unfolding rest_def by (intro slice_first proj(6) utf8_valid_append source_valid assms(1,3)) (simp add: code_def)
  have after: "slice_from rest (length (projection_sql p) + length '' FROM '') = Ok (source_sql tbl w l)"
    using slice_last [of "projection_sql p @ '' FROM ''" "source_sql tbl w l"] source_valid [OF assms(1,3)] proj(6)
    by (simp add: rest_def utf8_valid_append utf8_valid_ascii code_def)
  have src_trim: "str_trim (source_sql tbl w l) = source_sql tbl w l"
    using src by (intro trim_id source_valid assms(1,3)) (simp_all add: end_char_def)
  have no: "contains (to_ascii_lowercase rest) '' union '' = False" "contains (to_ascii_lowercase rest) '' intersect '' = False"
    "contains (to_ascii_lowercase rest) '' except '' = False" "contains (to_ascii_lowercase rest) '' window '' = False"
    using rest(6) by blast+
  note other = source_other [OF assms(1,3)]
  have "is_advanced_select P (''SELECT '' @ rest) = Ok False"
    unfolding is_advanced_select_def Let_def pre rbind.simps rest_trim rest(3) option.case to after src_trim
      plain_projection [OF assms(2)] no source_plain [OF assms(1,3)]
    using ne rest(4,5) other by simp
  moreover have "parse_select P (''SELECT '' @ rest) = Ok (Select tbl p w None l)"
    unfolding parse_select_def Let_def pre rbind.simps rest_trim rest(3) ok_or_simps to after src_trim
      parse_projection_sql [OF assms(2)] parse_source [OF assms(1,3,4)] by simp
  moreover have "parse_sql_with_dialect P (''SELECT '' @ rest) d = parse_plain P (''SELECT '' @ rest) d"
    using parse_entry [of "CHR ''S''" "''ELECT '' @ rest"] v src(1,2)
    by (simp add: rest_def is_whitespace_def code_def lower_letters end_char_def)
  ultimately show ?thesis unfolding sql by (simp add: dispatch_select del: append.simps)
qed

end
