(* ===== verification/Parser_Rows.thy ===== *)
theory Parser_Rows
  imports Parser_Select
begin

section \<open>UPDATE and DELETE parse back\<close>

text \<open>
  The reference printer for \<^verbatim>\<open>DELETE\<close> and \<^verbatim>\<open>UPDATE\<close> statements with a condition, and the proof that the parser reads
  back what it prints: where each clause is found, that none of the searches for unsupported clauses succeeds, and
  that the assignments are split at the commas between them and not at those inside literals.
\<close>

subsection \<open>DELETE\<close>

definition delete_sql :: "string \<Rightarrow> sql_filter option \<Rightarrow> string" where
  "delete_sql tbl w = ''DELETE FROM '' @ source_sql tbl w None"

lemma source_ends:
  assumes "ordinary_name tbl" "where_ok w"
  shows "source_sql tbl w l \<noteq> []" "end_char (last (source_sql tbl w l))" "end_char (hd (source_sql tbl w l))"
    "str_trim (source_sql tbl w l) = source_sql tbl w l"
proof -
  show src: "source_sql tbl w l \<noteq> []" "end_char (last (source_sql tbl w l))" "end_char (hd (source_sql tbl w l))"
    using end_clauses(1) [OF assms(2) end_name name_ne, OF assms(1) assms(1)] name_ne [OF assms(1)] name_char [OF assms(1), of "hd tbl"]
    by (simp_all add: source_sql_def end_char_def)
  show "str_trim (source_sql tbl w l) = source_sql tbl w l"
    using src by (intro trim_id source_valid assms) (simp_all add: end_char_def)
qed

text \<open>The rest of a statement after its keyword.\<close>

lemma keyword_rest:
  assumes "utf8_valid r" "ascii k"
  shows "rbind (slice_from (k @ blank # r) (length k)) f = f (blank # r)"
proof -
  have "slice_from (k @ (blank # r)) (length k) = Ok (blank # r)"
    using assms(1) by (intro slice_last [OF ascii_utf8_valid [OF assms(2)]]) (simp add: utf8_valid_ascii code_def)
  then show ?thesis by simp
qed

lemma trim_rest: "utf8_valid r \<Longrightarrow> str_trim r = r \<Longrightarrow> str_trim (blank # r) = r"
  by (simp add: trim_space)

lemma entry_after:
  assumes "utf8_valid r" "r \<noteq> []" "end_char (last r)" "ascii (c # k)" "\<not> is_whitespace [c]" "ascii_lower c \<noteq> CHR ''e''"
  shows "parse_sql_with_dialect P (c # k @ r) d = parse_plain P (c # k @ r) d"
  using assms utf8_valid_append [of "c # k" r] ascii_utf8_valid [of "c # k"]
  by (intro parse_entry) (auto simp: end_char_def)

lemma where_condition:
  assumes "ordinary_name tbl" "filter_ok f"
  shows "slice_from (source_sql tbl (Some f) None) (length tbl + length '' WHERE '') = Ok (condition_sql f)"
proof -
  have "slice_from ((tbl @ '' WHERE '') @ condition_sql f) (length (tbl @ '' WHERE '')) = Ok (condition_sql f)"
    by (intro slice_last utf8_valid_append [OF name_valid [OF assms(1)]] condition_ends(1) [OF assms(2)]) (simp add: code_def)
  moreover have "length tbl + length '' WHERE '' = length (tbl @ '' WHERE '')" by simp
  ultimately show ?thesis by (simp only: source_sql_def where_sql_def limit_sql_def option.case append_assoc append_Nil2)
qed

lemma delete_parses:
  assumes "ordinary_name tbl" "where_ok w"
  shows "parse_sql_with_dialect P (delete_sql tbl w) d = Ok (Delete tbl w)"
proof -
  let ?r = "source_sql tbl w None"
  note src = source_ends [OF assms, of None] and v = source_valid [OF assms, of None]
  note rest = trim_rest [OF v src(4)]
  have no: "\<not> contains (to_ascii_lowercase ?r) p" if "p \<in> {'' returning '', '' order by '', '' limit '', '' using ''}" for p
  proof -
    have "hd p = blank" "p \<noteq> []" using that by auto
    then obtain m where p: "p = blank # m" by (cases p) auto
    then have m: "blank # m \<in> set clause_phrases" "blank # m \<noteq> '' where ''"
      using that by (auto simp: clause_phrases_def)
    have "quiet (blank # m) (tbl @ to_ascii_lowercase (where_sql w))"
      using clause_start by (intro quiet_append quiet_word quiet_where assms m plain_no_blank ordinary_plain) auto
    then show ?thesis using find_in_quiet assms(1) p by (simp add: contains_def source_sql_def limit_sql_def lower_append)
  qed
  note no = no [of "'' returning ''"] no [of "'' order by ''"] no [of "'' limit ''"] no [of "'' using ''"]
  note pos = source_where [OF assms(1), of w None]
  have tbl: "(case if w = None then None else Some (length tbl) of None \<Rightarrow> Ok ?r | Some pos \<Rightarrow> slice_to ?r pos) = Ok tbl"
    using source_table [OF assms, of None] by (cases w) (simp_all add: source_sql_def where_sql_def limit_sql_def)
  have tt: "str_trim tbl = tbl" using plain_text(3) ordinary_plain [OF assms(1)] by blast
  have start: "rbind (slice_from (''DELETE FROM '' @ ?r) (length ''DELETE FROM'')) f = f (blank # ?r)" for f :: "string \<Rightarrow> 'b result"
    using keyword_rest [OF v, of "''DELETE FROM''"] by (simp add: code_def del: length_append)
  have adv: "is_advanced_delete P (''DELETE FROM '' @ ?r) = Ok False"
  proof (cases w)
    case None
    then show ?thesis
      unfolding is_advanced_delete_def start Let_def rest pos tbl rbind.simps tt plain_source [OF assms(1)] using src(1) no by simp
  next
    case (Some f)
    have ok: "filter_ok f" using assms(2) Some by (simp add: where_ok_def)
    note cond = condition_ends(5) [OF ok] plain_condition [OF ok]
    show ?thesis
      unfolding is_advanced_delete_def start Let_def rest pos tbl rbind.simps tt plain_source [OF assms(1)]
      using src(1) no where_condition [OF assms(1) ok] cond Some by (simp del: length_append list.size)
  qed
  have del: "parse_delete P (''DELETE FROM '' @ ?r) = Ok (Delete tbl w)"
  proof (cases w)
    case None
    then show ?thesis
      unfolding parse_delete_def start Let_def rest pos tbl rbind.simps normalize_name(2) [OF assms(1)]
      using name_ne [OF assms(1)] by simp
  next
    case (Some f)
    have ok: "filter_ok f" using assms(2) Some by (simp add: where_ok_def)
    note cond = condition_ends(5) [OF ok] parse_condition [OF ok]
    show ?thesis
      unfolding parse_delete_def start Let_def rest pos tbl rbind.simps normalize_name(2) [OF assms(1)]
      using name_ne [OF assms(1)] where_condition [OF assms(1) ok] cond Some by (simp del: length_append list.size)
  qed
  have "parse_sql_with_dialect P (''DELETE FROM '' @ ?r) d = parse_plain P (''DELETE FROM '' @ ?r) d"
    using entry_after [OF v src(1,2), of "CHR ''D''" "''ELETE FROM ''"] by (simp add: code_def is_whitespace_def lower_letters)
  then show ?thesis unfolding delete_sql_def by (simp add: dispatch_delete adv del del: append.simps)
qed

subsection \<open>UPDATE\<close>

fun more_assignments :: "(string \<times> sql_value) list \<Rightarrow> string" where
  "more_assignments [] = []"
| "more_assignments ((c, v) # asg) = '','' @ c @ '' = '' @ literal v @ more_assignments asg"

definition assignments_sql :: "(string \<times> sql_value) list \<Rightarrow> string" where
  "assignments_sql asg = tl (more_assignments asg)"

definition assignment_ok :: "string \<times> sql_value \<Rightarrow> bool" where
  "assignment_ok e \<longleftrightarrow> ordinary_name (fst e) \<and> printable (snd e) \<and> quiet_value (snd e)"

abbreviation assignment_sql :: "string \<times> sql_value \<Rightarrow> string" where
  "assignment_sql e \<equiv> fst e @ '' = '' @ literal (snd e)"

lemma assignments_Cons: "assignments_sql ((c, v) # asg) = c @ '' = '' @ literal v @ more_assignments asg"
  by (simp add: assignments_sql_def)

lemma more_valid: "list_all assignment_ok asg \<Longrightarrow> utf8_valid (more_assignments asg)"
proof (induction asg rule: more_assignments.induct)
  case (2 c v asg)
  have ok: "ordinary_name c" "printable v" using 2(2) by (simp_all add: assignment_ok_def)
  have "utf8_valid ('','' @ (c @ '' = '' @ literal v) @ more_assignments asg)"
    using 2 by (intro utf8_valid_append [OF _ utf8_valid_append] condition_text(1) [OF ok]) (simp_all add: code_def)
  then show ?case by simp
qed simp

lemma more_end: "list_all assignment_ok asg \<Longrightarrow> end_char (last s) \<Longrightarrow> s \<noteq> [] \<Longrightarrow> end_char (last (s @ more_assignments asg))"
proof (induction asg arbitrary: s rule: more_assignments.induct)
  case (2 c v asg)
  then have "printable v" by (simp add: assignment_ok_def)
  from end_literal [OF this] 2 show ?case by (simp add: assignment_ok_def last_append)
qed simp

lemma quiet_more:
  assumes "blank # m \<in> set clause_phrases"
  shows "printable v \<Longrightarrow> quiet_value v \<Longrightarrow> list_all assignment_ok asg \<Longrightarrow>
    quiet (blank # m) (to_ascii_lowercase ('' = '' @ literal v @ more_assignments asg))"
proof (induction asg arbitrary: v rule: more_assignments.induct)
  case 1
  have "quiet (blank # m) ('' ='' @ blank # to_ascii_lowercase (literal v) @ [])"
    using 1 assms by (intro quiet_append quiet_sign quiet_literal) (simp_all add: code_def)
  then show ?case by (simp add: lower_append lower_letters)
next
  case (2 c u asg)
  have a: "assignment_ok (c, u)" "list_all assignment_ok asg" using 2(4) by simp_all
  then have ok: "ordinary_name c" "printable u" "quiet_value u" by (simp_all add: assignment_ok_def)
  have "quiet (blank # m) ('' ='' @ (blank # to_ascii_lowercase (literal v) @ CHR '','' # c) @
      to_ascii_lowercase ('' = '' @ literal u @ more_assignments asg))"
  proof (intro quiet_append)
    show "quiet (blank # m) '' =''" using assms by (intro quiet_sign) (simp_all add: code_def)
    show "quiet (blank # m) (blank # to_ascii_lowercase (literal v) @ CHR '','' # c)"
      using name_char [OF ok(1)] by (intro quiet_literal 2 assms) auto
    show "quiet (blank # m) (to_ascii_lowercase ('' = '' @ literal u @ more_assignments asg))" by (rule 2(1) [OF ok(2,3) a(2)])
  qed (simp_all add: lower_append lower_letters)
  then show ?case using ok(1) by (simp add: lower_append lower_letters)
qed

lemma split_assignments:
  assumes "list_all assignment_ok asg"
  shows "assignment_ok (c, v) \<Longrightarrow> split_loop (CHR '','') scan_start [] (c @ '' = '' @ literal v @ more_assignments asg) =
      map assignment_sql ((c, v) # asg)"
  using assms
proof (induction asg arbitrary: c v rule: more_assignments.induct)
  case (1 c v)
  have ok: "ordinary_name c" "printable v" using 1 by (simp_all add: assignment_ok_def)
  have q: "quote scan_start = None" by (simp add: scan_start_def)
  have "split_loop (CHR '','') scan_start [] ((c @ '' = '') @ literal v @ []) = split_loop (CHR '','') scan_start (c @ '' = '') (literal v @ [])"
    using name_char [OF ok(1)] split_plain [OF q, of "c @ '' = ''" "CHR '',''" "[]"] by (auto simp: scan_special_def)
  also have "\<dots> = split_loop (CHR '','') scan_start ((c @ '' = '') @ literal v) []" by (rule split_literal [OF q])
  finally show ?case using condition_text(2) [OF ok] by simp
next
  case (2 e u asg c v)
  have ok: "ordinary_name c" "printable v" using 2 by (simp_all add: assignment_ok_def)
  have q: "quote scan_start = None" by (simp add: scan_start_def)
  have d: "scan_delim (CHR '','') (CHR '','') scan_start" by (simp add: scan_delim_def scan_start_def scan_special_def)
  let ?m = "e @ '' = '' @ literal u @ more_assignments asg"
  have "split_loop (CHR '','') scan_start [] ((c @ '' = '') @ literal v @ CHR '','' # ?m) =
      split_loop (CHR '','') scan_start (c @ '' = '') (literal v @ CHR '','' # ?m)"
    using name_char [OF ok(1)] split_plain [OF q, of "c @ '' = ''" "CHR '',''" "[]"] by (auto simp: scan_special_def)
  also have "\<dots> = split_loop (CHR '','') scan_start ((c @ '' = '') @ literal v) (CHR '','' # ?m)" by (rule split_literal [OF q])
  finally show ?case using condition_text(2) [OF ok] d 2 by simp
qed

lemma parse_assignments:
  assumes "list_all assignment_ok asg"
  shows "advanced_assignments P (map assignment_sql asg) = Ok None" "rmap (parse_assignment P) (map assignment_sql asg) = Ok asg"
proof -
  have one: "split_once_top_level (assignment_sql e) (CHR ''='') = Some (fst e @ '' '', blank # literal (snd e)) \<and>
      parse_value P (blank # literal (snd e)) = Ok (snd e) \<and> normalize_identifier (fst e @ '' '') = fst e"
    if "assignment_ok e" for e
    using that split_assignment [of "fst e" "literal (snd e)"] parse_value_space [OF literal_valid] parse_value_literal normalize_name(1)
    by (simp add: assignment_ok_def)
  show "advanced_assignments P (map assignment_sql asg) = Ok None"
    using assms
  proof (induction asg)
    case (Cons e asg)
    then show ?case using one [of e] by (simp add: test_ok_def)
  qed simp
  have "parse_assignment P (assignment_sql e) = Ok e" if "assignment_ok e" for e
    using one [OF that] by (simp add: parse_assignment_def)
  then show "rmap (parse_assignment P) (map assignment_sql asg) = Ok asg"
    using rmap_map_Ok [of asg "parse_assignment P" assignment_sql id] assms by (simp add: list_all_iff)
qed

definition update_sql :: "string \<Rightarrow> (string \<times> sql_value) list \<Rightarrow> sql_filter option \<Rightarrow> string" where
  "update_sql tbl asg w = ''UPDATE '' @ tbl @ '' SET '' @ assignments_sql asg @ where_sql w"

lemma assignments_text:
  assumes "asg \<noteq> []" "list_all assignment_ok asg"
  shows "utf8_valid (assignments_sql asg)" "assignments_sql asg \<noteq> []" "end_char (hd (assignments_sql asg))"
    "end_char (last (assignments_sql asg))" "str_trim (assignments_sql asg) = assignments_sql asg"
    "blank # m \<in> set clause_phrases \<Longrightarrow> quiet (blank # m) (to_ascii_lowercase (assignments_sql asg))"
    "blank # m \<in> set clause_phrases \<Longrightarrow> quiet (blank # m) (blank # to_ascii_lowercase (assignments_sql asg))"
proof -
  obtain c v es where asg: "asg = (c, v) # es" using assms(1) by (cases asg) auto
  have a: "assignment_ok (c, v)" "list_all assignment_ok es" using assms(2) asg by simp_all
  then have ok: "ordinary_name c" "printable v" "quiet_value v" "list_all assignment_ok es" by (simp_all add: assignment_ok_def)
  have form: "assignments_sql asg = c @ '' = '' @ literal v @ more_assignments es" unfolding asg by (rule assignments_Cons)
  show v: "utf8_valid (assignments_sql asg)"
    unfolding form by (intro utf8_valid_append [OF name_valid [OF ok(1)]] utf8_valid_append literal_valid more_valid ok) (simp add: code_def)
  show ne: "assignments_sql asg \<noteq> []" unfolding form by simp
  show h: "end_char (hd (assignments_sql asg))"
    unfolding form using name_char [OF ok(1), of "hd c"] name_ne [OF ok(1)] by (simp add: end_char_def)
  show l: "end_char (last (assignments_sql asg))"
    unfolding form using more_end [OF ok(4), of "c @ '' = '' @ literal v"] end_literal [OF ok(2)] by simp
  show "str_trim (assignments_sql asg) = assignments_sql asg" using h l ne by (intro trim_id v) (simp_all add: end_char_def)
  assume m: "blank # m \<in> set clause_phrases"
  have low: "to_ascii_lowercase (assignments_sql asg) = c @ to_ascii_lowercase ('' = '' @ literal v @ more_assignments es)"
    unfolding form using ok(1) by (simp add: lower_append)
  have start: "hd (to_ascii_lowercase ('' = '' @ literal v @ more_assignments es)) = blank"
    by (simp add: lower_append lower_letters)
  note more = quiet_more [OF m ok(2-4)]
  show "quiet (blank # m) (to_ascii_lowercase (assignments_sql asg))"
    unfolding low using start by (intro quiet_append quiet_word more plain_no_blank ordinary_plain ok(1)) simp
  have "quiet (blank # m) ((blank # c) @ to_ascii_lowercase ('' = '' @ literal v @ more_assignments es))"
    using start by (intro quiet_append quiet_name more ok(1) m) simp
  then show "quiet (blank # m) (blank # to_ascii_lowercase (assignments_sql asg))" unfolding low by simp
qed

lemma update_rest:
  assumes "ordinary_name tbl" "asg \<noteq> []" "list_all assignment_ok asg" "where_ok w"
  defines "body \<equiv> assignments_sql asg @ where_sql w"
  defines "r \<equiv> tbl @ '' SET '' @ body"
  shows "utf8_valid body" "str_trim body = body" "utf8_valid r" "str_trim r = r" "r \<noteq> []" "end_char (last r)"
    "find_ci r '' SET '' = Some (length tbl)"
    "find_ci body '' WHERE '' = (if w = None then None else Some (length (assignments_sql asg)))"
    "p \<in> {'' from '', '' returning '', '' order by '', '' limit ''} \<Longrightarrow> \<not> contains (to_ascii_lowercase r) p"
    "\<not> starts_with_ci (''UPDATE '' @ r) ''UPDATE OR ''"
proof -
  note asg = assignments_text [OF assms(2,3)]
  note w = where_valid [OF assms(4)]
  have l: "end_char (last body)" "body \<noteq> []" using end_clauses(2) [OF assms(4) asg(4,2)] asg(2) by (simp_all add: body_def)
  have h: "end_char (hd body)" using asg(2,3) by (simp add: body_def)
  show v: "utf8_valid body" unfolding body_def by (intro utf8_valid_append asg(1) w)
  show "str_trim body = body" using l h by (intro trim_id v) (simp_all add: end_char_def)
  have "utf8_valid (tbl @ '' SET '' @ body)"
    by (intro utf8_valid_append [OF name_valid [OF assms(1)]] utf8_valid_append v) (simp add: code_def)
  then show rv: "utf8_valid r" by (simp add: r_def)
  show ne: "r \<noteq> []" by (simp add: r_def)
  show rl: "end_char (last r)" using l by (simp add: r_def)
  show "str_trim r = r"
    using rl name_char [OF assms(1), of "hd tbl"] name_ne [OF assms(1)]
    by (intro trim_id rv ne) (simp_all add: r_def end_char_def)
  have tblq: "quiet (blank # m) tbl" for m by (intro quiet_word plain_no_blank ordinary_plain assms(1))
  show "find_ci r '' SET '' = Some (length tbl)"
    using find_after_quiet [OF tblq, of "''set ''" "to_ascii_lowercase body"] assms(1)
    by (simp add: find_ci_lower [OF lower_phrases(9)] r_def lower_append lower_letters)
  have aq: "quiet '' where '' (to_ascii_lowercase (assignments_sql asg))"
    by (rule asg(6)) (simp add: clause_phrases_def)
  show "find_ci body '' WHERE '' = (if w = None then None else Some (length (assignments_sql asg)))"
  proof (cases w)
    case None
    then show ?thesis using find_in_quiet [OF aq] by (simp add: find_ci_lower [OF lower_phrases(1)] body_def where_sql_def)
  next
    case (Some f)
    show ?thesis using find_after_quiet [OF aq, of "to_ascii_lowercase (condition_sql f)"] Some
      by (simp add: find_ci_lower [OF lower_phrases(1)] body_def where_sql_def lower_append lower_letters)
  qed
  show "\<not> contains (to_ascii_lowercase r) p" if p: "p \<in> {'' from '', '' returning '', '' order by '', '' limit ''}"
  proof -
    have "hd p = blank" "p \<noteq> []" using p by auto
    then obtain m where m: "p = blank # m" by (cases p) auto
    then have cl: "blank # m \<in> set clause_phrases" "blank # m \<noteq> '' where ''" "blank # m \<noteq> '' set ''"
      using p by (auto simp: clause_phrases_def)
    have "quiet (blank # m) (tbl @ '' set'' @ (blank # to_ascii_lowercase (assignments_sql asg)) @ to_ascii_lowercase (where_sql w))"
    proof (intro quiet_append tblq)
      show "quiet (blank # m) '' set''" using cl by (intro quiet_other) (simp_all add: clause_phrases_def)
      show "quiet (blank # m) (blank # to_ascii_lowercase (assignments_sql asg))" by (rule asg(7) [OF cl(1)])
      show "quiet (blank # m) (to_ascii_lowercase (where_sql w))" by (rule quiet_where [OF assms(4) cl(1,2)])
    qed (use clause_start in \<open>auto simp: hd_append\<close>)
    then show ?thesis using find_in_quiet m assms(1)
      by (simp add: contains_def r_def body_def lower_append lower_letters)
  qed
  show "\<not> starts_with_ci (''UPDATE '' @ r) ''UPDATE OR ''"
  proof
    assume "starts_with_ci (''UPDATE '' @ r) ''UPDATE OR ''"
    then have "to_ascii_lowercase (take 3 r) = ''or ''"
      by (simp add: starts_with_ci_def eq_ignore_ascii_case_def lower_append lower_letters numeral_3_eq_3)
    then have "take (length ''or '') (to_ascii_lowercase r) = ''or ''" by (simp add: to_ascii_lowercase_def take_map numeral_3_eq_3)
    then have "take (length ''or '') (tbl @ to_ascii_lowercase ('' SET '' @ body)) = ''or ''"
      using assms(1) by (simp add: r_def lower_append)
    then have "clash ''or '' tbl"
      by (intro clash_word [OF plain_no_blank [OF ordinary_plain [OF assms(1)]]]) (simp_all add: lower_append lower_letters)
    then have "tbl = ''or''" by (simp add: clash_def)
    then show False using assms(1) by (simp add: ordinary_name_def reserved_words_def)
  qed
qed

lemma update_parses:
  assumes "ordinary_name tbl" "asg \<noteq> []" "list_all assignment_ok asg" "where_ok w"
  shows "parse_sql_with_dialect P (update_sql tbl asg w) d = Ok (Update tbl asg w)"
proof -
  define body where "body = assignments_sql asg @ where_sql w"
  define r where "r = tbl @ '' SET '' @ body"
  note rest = update_rest [OF assms, folded body_def, folded r_def]
  note asg = assignments_text [OF assms(2,3)]
  have no: "\<not> contains (to_ascii_lowercase r) '' from ''" "\<not> contains (to_ascii_lowercase r) '' returning ''"
    "\<not> contains (to_ascii_lowercase r) '' order by ''" "\<not> contains (to_ascii_lowercase r) '' limit ''"
    by (rule rest(9), simp)+
  have start: "rbind (slice_from (''UPDATE '' @ r) (length ''UPDATE'')) f = f (blank # r)" for f :: "string \<Rightarrow> 'b result"
    using keyword_rest [OF rest(3), of "''UPDATE''"] by (simp add: code_def del: length_append)
  note trim = trim_rest [OF rest(3,4)]
  have after: "slice_from r (length tbl + length '' SET '') = Ok body"
    using slice_last [OF utf8_valid_append [OF name_valid [OF assms(1)]] rest(1), of "'' SET ''"]
    by (simp add: r_def utf8_valid_ascii code_def)
  have before: "slice_to r (length tbl) = Ok tbl"
    unfolding r_def by (intro slice_first [OF name_valid [OF assms(1)]] utf8_valid_append rest(1)) (simp add: code_def)
  have pre: "(case if w = None then None else Some (length (assignments_sql asg)) of None \<Rightarrow> Ok body | Some pos \<Rightarrow> slice_to body pos)
      = Ok (assignments_sql asg)"
    using slice_first [OF asg(1) where_valid [OF assms(4)]] by (cases w) (simp_all add: body_def where_sql_def)
  have split: "split_top_level (assignments_sql asg) (CHR '','') = map assignment_sql asg"
  proof -
    obtain c v es where e: "asg = (c, v) # es" using assms(2) by (cases asg) auto
    then show ?thesis using split_assignments [of es c v] assms(3) by (simp add: split_top_level_def assignments_Cons)
  qed
  note read = parse_assignments [OF assms(3)]
  have cond: "slice_from body (length (assignments_sql asg) + length '' WHERE '') = Ok (condition_sql f) \<and>
      str_trim (condition_sql f) = condition_sql f \<and> is_advanced_where_clause P (condition_sql f) = Ok False \<and>
      parse_filter P (condition_sql f) = Ok f"
    if "w = Some f" for f
  proof -
    have ok: "filter_ok f" using assms(4) that by (simp add: where_ok_def)
    have "slice_from ((assignments_sql asg @ '' WHERE '') @ condition_sql f) (length (assignments_sql asg @ '' WHERE '')) =
        Ok (condition_sql f)"
      by (intro slice_last utf8_valid_append [OF asg(1)] condition_ends(1) [OF ok]) (simp add: code_def)
    then show ?thesis using that condition_ends(5) [OF ok] plain_condition [OF ok] parse_condition [OF ok]
      by (simp add: body_def where_sql_def)
  qed
  have adv: "is_advanced_update P (''UPDATE '' @ r) = Ok False"
  proof (cases w)
    case None
    then show ?thesis
      unfolding is_advanced_update_def start Let_def trim rest(7) option.case after rbind.simps rest(2,8) pre asg(5) split read
      using no rest(5) asg(2) by simp
  next
    case (Some f)
    show ?thesis
      unfolding is_advanced_update_def start Let_def trim rest(7) option.case after rbind.simps rest(2,8) pre asg(5) split read
      using no rest(5) asg(2) cond Some by (simp del: list.size)
  qed
  have upd: "parse_update P (''UPDATE '' @ r) = Ok (Update tbl asg w)"
  proof (cases w)
    case None
    then show ?thesis
      unfolding parse_update_def start Let_def trim rest(7) ok_or_simps after rbind.simps rest(2,8) pre asg(5) split read before
        normalize_name(2) [OF assms(1)] by simp
  next
    case (Some f)
    show ?thesis
      unfolding parse_update_def start Let_def trim rest(7) ok_or_simps after rbind.simps rest(2,8) pre asg(5) split read before
        normalize_name(2) [OF assms(1)]
      using cond Some by (simp del: list.size)
  qed
  have "parse_sql_with_dialect P (''UPDATE '' @ r) d = parse_plain P (''UPDATE '' @ r) d"
    using entry_after [OF rest(3,5,6), of "CHR ''U''" "''PDATE ''"] by (simp add: code_def is_whitespace_def lower_letters)
  then show ?thesis unfolding update_sql_def body_def [symmetric] r_def [symmetric]
    by (simp add: dispatch_update [OF rest(10)] adv upd del: append.simps)
qed

end
