(* ===== verification/Parser_Create.thy ===== *)
theory Parser_Create
  imports Parser_Rows
begin

section \<open>CREATE TABLE parses back\<close>

text \<open>
  The reference printer for table definitions, and the proof that the parser reads back what it prints. The
  phrases that make a definition unsupported are looked for in the whole text, so the proof goes through the names,
  the types and the \<^verbatim>\<open>PRIMARY KEY\<close> marks between its blanks.
\<close>

subsection \<open>The printer\<close>

definition column_rest :: "column \<Rightarrow> string" where
  "column_rest c = blank # column_type_as_str (col_ty c) @ (if col_primary_key c then '' PRIMARY KEY'' else [])"

fun more_columns :: "column list \<Rightarrow> string" where
  "more_columns [] = []"
| "more_columns (c # cs) = '','' @ col_name c @ column_rest c @ more_columns cs"

definition create_sql :: "string \<Rightarrow> column list \<Rightarrow> string" where
  "create_sql nm cols = ''CREATE TABLE '' @ nm @ ''('' @ tl (more_columns cols) @ '')''"

definition column_ok :: "column \<Rightarrow> bool" where
  "column_ok c \<longleftrightarrow> ordinary_name (col_name c)"

text \<open>The phrases that make a definition unsupported, without the blank they start with.\<close>

definition create_phrases :: "string list" where
  "create_phrases =
     [''if not exists'', ''without rowid'', ''as select'', ''constraint '', ''foreign key'', ''('', ''check '', ''check('', ''unique'',
      ''default '', ''not null'', ''references '', ''generated '', ''collate '', ''autoincrement'']"

lemma type_word:
  "blank \<notin> set (column_type_as_str ty)" "to_ascii_lowercase (column_type_as_str ty) = column_type_as_str ty"
  "ascii (column_type_as_str ty)" "column_type_as_str ty \<noteq> []"
  "list_all (\<lambda>c. \<not> scan_special c \<and> c \<noteq> CHR '','' \<and> \<not> is_whitespace [c]) (column_type_as_str ty)"
proof -
  show "blank \<notin> set (column_type_as_str ty)" by (cases ty) simp_all
  show "to_ascii_lowercase (column_type_as_str ty) = column_type_as_str ty" by (cases ty) (simp_all, code_simp+)
  show "ascii (column_type_as_str ty)" by (cases ty) (simp_all add: code_def)
  show "column_type_as_str ty \<noteq> []" by (cases ty) simp_all
  show "list_all (\<lambda>c. \<not> scan_special c \<and> c \<noteq> CHR '','' \<and> \<not> is_whitespace [c]) (column_type_as_str ty)"
    by (cases ty) (simp_all add: scan_special_def is_whitespace_def code_def)
qed

lemma create_phrase_facts:
  "list_all (\<lambda>m. m \<noteq> [] \<and> (m = ''('' \<or> 2 \<le> length (takeWhile (\<lambda>c. c \<noteq> blank) m))) create_phrases"
  "list_all (\<lambda>m. take 1 m \<noteq> ''k'' \<and> take 2 m \<notin> set [''in'', ''fl'', ''bo'', ''te'', ''ve'', ''po'', ''ta'', ''pr'']) create_phrases"
  "list_all (\<lambda>m. blank \<in> set m \<longrightarrow> CHR ''('' \<notin> set m) create_phrases"
  "list_all (\<lambda>m. blank \<notin> set m \<longrightarrow> m \<in> set [''('', ''check('', ''unique'', ''autoincrement'']) create_phrases"
  by code_simp+

lemma create_phrase:
  assumes "m \<in> set create_phrases"
  shows "m \<noteq> []" "m = ''('' \<or> 2 \<le> length (takeWhile (\<lambda>c. c \<noteq> blank) m)" "take 1 m \<noteq> ''k''"
    "take 2 m \<notin> set [''in'', ''fl'', ''bo'', ''te'', ''ve'', ''po'', ''ta'', ''pr'']" "blank \<in> set m \<Longrightarrow> CHR ''('' \<notin> set m"
    "blank \<notin> set m \<Longrightarrow> m \<in> set [''('', ''check('', ''unique'', ''autoincrement'']"
  using create_phrase_facts assms unfolding list_all_iff by blast+

lemma create_clash:
  assumes "clash m w" "m \<in> set create_phrases"
  shows "take 1 w = take 1 m" "m \<noteq> ''('' \<Longrightarrow> take 2 w = take 2 m"
proof -
  note m = create_phrase(1,2) [OF assms(2)]
  have two: "take 2 w = take 2 m" if long: "2 \<le> length (takeWhile (\<lambda>c. c \<noteq> blank) m)"
  proof (cases "blank \<in> set m")
    case True
    then have w: "w = takeWhile (\<lambda>c. c \<noteq> blank) m" using assms(1) by (simp add: clash_def)
    then have "m = w @ dropWhile (\<lambda>c. c \<noteq> blank) m" by simp
    moreover have "2 \<le> length w" using long w by simp
    ultimately show ?thesis by (metis append_take_drop_id diff_is_0_eq' take_0 take_append append_Nil2)
  next
    case False
    then have w: "take (length m) w = m" using assms(1) by (simp add: clash_def)
    have "2 \<le> length m" using long length_takeWhile_le [of "\<lambda>c. c \<noteq> blank" m] by linarith
    then show ?thesis using w by (metis min.absorb1 take_take)
  qed
  then show "m \<noteq> ''('' \<Longrightarrow> take 2 w = take 2 m" using m(2) by blast
  show "take 1 w = take 1 m"
  proof (cases "m = ''(''")
    case True
    then show ?thesis using assms(1) by (simp add: clash_def)
  next
    case False
    then have "take 2 w = take 2 m" using m(2) two by blast
    then have "take 1 (take 2 w) = take 1 (take 2 m)" by simp
    then show ?thesis by (simp add: min_def)
  qed
qed

lemma quiet_by_start:
  assumes "m \<in> set create_phrases" "blank \<notin> set w"
    and "take 1 w = ''k'' \<or> take 2 w \<in> set [''in'', ''fl'', ''bo'', ''te'', ''ve'', ''po'', ''ta'', ''pr'']"
  shows "quiet (blank # m) (blank # w)"
proof (rule quiet_blank_word [OF assms(2) _ create_phrase(1) [OF assms(1)]])
  show "\<not> clash m w"
  proof
    assume cl: "clash m w"
    note start = create_clash [OF cl assms(1)]
    show False
    proof (cases "m = ''(''")
      case True
      then have "take 1 w = ''(''" using start(1) by simp
      then have "hd w = CHR ''(''" by (cases w) auto
      then show False using assms(3) by (cases w) auto
    next
      case False
      then show False using start assms(3) create_phrase(3,4) [OF assms(1)] by metis
    qed
  qed
qed

text \<open>A word that begins with a type or with \<^verbatim>\<open>key\<close>.\<close>

lemma quiet_type_word:
  assumes "m \<in> set create_phrases" "blank \<notin> set u"
  shows "quiet (blank # m) (blank # column_type_as_str ty @ u)" "quiet (blank # m) (blank # ''key'' @ u)"
    "quiet (blank # m) '' table''" "quiet (blank # m) '' primary''"
proof -
  have "take 2 (column_type_as_str ty @ u) \<in> set [''in'', ''fl'', ''bo'', ''te'', ''ve'', ''po'', ''ta'', ''pr'']"
    by (cases ty) simp_all
  then show "quiet (blank # m) (blank # column_type_as_str ty @ u)"
    using assms type_word(1) by (intro quiet_by_start) simp_all
  show "quiet (blank # m) (blank # ''key'' @ u)" using assms by (intro quiet_by_start) simp_all
  show "quiet (blank # m) '' table''" "quiet (blank # m) '' primary''" using assms by (intro quiet_by_start; simp)+
qed

lemma clash_table_name:
  assumes "take (length m) (nm @ ''('' @ u) = m" "ordinary_name nm" "m \<in> set [''('', ''check('', ''unique'', ''autoincrement'']"
  shows False
proof -
  have nm: "CHR ''('' \<notin> set nm" using name_char [OF assms(2)] by blast
  show False
  proof (cases "CHR ''('' \<in> set m")
    case paren: True
    have "m @ drop (length m) (nm @ ''('' @ u) = nm @ ''('' @ u" using assms(1) by (metis append_take_drop_id)
    moreover have "takeWhile (\<lambda>c. c \<noteq> CHR ''('') (m @ z) = takeWhile (\<lambda>c. c \<noteq> CHR ''('') m" for z
      using paren by (intro takeWhile_append1) auto
    moreover have "takeWhile (\<lambda>c. c \<noteq> CHR ''('') (nm @ ''('' @ u) = nm"
      using nm by (subst takeWhile_append2) auto
    ultimately have w: "takeWhile (\<lambda>c. c \<noteq> CHR ''('') m = nm" by metis
    have "nm \<noteq> ''check''" using assms(2) by (simp add: ordinary_name_def reserved_words_def)
    moreover have "m = ''('' \<or> m = ''check(''" using assms(3) paren by (simp; elim disjE; simp)
    ultimately show False using name_ne [OF assms(2)] w by (elim disjE) simp_all
  next
    case no_paren: False
    have "length m \<le> length nm"
    proof (rule ccontr)
      assume "\<not> length m \<le> length nm"
      then have len: "length nm < length m" by simp
      have "take (length m) (nm @ ''('' @ u) ! length nm = (nm @ ''('' @ u) ! length nm" by (rule nth_take [OF len])
      also have "\<dots> = CHR ''(''" by simp
      finally have "m ! length nm = CHR ''(''" unfolding assms(1) .
      then show False using no_paren nth_mem [OF len] by simp
    qed
    then have "take (length m) nm = m" using assms(1) by simp
    moreover have "m = ''unique'' \<or> m = ''autoincrement''" using assms(3) no_paren by (simp; elim disjE; simp)
    ultimately show False using assms(2) by (elim disjE) (simp_all add: ordinary_name_def reserved_prefixes_def)
  qed
qed

lemma quiet_table_name:
  assumes "m \<in> set create_phrases" "ordinary_name nm" "blank \<notin> set u"
  shows "quiet (blank # m) (blank # nm @ ''('' @ u)"
proof (rule quiet_blank_word [OF _ _ create_phrase(1) [OF assms(1)]])
  show "blank \<notin> set (nm @ ''('' @ u)" using plain_no_blank [OF ordinary_plain [OF assms(2)]] assms(3) by simp
  show "\<not> clash m (nm @ ''('' @ u)"
  proof
    assume cl: "clash m (nm @ ''('' @ u)"
    show False
    proof (cases "blank \<in> set m")
      case True
      then have e: "nm @ ''('' @ u = takeWhile (\<lambda>c. c \<noteq> blank) m" using cl by (simp add: clash_def)
      have "CHR ''('' \<in> set (nm @ ''('' @ u)" by simp
      then have "CHR ''('' \<in> set m" unfolding e by (blast dest: set_takeWhileD)
      then show False using create_phrase(5) [OF assms(1) True] by blast
    next
      case False
      then have t: "take (length m) (nm @ ''('' @ u) = m" using cl unfolding clash_def by (simp only: if_False)
      show False by (rule clash_table_name [OF t assms(2) create_phrase(6) [OF assms(1) False]])
    qed
  qed
qed

subsection \<open>No phrase makes the definition unsupported\<close>

lemma quiet_column_rest:
  assumes "m \<in> set create_phrases" "blank \<notin> set u"
  shows "quiet (blank # m) (to_ascii_lowercase (column_rest c) @ u)"
proof (cases "col_primary_key c")
  case True
  have "quiet (blank # m) ((blank # column_type_as_str (col_ty c) @ []) @ '' primary'' @ blank # ''key'' @ u)"
    using assms by (intro quiet_append quiet_type_word) simp_all
  then show ?thesis using True type_word(2) by (simp add: column_rest_def lower_append lower_letters)
next
  case False
  then show ?thesis using quiet_type_word(1) [OF assms] type_word(2) by (simp add: column_rest_def lower_append lower_letters)
qed

lemma quiet_columns:
  assumes "m \<in> set create_phrases" "list_all column_ok cs"
  shows "quiet (blank # m) (to_ascii_lowercase (column_rest c @ more_columns cs @ '')''))"
  using assms(2)
proof (induction cs arbitrary: c)
  case Nil
  show ?case using quiet_column_rest [OF assms(1), of "'')''" c] by (simp add: lower_append lower_letters)
next
  case (Cons e cs)
  have ok: "ordinary_name (col_name e)" "list_all column_ok cs" using Cons.prems by (simp_all add: list_all_iff column_ok_def)
  have "quiet (blank # m) ((to_ascii_lowercase (column_rest c) @ CHR '','' # col_name e) @
      to_ascii_lowercase (column_rest e @ more_columns cs @ '')''))"
    using plain_no_blank [OF ordinary_plain [OF ok(1)]]
    by (intro quiet_append quiet_column_rest [OF assms(1)] Cons.IH ok) (simp_all add: column_rest_def lower_append lower_letters)
  then show ?case using ok(1) by (simp add: lower_append lower_letters)
qed

lemma create_Cons:
  "create_sql nm (c # cs) = ''CREATE TABLE '' @ nm @ ''('' @ col_name c @ column_rest c @ more_columns cs @ '')''"
  by (simp add: create_sql_def)

lemma quiet_create:
  assumes "m \<in> set create_phrases" "ordinary_name nm" "list_all column_ok cols" "cols \<noteq> []"
  shows "quiet (blank # m) (to_ascii_lowercase (create_sql nm cols))"
proof -
  obtain c cs where cols: "cols = c # cs" using assms(4) by (cases cols) auto
  have ok: "ordinary_name (col_name c)" "list_all column_ok cs" using assms(3) cols by (simp_all add: list_all_iff column_ok_def)
  have "quiet (blank # m) (''create'' @ '' table'' @ (blank # nm @ ''('' @ col_name c) @
      to_ascii_lowercase (column_rest c @ more_columns cs @ '')''))"
  proof (intro quiet_append)
    show "quiet (blank # m) ''create''" by (rule quiet_word) simp
    show "quiet (blank # m) '' table''" by (rule quiet_type_word(3) [OF assms(1), of "[]"]) simp
    show "quiet (blank # m) (blank # nm @ ''('' @ col_name c)"
      by (rule quiet_table_name [OF assms(1,2) plain_no_blank [OF ordinary_plain [OF ok(1)]]])
    show "quiet (blank # m) (to_ascii_lowercase (column_rest c @ more_columns cs @ '')''))" by (rule quiet_columns [OF assms(1) ok(2)])
  qed (simp_all add: column_rest_def lower_append lower_letters)
  then show ?thesis using assms(2) ok(1) unfolding cols create_Cons by (simp add: lower_append lower_letters)
qed

lemma contains_at: "take (length n) (drop i s) = n \<Longrightarrow> n \<noteq> [] \<Longrightarrow> contains s n"
proof (induction i arbitrary: s)
  case 0
  then show ?case by (cases s) (simp_all add: contains_def)
next
  case (Suc i)
  then show ?case by (cases s) (simp_all add: contains_def)
qed

lemma contains_suffix: "n \<noteq> [] \<Longrightarrow> contains (a @ n) n"
  using contains_at [of n "length a" "a @ n"] by simp

lemma contains_tail: "contains s (a @ b) \<Longrightarrow> b \<noteq> [] \<Longrightarrow> contains s b"
proof -
  assume "contains s (a @ b)" and b: "b \<noteq> []"
  then obtain i where "take (length (a @ b)) (drop i s) = a @ b" using str_find_nth [of s "a @ b"] by (auto simp: contains_def)
  then have "drop (length a) (take (length a + length b) (drop i s)) = b" by simp
  then have "take (length b) (drop (length a) (drop i s)) = b" by (simp add: drop_take)
  then have "take (length b) (drop (length a + i) s) = b" by (simp add: add.commute)
  then show ?thesis by (rule contains_at [OF _ b])
qed

lemma plain_create:
  assumes "ordinary_name nm" "list_all column_ok cols" "cols \<noteq> []"
  shows "is_advanced_create_table (create_sql nm cols) = False"
proof -
  let ?l = "to_ascii_lowercase (create_sql nm cols)"
  have no: "contains ?l (blank # m) = False" if "m \<in> set create_phrases" for m
    using find_in_quiet [OF quiet_create [OF that assms]] by (simp add: contains_def)
  have "contains ?l '' primary key ('' = False"
    using contains_tail [of ?l "'' primary key''" "'' (''"] no [of "''(''"] by (auto simp: create_phrases_def)
  moreover have "ends_with ?l '' strict'' = False"
  proof -
    obtain c cs where cols: "cols = c # cs" using assms(3) by (cases cols) auto
    have "last ?l = CHR '')''" unfolding cols create_Cons by (simp add: lower_append lower_letters)
    moreover have "last ?l = CHR ''t''" if "drop (length ?l - length '' strict'') ?l = '' strict''"
      by (metis that append_take_drop_id last_appendR last.simps list.distinct(1))
    ultimately show ?thesis by (auto simp: ends_with_def)
  qed
  moreover note no [unfolded create_phrases_def]
  ultimately show ?thesis unfolding is_advanced_create_table_def Let_def by (simp del: list.size)
qed

subsection \<open>The columns\<close>

abbreviation column_sql :: "column \<Rightarrow> string" where
  "column_sql c \<equiv> col_name c @ column_rest c"

lemma name_ascii: "ordinary_name s \<Longrightarrow> ascii s"
  using plain_text(1) ordinary_plain by blast

lemma column_text:
  assumes "column_ok c"
  shows "ascii (column_sql c)" "str_trim (column_sql c) = column_sql c"
    "\<forall>ch \<in> set (column_sql c). \<not> scan_special ch \<and> ch \<noteq> CHR '',''"
proof -
  have ok: "ordinary_name (col_name c)" using assms by (simp add: column_ok_def)
  have special: "\<forall>ch \<in> set (column_type_as_str (col_ty c)). \<not> scan_special ch \<and> ch \<noteq> CHR '',''"
    using type_word(5) by (simp add: list_all_iff)
  have key: "\<forall>ch \<in> set '' PRIMARY KEY''. \<not> scan_special ch \<and> ch \<noteq> CHR '',''" by (simp add: scan_special_def)
  have "\<not> scan_special blank \<and> blank \<noteq> CHR '',''" by (simp add: scan_special_def)
  moreover have "\<forall>ch \<in> set (col_name c). \<not> scan_special ch \<and> ch \<noteq> CHR '',''" using name_char [OF ok] by blast
  ultimately show "\<forall>ch \<in> set (column_sql c). \<not> scan_special ch \<and> ch \<noteq> CHR '',''"
    using special key by (cases "col_primary_key c") (simp_all only: column_rest_def set_append ball_Un list.set ball_simps if_True if_False append_Nil2 append_Cons append_Nil simp_thms)
  show a: "ascii (column_sql c)" using name_ascii [OF ok] type_word(3) by (simp add: column_rest_def code_def)
  have l: "\<not> is_whitespace [last (column_sql c)]"
  proof -
    have "last (column_type_as_str (col_ty c)) \<in> set (column_type_as_str (col_ty c))" using type_word(4) by (rule last_in_set)
    then have "\<not> is_whitespace [last (column_type_as_str (col_ty c))]" using type_word(5) by (simp add: list_all_iff)
    then show ?thesis using type_word(4) by (cases "col_primary_key c") (simp_all add: column_rest_def is_whitespace_def code_def)
  qed
  have "hd (column_sql c) \<in> set (col_name c)" using name_ne [OF ok] by simp
  then have h: "\<not> is_whitespace [hd (column_sql c)]" using name_char [OF ok] by blast
  have ne: "column_sql c \<noteq> []" by (simp add: column_rest_def)
  have "code (hd (column_sql c)) < 128" "code (last (column_sql c)) < 128"
    using a ne hd_in_set [OF ne] last_in_set [OF ne] unfolding ascii_def by blast+
  then show "str_trim (column_sql c) = column_sql c" by (intro trim_id ascii_utf8_valid a ne h l)
qed

lemma split_columns:
  assumes "list_all column_ok cs"
  shows "column_ok c \<Longrightarrow> split_loop (CHR '','') scan_start [] (column_sql c @ more_columns cs) = map column_sql (c # cs)"
  using assms
proof (induction cs arbitrary: c)
  case Nil
  have "split_loop (CHR '','') scan_start [] (column_sql c @ []) = split_loop (CHR '','') scan_start ([] @ column_sql c) []"
    by (rule split_plain [OF _ column_text(3) [OF Nil(1)]]) (simp add: scan_start_def)
  then show ?case using column_text(2) [OF Nil(1)] by simp
next
  case (Cons e cs)
  have d: "scan_delim (CHR '','') (CHR '','') scan_start" by (simp add: scan_delim_def scan_start_def scan_special_def)
  have "split_loop (CHR '','') scan_start [] (column_sql c @ CHR '','' # column_sql e @ more_columns cs) =
      split_loop (CHR '','') scan_start ([] @ column_sql c) (CHR '','' # column_sql e @ more_columns cs)"
    by (rule split_plain [OF _ column_text(3) [OF Cons.prems(1)]]) (simp add: scan_start_def)
  then show ?case using column_text(2) [OF Cons.prems(1)] d Cons by simp
qed

lemma split_word:
  assumes "ascii (w @ blank # t)" "\<forall>ch \<in> set w. \<not> is_whitespace [ch]" "w \<noteq> []"
  shows "split_whitespace (w @ blank # t) = w # split_whitespace t"
proof -
  have "utf8_chars (w @ blank # t) = map (\<lambda>c. [c]) w @ [blank] # map (\<lambda>c. [c]) t" "utf8_chars t = map (\<lambda>c. [c]) t"
    using assms(1) by (simp_all add: utf8_chars_ascii)
  moreover have "split_pred is_whitespace (map (\<lambda>c. [c]) w @ [blank] # map (\<lambda>c. [c]) t) =
      map (\<lambda>c. [c]) w # split_pred is_whitespace (map (\<lambda>c. [c]) t)"
    using assms(2) by (intro split_pred_append) (simp_all add: is_whitespace_def code_def)
  ultimately show ?thesis using assms(3) by (simp add: split_whitespace_def concat_map_singleton)
qed

lemma split_last_word:
  assumes "ascii w" "\<forall>ch \<in> set w. \<not> is_whitespace [ch]" "w \<noteq> []"
  shows "split_whitespace w = [w]"
proof -
  have "split_pred is_whitespace (map (\<lambda>c. [c]) w) = [map (\<lambda>c. [c]) w]" using assms(2) by (intro split_pred_none) simp
  then show ?thesis using assms by (simp add: split_whitespace_def concat_map_singleton utf8_chars_ascii)
qed

lemma parse_column:
  assumes "column_ok c"
  shows "parse_column_def (column_sql c) = Ok c"
proof -
  let ?n = "col_name c" and ?t = "column_type_as_str (col_ty c)"
  have ok: "ordinary_name ?n" using assms by (simp add: column_ok_def)
  note a = column_text(1) [OF assms]
  have name: "\<forall>ch \<in> set ?n. \<not> is_whitespace [ch]" using name_char [OF ok] by blast
  have type: "\<forall>ch \<in> set ?t. \<not> is_whitespace [ch]" using type_word(5) by (simp add: list_all_iff)
  have words: "split_whitespace (column_sql c) = ?n # ?t # (if col_primary_key c then [''PRIMARY'', ''KEY''] else [])"
  proof (cases "col_primary_key c")
    case True
    have "split_whitespace ''PRIMARY KEY'' = [''PRIMARY'', ''KEY'']" by code_simp
    then show ?thesis
      using True a split_word [OF _ name name_ne [OF ok], of "?t @ '' PRIMARY KEY''"] split_word [OF _ type type_word(4), of "''PRIMARY KEY''"]
      by (simp add: column_rest_def)
  next
    case False
    then show ?thesis
      using a split_word [OF _ name name_ne [OF ok], of ?t] split_last_word [OF _ type type_word(4)]
      by (simp add: column_rest_def)
  qed
  have mark: "contains (to_ascii_lowercase (column_sql c)) ''primary key'' = col_primary_key c"
  proof (cases "col_primary_key c")
    case True
    have "to_ascii_lowercase (column_sql c) = (?n @ blank # ?t @ '' '') @ ''primary key''"
      using True ok type_word(2) by (simp add: column_rest_def lower_append lower_letters)
    then have "contains (to_ascii_lowercase (column_sql c)) ''primary key''" using contains_suffix by (metis list.distinct(1))
    then show ?thesis using True by simp
  next
    case False
    have low: "to_ascii_lowercase (column_sql c) = ?n @ blank # ?t"
      using False ok type_word(2) by (simp add: column_rest_def lower_append lower_letters)
    have "\<not> contains (?n @ blank # ?t) '' key''"
      using str_find_skip [of blank ?n "blank # ?t" "''key''"] plain_no_blank [OF ordinary_plain [OF ok]]
      by (cases "col_ty c") (simp_all add: contains_def)
    then have "\<not> contains (?n @ blank # ?t) (''primary'' @ '' key'')" using contains_tail by blast
    then show ?thesis using False low by simp
  qed
  show ?thesis
    using words mark column_type_parse_as_str normalize_name(2) [OF ok] by (cases c) (simp add: parse_column_def_def)
qed

subsection \<open>The statement\<close>

lemma char_find_append: "c \<notin> set a \<Longrightarrow> char_find (a @ c # b) c = Some (length a)"
  by (induction a) auto

lemma char_rfind_last: "char_rfind (a @ [c]) c = Some (length a)"
  by (simp add: char_rfind_def)

lemma create_text:
  assumes "ordinary_name nm" "list_all column_ok cols" "cols \<noteq> []"
  obtains body where "create_sql nm cols = ''CREATE TABLE '' @ nm @ ''('' @ body @ '')''" "ascii body"
    "split_top_level body (CHR '','') = map column_sql cols"
proof -
  obtain c cs where cols: "cols = c # cs" using assms(3) by (cases cols) auto
  have ok: "column_ok c" "list_all column_ok cs" using assms(2) cols by simp_all
  have "ascii (more_columns es)" if "list_all column_ok es" for es
    using that column_text(1) by (induction es) (simp_all add: code_def)
  then have "ascii (column_sql c @ more_columns cs)" using column_text(1) [OF ok(1)] ok(2) by simp
  moreover have "split_top_level (column_sql c @ more_columns cs) (CHR '','') = map column_sql cols"
    using split_columns [OF ok(2,1)] by (simp add: split_top_level_def cols)
  ultimately show ?thesis using that [of "column_sql c @ more_columns cs"] by (simp add: cols create_Cons)
qed

lemma create_parses:
  assumes "ordinary_name nm" "list_all column_ok cols" "cols \<noteq> []"
  shows "parse_sql_with_dialect P (create_sql nm cols) d = Ok (CreateTable nm cols)"
proof -
  obtain body where body: "create_sql nm cols = ''CREATE TABLE '' @ nm @ ''('' @ body @ '')''" "ascii body"
    "split_top_level body (CHR '','') = map column_sql cols" by (rule create_text [OF assms])
  define r where "r = nm @ ''('' @ body @ '')''"
  have sql: "create_sql nm cols = ''CREATE TABLE '' @ r" by (simp add: body(1) r_def)
  have a: "ascii body" "ascii r" using body(2) name_ascii [OF assms(1)] by (simp_all add: r_def code_def)
  have ends: "r \<noteq> []" "end_char (last r)" by (simp_all add: r_def end_char_def is_whitespace_def code_def)
  have "str_trim r = r"
    using ends name_char [OF assms(1), of "hd nm"] name_ne [OF assms(1)]
    by (intro trim_id ascii_utf8_valid a) (simp_all add: r_def end_char_def)
  note trim = trim_rest [OF ascii_utf8_valid [OF a(2)] this]
  have start: "rbind (slice_from (''CREATE TABLE '' @ r) (length ''CREATE TABLE'')) f = f (blank # r)" for f :: "string \<Rightarrow> 'b result"
    using keyword_rest [OF ascii_utf8_valid [OF a(2)], of "''CREATE TABLE''"] by (simp add: code_def del: length_append)
  have no_paren: "CHR ''('' \<notin> set nm" using name_char [OF assms(1)] by blast
  have op: "char_find r (CHR ''('') = Some (length nm)"
    using char_find_append [OF no_paren, of "body @ '')''"] by (simp add: r_def)
  have close: "char_rfind r (CHR '')'') = Some (Suc (length nm) + length body)"
    using char_rfind_last [of "nm @ ''('' @ body" "CHR '')''"] by (simp add: r_def)
  have tbl: "slice_to r (length nm) = Ok nm"
    unfolding r_def using a(1) by (intro slice_first [OF name_valid [OF assms(1)]] ascii_utf8_valid) (simp add: code_def)
  have cut: "slice r (length nm + 1) (Suc (length nm) + length body) = Ok body"
    using slice_parts [of "nm @ ''(''" body "'')''"] a(1) name_ascii [OF assms(1)] by (simp add: r_def ascii_utf8_valid code_def)
  note split = body(3)
  have read: "rmap parse_column_def (map column_sql cols) = Ok cols"
    using rmap_map_Ok [of cols parse_column_def column_sql id] parse_column assms(2) by (simp add: list_all_iff)
  have "parse_create_table (''CREATE TABLE '' @ r) = Ok (CreateTable nm cols)"
    unfolding parse_create_table_def start Let_def trim op close ok_or_simps rbind.simps tbl cut split read normalize_name(2) [OF assms(1)]
    using name_ne [OF assms(1)] by simp
  moreover have "parse_sql_with_dialect P (''CREATE TABLE '' @ r) d = parse_plain P (''CREATE TABLE '' @ r) d"
    using entry_after [OF ascii_utf8_valid [OF a(2)] ends, of "CHR ''C''" "''REATE TABLE ''"] by (simp add: code_def is_whitespace_def lower_letters)
  ultimately show ?thesis
    using plain_create [OF assms] unfolding sql by (simp add: dispatch_create_table del: append.simps)
qed

end
