(* ===== verification/Parser_Index.thy ===== *)
theory Parser_Index
  imports Parser_Create
begin

section \<open>CREATE INDEX parses back\<close>

text \<open>
  The reference printer for definitions of indexes, full-text ones included, and the proof that the parser reads
  back what it prints. The parser takes a blank followed by \<^verbatim>\<open>asc\<close> or \<^verbatim>\<open>desc\<close> for a sort order wherever it stands, so
  the names of the index and of its table must not begin with these letters; \<open>index_prefixes\<close> shows what happens
  when one does.
\<close>

subsection \<open>The printer\<close>

definition index_keyword :: "bool \<Rightarrow> string" where
  "index_keyword ft = (if ft then ''CREATE FULLTEXT INDEX'' else ''CREATE INDEX'')"

definition index_rest :: "string \<Rightarrow> string \<Rightarrow> string \<Rightarrow> string" where
  "index_rest nm tbl col = nm @ '' ON '' @ tbl @ ''('' @ col @ '')''"

definition index_sql :: "string \<Rightarrow> string \<Rightarrow> string \<Rightarrow> bool \<Rightarrow> string" where
  "index_sql nm tbl col ft = index_keyword ft @ blank # index_rest nm tbl col"

definition index_name :: "string \<Rightarrow> bool" where
  "index_name s \<longleftrightarrow> ordinary_name s \<and> s \<notin> {''if'', ''collate''} \<and> take 3 s \<noteq> ''asc'' \<and> take 4 s \<noteq> ''desc''"

lemma index_prefixes:
  "is_advanced_create_index ''CREATE INDEX ascii_idx ON t(c)'' = Ok True"
  "is_advanced_create_index ''CREATE INDEX i ON descriptions(c)'' = Ok True"
  by code_simp+

definition index_phrases :: "string list" where
  "index_phrases = [''if not exists'', ''where '', ''collate '', ''desc'', ''asc'']"

lemma index_name_ordinary: "index_name s \<Longrightarrow> ordinary_name s"
  by (simp add: index_name_def)

subsection \<open>No phrase makes the definition unsupported\<close>

lemma index_phrase:
  assumes "m \<in> set index_phrases"
  shows "m \<noteq> []" "CHR ''('' \<notin> set m" "\<not> clash m ''on''" "\<not> clash m ''index''" "\<not> clash m ''fulltext''"
    "blank \<in> set m \<and> takeWhile (\<lambda>c. c \<noteq> blank) m \<in> set [''if'', ''where'', ''collate''] \<or> m = ''desc'' \<or> m = ''asc''"
proof -
  have "list_all (\<lambda>m. m \<noteq> [] \<and> CHR ''('' \<notin> set m \<and> \<not> clash m ''on'' \<and> \<not> clash m ''index'' \<and> \<not> clash m ''fulltext'') index_phrases"
    by code_simp
  then show "m \<noteq> []" "CHR ''('' \<notin> set m" "\<not> clash m ''on''" "\<not> clash m ''index''" "\<not> clash m ''fulltext''"
    using assms unfolding list_all_iff by blast+
  have "list_all (\<lambda>m. blank \<in> set m \<and> takeWhile (\<lambda>c. c \<noteq> blank) m \<in> set [''if'', ''where'', ''collate''] \<or> m = ''desc'' \<or> m = ''asc'') index_phrases"
    by code_simp
  then show "blank \<in> set m \<and> takeWhile (\<lambda>c. c \<noteq> blank) m \<in> set [''if'', ''where'', ''collate''] \<or> m = ''desc'' \<or> m = ''asc''"
    using assms unfolding list_all_iff by blast
qed

text \<open>The name of an index or of a table, the latter with its opening parenthesis.\<close>

lemma clash_index_name:
  assumes "index_name s" "m \<in> set index_phrases"
  shows "\<not> clash m s" "\<not> clash m (s @ CHR ''('' # u)"
proof -
  have words: "s \<notin> set [''if'', ''where'', ''collate'']" "take (length ''asc'') s \<noteq> ''asc''" "take (length ''desc'') s \<noteq> ''desc''"
    using assms(1) by (auto simp: index_name_def ordinary_name_def reserved_words_def numeral_eq_Suc)
  show "\<not> clash m s" using index_phrase(6) [OF assms(2)] words by (auto simp: clash_def)
  show "\<not> clash m (s @ CHR ''('' # u)"
  proof
    assume cl: "clash m (s @ CHR ''('' # u)"
    show False
    proof (cases "blank \<in> set m")
      case True
      then have e: "s @ CHR ''('' # u = takeWhile (\<lambda>c. c \<noteq> blank) m" using cl by (simp add: clash_def)
      have "CHR ''('' \<in> set (s @ CHR ''('' # u)" by simp
      then have "CHR ''('' \<in> set m" unfolding e by (blast dest: set_takeWhileD)
      then show False using index_phrase(2) [OF assms(2)] by blast
    next
      case False
      then have t: "take (length m) (s @ CHR ''('' # u) = m" using cl unfolding clash_def by (simp only: if_False)
      have "length m \<le> length s"
      proof (rule ccontr)
        assume "\<not> length m \<le> length s"
        then have len: "length s < length m" by simp
        have "m ! length s = (s @ CHR ''('' # u) ! length s" using t len by (metis nth_take)
        then show False using index_phrase(2) [OF assms(2)] nth_mem [OF len] by simp
      qed
      then have "take (length m) s = m" using t by simp
      then show False using index_phrase(6) [OF assms(2)] False words by auto
    qed
  qed
qed

lemma quiet_index:
  assumes "m \<in> set index_phrases" "index_name nm" "index_name tbl" "ordinary_name col"
  shows "quiet (blank # m) (to_ascii_lowercase (index_sql nm tbl col ft))"
proof -
  note ne = index_phrase(1) [OF assms(1)]
  have word: "quiet (blank # m) (blank # w)" if "blank \<notin> set w" "\<not> clash m w" for w
    by (rule quiet_blank_word [OF that ne])
  have name: "blank \<notin> set nm" "blank \<notin> set tbl" "blank \<notin> set col"
    using plain_no_blank ordinary_plain index_name_ordinary assms(2-4) by blast+
  have "quiet (blank # m) (''create'' @ (if ft then '' fulltext'' else []) @ '' index'' @ (blank # nm) @ '' on'' @
      (blank # tbl @ ''('' @ col @ '')''))"
  proof (intro quiet_append)
    show "quiet (blank # m) ''create''" by (rule quiet_word) simp
    show "quiet (blank # m) (if ft then '' fulltext'' else [])" using index_phrase(5) [OF assms(1)] word [of "''fulltext''"] by simp
    show "quiet (blank # m) '' index''" using index_phrase(4) [OF assms(1)] word [of "''index''"] by simp
    show "quiet (blank # m) (blank # nm)" using clash_index_name(1) [OF assms(2,1)] name word by blast
    show "quiet (blank # m) '' on''" using index_phrase(3) [OF assms(1)] word [of "''on''"] by simp
    show "quiet (blank # m) (blank # tbl @ ''('' @ col @ '')'')"
      using clash_index_name(2) [OF assms(3,1), of "col @ '')''"] name word [of "tbl @ ''('' @ col @ '')''"] by simp
  qed (simp_all split: if_splits)
  moreover have "to_ascii_lowercase (index_sql nm tbl col ft) =
      ''create'' @ (if ft then '' fulltext'' else []) @ '' index'' @ (blank # nm) @ '' on'' @ (blank # tbl @ ''('' @ col @ '')'')"
    using assms(2-4) index_name_ordinary
    by (simp add: index_sql_def index_keyword_def index_rest_def lower_append lower_letters)
  ultimately show ?thesis by simp
qed

lemma no_index_phrase:
  assumes "m \<in> set index_phrases" "index_name nm" "index_name tbl" "ordinary_name col"
  shows "\<not> contains (to_ascii_lowercase (index_sql nm tbl col ft)) (blank # m)"
  using find_in_quiet [OF quiet_index [OF assms]] by (simp add: contains_def)

subsection \<open>The parts\<close>

lemma index_rest_text:
  assumes "index_name nm" "index_name tbl" "ordinary_name col"
  shows "ascii (index_rest nm tbl col)" "index_rest nm tbl col \<noteq> []" "end_char (last (index_rest nm tbl col))"
    "str_trim (index_rest nm tbl col) = index_rest nm tbl col"
proof -
  note ok = assms(1,2) [THEN index_name_ordinary]
  show a: "ascii (index_rest nm tbl col)" using name_ascii assms(3) ok by (simp add: index_rest_def code_def)
  show ends: "index_rest nm tbl col \<noteq> []" "end_char (last (index_rest nm tbl col))"
    by (simp_all add: index_rest_def end_char_def is_whitespace_def code_def)
  show "str_trim (index_rest nm tbl col) = index_rest nm tbl col"
    using ends name_char [OF ok(1), of "hd nm"] name_ne [OF ok(1)]
    by (intro trim_id ascii_utf8_valid a) (simp_all add: index_rest_def end_char_def)
qed

lemma index_on:
  assumes "index_name nm" "index_name tbl" "ordinary_name col"
  shows "find_ci (index_rest nm tbl col) '' ON '' = Some (length nm)"
proof -
  note ok = assms(1,2) [THEN index_name_ordinary]
  have "str_find (nm @ blank # ''on '' @ tbl @ ''('' @ col @ '')'') (blank # ''on '') = Some (length nm)"
    by (rule find_after_quiet [OF quiet_word [OF plain_no_blank [OF ordinary_plain [OF ok(1)]]]])
  then show ?thesis using ok assms(3) by (simp add: find_ci_def index_rest_def lower_append lower_letters)
qed

lemma index_parens:
  assumes "CHR ''('' \<notin> set a"
  shows "char_find (a @ ''('' @ col @ '')'') (CHR ''('') = Some (length a)"
    "char_rfind (a @ ''('' @ col @ '')'') (CHR '')'') = Some (Suc (length a) + length col)"
  using char_find_append [OF assms, of "col @ '')''"] char_rfind_last [of "a @ ''('' @ col" "CHR '')''"] by simp_all

lemma index_column:
  assumes "ascii a" "ordinary_name col"
  shows "slice (a @ ''('' @ col @ '')'') (length a + 1) (Suc (length a) + length col) = Ok col"
  using slice_parts [of "a @ ''(''" col "'')''"] name_ascii [OF assms(2)] assms(1) by (simp add: ascii_utf8_valid code_def)

lemma plain_index:
  assumes "index_name nm" "index_name tbl" "ordinary_name col"
  shows "is_advanced_create_index (index_sql nm tbl col ft) = Ok False"
proof -
  note ok = assms(1,2) [THEN index_name_ordinary]
  define a where "a = index_keyword ft @ blank # nm @ '' ON '' @ tbl"
  have sql: "index_sql nm tbl col ft = a @ ''('' @ col @ '')''" by (simp add: a_def index_sql_def index_rest_def)
  have a: "ascii a" using name_ascii ok by (simp add: a_def index_keyword_def code_def)
  have paren: "CHR ''('' \<notin> set a" using name_char [OF ok(1)] name_char [OF ok(2)] by (auto simp: a_def index_keyword_def)
  have col: "CHR ''('' \<notin> set col" "\<forall>ch \<in> set col. \<not> is_whitespace [ch]" using name_char [OF assms(3)] by blast+
  have "split_top_level col (CHR '','') = [col]" using split_names [of "[col]"] assms(3) by (simp add: split_top_level_def)
  moreover have "split_whitespace col = [col]" by (rule split_last_word [OF name_ascii [OF assms(3)] col(2) name_ne [OF assms(3)]])
  moreover note no = no_index_phrase [OF _ assms, of _ ft, unfolded index_phrases_def]
  ultimately show ?thesis
    using col(1) no [of "''if not exists''"] no [of "''where ''"] no [of "''collate ''"] no [of "''desc''"] no [of "''asc''"]
    unfolding is_advanced_create_index_def Let_def sql index_parens [OF paren] option.case index_column [OF a assms(3)] rbind.simps
    by (simp del: append.simps)
qed

lemma read_index:
  assumes "index_name nm" "index_name tbl" "ordinary_name col"
  shows "parse_create_index (index_sql nm tbl col ft) = Ok (CreateIndex nm tbl col ft)"
proof -
  note ok = assms(1,2) [THEN index_name_ordinary]
  note rest = index_rest_text [OF assms]
  let ?r = "index_rest nm tbl col" and ?t = "tbl @ ''('' @ col @ '')''"
  have valid: "utf8_valid ?r" "utf8_valid ?t"
    using ascii_utf8_valid [OF rest(1)] ascii_utf8_valid [of ?t] name_ascii ok(2) assms(3) by (simp_all add: code_def)
  have ft: "starts_with_ci (index_sql nm tbl col ft) ''CREATE FULLTEXT INDEX'' = ft"
    using starts_keyword [of "''CREATE FULLTEXT INDEX''" ?r] not_keyword [of "CHR ''I''" "CHR ''F''" "''CREATE ''" "''CREATE ''"]
    by (simp add: index_sql_def index_keyword_def lower_letters)
  have start: "slice_from (index_sql nm tbl col ft) (length (index_keyword ft)) = Ok (blank # ?r)"
    unfolding index_sql_def using valid(1)
    by (intro slice_last) (simp_all add: index_keyword_def utf8_valid_ascii ascii_utf8_valid code_def)
  have "slice_from ((nm @ '' ON '') @ ?t) (length (nm @ '' ON '')) = Ok ?t"
    using name_ascii [OF ok(1)] by (intro slice_last [OF ascii_utf8_valid valid(2)]) (simp add: code_def)
  then have target: "slice_from ?r (length nm + length '' ON '') = Ok ?t" by (simp add: index_rest_def)
  have "str_trim ?t = ?t"
    using name_char [OF ok(2), of "hd tbl"] name_ne [OF ok(2)]
    by (intro trim_id valid) (simp_all add: is_whitespace_def code_def)
  note target_trim = this
  have nm: "slice_to ?r (length nm) = Ok nm"
    unfolding index_rest_def using name_ascii ok(2) assms(3)
    by (intro slice_first [OF name_valid [OF ok(1)]] ascii_utf8_valid) (simp add: code_def)
  have tbl: "slice_to ?t (length tbl) = Ok tbl"
    using name_ascii assms(3) by (intro slice_first [OF name_valid [OF ok(2)]] ascii_utf8_valid) (simp add: code_def)
  have paren: "CHR ''('' \<notin> set tbl" using name_char [OF ok(2)] by blast
  show ?thesis
    unfolding parse_create_index_def ft Let_def index_keyword_def [symmetric] start rbind.simps trim_rest [OF valid(1) rest(4)]
      index_on [OF assms] ok_or_simps target target_trim index_parens [OF paren] nm tbl
      index_column [OF name_ascii [OF ok(2)] assms(3)] normalize_name(2) [OF ok(1)] normalize_name(2) [OF ok(2)]
      normalize_name(2) [OF assms(3)] ..
qed

subsection \<open>Dispatch\<close>

lemma starts_contains:
  assumes "starts_with_ci s p" "p \<noteq> []"
  shows "contains (to_ascii_lowercase s) (to_ascii_lowercase p)"
proof -
  have "to_ascii_lowercase (take (length p) s) = to_ascii_lowercase p"
    using assms(1) by (simp add: starts_with_ci_def eq_ignore_ascii_case_def)
  then have "take (length (to_ascii_lowercase p)) (drop 0 (to_ascii_lowercase s)) = to_ascii_lowercase p"
    by (simp add: to_ascii_lowercase_def take_map)
  then show ?thesis by (rule contains_at) (use assms(2) in \<open>simp add: to_ascii_lowercase_def\<close>)
qed

lemma dispatch_index:
  assumes "\<not> starts_with_ci (index_keyword ft @ blank # t) ''CREATE INDEX IF NOT EXISTS''"
  shows "parse_plain P (index_keyword ft @ blank # t) d =
     rbind (is_advanced_create_index (index_keyword ft @ blank # t)) (\<lambda>adv.
       if adv then parse_parsed_only (index_keyword ft @ blank # t) KCreateIndex ''CREATE''
       else parse_create_index (index_keyword ft @ blank # t))"
proof -
  define s where "s = index_keyword ft @ blank # t"
  obtain x u where s: "s = ''CREATE '' @ x # u" and x: "ascii_lower x = CHR ''f'' \<or> ascii_lower x = CHR ''i''"
    by (cases ft) (simp_all add: s_def index_keyword_def lower_letters)
  have no: "starts_with_ci s (''CREATE '' @ y # p) = False" if "ascii_lower y \<noteq> CHR ''f''" "ascii_lower y \<noteq> CHR ''i''" for y p
    unfolding s using that x by (intro not_keyword) auto
  have other: "starts_with_ci s (y # p) = False" "eq_ignore_ascii_case s (y # p) = False" if "ascii_lower y \<noteq> CHR ''c''" for y p
    using that other_first [of y "CHR ''C''"] by (simp_all add: s lower_letters)
  have commit: "eq_ignore_ascii_case s (''COMMIT'' @ z) = False" for z by (simp add: s lower_letters)
  have this_one: "starts_with_ci s ''CREATE FULLTEXT INDEX'' \<or> starts_with_ci s ''CREATE INDEX''"
    using starts_keyword [of "index_keyword ft" t] by (auto simp: s_def index_keyword_def)
  have "parse_create s = Some (rbind (is_advanced_create_index s) (\<lambda>adv.
      if adv then parse_parsed_only s KCreateIndex ''CREATE'' else parse_create_index s))"
    using no [of "CHR ''T''"] no [of "CHR ''V''"] no [of "CHR ''U''"] this_one assms
    unfolding parse_create_def by (simp add: lower_letters s_def [symmetric])
  moreover have "is_begin s d = False" "is_commit s d = False" "is_rollback s d = False"
    using other commit unfolding is_begin_def is_commit_def is_rollback_def by (simp_all add: lower_letters)
  ultimately show ?thesis
    using other unfolding parse_plain_def s_def [symmetric] by (simp add: lower_letters)
qed

lemma index_parses:
  assumes "index_name nm" "index_name tbl" "ordinary_name col"
  shows "parse_sql_with_dialect P (index_sql nm tbl col ft) d = Ok (CreateIndex nm tbl col ft)"
proof -
  note rest = index_rest_text [OF assms]
  have "\<not> starts_with_ci (index_sql nm tbl col ft) ''CREATE INDEX IF NOT EXISTS''"
  proof
    assume "starts_with_ci (index_sql nm tbl col ft) ''CREATE INDEX IF NOT EXISTS''"
    then have "contains (to_ascii_lowercase (index_sql nm tbl col ft)) (''create index'' @ '' if not exists'')"
      using starts_contains by (force simp: lower_append lower_letters)
    then have "contains (to_ascii_lowercase (index_sql nm tbl col ft)) '' if not exists''" using contains_tail by blast
    then show False using no_index_phrase [OF _ assms, of "''if not exists''"] by (simp add: index_phrases_def)
  qed
  note dispatch = dispatch_index [OF this [unfolded index_sql_def], folded index_sql_def]
  have "parse_sql_with_dialect P (CHR ''C'' # (tl (index_keyword ft) @ [blank]) @ index_rest nm tbl col) d =
      parse_plain P (CHR ''C'' # (tl (index_keyword ft) @ [blank]) @ index_rest nm tbl col) d"
    by (rule entry_after [OF ascii_utf8_valid [OF rest(1)] rest(2,3)])
      (simp_all add: index_keyword_def code_def is_whitespace_def lower_letters)
  moreover have "CHR ''C'' # (tl (index_keyword ft) @ [blank]) @ index_rest nm tbl col = index_sql nm tbl col ft"
    by (simp add: index_sql_def index_keyword_def)
  ultimately show ?thesis using dispatch plain_index [OF assms] read_index [OF assms] by simp
qed

end
