(* ===== verification/Parser_Statements.thy ===== *)
theory Parser_Statements
  imports Parser_Index
begin

section \<open>Every kind of executable statement parses back\<close>

text \<open>
  The reference printer for whole statements: definitions of tables and indexes, insertions, queries with columns, a condition and a
  limit, updates, deletions, transaction control and \<^verbatim>\<open>EXPLAIN\<close> of any of these, however deep. The parser reads
  back what it prints. The same theory holds the bounds on integer literals and on the nesting of \<^verbatim>\<open>EXPLAIN\<close>.
\<close>

subsection \<open>EXPLAIN\<close>

definition statement_shape :: "string \<Rightarrow> bool" where
  "statement_shape t \<longleftrightarrow>
     utf8_valid t \<and> t \<noteq> [] \<and> end_char (hd t) \<and> end_char (last t) \<and> ascii_lower (hd t) \<noteq> CHR ''q''"

lemma shape_trim: "statement_shape t \<Longrightarrow> str_trim t = t"
  by (rule trim_id) (simp_all add: statement_shape_def end_char_def)

lemma shape_text:
  assumes "statement_shape t"
  shows "statement_text t = t"
proof -
  have "trim_end_matches (CHR '';'') t = t"
    unfolding trim_end_matches_def using assms by (intro dropWhileEnd_id) (auto simp: statement_shape_def end_char_def)
  then show ?thesis using shape_trim [OF assms] by (simp add: statement_text_def)
qed

lemma shape_keyword:
  assumes "utf8_valid t" "t \<noteq> []" "end_char (last t)" "ascii (c # k)" "end_char c" "ascii_lower c \<noteq> CHR ''q''"
  shows "statement_shape (c # k @ t)"
  using assms utf8_valid_append [of "c # k" t] ascii_utf8_valid [of "c # k"]
  by (auto simp: statement_shape_def)

lemma shape_prefix:
  "statement_shape t \<Longrightarrow> ascii (c # k) \<Longrightarrow> end_char c \<Longrightarrow> ascii_lower c \<noteq> CHR ''q'' \<Longrightarrow> statement_shape (c # k @ t)"
  by (rule shape_keyword) (simp_all add: statement_shape_def)

lemma explain_keyword: "utf8_valid t \<Longrightarrow> starts_with_ci (''EXPLAIN'' @ t) ''EXPLAIN''"
  using cut_boundary [OF cut_append [of "''EXPLAIN''" t]] by (simp add: starts_with_ci_def code_def)

lemma explain_shape:
  assumes "statement_shape t" "sep = [] \<or> sep = [blank]"
  shows "statement_shape (''EXPLAIN'' @ sep @ t)"
  using assms(2) shape_prefix [OF assms(1), of "CHR ''E''" "''XPLAIN'' @ sep"]
  by (auto simp: code_def end_char_def is_whitespace_def lower_letters)

lemma explain_step:
  assumes "statement_shape t" "sep = [] \<or> sep = [blank]"
  shows "parse_sql_with_dialect P (''EXPLAIN'' @ sep @ t) d = rbind (parse_sql_with_dialect P t d) (\<lambda>s. Ok (Explain s))"
proof -
  have v: "utf8_valid t" using assms(1) by (simp add: statement_shape_def)
  have vs: "utf8_valid (sep @ t)" using assms(2) v by (auto simp: utf8_valid_ascii code_def)
  have trim: "str_trim (sep @ t) = t" using assms(2) shape_trim [OF assms(1)] trim_space [OF v] by auto
  note trimmed = shape_text [OF explain_shape [OF assms]]
  have cut: "slice_from (''EXPLAIN'' @ sep @ t) (length ''EXPLAIN'') = Ok (sep @ t)"
    by (rule slice_last [OF _ vs]) (simp add: code_def)
  have "starts_with_ci t ''QUERY PLAN'' = False"
  proof -
    obtain c u where t: "t = c # u" using assms(1) by (cases t) (simp_all add: statement_shape_def)
    then have "ascii_lower (CHR ''Q'') \<noteq> ascii_lower c" using assms(1) by (auto simp: statement_shape_def lower_letters)
    then show ?thesis unfolding t by (rule other_first(1))
  qed
  then have "skip_query_plan t = Ok t" by (simp add: skip_query_plan_def)
  moreover have "t \<noteq> []" using assms(1) by (simp add: statement_shape_def)
  ultimately have "explain_target (''EXPLAIN'' @ sep @ t) = Ok t" unfolding explain_target_def cut rbind.simps trim by simp
  moreover have "''EXPLAIN'' @ sep @ t \<noteq> []" by simp
  ultimately show ?thesis
    using explain_keyword [OF vs] by (subst parse_sql_with_dialect.simps) (simp only: trimmed if_True if_False rbind.simps)
qed

lemma control_parses:
  "parse_sql_with_dialect P ''BEGIN'' d = Ok Begin" "parse_sql_with_dialect P ''COMMIT'' d = Ok Commit"
  "parse_sql_with_dialect P ''ROLLBACK'' d = Ok Rollback"
proof -
  have shapes: "list_all statement_shape [''BEGIN'', ''COMMIT'', ''ROLLBACK'']"
    by (simp add: statement_shape_def end_char_def is_whitespace_def lower_letters code_def)
  then have st: "statement_text ''BEGIN'' = ''BEGIN''" "statement_text ''COMMIT'' = ''COMMIT''" "statement_text ''ROLLBACK'' = ''ROLLBACK''"
    using shape_text by simp_all
  have no: "starts_with_ci ''BEGIN'' ''EXPLAIN'' = False" "starts_with_ci ''COMMIT'' ''EXPLAIN'' = False"
      "starts_with_ci ''ROLLBACK'' ''EXPLAIN'' = False"
    by (simp_all add: other_first lower_letters)
  have plain: "parse_plain P ''BEGIN'' d = Ok Begin" "parse_plain P ''COMMIT'' d = Ok Commit" "parse_plain P ''ROLLBACK'' d = Ok Rollback"
    by (simp_all add: parse_plain_def is_begin_def is_commit_def is_rollback_def other_first lower_letters)
  show "parse_sql_with_dialect P ''BEGIN'' d = Ok Begin" "parse_sql_with_dialect P ''COMMIT'' d = Ok Commit"
    "parse_sql_with_dialect P ''ROLLBACK'' d = Ok Rollback"
    using st no plain by (subst parse_sql_with_dialect.simps, simp)+
qed

subsection \<open>INSERT with columns\<close>

definition target_sql :: "string \<Rightarrow> string list option \<Rightarrow> string" where
  "target_sql tbl cols = (case cols of None \<Rightarrow> tbl | Some cs \<Rightarrow> tbl @ ''('' @ join '','' cs @ '')'')"

definition target_names :: "string \<Rightarrow> string list option \<Rightarrow> bool" where
  "target_names tbl cols \<longleftrightarrow>
     (case cols of
        None \<Rightarrow> plain_name tbl \<and> \<not> contains tbl ''values''
      | Some cs \<Rightarrow> ordinary_name tbl \<and> cs \<noteq> [] \<and> list_all ordinary_name cs)"

lemma names_text:
  "list_all ordinary_name cs \<Longrightarrow> ascii (join '','' cs) \<and> to_ascii_lowercase (join '','' cs) = join '','' cs \<and> \<not> contains (join '','' cs) ''values''"
proof (induction cs rule: induct_list012)
  case 1
  show ?case by (simp add: to_ascii_lowercase_def contains_def)
next
  case (2 c)
  then show ?case using name_ascii by (simp add: ordinary_name_def [of c])
next
  case (3 c e cs)
  then have ok: "ordinary_name c" and rest: "ascii (join '','' (e # cs))" "to_ascii_lowercase (join '','' (e # cs)) = join '','' (e # cs)"
      "\<not> contains (join '','' (e # cs)) ''values''" by simp_all
  have "str_find (c @ CHR '','' # join '','' (e # cs)) ''values'' = None"
    using ok rest(3) by (intro str_find_append_None) (simp_all add: ordinary_name_def contains_def)
  then show ?case using ok rest(1,2) name_ascii [OF ok] by (simp add: lower_append lower_letters contains_def code_def)
qed

lemma target_parses:
  assumes "target_names tbl cols"
  shows "target_text (target_sql tbl cols)" "\<not> contains (target_sql tbl cols) ''values''"
    "insert_target (target_sql tbl cols) = Ok (tbl, cols)"
proof -
  have all: "target_text (target_sql tbl cols) \<and> \<not> contains (target_sql tbl cols) ''values'' \<and>
      insert_target (target_sql tbl cols) = Ok (tbl, cols)"
  proof (cases cols)
    case None
    then show ?thesis using assms plain_target plain_insert_target by (simp add: target_names_def target_sql_def)
  next
    case (Some cs)
    then have ok: "ordinary_name tbl" "cs \<noteq> []" "list_all ordinary_name cs" using assms by (simp_all add: target_names_def)
    define b where "b = join '','' cs"
    note b = names_text [OF ok(3), folded b_def]
    have tg: "target_sql tbl cols = tbl @ ''('' @ b @ '')''" using Some by (simp add: target_sql_def b_def)
    have "hd tbl \<in> set tbl" using name_ne [OF ok(1)] by simp
    then have "\<not> is_whitespace [hd tbl]" using name_char [OF ok(1)] by blast
    then have t: "target_text (target_sql tbl cols)"
      using b name_ascii [OF ok(1)] name_ne [OF ok(1)] ok(1)
      by (simp add: tg target_text_def lower_append lower_letters code_def is_whitespace_def)
    have "str_find (b @ CHR '')'' # []) ''values'' = None" using b by (intro str_find_append_None) (simp_all add: contains_def)
    from str_find_append_None [OF _ _ _ this, of tbl "CHR ''(''"] have "str_find (tbl @ CHR ''('' # b @ '')'') ''values'' = None"
      using ok(1) by (simp add: ordinary_name_def contains_def)
    then have no: "\<not> contains (target_sql tbl cols) ''values''" by (simp add: tg contains_def)
    have "CHR ''('' \<notin> set tbl" using name_char [OF ok(1)] by blast
    then have pos: "char_find (target_sql tbl cols) (CHR ''('') = Some (length tbl)"
      "char_rfind (target_sql tbl cols) (CHR '')'') = Some (Suc (length tbl) + length b)"
      using char_find_append [of "CHR ''(''" tbl "b @ '')''"] char_rfind_last [of "tbl @ ''('' @ b" "CHR '')''"] by (simp_all add: tg)
    have name: "slice_to (target_sql tbl cols) (length tbl) = Ok tbl"
      unfolding tg using b by (intro slice_first [OF name_valid [OF ok(1)]] ascii_utf8_valid) (simp add: code_def)
    have cut: "slice (target_sql tbl cols) (length tbl + 1) (Suc (length tbl) + length b) = Ok b"
      using slice_parts [of "tbl @ ''(''" b "'')''"] b name_ascii [OF ok(1)] by (simp add: tg ascii_utf8_valid code_def)
    have "split_top_level b (CHR '','') = cs" using split_names [OF ok(2,3)] by (simp add: split_top_level_def b_def)
    moreover have "map normalize_identifier cs = cs" using ok(3) normalize_name(2) by (intro map_idI) (simp add: list_all_iff)
    ultimately have "insert_target (target_sql tbl cols) = Ok (tbl, cols)"
      unfolding insert_target_def pos option.case ok_or_simps rbind.simps name cut using normalize_name(2) [OF ok(1)] Some by simp
    then show ?thesis using t no by blast
  qed
  then show "target_text (target_sql tbl cols)" "\<not> contains (target_sql tbl cols) ''values''"
    "insert_target (target_sql tbl cols) = Ok (tbl, cols)" by blast+
qed

subsection \<open>The printer\<close>

fun statement_sql :: "statement \<Rightarrow> string" where
  "statement_sql Begin = ''BEGIN''"
| "statement_sql Commit = ''COMMIT''"
| "statement_sql Rollback = ''ROLLBACK''"
| "statement_sql (Explain s) = ''EXPLAIN '' @ statement_sql s"
| "statement_sql (CreateTable nm cols) = create_sql nm cols"
| "statement_sql (CreateIndex nm tbl col ft) = index_sql nm tbl col ft"
| "statement_sql (Insert tbl cols vs) = insert_sql (target_sql tbl cols) vs"
| "statement_sql (Select tbl p f _ l) = select_sql tbl p f l"
| "statement_sql (Update tbl asg f) = update_sql tbl asg f"
| "statement_sql (Delete tbl f) = delete_sql tbl f"
| "statement_sql _ = []"

fun printable_statement :: "statement \<Rightarrow> bool" where
  "printable_statement Begin = True"
| "printable_statement Commit = True"
| "printable_statement Rollback = True"
| "printable_statement (Explain s) = printable_statement s"
| "printable_statement (CreateTable nm cols) = (ordinary_name nm \<and> cols \<noteq> [] \<and> list_all column_ok cols)"
| "printable_statement (CreateIndex nm tbl col ft) = (index_name nm \<and> index_name tbl \<and> ordinary_name col)"
| "printable_statement (Insert tbl cols vs) =
     (target_names tbl cols \<and> vs \<noteq> [] \<and> list_all printable vs \<and>
      list_all (\<lambda>p. \<not> contains (to_ascii_lowercase (insert_tail (target_sql tbl cols) vs)) p) insert_phrases)"
| "printable_statement (Select tbl p f ord l) = (ordinary_name tbl \<and> projection_ok p \<and> where_ok f \<and> ord = None \<and> limit_ok l)"
| "printable_statement (Update tbl asg f) = (ordinary_name tbl \<and> asg \<noteq> [] \<and> list_all assignment_ok asg \<and> where_ok f)"
| "printable_statement (Delete tbl f) = (ordinary_name tbl \<and> where_ok f)"
| "printable_statement _ = False"

lemma insert_shape:
  assumes "target_text tg" "list_all printable vs"
  shows "statement_shape (insert_sql tg vs)"
  using tail_text(3) [OF assms(1)] assms(2)
  by (auto simp: statement_shape_def insert_sql_def insert_tail_def list_all_iff end_char_def is_whitespace_def code_def lower_letters)

lemma create_shape:
  assumes "ordinary_name nm" "list_all column_ok cols" "cols \<noteq> []"
  shows "statement_shape (create_sql nm cols)"
proof -
  obtain body where body: "create_sql nm cols = ''CREATE TABLE '' @ nm @ ''('' @ body @ '')''" "ascii body"
    by (rule create_text [OF assms])
  have "ascii (nm @ ''('' @ body @ '')'')" using body(2) name_ascii [OF assms(1)] by (simp add: code_def)
  then show ?thesis
    using ascii_utf8_valid shape_keyword [of "nm @ ''('' @ body @ '')''" "CHR ''C''" "''REATE TABLE ''"]
    by (simp add: body(1) end_char_def is_whitespace_def code_def lower_letters)
qed

lemma index_shape:
  assumes "index_name nm" "index_name tbl" "ordinary_name col"
  shows "statement_shape (index_sql nm tbl col ft)"
  using index_rest_text [OF assms] ascii_utf8_valid [OF index_rest_text(1) [OF assms]]
    shape_keyword [of "index_rest nm tbl col" "CHR ''C''" "tl (index_keyword ft) @ [blank]"]
  by (cases ft) (simp_all add: index_sql_def index_keyword_def end_char_def is_whitespace_def code_def lower_letters)

lemma select_shape:
  assumes "ordinary_name tbl" "projection_ok p" "where_ok w"
  shows "statement_shape (select_sql tbl p w l)"
  using select_rest(1) [OF assms] source_ends(1,2) [OF assms(1,3)]
    shape_keyword [of "projection_sql p @ '' FROM '' @ source_sql tbl w l" "CHR ''S''" "''ELECT ''"]
  by (simp add: select_sql_def end_char_def is_whitespace_def code_def lower_letters)

lemma update_shape:
  assumes "ordinary_name tbl" "asg \<noteq> []" "list_all assignment_ok asg" "where_ok w"
  shows "statement_shape (update_sql tbl asg w)"
  using update_rest(3,6) [OF assms] shape_keyword [of "tbl @ '' SET '' @ assignments_sql asg @ where_sql w" "CHR ''U''" "''PDATE ''"]
  by (simp add: update_sql_def end_char_def is_whitespace_def code_def lower_letters)

lemma delete_shape:
  assumes "ordinary_name tbl" "where_ok w"
  shows "statement_shape (delete_sql tbl w)"
  using source_valid [OF assms] source_ends(1,2) [OF assms] shape_keyword [of "source_sql tbl w None" "CHR ''D''" "''ELETE FROM ''"]
  by (simp add: delete_sql_def end_char_def is_whitespace_def code_def lower_letters)

lemma statement_parses:
  assumes "printable_statement s"
  shows "statement_shape (statement_sql s) \<and> parse_sql_with_dialect P (statement_sql s) d = Ok s"
  using assms
proof (induction s rule: printable_statement.induct)
  case (4 s)
  then show ?case using explain_shape [of "statement_sql s" "[blank]"] explain_step [of "statement_sql s" "[blank]"] by simp
next
  case (5 nm cols)
  then show ?case using create_parses create_shape by simp
next
  case (6 nm tbl col ft)
  then show ?case using index_parses index_shape by simp
next
  case (7 tbl cols vs)
  then have ok: "target_names tbl cols" "vs \<noteq> []" "list_all printable vs"
      "list_all (\<lambda>p. \<not> contains (to_ascii_lowercase (insert_tail (target_sql tbl cols) vs)) p) insert_phrases" by simp_all
  note target = target_parses [OF ok(1)]
  have "parse_sql_with_dialect P (insert_sql (target_sql tbl cols) vs) d = Ok (Insert tbl cols vs)"
    using ok(3,4) by (intro insert_parses target ok(2)) (simp_all add: list_all_iff)
  then show ?case using insert_shape [OF target(1) ok(3)] by simp
next
  case (8 tbl p f ord l)
  then show ?case using select_parses [of tbl p f l P d] select_shape by simp
next
  case (9 tbl asg f)
  then show ?case using update_parses [of tbl asg f P d] update_shape by simp
next
  case (10 tbl f)
  then show ?case using delete_parses [of tbl f P d] delete_shape by simp
qed (simp_all add: control_parses statement_shape_def end_char_def is_whitespace_def code_def lower_letters)

subsection \<open>Depth of EXPLAIN\<close>

text \<open>How often the entry point of the parser has called itself when it returns this statement.\<close>

fun explain_depth :: "statement \<Rightarrow> nat" where
  "explain_depth (Explain s) = Suc (explain_depth s)"
| "explain_depth _ = 0"

lemma parsed_only_depth:
  "parse_parsed_only sql k p = Ok s \<Longrightarrow> explain_depth s = 0" "parse_attach_or_detach sql k p = Ok s \<Longrightarrow> explain_depth s = 0"
  "parse_drop sql k p = Ok s \<Longrightarrow> explain_depth s = 0" "parse_advanced_insert_kind sql k p = Ok s \<Longrightarrow> explain_depth s = 0"
  "parse_alter_table sql = Ok s \<Longrightarrow> explain_depth s = 0" "parse_create_view sql = Ok s \<Longrightarrow> explain_depth s = 0"
  "parse_create_trigger sql = Ok s \<Longrightarrow> explain_depth s = 0" "parse_create_virtual_table sql = Ok s \<Longrightarrow> explain_depth s = 0"
  "parse_advanced_insert sql = Ok s \<Longrightarrow> explain_depth s = 0"
  by (auto simp: parse_parsed_only_def parse_attach_or_detach_def parse_drop_def parse_advanced_insert_kind_def
      parse_alter_table_def parse_create_view_def parse_create_trigger_def parse_create_virtual_table_def parse_advanced_insert_def
      rbind_Ok_iff Let_def split: if_splits)

lemma create_depth: "parse_create_table sql = Ok s \<Longrightarrow> explain_depth s = 0" "parse_create_index sql = Ok s \<Longrightarrow> explain_depth s = 0"
  unfolding parse_create_table_def parse_create_index_def Let_def by (auto simp: rbind_Ok_iff split: if_splits)

lemma row_depth: "parse_insert P sql = Ok s \<Longrightarrow> explain_depth s = 0" "parse_select P sql = Ok s \<Longrightarrow> explain_depth s = 0"
  "parse_delete P sql = Ok s \<Longrightarrow> explain_depth s = 0"
  by (auto simp: parse_insert_def parse_select_def parse_delete_def rbind_Ok_iff Let_def split: if_splits prod.splits)

lemma update_depth: "parse_update P sql = Ok s \<Longrightarrow> explain_depth s = 0"
  unfolding parse_update_def Let_def rbind_Ok_iff by auto

lemma parse_create_depth: "parse_create sql = Some (Ok s) \<Longrightarrow> explain_depth s = 0"
  unfolding parse_create_def rbind_Ok_iff option.inject
  by (auto simp: rbind_Ok_iff split: if_splits dest: parsed_only_depth create_depth)

lemma parse_row_depth: "parse_row_statement P sql = Some (Ok s) \<Longrightarrow> explain_depth s = 0"
  unfolding parse_row_statement_def
  by (auto simp: rbind_Ok_iff split: if_splits dest: parsed_only_depth row_depth update_depth)

lemma parse_plain_depth: "parse_plain P sql d = Ok s \<Longrightarrow> explain_depth s = 0"
  unfolding parse_plain_def
  by (auto split: if_splits option.splits dest: parsed_only_depth parse_create_depth parse_row_depth)

lemma explain_depth_length: "parse_sql_with_dialect P sql d = Ok s \<Longrightarrow> 7 * explain_depth s < length sql"
proof (induction P sql d arbitrary: s rule: parse_sql_with_dialect.induct)
  case (1 P sql d)
  let ?t = "statement_text sql"
  have ne: "?t \<noteq> []" using 1(2) by (subst (asm) parse_sql_with_dialect.simps) (auto split: if_splits)
  have len: "length ?t \<le> length sql" by (rule length_statement_text)
  show ?case
  proof (cases "starts_with_ci ?t ''EXPLAIN''")
    case True
    then obtain rest u where r: "explain_target ?t = Ok rest" "parse_sql_with_dialect P rest d = Ok u" "s = Explain u"
      using 1(2) ne by (subst (asm) parse_sql_with_dialect.simps) (auto simp: rbind_Ok_iff)
    have "7 * explain_depth u < length rest" by (rule 1(1) [OF ne True r(1,2)])
    moreover have "length rest + 7 \<le> length ?t" by (rule explain_target_length [OF r(1)])
    ultimately show ?thesis using len r(3) by simp
  next
    case False
    then have "parse_plain P ?t d = Ok s" using 1(2) ne by (subst (asm) parse_sql_with_dialect.simps) simp
    then show ?thesis using parse_plain_depth ne len by (cases ?t) fastforce+
  qed
qed

definition explain_text :: "nat \<Rightarrow> string" where
  "explain_text n = concat (replicate n ''EXPLAIN'') @ ''BEGIN''"

lemma explain_text_parses:
  "statement_shape (explain_text n) \<and> parse_sql_with_dialect P (explain_text n) d = Ok ((Explain ^^ n) Begin)"
proof (induction n)
  case 0
  show ?case by (simp add: explain_text_def control_parses statement_shape_def end_char_def is_whitespace_def code_def lower_letters)
next
  case (Suc n)
  have "explain_text (Suc n) = ''EXPLAIN'' @ [] @ explain_text n" by (simp add: explain_text_def)
  then show ?case using Suc explain_shape [of "explain_text n" "[]"] explain_step [of "explain_text n" "[]"] by simp
qed

subsection \<open>Integer literals\<close>

definition show_int :: "int \<Rightarrow> string" where
  "show_int i = (if i < 0 then CHR ''-'' # show_nat (nat (- i)) else show_nat (nat i))"

lemma show_int_ne: "show_int i \<noteq> []"
  by (simp add: show_int_def)

lemma show_int_chars: "c \<in> set (show_int i) \<Longrightarrow> digit_sign c"
  using show_nat_codes by (auto simp: show_int_def digit_sign_def code_def split: if_splits)

lemma parse_value_number:
  assumes "s \<noteq> []" "\<And>c. c \<in> set s \<Longrightarrow> digit_sign c"
  shows "parse_value P s = rbind (ok_or (Parse (''could not parse value '' @ s)) (parse_i64 s)) (\<lambda>v. Ok (Integer v))"
proof -
  have ends: "digit_sign (hd s)" "digit_sign (last s)" using assms by simp_all
  have a: "ascii s" using assms(2) digit_sign_plain unfolding ascii_def by blast
  have trim: "str_trim s = s"
    using digit_sign_plain [OF ends(1)] digit_sign_plain [OF ends(2)] by (intro trim_id ascii_utf8_valid a assms(1)) simp_all
  have lo: "code (hd s) < 65" using ends(1) by (auto simp: digit_sign_def)
  have no: "hd s \<noteq> squote" "hd s \<noteq> dquote" "hd s \<noteq> CHR ''[''" using ends(1) by (auto simp: digit_sign_def code_def)
  have dots: "CHR ''.'' \<notin> set s" "CHR ''e'' \<notin> set s" "CHR ''E'' \<notin> set s"
    using assms(2) [of "CHR ''.''"] assms(2) [of "CHR ''e''"] assms(2) [of "CHR ''E''"] by (auto simp: digit_sign_def code_def)
  have quoted: "parse_quoted_string s = Ok None" using no by (simp add: parse_quoted_string_def Let_def)
  have words: "\<not> eq_ignore_ascii_case s ''NULL''" "\<not> eq_ignore_ascii_case s ''TRUE''" "\<not> eq_ignore_ascii_case s ''FALSE''"
      "\<not> starts_with_ci s ''POINT''"
    using low_no_keyword [OF lo assms(1)] by (simp_all add: code_def)
  show ?thesis unfolding parse_value_def Let_def trim using words quoted no(3) dots by simp
qed

lemma parse_i64_int:
  "parse_i64 (show_int i) = (if - (2 ^ 63) \<le> i \<and> i < 2 ^ 63 then Some (word_of_int i) else None)"
proof (cases "i < 0")
  case True
  then show ?thesis by (auto simp: parse_i64_def show_int_def from_digits_show nat_le_iff)
next
  case False
  obtain c t where s: "show_nat (nat i) = c # t" by (cases "show_nat (nat i)") auto
  then have "c \<noteq> CHR ''+'' \<and> c \<noteq> CHR ''-''" using show_nat_codes [of c "nat i"] by (auto simp: code_def)
  then show ?thesis using False s from_digits_show [of 10 "nat i"]
    by (auto simp: parse_i64_def show_int_def nat_less_iff)
qed

subsection \<open>Properties\<close>

text \<open>C12: Every kind of executable statement parses back: for the definition of a table, of an index or of a
  full-text index, an insertion with or without a list of columns, a query of all or some columns with a condition and a
  limit, an update, a deletion, transaction control, and \<^verbatim>\<open>EXPLAIN\<close> nested to any depth around one of them, the parser
  reads the printed text as exactly that statement, in every dialect. The statements are those the reference printer
  writes. Names are ordinary names: one or more lower-case letters, digits and underscores; none of \<^verbatim>\<open>union\<close>, \<^verbatim>\<open>intersect\<close>, \<^verbatim>\<open>except\<close>,
  \<^verbatim>\<open>window\<close>, \<^verbatim>\<open>from\<close>, \<^verbatim>\<open>group\<close>, \<^verbatim>\<open>having\<close>, \<^verbatim>\<open>offset\<close>, \<^verbatim>\<open>where\<close>, \<^verbatim>\<open>order\<close>, \<^verbatim>\<open>limit\<close>, \<^verbatim>\<open>returning\<close>, \<^verbatim>\<open>using\<close>,
  \<^verbatim>\<open>set\<close>, \<^verbatim>\<open>or\<close>, \<^verbatim>\<open>check\<close>; without \<^verbatim>\<open>values\<close> inside; not beginning with \<^verbatim>\<open>all\<close>, \<^verbatim>\<open>distinct\<close>, \<^verbatim>\<open>match\<close>,
  \<^verbatim>\<open>geo_distance\<close>, \<^verbatim>\<open>unique\<close>, \<^verbatim>\<open>autoincrement\<close> (so not \<^verbatim>\<open>allergies\<close>, \<^verbatim>\<open>match_id\<close> or \<^verbatim>\<open>unique_id\<close>, which the parser reads as
  something else). The names of an index and of its table are moreover not \<^verbatim>\<open>if\<close> or \<^verbatim>\<open>collate\<close> and do not begin with
  \<^verbatim>\<open>asc\<close> or \<^verbatim>\<open>desc\<close>; the table of an insertion without a list of columns may be any word of those characters without
  \<^verbatim>\<open>values\<close> inside. Lists of columns, values and assignments are not empty. Values are NULL, booleans, integers and UTF-8 texts,
  no floats, vectors or points. A condition is an equality or a full-text search, the limit is below \<open>2 ^ 64\<close>, and there is no
  \<^verbatim>\<open>ORDER BY\<close>. The parser searches for keywords inside literals too: no text in a condition or an assignment contains one of
  \<^verbatim>\<open>union\<close>, \<^verbatim>\<open>intersect\<close>, \<^verbatim>\<open>except\<close>, \<^verbatim>\<open>window\<close>, \<^verbatim>\<open>from\<close>, \<^verbatim>\<open>group by\<close>, \<^verbatim>\<open>having\<close>, \<^verbatim>\<open>offset\<close>, \<^verbatim>\<open>where\<close>,
  \<^verbatim>\<open>order by\<close>, \<^verbatim>\<open>limit\<close>, \<^verbatim>\<open>returning\<close>, \<^verbatim>\<open>using\<close>, \<^verbatim>\<open>set\<close> between blanks in any case, and the text of an insertion contains
  neither \<^verbatim>\<open>default values\<close> nor \<^verbatim>\<open>on conflict\<close> after a blank, nor \<^verbatim>\<open>returning\<close> between blanks.\<close>

theorem statement_roundtrip:
  assumes "printable_statement s"
  shows "parse_sql_with_dialect P (statement_sql s) d = Ok s"
  using statement_parses [OF assms] by blast

definition demo_statements :: "statement list" where
  "demo_statements =
     [CreateTable ''notes'' [\<lparr>col_name = ''id'', col_ty = IntegerT, col_primary_key = True\<rparr>,
                         \<lparr>col_name = ''body'', col_ty = TextT, col_primary_key = False\<rparr>],
      Insert ''notes'' None [Integer 7, demo_note],
      Insert ''notes'' (Some [''body'', ''id'']) [Null, Integer 8],
      Explain (Select ''notes'' (Columns [''id'', ''body'']) (Some (Equals ''id'' (Integer 7))) None (Some 5)),
      Update ''notes'' [(''body'', demo_note), (''id'', Null)] (Some (Equals ''body'' (Text ''it''))),
      Delete ''notes'' None,
      CreateIndex ''notes_body'' ''notes'' ''body'' True,
      Select ''notes'' AllColumns (Some (FullText ''body'' ''it is'')) None None]"

theorem statement_roundtrip_witness:
  "parse_sql_with_dialect demo_platform ''CREATE TABLE notes(id integer PRIMARY KEY,body text)'' Fsql = Ok (demo_statements ! 0) \<and>
   parse_sql_with_dialect demo_platform ''EXPLAIN SELECT id,body FROM notes WHERE id = 7 LIMIT 5'' Sqlite = Ok (demo_statements ! 3) \<and>
   parse_sql_with_dialect demo_platform (''SELECT * FROM notes WHERE MATCH(body, '' @ squote # ''it is'' @ squote # '')'') Fsql =
     Ok (demo_statements ! 7) \<and>
   list_all (\<lambda>s. parse_sql_with_dialect demo_platform (statement_sql s) PostgreSql = Ok s) demo_statements"
proof -
  have "list_all plain_name [''notes'', ''id'', ''body'', ''notes_body'']" by (simp add: plain_name_def code_def)
  moreover have "list_all (\<lambda>s. s \<notin> set reserved_words \<and> \<not> contains s ''values'' \<and>
      list_all (\<lambda>p. take (length p) s \<noteq> p) reserved_prefixes) [''notes'', ''id'', ''body'', ''notes_body'']" by code_simp
  moreover have "list_all (\<lambda>v. printable v \<and> quiet_value v) [Integer 7, Integer 8, demo_note, Null, Text ''it'', Text ''it is'']" by code_simp
  moreover have "list_all (\<lambda>p. \<not> contains (to_ascii_lowercase (insert_tail (target_sql ''notes'' None) [Integer 7, demo_note])) p \<and>
      \<not> contains (to_ascii_lowercase (insert_tail (target_sql ''notes'' (Some [''body'', ''id''])) [Null, Integer 8])) p) insert_phrases"
    by code_simp
  ultimately have "list_all printable_statement demo_statements"
    by (simp add: demo_statements_def target_names_def ordinary_name_def index_name_def column_ok_def projection_ok_def where_ok_def limit_ok_def
        assignment_ok_def list_all_iff)
  then have ok: "list_all (\<lambda>s. parse_sql_with_dialect demo_platform (statement_sql s) d = Ok s) demo_statements" for d
    using statement_roundtrip [of _ demo_platform d] by (simp only: list_all_iff) blast
  moreover have "statement_sql (demo_statements ! 0) = ''CREATE TABLE notes(id integer PRIMARY KEY,body text)''"
    "statement_sql (demo_statements ! 3) = ''EXPLAIN SELECT id,body FROM notes WHERE id = 7 LIMIT 5''"
    "statement_sql (demo_statements ! 7) = ''SELECT * FROM notes WHERE MATCH(body, '' @ squote # ''it is'' @ squote # '')''"
    by code_simp+
  moreover have "demo_statements ! 0 \<in> set demo_statements" "demo_statements ! 3 \<in> set demo_statements"
      "demo_statements ! 7 \<in> set demo_statements"
    by (simp_all add: demo_statements_def)
  ultimately show ?thesis unfolding list_all_iff by metis
qed

text \<open>C35: Integer literals are exact at the bounds of 64 bits: the decimal text of an integer is read as that integer
  when it lies between minus two to the 63rd and two to the 63rd minus one, and as a parse error, never as a wrapped or
  saturated value, when it does not.\<close>

theorem integer_literal_bounds:
  "if - (2 ^ 63) \<le> i \<and> i < 2 ^ 63 then \<exists>v. parse_value P (show_int i) = Ok (Integer v) \<and> sint v = i
   else parse_value P (show_int i) = Err (Parse (''could not parse value '' @ show_int i))"
proof -
  have "sint (word_of_int i :: i64) = i" if "- (2 ^ 63) \<le> i" "i < 2 ^ 63"
    using that by (simp add: signed_of_int signed_take_bit_int_eq_self_iff)
  then show ?thesis
    using parse_value_number [of "show_int i" P, OF show_int_ne show_int_chars] by (simp add: parse_i64_int)
qed

text \<open>C14: \<^verbatim>\<open>EXPLAIN\<close> nests, and the entry point calls itself once for each level: a parsed statement has fewer levels
  than a seventh of the length of its text, so the recursion ends for every text, and every number of levels is
  reached by a text of seven bytes per level, so only the length of the text bounds the depth of the recursion.\<close>

theorem explain_depth_bound:
  "(parse_sql_with_dialect P sql d = Ok s \<longrightarrow> 7 * explain_depth s < length sql) \<and>
   parse_sql_with_dialect P (explain_text n) d = Ok ((Explain ^^ n) Begin) \<and>
   explain_depth ((Explain ^^ n) Begin) = n \<and> length (explain_text n) = 7 * n + 5"
proof (intro conjI impI)
  show "7 * explain_depth s < length sql" if "parse_sql_with_dialect P sql d = Ok s" using that by (rule explain_depth_length)
  show "parse_sql_with_dialect P (explain_text n) d = Ok ((Explain ^^ n) Begin)" using explain_text_parses by blast
  show "explain_depth ((Explain ^^ n) Begin) = n" by (induction n) simp_all
  show "length (explain_text n) = 7 * n + 5" by (induction n) (simp_all add: explain_text_def)
qed

theorem explain_depth_bound_witness:
  "parse_sql_with_dialect demo_platform (explain_text 1000) Fsql = Ok ((Explain ^^ 1000) Begin) \<and>
   7 * explain_depth ((Explain ^^ 1000) Begin) < length (explain_text 1000)"
  using explain_depth_bound [of demo_platform "explain_text 1000" Fsql "(Explain ^^ 1000) Begin" 1000] by blast

end
