(* ===== verification/Read_Back.thy ===== *)
theory Read_Back
  imports Sessions Table_Select Parser_Statements
begin

section \<open>Reading back what was inserted\<close>

text \<open>
  The parser, the engine and the table together, on statement texts: what a rolled back transaction leaves behind,
  what opening the database file again gives after any calls of \<open>execute\<close>, and that what the text of an
  \<^verbatim>\<open>INSERT\<close> stores is what the text of a \<^verbatim>\<open>SELECT\<close> on the primary key returns in the same session.
\<close>

subsection \<open>One call of execute\<close>

text \<open>A call that succeeds is a step of the transaction specification for the statement its text stands for.\<close>

lemma execute_inner_step:
  assumes ok: "session_ok P (db, w)" and parse: "parse_sql_with_dialect P sql (sql_dialect (db_options db)) = Ok stmt"
    and allowed: "statement_allowed stmt db" and run: "execute_inner P pid sql (db, w) = (Ok res, db', w')"
  shows "tx_step P (table_runtime_options (db_options db)) stmt (Ok res) (abs_tx db) (abs_tx db')"
proof -
  obtain pr db1 where pc: "parse_statement P sql db = (pr, db1)" by fastforce
  note parsed = parse_statement_ok [OF ok pc]
  have pr: "pr = Ok stmt" and ok1: "session_ok P (db1, w)" and home: "db_options db1 = db_options db"
    using parsed parse by (simp_all add: same_home_def)
  obtain r1 w1 where log: "log_before db1 stmt sql w = (r1, w1)" by fastforce
  obtain r2 db2 w2 where ep: "execute_parsed P pid stmt (db1, w1) = (r2, db2, w2)" by (metis prod_cases3)
  obtain r3 w3 where after: "log_after_ok (db_options db2) stmt sql w2 = (r3, w3)" by fastforce
  have "session_ok P (db1, w1)"
    using session_ok_logs [OF ok1] logs_onlyD [OF log_before_logs_only [of db1 w stmt sql]] log by auto
  moreover have "statement_allowed stmt db1"
    using allowed parsed(4) home by (simp add: statement_allowed_def)
  ultimately have "good_step P stmt (db1, w1) (execute_parsed P pid stmt (db1, w1))"
    using execute_parsed_good by (simp add: session_ok_def)
  then have "tx_step P (table_runtime_options (db_options db)) stmt r2 (abs_tx db) (abs_tx db2)"
    using ep home parsed(5) by (simp add: good_step_def)
  moreover have "r2 = Ok res" "db' = db2"
    using run pc pr log ep after
    by (cases r1; cases r2; cases r3; simp add: execute_inner_def Let_def)+
  ultimately show ?thesis by simp
qed

lemma execute_step:
  assumes "session_ok P (db, w)" "parse_sql_with_dialect P sql (sql_dialect (db_options db)) = Ok stmt" "statement_allowed stmt db"
    and "execute P pid elapsed sql (db, w) = (Ok res, db', w')"
  shows "tx_step P (table_runtime_options (db_options db)) stmt (Ok res) (abs_tx db) (abs_tx db')"
    and "session_ok P (db', w')" "same_home db db'"
proof -
  obtain r1 db1 w1 where run: "execute_inner P pid sql (db, w) = (r1, db1, w1)" by (metis prod_cases3)
  then have "r1 = Ok res" "db' = db1" using assms(4) by (cases r1; simp add: execute_def)+
  then show "tx_step P (table_runtime_options (db_options db)) stmt (Ok res) (abs_tx db) (abs_tx db')"
    using execute_inner_step [OF assms(1-3)] run by simp
  have "sql_allowed P sql db" using assms(2,3) by (simp add: sql_allowed_def)
  from execute_good [OF assms(1) this assms(4)] show "session_ok P (db', w')" "same_home db db'" by simp_all
qed

text \<open>A call that only reads returns what the statement returns on the catalog the session sees.\<close>

lemma execute_query:
  assumes "session_ok P (db, w)" "parse_sql_with_dialect P sql (sql_dialect (db_options db)) = Ok stmt"
    and "\<not> mutates_catalog stmt" "\<not> is_tx_control stmt" "\<And>inner. stmt \<noteq> Explain inner"
  shows "fst (execute P pid elapsed sql (db, w)) =
    fst (execute_statement_with_options P stmt (table_runtime_options (db_options db)) (active_catalog db))"
proof -
  obtain pr db1 where pc: "parse_statement P sql db = (pr, db1)" by fastforce
  note parsed = parse_statement_ok [OF assms(1) pc]
  have pr: "pr = Ok stmt" and same: "db_options db1 = db_options db" "active_catalog db1 = active_catalog db"
    using parsed assms(2) by (simp_all add: same_home_def)
  have ctl: "stmt \<noteq> Begin" "stmt \<noteq> Commit" "stmt \<noteq> Rollback" using assms(4) by (simp_all add: is_tx_control_def)
  obtain r c where run: "execute_statement_with_options P stmt (table_runtime_options (db_options db)) (active_catalog db) = (r, c)"
    by fastforce
  have "execute_parsed P pid stmt (db1, w) = execute_catalog_statement P pid stmt (db1, w)"
    using assms(5) ctl by (cases stmt) (auto simp: execute_parsed_def)
  also have "\<dots> = (r, set_active_catalog c db1, w)"
    using assms(3) run same by (simp add: execute_catalog_statement_def)
  finally have "execute_parsed P pid stmt (db1, w) = (r, set_active_catalog c db1, w)" .
  moreover have "log_before db1 stmt sql w = (Ok (), w)" "\<And>opts. log_after_ok opts stmt sql w = (Ok (), w)"
    using assms(3,4) ctl by (simp_all add: log_before_def log_after_ok_def)
  ultimately show ?thesis
    using pc pr run by (cases r) (simp_all add: execute_def execute_inner_def Let_def)
qed

subsection \<open>A concrete insertion\<close>

lemma printable_valid: "list_all printable vs \<Longrightarrow> list_all value_valid vs"
proof -
  have "printable v \<Longrightarrow> value_valid v" for v by (cases v) simp_all
  then show "list_all printable vs \<Longrightarrow> list_all value_valid vs" by (simp add: list_all_iff)
qed

text \<open>The concrete session of the witnesses.\<close>

definition demo_memory :: database where
  "demo_memory = demo_database\<lparr>db_path := None\<rparr>"

lemma demo_memory_ok: "session_ok demo_platform (demo_memory, demo_world)"
  using demo_database_ok by (simp add: session_ok_def db_ok_def demo_memory_def stored_def demo_database_def)

definition demo_inserted :: statement where
  "demo_inserted = Insert ''t'' None [Integer 7, demo_note]"

definition demo_selected :: statement where
  "demo_selected = Select ''t'' AllColumns (Some (Equals ''id'' (Integer 7))) None None"

lemma demo_printable: "printable_statement demo_inserted" "printable_statement demo_selected"
proof -
  have names: "list_all plain_name [''t'', ''id'']" by (simp add: plain_name_def code_def)
  have ordinary: "list_all (\<lambda>s. s \<notin> set reserved_words \<and> \<not> contains s ''values'' \<and>
      list_all (\<lambda>p. take (length p) s \<noteq> p) reserved_prefixes) [''t'', ''id'']" by code_simp
  have vals: "list_all (\<lambda>v. printable v \<and> quiet_value v) [Integer 7, demo_note]" by code_simp
  have "list_all (\<lambda>p. \<not> contains (to_ascii_lowercase (insert_tail (target_sql ''t'' None) [Integer 7, demo_note])) p) insert_phrases" by code_simp
  then show "printable_statement demo_inserted" using names ordinary vals by (simp add: demo_inserted_def target_names_def)
  show "printable_statement demo_selected" using names ordinary vals
    by (simp add: demo_selected_def ordinary_name_def projection_ok_def where_ok_def limit_ok_def)
qed

lemma persist_cached:
  "persist pid (db\<lparr>statement_cache := cache, db_catalog := c\<rparr>) w = persist pid (db\<lparr>db_catalog := c\<rparr>) w"
  by (simp add: persist_def persist_catalog_def Let_def cong: if_cong option.case_cong)

lemma demo_insert_runs:
  assumes db: "db = demo_database\<lparr>db_path := p\<rparr>" and io: "\<And>c. \<exists>w'. persist 7 (db\<lparr>db_catalog := c\<rparr>) w = (Ok (), w')"
  shows "\<exists>db' w' t. execute demo_platform 7 0 (statement_sql demo_inserted) (db, w) =
      (Ok (query_affected 1 ''row inserted''), db', w') \<and> db_path db' = p \<and> db_options db' = database_options_default \<and>
     bm_get (tables (db_catalog db')) ''t'' = Some t \<and> rows t = [(1, [(''id'', Integer 7), (''name'', demo_note)])]"
proof -
  let ?topts = "table_runtime_options (db_options db)" and ?vs = "[Integer 7, demo_note]"
  have opts: "db_options db = database_options_default" "statement_cache db = []"
      "db_catalog db = demo_catalog" "db_transaction db = None" "db_path db = p"
    by (simp_all add: db demo_database_def)
  let ?row = "[(''id'', Integer 7), (''name'', demo_note)]"
  have row: "insert_row demo_platform None ?vs ?topts demo_table = Ok ?row"
    by (simp add: insert_row_def demo_table_def demo_columns_def table_column_def validate_value_with_options_def
        validate_primary_insert_def bm_from_def demo_note_def)
  let ?t = "reindexed demo_platform (tokenizer_of db) (with_row ?row demo_table)"
  have "list_all value_valid ?vs" using demo_printable(1) printable_valid [of ?vs] by (simp add: demo_inserted_def)
  then have "insert_with_options demo_platform None ?vs ?topts demo_table = (Ok (), ?t)"
    using insert_outcome [of demo_platform ?topts demo_table ?vs None] demo_table_ok row by (simp add: demo_table_def)
  then have run: "execute_statement_with_options demo_platform demo_inserted ?topts demo_catalog =
      (Ok (query_affected 1 ''row inserted''), \<lparr>tables = [(''t'', ?t)]\<rparr>)"
    by (simp add: demo_inserted_def demo_catalog_def on_table_def)
  have parse: "parse_sql_with_dialect demo_platform (statement_sql demo_inserted) Fsql = Ok demo_inserted"
    using statement_parses [OF demo_printable(1)] by blast
  have logs: "undolog_path database_options_default = None" "wal_mode database_options_default = WalDisabled"
      "binlog_path database_options_default = None" "slow_sql_threshold database_options_default = None"
      "cache_capacity database_options_default = 128" "sql_dialect database_options_default = Fsql"
    by (simp_all add: database_options_default_def)
  have kind: "mutates_catalog demo_inserted" "demo_inserted \<noteq> Commit" by (simp_all add: demo_inserted_def)
  let ?cached = "db\<lparr>statement_cache := bm_insert (cache_key (statement_sql demo_inserted)) demo_inserted []\<rparr>"
  obtain w' where "persist 7 (db\<lparr>db_catalog := \<lparr>tables = [(''t'', ?t)]\<rparr>\<rparr>) w = (Ok (), w')" using io by blast
  then have "persist 7 (?cached\<lparr>db_catalog := \<lparr>tables = [(''t'', ?t)]\<rparr>\<rparr>) w = (Ok (), w')"
    by (simp only: persist_cached)
  then have "execute_parsed demo_platform 7 demo_inserted (?cached, w) =
      (Ok (query_affected 1 ''row inserted''), ?cached\<lparr>db_catalog := \<lparr>tables = [(''t'', ?t)]\<rparr>\<rparr>, w')"
    using opts run kind by (simp add: execute_parsed_mutates execute_catalog_statement_def)
  moreover have "parse_statement demo_platform (statement_sql demo_inserted) db = (Ok demo_inserted, ?cached)"
    using opts parse logs by (simp add: parse_statement_def parse_with_cache_def cache_evict_def Let_def)
  ultimately have "execute demo_platform 7 0 (statement_sql demo_inserted) (db, w) =
      (Ok (query_affected 1 ''row inserted''), ?cached\<lparr>db_catalog := \<lparr>tables = [(''t'', ?t)]\<rparr>\<rparr>, snd (timestamp_millis w'))"
    using opts logs kind
    by (simp add: execute_def execute_inner_def log_before_def log_after_ok_def append_redolog_def
        append_binlog_def append_optional_line_def append_slow_sql_def Let_def split: prod.split)
  moreover have "rows ?t = [(1, ?row)]" by (simp add: with_row_def demo_table_def)
  ultimately show ?thesis using opts by fastforce
qed

lemma demo_memory_insert:
  "\<exists>s. execute demo_platform 7 0 (statement_sql demo_inserted) (demo_memory, demo_world) =
     (Ok (query_affected 1 ''row inserted''), s)"
  using demo_insert_runs [of demo_memory None demo_world]
  by (auto simp: demo_memory_def persist_def persist_catalog_def)

text \<open>With no failing I/O the insertion reaches the file.\<close>

lemma write_chunks_done:
  "outcomes w = [] \<Longrightarrow> \<exists>w'. write_chunks f cs w = (Ok (), w') \<and> outcomes w' = []"
proof (induction cs arbitrary: w)
  case (Cons c cs)
  have "file_write_all f c w = (Ok (), file_append f c w)" "outcomes (file_append f c w) = []"
    using Cons.prems by (simp_all add: file_write_all_def io_step_def file_append_def)
  then show ?case using Cons.IH by simp
qed simp

lemma persist_done:
  assumes "outcomes w = []" "0 < page_size (db_options db)"
  shows "\<exists>w'. persist pid db w = (Ok (), w')"
proof (cases "db_path db")
  case (Some p)
  let ?tmp = "path_text (tmp_path pid p)"
  let ?w = "w\<lparr>files := (files w)(?tmp \<mapsto> [])\<rparr>"
  obtain w' where "write_chunks ?tmp (chunks (page_size (db_options db)) (encode (db_catalog db))) ?w = (Ok (), w')" "outcomes w' = []"
    using write_chunks_done [of ?w] assms(1) by auto
  then show ?thesis
    using Some assms
    by (simp add: persist_def persist_catalog_def file_create_def io_call_def io_step_def file_rename_def sync_file_def Let_def
        split: fsync_mode.split)
qed (simp add: persist_def persist_catalog_def)

subsection \<open>Transactions and files\<close>

text \<open>\<^verbatim>\<open>BEGIN\<close> and \<^verbatim>\<open>ROLLBACK\<close> are executed whatever happens to the logs.\<close>

lemma execute_control:
  assumes cache: "cache_ok P (sql_dialect (db_options db)) (statement_cache db)"
    and stmt: "parse_sql_with_dialect P sql (sql_dialect (db_options db)) = Ok stmt" "stmt = Begin \<or> stmt = Rollback"
    and run: "execute P pid elapsed sql (db, w) = (r, db', w')"
  obtains cache' where "cache_ok P (sql_dialect (db_options db)) cache'" "same_except (log_files (db_options db)) w w'"
    "db' = snd ((if stmt = Begin then begin_tx else rollback_tx) (db\<lparr>statement_cache := cache'\<rparr>))"
proof -
  let ?opts = "db_options db"
  obtain pr cache' where pc: "parse_with_cache P (statement_cache db) (cache_capacity ?opts) sql (sql_dialect ?opts) = (pr, cache')"
    by fastforce
  note parsed = parse_with_cache_result [OF cache, of "cache_capacity ?opts" sql, unfolded pc fst_conv snd_conv]
  let ?db = "db\<lparr>statement_cache := cache'\<rparr>"
  obtain r2 db2 where ctl: "(if stmt = Begin then begin_tx else rollback_tx) ?db = (r2, db2)" by fastforce
  then have opts: "db_options db2 = ?opts"
    using stmt(2) by (auto simp: begin_tx_def rollback_tx_def split: if_splits)
  have ps: "parse_statement P sql db = (Ok stmt, ?db)" using pc parsed(1) stmt(1) by (simp add: parse_statement_def)
  have before: "log_before ?db stmt sql w = (Ok (), w)" using stmt(2) by (auto simp: log_before_def)
  have ep: "execute_parsed P pid stmt (?db, w) = (r2, db2, w)"
    using stmt(2) ctl by (auto simp: execute_parsed_def)
  obtain r3 w3 where after: "log_after_ok ?opts stmt sql w = (r3, w3)" by fastforce
  have w3: "same_except (log_files ?opts) w w3"
    using logs_onlyD [OF log_after_ok_logs_only [of ?opts w stmt sql]] after by simp
  obtain ri dbi wi where inner: "execute_inner P pid sql (db, w) = (ri, dbi, wi)" by (metis prod_cases3)
  have "dbi = db2" using inner ps before ep after opts
    by (cases r2; cases r3) (simp_all add: execute_inner_def Let_def)
  moreover have "same_except (log_files ?opts) w wi"
    using inner ps before ep after opts w3 log_after_err_files [of ?opts w stmt sql]
    by (cases r2; cases r3) (auto simp: execute_inner_def Let_def)
  moreover have "db' = dbi" "same_except (log_files (db_options dbi)) wi w'"
    using run inner append_slow_error_files by (cases ri; auto simp: execute_def)+
  ultimately have "db' = snd ((if stmt = Begin then begin_tx else rollback_tx) ?db)" "same_except (log_files ?opts) w w'"
    using ctl opts by (auto elim: same_except_trans)
  then show thesis using that parsed(2) by blast
qed

text \<open>C15: A rolled back transaction leaves no trace in the database. Calls of \<open>execute\<close> start with the text of a
  \<^verbatim>\<open>BEGIN\<close> outside a transaction and end with the text of a \<^verbatim>\<open>ROLLBACK\<close>; between them stand any texts but
  those of \<^verbatim>\<open>COMMIT\<close> and \<^verbatim>\<open>ROLLBACK\<close>, accepted or refused. Whatever I/O fails in any of the calls, afterwards the
  catalog, the path, the options and the transaction state of the database are what they were before (only the
  statement cache may differ), and every file that is not one of the configured log files is unchanged. The log files
  (undo log, redo log, binlog, error and slow statement log) do record the statements.\<close>

theorem rollback_discards:
  assumes "cache_ok P (sql_dialect (db_options db)) (statement_cache db)" "db_transaction db = None"
    and "parse_sql_with_dialect P begin_sql (sql_dialect (db_options db)) = Ok Begin"
    and "parse_sql_with_dialect P rollback_sql (sql_dialect (db_options db)) = Ok Rollback"
    and "\<forall>c \<in> set calls. parse_sql_with_dialect P (fst c) (sql_dialect (db_options db)) \<notin> {Ok Commit, Ok Rollback}"
    and "run_calls P pid ((begin_sql, e1, os1) # calls @ [(rollback_sql, e2, os2)]) (db, w) = (db', w')"
  shows "db'\<lparr>statement_cache := statement_cache db\<rparr> = db \<and> same_except (log_files (db_options db)) w w'"
proof -
  obtain r1 db1 w1 where run1: "execute P pid e1 begin_sql (db, w\<lparr>outcomes := os1\<rparr>) = (r1, db1, w1)" by (metis prod_cases3)
  from execute_control [OF assms(1,3) _ run1] obtain cache1 where
    one: "cache_ok P (sql_dialect (db_options db)) cache1" "same_except (log_files (db_options db)) (w\<lparr>outcomes := os1\<rparr>) w1"
      "db1 = snd (begin_tx (db\<lparr>statement_cache := cache1\<rparr>))" by auto
  have "tx_frame P (db, w) (db1, w1)"
    using one assms(2) by (auto simp: tx_frame_def begin_tx_def intro!: exI [of _ "db_catalog db"] exI [of _ cache1])
  then have frame: "tx_frame P (db, w) (run_calls P pid calls (db1, w1))"
    using assms(5) by (intro run_calls_tx_frame) simp_all
  obtain db2 w2 where s2: "run_calls P pid calls (db1, w1) = (db2, w2)" by fastforce
  from frame s2 obtain d cache2 where two: "db2 = db\<lparr>db_transaction := Some d, statement_cache := cache2\<rparr>"
      "cache_ok P (sql_dialect (db_options db)) cache2" "same_except (log_files (db_options db)) w w2"
    by (auto simp: tx_frame_def)
  obtain r3 where run3: "execute P pid e2 rollback_sql (db2, w2\<lparr>outcomes := os2\<rparr>) = (r3, db', w')"
    using assms(6) run1 s2 by (cases "execute P pid e2 rollback_sql (db2, w2\<lparr>outcomes := os2\<rparr>)") (simp add: run_calls_append)
  have "cache_ok P (sql_dialect (db_options db2)) (statement_cache db2)"
    "parse_sql_with_dialect P rollback_sql (sql_dialect (db_options db2)) = Ok Rollback" using two assms(4) by simp_all
  from execute_control [OF this _ run3] obtain cache3 where
    three: "same_except (log_files (db_options db2)) (w2\<lparr>outcomes := os2\<rparr>) w'"
      "db' = snd (rollback_tx (db2\<lparr>statement_cache := cache3\<rparr>))" by auto
  have "db' = db\<lparr>statement_cache := cache3\<rparr>"
    using three(2) two(1) assms(2) by (simp add: rollback_tx_def)
  then show ?thesis using three(1) two by (auto elim: same_except_trans)
qed

theorem rollback_discards_witness:
  "case run_calls demo_platform 7
      [(''BEGIN'', 0, []), (statement_sql demo_inserted, 0, [Fails 0 ''disk full'']), (''nonsense'', 0, []), (''ROLLBACK'', 0, [])]
      (demo_database, demo_world) of (db', w') \<Rightarrow>
     db'\<lparr>statement_cache := statement_cache demo_database\<rparr> = demo_database \<and>
     files w' (path_text demo_path) = Some (encode demo_catalog)"
proof -
  have parses: "parse_sql_with_dialect demo_platform ''BEGIN'' Fsql = Ok Begin"
    "parse_sql_with_dialect demo_platform ''ROLLBACK'' Fsql = Ok Rollback"
    "parse_sql_with_dialect demo_platform ''nonsense'' Fsql \<notin> {Ok Commit, Ok Rollback}" by code_simp+
  have inserted: "parse_sql_with_dialect demo_platform (statement_sql demo_inserted) Fsql = Ok demo_inserted"
    using statement_parses [OF demo_printable(1)] by blast
  have fsql: "sql_dialect (db_options demo_database) = Fsql" by (simp add: demo_database_def database_options_default_def)
  obtain db' w' where run: "run_calls demo_platform 7
      [(''BEGIN'', 0, []), (statement_sql demo_inserted, 0, [Fails 0 ''disk full'']), (''nonsense'', 0, []), (''ROLLBACK'', 0, [])]
      (demo_database, demo_world) = (db', w')" by fastforce
  have cache: "cache_ok demo_platform (sql_dialect (db_options demo_database)) (statement_cache demo_database)"
    and idle: "db_transaction demo_database = None"
    using demo_database_ok by (simp_all add: db_ok_def) (simp add: demo_database_def)
  have "db'\<lparr>statement_cache := statement_cache demo_database\<rparr> = demo_database \<and>
      same_except (log_files (db_options demo_database)) demo_world w'"
    by (rule rollback_discards [OF cache idle, of "''BEGIN''" "''ROLLBACK''"
          "[(statement_sql demo_inserted, 0, [Fails 0 ''disk full'']), (''nonsense'', 0, [])]" 7 0 "[]" 0 "[]"])
      (use parses inserted run fsql in \<open>simp_all add: demo_inserted_def\<close>)
  moreover have "log_files (db_options demo_database) = {}"
    by (simp add: log_files_def demo_database_def database_options_default_def)
  ultimately show ?thesis using run by (simp add: same_except_def demo_world_def)
qed

text \<open>C3: Recovery: after any calls of \<open>execute\<close> with texts that meet the contract below, whatever I/O failed on
  the way, opening the database file again with the same options (and without an I/O failure of the reopening itself)
  gives exactly the committed catalog, with its indexes (row identifiers continuing after the last stored row), and no
  transaction open. The contract of a text, at the place where it is executed (\<open>sql_allowed\<close>): what it parses to, if
  anything, has texts that are valid UTF-8, is no \<^verbatim>\<open>INSERT\<close> into a table whose identifier counter is the last 64-bit
  integer, and is no \<^verbatim>\<open>CREATE INDEX\<close> other than FULLTEXT on a table with a full-text index while the configured
  tokenizer is not the default one (that statement rebuilds the postings with the default tokenizer, and the reopened
  ones then differ). The database starts well-formed and stored, in a file that is not one of its log files.\<close>

theorem reopen_recovers_committed:
  assumes "session_ok P s" "session_run P pid s (db, w)" "db_path db = Some p"
  shows "fst (open_with_options P p (db_options db) (w\<lparr>outcomes := []\<rparr>)) =
    Ok \<lparr>db_path = Some p, db_catalog = reopened (db_catalog db), db_transaction = None,
      db_options = db_options db, statement_cache = []\<rparr>"
proof -
  have "session_ok P (db, w\<lparr>outcomes := []\<rparr>)" using session_run_ok [OF assms(2,1)] by simp
  then show ?thesis using assms(3) by (intro open_stored) (auto simp: session_ok_def)
qed

theorem reopen_recovers_committed_witness:
  "\<exists>db w t. execute demo_platform 7 0 (statement_sql demo_inserted) (demo_database, demo_world\<lparr>outcomes := []\<rparr>) =
       (Ok (query_affected 1 ''row inserted''), db, w) \<and>
     fst (open_with_options demo_platform demo_path (db_options db) (w\<lparr>outcomes := []\<rparr>)) =
       Ok \<lparr>db_path = Some demo_path, db_catalog = reopened (db_catalog db), db_transaction = None,
         db_options = db_options db, statement_cache = []\<rparr> \<and>
     bm_get (tables (db_catalog db)) ''t'' = Some t \<and> rows t = [(1, [(''id'', Integer 7), (''name'', demo_note)])]"
proof -
  let ?w = "demo_world\<lparr>outcomes := []\<rparr>"
  have page: "0 < page_size (db_options demo_database)" by (simp add: demo_database_def database_options_default_def)
  have "\<exists>w'. persist 7 (demo_database\<lparr>db_catalog := c\<rparr>) ?w = (Ok (), w')" for c
    using page by (intro persist_done) simp_all
  moreover have "demo_database = demo_database\<lparr>db_path := Some demo_path\<rparr>" by (simp add: demo_database_def)
  ultimately obtain db w t where run: "execute demo_platform 7 0 (statement_sql demo_inserted) (demo_database, ?w) =
      (Ok (query_affected 1 ''row inserted''), db, w)" and db: "db_path db = Some demo_path"
      "bm_get (tables (db_catalog db)) ''t'' = Some t" "rows t = [(1, [(''id'', Integer 7), (''name'', demo_note)])]"
    using demo_insert_runs [of demo_database "Some demo_path" ?w] by blast
  have "statement_valid demo_inserted" using demo_printable(1) printable_valid [of "[Integer 7, demo_note]"]
    by (simp add: demo_inserted_def)
  moreover have "statement_fits (tokenizer_of demo_database) demo_inserted (active_catalog demo_database)"
    by (simp add: demo_inserted_def active_catalog_def demo_database_def demo_catalog_def demo_table_def)
  ultimately have "sql_allowed demo_platform (statement_sql demo_inserted) demo_database"
    using statement_parses [OF demo_printable(1)] by (simp add: sql_allowed_def statement_allowed_def)
  then have "session_run demo_platform 7 (demo_database, demo_world) (db, w)" by (rule run_call [OF run_start _ run])
  then show ?thesis using reopen_recovers_committed [OF demo_session_ok _ db(1)] run db by blast
qed

subsection \<open>The row that was inserted\<close>

lemma fill_row_keeps:
  "fill_row P t opts es r0 = Ok r \<Longrightarrow> k \<notin> normalize_identifier ` fst ` set es \<Longrightarrow> bm_get r k = bm_get r0 k"
proof (induction es arbitrary: r0)
  case (Cons e es)
  obtain nm v where e: "e = (nm, v)" by (cases e)
  obtain c v' where c: "table_column t nm = Ok c" and rest: "fill_row P t opts es (bm_insert (col_name c) v' r0) = Ok r"
    using Cons.prems(1) e by (auto simp: outcome_simps)
  have "k \<noteq> col_name c" using table_column_Ok [OF c] Cons.prems(2) e by auto
  then show ?case using Cons.IH [OF rest] Cons.prems(2) by simp
qed simp

lemma fill_row_values:
  assumes "fill_row P t opts es r0 = Ok r" "distinct (map fst es)" "\<And>e. e \<in> set es \<Longrightarrow> normalize_identifier (fst e) = fst e"
    and "(nm, v) \<in> set es"
  shows "\<exists>c v'. table_column t nm = Ok c \<and> validate_value_with_options P c v opts = Ok v' \<and> bm_get r nm = Some v'"
  using assms
proof (induction es arbitrary: r0)
  case (Cons e es)
  obtain n u where e: "e = (n, u)" by (cases e)
  obtain c v' where c: "table_column t n = Ok c" "validate_value_with_options P c u opts = Ok v'"
    and rest: "fill_row P t opts es (bm_insert (col_name c) v' r0) = Ok r"
    using Cons.prems(1) e by (auto simp: outcome_simps)
  have n: "normalize_identifier n = n" using Cons.prems(3) [of e] e by simp
  show ?case
  proof (cases "(nm, v) = e")
    case True
    have "normalize_identifier ` fst ` set es = fst ` set es" using Cons.prems(3) by force
    then have "n \<notin> normalize_identifier ` fst ` set es" using Cons.prems(2) e by auto
    then have "bm_get r n = Some v'" using fill_row_keeps [OF rest] table_column_Ok [OF c(1)] n by simp
    then show ?thesis using True e c by auto
  next
    case False
    then show ?thesis using Cons.IH [OF rest] Cons.prems(2-4) by auto
  qed
qed simp

lemma table_column_get:
  assumes "c \<in> set (columns t)" "distinct (map col_name (columns t))" "normalize_identifier (col_name c) = col_name c"
  shows "table_column t (col_name c) = Ok c"
proof -
  have "c \<in> set cs \<Longrightarrow> distinct (map col_name cs) \<Longrightarrow> find (\<lambda>e. col_name e = col_name c) cs = Some c" for cs
    by (induction cs) (auto simp: image_iff)
  from this [OF assms(1,2)] have "find (\<lambda>e. col_name e = col_name c) (columns t) = Some c" .
  then show ?thesis using assms(3) by (simp add: table_column_def)
qed

text \<open>The values as the table stores them.\<close>

definition stores :: "platform \<Rightarrow> table_options \<Rightarrow> column list \<Rightarrow> sql_value list \<Rightarrow> row \<Rightarrow> bool" where
  "stores P opts cols vs r \<longleftrightarrow>
     fst ` set r = col_name ` set cols \<and>
     list_all (\<lambda>(c, v). case validate_value_with_options P c v opts of Ok v' \<Rightarrow> bm_get r (col_name c) = Some v' | _ \<Rightarrow> False) (zip cols vs)"

lemma insert_row_stores:
  assumes r: "insert_row P None vs opts t = Ok r" and s: "schema_ok t" and valid: "list_all value_valid vs"
    and names: "\<And>c. c \<in> set (columns t) \<Longrightarrow> normalize_identifier (col_name c) = col_name c"
  shows "stores P opts (columns t) vs r" "length vs = length (columns t)"
proof -
  let ?es = "zip (map col_name (columns t)) vs"
  show len: "length vs = length (columns t)" using r by (auto simp: insert_row_def Let_def split: if_splits)
  have fill: "fill_row P t opts ?es (bm_from (map (\<lambda>c. (col_name c, Null)) (columns t))) = Ok r"
    using r by (auto simp: insert_row_def Let_def outcome_simps split: if_splits)
  have dist: "distinct (map col_name (columns t))" by (rule schema_distinct [OF s])
  have "case validate_value_with_options P c v opts of Ok v' \<Rightarrow> bm_get r (col_name c) = Some v' | _ \<Rightarrow> False"
    if cv: "(c, v) \<in> set (zip (columns t) vs)" for c v
  proof -
    have c: "c \<in> set (columns t)" using cv by (rule set_zip_leftD)
    have "(col_name c, v) \<in> set ?es" using cv by (force simp: zip_map1)
    moreover have "normalize_identifier (fst e) = fst e" if "e \<in> set ?es" for e
      using names that by (force simp: zip_map1 dest: set_zip_leftD)
    moreover have "distinct (map fst ?es)" using dist len by simp
    ultimately obtain c' v' where "table_column t (col_name c) = Ok c'" "validate_value_with_options P c' v opts = Ok v'"
        "bm_get r (col_name c) = Some v'"
      using fill_row_values [OF fill, of "col_name c" v] by blast
    then show ?thesis using table_column_get [OF c dist names [OF c]] by simp
  qed
  moreover have "fst ` set r = col_name ` set (columns t)" using insert_row_typed [OF r s valid] by (simp add: row_typed_def)
  ultimately show "stores P opts (columns t) vs r" by (auto simp: stores_def list_all_iff)
qed

lemma insert_then_lookup:
  assumes ok: "table_ok P (fulltext_tokenizer opts) t" and valid: "list_all value_valid vs" and room: "next_row_id t \<noteq> - 1"
    and names: "\<And>c. c \<in> set (columns t) \<Longrightarrow> normalize_identifier (col_name c) = col_name c"
    and pk: "primary_key t = Some pk" and v: "(pk, v) \<in> set (zip (map col_name (columns t)) vs)"
    and run: "insert_with_options P None vs opts t = (Ok (), t')"
  shows "\<exists>r. select_with_options P t' AllColumns (Some (Equals pk v)) None None opts = Ok [r] \<and> stores P opts (columns t) vs r"
proof -
  obtain r where r: "insert_row P None vs opts t = Ok r" and t': "t' = reindexed P (fulltext_tokenizer opts) (with_row r t)"
    using run unfolding insert_outcome [OF ok valid room] by (auto split: result.splits)
  have d: "data_ok t" "schema_ok t" using ok by (auto simp: table_ok_def data_ok_def)
  have d': "data_ok (with_row r t)" by (rule with_row_data_ok [OF ok r valid room])
  have rows: "rows t' = rows t @ [(next_row_id t, r)]" using with_row_rows [OF d(1)] by (simp add: t')
  have shape: "columns t' = columns t" "primary_key t' = Some pk" using pk by (simp_all add: t' with_row_def)
  have st: "stores P opts (columns t) vs r" by (rule insert_row_stores(1) [OF r d(2) valid names])
  obtain c where c: "(c, v) \<in> set (zip (columns t) vs)" "col_name c = pk" using v by (auto simp: zip_map1)
  have c_in: "c \<in> set (columns t)" using c(1) by (rule set_zip_leftD)
  obtain v' where v': "validate_value_with_options P c v opts = Ok v'" "bm_get r pk = Some v'"
    using st c unfolding stores_def list_all_iff by (fastforce split: result.splits)
  obtain k where k: "row_key pk r = Some k" using insert_row_key [OF r pk] by blast
  then have key: "index_key v' = Ok k" using v'(2) by (auto simp: row_key_def split: if_splits result.splits)
  have dist: "distinct (map (\<lambda>e. row_key pk (snd e)) (rows t'))"
    using d' pk by (simp add: data_ok_def keyed_rows_def t' with_row_def)
  have "primary t' = primary_of (Some pk) (rows t')" using pk by (simp add: t' reindexed_fields(1) with_row_def)
  then have found: "bm_get (primary t') k = Some (next_row_id t)" using primary_of_get [OF dist, of k] rows k by auto
  have col: "table_column t' pk = Ok c"
    using table_column_get [of c t'] c_in c(2) names [OF c_in] schema_distinct [OF d(2)] by (simp add: shape)
  have "bm_ok (rows t')" using d' by (simp add: t' data_ok_def)
  then have got: "bm_get (rows t') (next_row_id t) = Some r" by (rule bm_get_iff [THEN iffD2]) (simp add: rows)
  have "select_with_options P t' AllColumns (Some (Equals pk v)) None None opts = Ok [r]"
    using col v' key found got shape c(2)
    by (simp add: select_with_options_def validate_projection_def normalize_filter_def matching_row_ids_def order_rows_def
        project_row_def List.map_filter_simps)
  then show ?thesis using st by blast
qed

subsection \<open>Property\<close>

text \<open>What a session that ran an insertion sees: the table with the row in it.\<close>

lemma inserted_catalog:
  assumes "tx_step P opts (Insert tbl cols vs) (Ok res) (abs_tx db) (abs_tx db')"
    and "bm_get (tables (active_catalog db)) tbl = Some t"
  shows "\<exists>t'. insert_with_options P cols vs opts t = (Ok (), t') \<and> bm_get (tables (active_catalog db')) tbl = Some t'"
proof -
  have "execute_statement_with_options P (Insert tbl cols vs) opts (active_catalog db) = (Ok res, active_catalog db')"
    using assms(1) by (rule tx_step_Ok) (auto simp: abs_tx_def active_catalog_def)
  then obtain t' where t': "insert_with_options P cols vs opts t = (Ok (), t')"
      "active_catalog db\<lparr>tables := bm_insert tbl t' (tables (active_catalog db))\<rparr> = active_catalog db'"
    using assms(2) by (auto simp: on_table_def outcome_simps split: prod.splits)
  have "bm_get (tables (active_catalog db')) tbl = Some t'" unfolding t'(2) [symmetric] by simp
  then show ?thesis using t'(1) by blast
qed

text \<open>C2: What was inserted is what is read back, for the statements the reference printer writes: when the text of an
  \<^verbatim>\<open>INSERT INTO tbl VALUES (...)\<close> without a list of columns succeeds in a session, inside a transaction or not, the text
  \<^verbatim>\<open>SELECT * FROM tbl WHERE pk = v\<close> that follows it, for the value \<open>v\<close> written for the primary key \<open>pk\<close>, returns exactly
  one row, and that row holds in every column the value that was written in the text, converted to the type of the column.
  The table has a primary key and its identifier counter is not the last 64-bit integer; the names of its columns are
  normalized (lower case, without quotes or outer blanks). Outside these conditions the claim does not hold in general:
  the names of the table and of the primary key are ordinary names (lower-case letters, digits and underscores; no
  reserved word of the parser such as \<^verbatim>\<open>limit\<close> or \<^verbatim>\<open>order\<close>; without \<^verbatim>\<open>values\<close> inside; not beginning with \<^verbatim>\<open>all\<close>, \<^verbatim>\<open>distinct\<close>,
  \<^verbatim>\<open>match\<close>, \<^verbatim>\<open>geo_distance\<close>, \<^verbatim>\<open>unique\<close> or \<^verbatim>\<open>autoincrement\<close>), for instance not \<^verbatim>\<open>match_id\<close>; the values are NULL, booleans, integers and
  UTF-8 texts, no floats, vectors or points; the \<^verbatim>\<open>INSERT\<close> text holds none of the phrases \<^verbatim>\<open>default values\<close>,
  \<^verbatim>\<open>on conflict\<close> and \<^verbatim>\<open>returning\<close> after a blank, and a text that is the primary key holds none of the keywords of a query
  between blanks (such as the \<^verbatim>\<open>limit\<close> of \<^verbatim>\<open>'a limit b'\<close>), for which the parser searches inside literals too.\<close>

theorem insert_then_select:
  assumes "session_ok P (db, w)" "bm_get (tables (active_catalog db)) tbl = Some t" "next_row_id t \<noteq> - 1"
    and "list_all (\<lambda>c. normalize_identifier (col_name c) = col_name c) (columns t)"
    and "primary_key t = Some pk" "(pk, v) \<in> set (zip (map col_name (columns t)) vs)"
    and "printable_statement (Insert tbl None vs)" "printable_statement (Select tbl AllColumns (Some (Equals pk v)) None None)"
    and "execute P pid e1 (statement_sql (Insert tbl None vs)) (db, w) = (Ok res, s')"
  shows "\<exists>r. fst (execute P pid e2 (statement_sql (Select tbl AllColumns (Some (Equals pk v)) None None)) s') = Ok (query_rows [r]) \<and>
    stores P (table_runtime_options (db_options db)) (columns t) vs r"
proof -
  obtain db' w' where s': "s' = (db', w')" by (cases s')
  let ?opts = "table_runtime_options (db_options db)"
  have valid: "list_all value_valid vs" using assms(7) printable_valid by simp
  have allowed: "statement_allowed (Insert tbl None vs) db"
    using valid assms(2,3) by (simp add: statement_allowed_def)
  note step = execute_step [OF assms(1) statement_parses [OF assms(7), THEN conjunct2] allowed assms(9) [unfolded s']]
  obtain t' where t': "insert_with_options P None vs ?opts t = (Ok (), t')" "bm_get (tables (active_catalog db')) tbl = Some t'"
    using inserted_catalog [OF step(1) assms(2)] by blast
  have "table_ok P (tokenizer_of db) t"
    using active_ok [of P db] assms(1,2) by (auto simp: session_ok_def catalog_ok_def dest!: map_of_SomeD)
  then obtain r where r: "select_with_options P t' AllColumns (Some (Equals pk v)) None None ?opts = Ok [r]"
      "stores P ?opts (columns t) vs r"
    using insert_then_lookup [OF _ valid assms(3) _ assms(5,6) t'(1)] assms(4) by (auto simp: list_all_iff)
  have "db_options db' = db_options db" using step(3) by (simp add: same_home_def)
  then have "fst (execute P pid e2 (statement_sql (Select tbl AllColumns (Some (Equals pk v)) None None)) (db', w')) =
      Ok (query_rows [r])"
    using execute_query [OF step(2) statement_parses [OF assms(8), THEN conjunct2]] t'(2) r(1)
    by (simp add: is_tx_control_def)
  then show ?thesis using r(2) s' by blast
qed

theorem insert_then_select_witness:
  "\<exists>s r. execute demo_platform 7 0
       (''INSERT INTO t VALUES (7, '' @ squote # ''it'' @ squote # squote # ''s, (a) ; [test'' @ squote # '')'') (demo_memory, demo_world) =
       (Ok (query_affected 1 ''row inserted''), s) \<and>
     fst (execute demo_platform 7 0 ''SELECT * FROM t WHERE id = 7'' s) = Ok (query_rows [r]) \<and>
     bm_get r ''id'' = Some (Integer 7) \<and> bm_get r ''name'' = Some demo_note"
proof -
  have texts: "statement_sql demo_inserted = ''INSERT INTO t VALUES (7, '' @ squote # ''it'' @ squote # squote # ''s, (a) ; [test'' @ squote # '')''"
    "statement_sql demo_selected = ''SELECT * FROM t WHERE id = 7''" by code_simp+
  obtain s where s: "execute demo_platform 7 0 (statement_sql demo_inserted) (demo_memory, demo_world) =
      (Ok (query_affected 1 ''row inserted''), s)" using demo_memory_insert by blast
  have t: "bm_get (tables (active_catalog demo_memory)) ''t'' = Some demo_table"
    by (simp add: active_catalog_def demo_memory_def demo_database_def demo_catalog_def)
  obtain r where r: "fst (execute demo_platform 7 0 (statement_sql demo_selected) s) = Ok (query_rows [r])"
      "stores demo_platform (table_runtime_options (db_options demo_memory)) (columns demo_table) [Integer 7, demo_note] r"
    using insert_then_select [OF demo_memory_ok t _ _ _ _ demo_printable [unfolded demo_inserted_def demo_selected_def]
        s [unfolded demo_inserted_def], of 0] by (auto simp: demo_table_def demo_columns_def demo_selected_def)
  then have "bm_get r ''id'' = Some (Integer 7)" "bm_get r ''name'' = Some demo_note"
    by (simp_all add: stores_def demo_table_def demo_columns_def validate_value_with_options_def demo_note_def)
  then show ?thesis using s r(1) unfolding texts by blast
qed

end
