(* ===== verification/Ffi.thy ===== *)
theory Ffi
  imports Pool_Safety Parser_Roundtrip
begin

section \<open>The C interface\<close>

text \<open>
  \<^verbatim>\<open>src/src/ffi.rs\<close>: every exported function, on an explicit heap of handles. A handle is the number of a heap
  object, 0 is the null pointer; \<^verbatim>\<open>Box::into_raw\<close> allocates the next number and \<^verbatim>\<open>Box::from_raw\<close> gives the object
  up. A call has four outcomes: it returns; it uses a pointer that is neither null nor a live handle of the
  right type (undefined behaviour of the caller); it waits (\<^verbatim>\<open>fsql_pool_get\<close> without a permit); or it panics,
  which aborts the process at an \<^verbatim>\<open>extern "C"\<close> boundary. Output parameters of the caller are Booleans that
  tell whether the pointer is non-null, and what is written through them is part of the reply. A pool is shared by
  its handle and its connections through an \<^verbatim>\<open>Arc\<close>: pools are kept apart from the handles that refer to them, each
  with the strong count of its \<^verbatim>\<open>Arc\<close>, and the storage of a pool is given up when that count falls to zero. The
  data functions return borrowed pointers into the object of a handle; reading through one is a step of its own,
  which looks at the heap at the time of the read.
\<close>

datatype ffi_status = StatusOk | NullPointer | InvalidUtf8 | StatusError | OutOfBounds | WrongType
datatype ffi_value_kind = KindNull | KindInteger | KindFloat | KindBoolean | KindText | KindVector | KindPoint

datatype ffi_object =
    DatabaseObj database
  | PoolObj nat
  | ConnectionObj nat connection
  | ResultObj query_result
  | StringObj string
  | ValueObj sql_value
  | VectorObj "f32 list"

record ffi =
  objects :: "nat \<Rightarrow> ffi_object option"
  next_object :: nat
  pools :: "nat \<Rightarrow> pool option"
  strong :: "nat \<Rightarrow> nat"
  next_pool :: nat
  ffi_world :: world

datatype 'a ffi_outcome = Return 'a | Dangling | Waiting | Aborted

type_synonym 'a reply = "(ffi_status \<times> 'a option \<times> nat option \<times> ffi) ffi_outcome"

subsection \<open>Handles and arguments\<close>

definition alloc :: "ffi_object \<Rightarrow> ffi \<Rightarrow> nat \<times> ffi" where
  "alloc ob s = (next_object s, s\<lparr>objects := (objects s)(next_object s \<mapsto> ob), next_object := next_object s + 1\<rparr>)"

definition set_object :: "nat \<Rightarrow> ffi_object \<Rightarrow> ffi \<Rightarrow> ffi" where
  "set_object h ob s = s\<lparr>objects := (objects s)(h \<mapsto> ob)\<rparr>"

definition set_pool :: "nat \<Rightarrow> pool \<Rightarrow> ffi \<Rightarrow> ffi" where
  "set_pool i p s = s\<lparr>pools := (pools s)(i \<mapsto> p)\<rparr>"

text \<open>\<^verbatim>\<open>Arc::clone\<close> and the drop of an \<^verbatim>\<open>Arc\<close>, which frees the pool when it was the last one.\<close>

definition arc_clone :: "nat \<Rightarrow> ffi \<Rightarrow> ffi" where
  "arc_clone i s = s\<lparr>strong := (strong s)(i := strong s i + 1)\<rparr>"

definition arc_drop :: "nat \<Rightarrow> ffi \<Rightarrow> ffi" where
  "arc_drop i s =
     (let n = strong s i - 1
      in s\<lparr>strong := (strong s)(i := n), pools := (if n = 0 then (pools s)(i := None) else pools s)\<rparr>)"

text \<open>\<^verbatim>\<open>require_ref\<close> and \<^verbatim>\<open>require_mut\<close>: only the null pointer is checked.\<close>

datatype 'a deref = NullPtr | BadPtr | Ref 'a

definition deref :: "(ffi_object \<Rightarrow> 'a option) \<Rightarrow> nat \<Rightarrow> ffi \<Rightarrow> 'a deref" where
  "deref sel h s =
     (if h = 0 then NullPtr
      else case objects s h of
          None \<Rightarrow> BadPtr
        | Some ob \<Rightarrow> (case sel ob of None \<Rightarrow> BadPtr | Some x \<Rightarrow> Ref x))"

definition the_database :: "ffi_object \<Rightarrow> database option" where
  "the_database ob = (case ob of DatabaseObj db \<Rightarrow> Some db | _ \<Rightarrow> None)"

definition the_pool :: "ffi_object \<Rightarrow> nat option" where
  "the_pool ob = (case ob of PoolObj i \<Rightarrow> Some i | _ \<Rightarrow> None)"

definition the_connection :: "ffi_object \<Rightarrow> (nat \<times> connection) option" where
  "the_connection ob = (case ob of ConnectionObj i c \<Rightarrow> Some (i, c) | _ \<Rightarrow> None)"

definition the_result :: "ffi_object \<Rightarrow> query_result option" where
  "the_result ob = (case ob of ResultObj r \<Rightarrow> Some r | _ \<Rightarrow> None)"

definition the_string :: "ffi_object \<Rightarrow> string option" where
  "the_string ob = (case ob of StringObj t \<Rightarrow> Some t | _ \<Rightarrow> None)"

definition the_value :: "ffi_object \<Rightarrow> sql_value option" where
  "the_value ob = (case ob of ValueObj v \<Rightarrow> Some v | _ \<Rightarrow> None)"

definition the_vector :: "ffi_object \<Rightarrow> f32 list option" where
  "the_vector ob = (case ob of VectorObj xs \<Rightarrow> Some xs | _ \<Rightarrow> None)"

text \<open>A C string is its bytes up to the terminating zero; \<open>None\<close> is the null pointer.\<close>

definition require_cstr :: "string option \<Rightarrow> ffi_status + string" where
  "require_cstr input =
     (case input of None \<Rightarrow> Inl NullPointer | Some t \<Rightarrow> if utf8_valid t then Inr t else Inl InvalidUtf8)"

text \<open>\<^verbatim>\<open>string_handle\<close>: zero bytes become blanks, so that \<^verbatim>\<open>CString::new\<close> does not fail.\<close>

definition sanitize :: "string \<Rightarrow> string" where
  "sanitize t = map (\<lambda>c. if c = CHR 0x00 then CHR '' '' else c) t"

definition string_handle :: "string \<Rightarrow> ffi \<Rightarrow> nat \<times> ffi" where
  "string_handle t s = alloc (StringObj (sanitize t)) s"

definition set_error :: "bool \<Rightarrow> string \<Rightarrow> ffi \<Rightarrow> nat option \<times> ffi" where
  "set_error error_out msg s = (if error_out then (let (h, s') = string_handle msg s in (Some h, s')) else (None, s))"

definition fail :: "ffi_status \<Rightarrow> bool \<Rightarrow> string \<Rightarrow> ffi \<Rightarrow> 'a reply" where
  "fail st error_out msg s = (let (e, s') = set_error error_out msg s in Return (st, None, e, s'))"

definition return_object :: "ffi_object \<Rightarrow> ffi \<Rightarrow> nat reply" where
  "return_object ob s = (let (h, s') = alloc ob s in Return (StatusOk, Some h, None, s'))"

text \<open>\<^verbatim>\<open>with_result\<close> and the match on its result.\<close>

definition with_result :: "bool \<Rightarrow> 'b result \<Rightarrow> ffi \<Rightarrow> ('b \<Rightarrow> ffi \<Rightarrow> 'a reply) \<Rightarrow> 'a reply" where
  "with_result error_out r s k =
     (case r of Ok x \<Rightarrow> k x s | Err e \<Rightarrow> fail StatusError error_out (error_to_string e) s | Panic m \<Rightarrow> Aborted)"

text \<open>\<^verbatim>\<open>Box::from_raw\<close> and \<^verbatim>\<open>drop\<close> for the handles whose objects own nothing else.\<close>

definition free_object :: "(ffi_object \<Rightarrow> 'a option) \<Rightarrow> nat \<Rightarrow> ffi \<Rightarrow> ffi ffi_outcome" where
  "free_object sel h s =
     (case deref sel h s of
        NullPtr \<Rightarrow> Return s
      | BadPtr \<Rightarrow> Dangling
      | Ref _ \<Rightarrow> Return (s\<lparr>objects := (objects s)(h := None)\<rparr>))"

text \<open>\<^verbatim>\<open>PathBuf::from\<close>, split into directory, stem and extension.\<close>

definition path_from :: "string \<Rightarrow> path" where
  "path_from t =
     (let (dir, nm) = (case char_rfind t (CHR ''/'') of
            None \<Rightarrow> ([], t) | Some i \<Rightarrow> (if i = 0 then ''/'' else take i t, drop (Suc i) t))
      in case char_rfind nm (CHR ''.'') of
           None \<Rightarrow> \<lparr>path_parent = dir, path_stem = nm, path_extension = None\<rparr>
         | Some j \<Rightarrow>
             if j = 0 then \<lparr>path_parent = dir, path_stem = nm, path_extension = None\<rparr>
             else \<lparr>path_parent = dir, path_stem = take j nm, path_extension = Some (drop (Suc j) nm)\<rparr>)"

subsection \<open>Strings\<close>

text \<open>
  A pointer into the buffer of an object is the number of the object that owns the buffer, and 0 is the null
  pointer: buffers are neither moved nor changed while their object lives. What is behind such a pointer is found out when
  it is read; a pointer into an object that has been freed dangles.
\<close>

datatype buffer = Bytes string | Floats "f32 list"

definition buffer_of :: "ffi_object \<Rightarrow> buffer option" where
  "buffer_of ob = (case ob of StringObj t \<Rightarrow> Some (Bytes t) | VectorObj xs \<Rightarrow> Some (Floats xs) | _ \<Rightarrow> None)"

definition read_buffer :: "nat \<Rightarrow> ffi \<Rightarrow> buffer ffi_outcome" where
  "read_buffer p s = (case deref buffer_of p s of Ref b \<Rightarrow> Return b | _ \<Rightarrow> Dangling)"

definition fsql_string_data :: "nat \<Rightarrow> ffi \<Rightarrow> nat ffi_outcome" where
  "fsql_string_data h s = (case deref the_string h s of Ref t \<Rightarrow> Return h | NullPtr \<Rightarrow> Return 0 | BadPtr \<Rightarrow> Dangling)"

definition fsql_string_free :: "nat \<Rightarrow> ffi \<Rightarrow> ffi ffi_outcome" where
  "fsql_string_free h s = free_object the_string h s"

subsection \<open>Databases\<close>

definition fsql_db_memory_new :: "bool \<Rightarrow> bool \<Rightarrow> ffi \<Rightarrow> nat reply" where
  "fsql_db_memory_new out error_out s =
     (if \<not> out then fail NullPointer error_out ''database output pointer is null'' s
      else case memory of Ok db \<Rightarrow> return_object (DatabaseObj db) s | _ \<Rightarrow> Aborted)"

definition fsql_db_open :: "platform \<Rightarrow> string option \<Rightarrow> bool \<Rightarrow> bool \<Rightarrow> ffi \<Rightarrow> nat reply" where
  "fsql_db_open P path out error_out s =
     (case require_cstr path of
        Inl _ \<Rightarrow> fail InvalidUtf8 error_out ''database path is null or invalid utf-8'' s
      | Inr t \<Rightarrow>
          if \<not> out then fail NullPointer error_out ''database output pointer is null'' s
          else (let (r, w) = open_default P (path_from t) (ffi_world s)
                in with_result error_out r (s\<lparr>ffi_world := w\<rparr>) (\<lambda>db s'. return_object (DatabaseObj db) s')))"

definition fsql_db_execute :: "platform \<Rightarrow> nat \<Rightarrow> nat \<Rightarrow> nat \<Rightarrow> string option \<Rightarrow> bool \<Rightarrow> bool \<Rightarrow> ffi \<Rightarrow> nat reply" where
  "fsql_db_execute P pid elapsed h sql out error_out s =
     (case deref the_database h s of
        NullPtr \<Rightarrow> fail NullPointer error_out ''database handle is null'' s
      | BadPtr \<Rightarrow> Dangling
      | Ref db \<Rightarrow>
          (case require_cstr sql of
             Inl _ \<Rightarrow> fail InvalidUtf8 error_out ''sql is null or invalid utf-8'' s
           | Inr t \<Rightarrow>
               if \<not> out then fail NullPointer error_out ''result output pointer is null'' s
               else (let (r, db', w) = execute P pid elapsed t (db, ffi_world s)
                     in with_result error_out r (set_object h (DatabaseObj db') (s\<lparr>ffi_world := w\<rparr>))
                          (\<lambda>res s'. return_object (ResultObj res) s'))))"

definition fsql_db_free :: "nat \<Rightarrow> ffi \<Rightarrow> ffi ffi_outcome" where
  "fsql_db_free h s = free_object the_database h s"

subsection \<open>Pools and connections\<close>

text \<open>A new pool is shared from the start: its handle holds a reference to it.\<close>

definition return_pool :: "pool \<Rightarrow> ffi \<Rightarrow> nat reply" where
  "return_pool p s =
     return_object (PoolObj (next_pool s))
       (s\<lparr>pools := (pools s)(next_pool s \<mapsto> p), strong := (strong s)(next_pool s := 1), next_pool := next_pool s + 1\<rparr>)"

definition fsql_pool_memory_new :: "nat \<Rightarrow> bool \<Rightarrow> bool \<Rightarrow> ffi \<Rightarrow> nat reply" where
  "fsql_pool_memory_new n out error_out s =
     (if \<not> out then fail NullPointer error_out ''pool output pointer is null'' s
      else with_result error_out (pool_memory n) s return_pool)"

definition fsql_pool_open :: "platform \<Rightarrow> string option \<Rightarrow> nat \<Rightarrow> bool \<Rightarrow> bool \<Rightarrow> ffi \<Rightarrow> nat reply" where
  "fsql_pool_open P path n out error_out s =
     (case require_cstr path of
        Inl _ \<Rightarrow> fail InvalidUtf8 error_out ''pool path is null or invalid utf-8'' s
      | Inr t \<Rightarrow>
          if \<not> out then fail NullPointer error_out ''pool output pointer is null'' s
          else (let (r, w) = pool_open P (path_from t) n (ffi_world s)
                in with_result error_out r (s\<lparr>ffi_world := w\<rparr>) return_pool))"

definition fsql_pool_get :: "nat \<Rightarrow> bool \<Rightarrow> bool \<Rightarrow> ffi \<Rightarrow> nat reply" where
  "fsql_pool_get h out error_out s =
     (case deref the_pool h s of
        NullPtr \<Rightarrow> fail NullPointer error_out ''pool handle is null'' s
      | BadPtr \<Rightarrow> Dangling
      | Ref i \<Rightarrow>
          if \<not> out then fail NullPointer error_out ''connection output pointer is null'' s
          else case pools s i of
              None \<Rightarrow> Dangling
            | Some p \<Rightarrow>
                (case get p of
                   None \<Rightarrow> Waiting
                 | Some (r, p') \<Rightarrow>
                     with_result error_out r (set_pool i p' s) (\<lambda>c s'. return_object (ConnectionObj i c) (arc_clone i s'))))"

definition fsql_pool_try_get :: "nat \<Rightarrow> bool \<Rightarrow> bool \<Rightarrow> ffi \<Rightarrow> nat reply" where
  "fsql_pool_try_get h out error_out s =
     (case deref the_pool h s of
        NullPtr \<Rightarrow> fail NullPointer error_out ''pool handle is null'' s
      | BadPtr \<Rightarrow> Dangling
      | Ref i \<Rightarrow>
          if \<not> out then fail NullPointer error_out ''connection output pointer is null'' s
          else case pools s i of
              None \<Rightarrow> Dangling
            | Some p \<Rightarrow>
                (let (r, p') = try_get p
                 in with_result error_out r (set_pool i p' s) (\<lambda>oc s'.
                      case oc of
                        Some c \<Rightarrow> return_object (ConnectionObj i c) (arc_clone i s')
                      | None \<Rightarrow> Return (StatusOk, Some 0, None, s'))))"

text \<open>Dropping the handle drops its \<^verbatim>\<open>Arc\<close>; the pool itself lives on while a connection holds one.\<close>

definition fsql_pool_free :: "nat \<Rightarrow> ffi \<Rightarrow> ffi ffi_outcome" where
  "fsql_pool_free h s =
     (case deref the_pool h s of
        NullPtr \<Rightarrow> Return s
      | BadPtr \<Rightarrow> Dangling
      | Ref i \<Rightarrow> Return (arc_drop i (s\<lparr>objects := (objects s)(h := None)\<rparr>)))"

definition fsql_connection_execute ::
  "platform \<Rightarrow> nat \<Rightarrow> nat \<Rightarrow> nat \<Rightarrow> string option \<Rightarrow> bool \<Rightarrow> bool \<Rightarrow> ffi \<Rightarrow> nat reply"
where
  "fsql_connection_execute P pid elapsed h sql out error_out s =
     (case deref the_connection h s of
        NullPtr \<Rightarrow> fail NullPointer error_out ''connection handle is null'' s
      | BadPtr \<Rightarrow> Dangling
      | Ref (i, c) \<Rightarrow>
          (case require_cstr sql of
             Inl _ \<Rightarrow> fail InvalidUtf8 error_out ''sql is null or invalid utf-8'' s
           | Inr t \<Rightarrow>
               if \<not> out then fail NullPointer error_out ''result output pointer is null'' s
               else case pools s i of
                   None \<Rightarrow> Dangling
                 | Some p \<Rightarrow>
                     (let (r, p', c', w) = conn_execute P pid elapsed t (p, c, ffi_world s)
                      in with_result error_out r
                           (set_object h (ConnectionObj i c') (set_pool i p' (s\<lparr>ffi_world := w\<rparr>)))
                           (\<lambda>res s'. return_object (ResultObj res) s'))))"

text \<open>Dropping a connection gives its permit and its locks back, then drops its \<^verbatim>\<open>Arc\<close>.\<close>

definition fsql_connection_free :: "nat \<Rightarrow> ffi \<Rightarrow> ffi ffi_outcome" where
  "fsql_connection_free h s =
     (case deref the_connection h s of
        NullPtr \<Rightarrow> Return s
      | BadPtr \<Rightarrow> Dangling
      | Ref (i, c) \<Rightarrow>
          (case pools s i of
             None \<Rightarrow> Dangling
           | Some p \<Rightarrow> Return (arc_drop i ((set_pool i (fst (conn_drop (p, c))) s)\<lparr>objects := (objects s)(h := None)\<rparr>))))"

subsection \<open>Results\<close>

text \<open>The read-only functions ignore a null handle.\<close>

definition or_zero :: "nat deref \<Rightarrow> nat ffi_outcome" where
  "or_zero d = (case d of Ref n \<Rightarrow> Return n | NullPtr \<Rightarrow> Return 0 | BadPtr \<Rightarrow> Dangling)"

definition fsql_result_affected_rows :: "nat \<Rightarrow> ffi \<Rightarrow> nat ffi_outcome" where
  "fsql_result_affected_rows h s = or_zero (deref (\<lambda>ob. map_option affected_rows (the_result ob)) h s)"

definition fsql_result_row_count :: "nat \<Rightarrow> ffi \<Rightarrow> nat ffi_outcome" where
  "fsql_result_row_count h s = or_zero (deref (\<lambda>ob. map_option (\<lambda>r. length (qr_rows r)) (the_result ob)) h s)"

definition fsql_result_message :: "nat \<Rightarrow> bool \<Rightarrow> ffi \<Rightarrow> nat reply" where
  "fsql_result_message h out s =
     (case deref the_result h s of
        NullPtr \<Rightarrow> Return (NullPointer, None, None, s)
      | BadPtr \<Rightarrow> Dangling
      | Ref r \<Rightarrow>
          if \<not> out then Return (NullPointer, None, None, s)
          else return_object (StringObj (sanitize (message r))) s)"

definition row_at :: "query_result \<Rightarrow> nat \<Rightarrow> row option" where
  "row_at r i = (if i < length (qr_rows r) then Some (qr_rows r ! i) else None)"

definition row_entry :: "row \<Rightarrow> nat \<Rightarrow> (string \<times> sql_value) option" where
  "row_entry rw j = (if j < length rw then Some (rw ! j) else None)"

definition fsql_result_column_count :: "nat \<Rightarrow> nat \<Rightarrow> ffi \<Rightarrow> nat ffi_outcome" where
  "fsql_result_column_count h i s =
     or_zero (deref (\<lambda>ob. map_option (\<lambda>r. case row_at r i of None \<Rightarrow> 0 | Some rw \<Rightarrow> length rw) (the_result ob)) h s)"

definition fsql_result_column_name :: "nat \<Rightarrow> nat \<Rightarrow> nat \<Rightarrow> bool \<Rightarrow> ffi \<Rightarrow> nat reply" where
  "fsql_result_column_name h i j out s =
     (case deref the_result h s of
        NullPtr \<Rightarrow> Return (NullPointer, None, None, s)
      | BadPtr \<Rightarrow> Dangling
      | Ref r \<Rightarrow>
          if \<not> out then Return (NullPointer, None, None, s)
          else case row_at r i of
              None \<Rightarrow> Return (OutOfBounds, None, None, s)
            | Some rw \<Rightarrow>
                (case row_entry rw j of
                   None \<Rightarrow> Return (OutOfBounds, None, None, s)
                 | Some (nm, _) \<Rightarrow> return_object (StringObj (sanitize nm)) s))"

definition fsql_result_value_at :: "nat \<Rightarrow> nat \<Rightarrow> nat \<Rightarrow> bool \<Rightarrow> ffi \<Rightarrow> nat reply" where
  "fsql_result_value_at h i j out s =
     (case deref the_result h s of
        NullPtr \<Rightarrow> Return (NullPointer, None, None, s)
      | BadPtr \<Rightarrow> Dangling
      | Ref r \<Rightarrow>
          if \<not> out then Return (NullPointer, None, None, s)
          else case row_at r i of
              None \<Rightarrow> Return (OutOfBounds, None, None, s)
            | Some rw \<Rightarrow>
                (case row_entry rw j of
                   None \<Rightarrow> Return (OutOfBounds, None, None, s)
                 | Some (_, v) \<Rightarrow> return_object (ValueObj v) s))"

definition fsql_result_free :: "nat \<Rightarrow> ffi \<Rightarrow> ffi ffi_outcome" where
  "fsql_result_free h s = free_object the_result h s"

subsection \<open>Values and vectors\<close>

definition kind_of :: "sql_value \<Rightarrow> ffi_value_kind" where
  "kind_of v =
     (case v of
        Null \<Rightarrow> KindNull | Integer _ \<Rightarrow> KindInteger | Float _ \<Rightarrow> KindFloat | Boolean _ \<Rightarrow> KindBoolean
      | Text _ \<Rightarrow> KindText | Vector _ \<Rightarrow> KindVector | PointV _ \<Rightarrow> KindPoint)"

definition fsql_value_kind :: "nat \<Rightarrow> ffi \<Rightarrow> ffi_value_kind ffi_outcome" where
  "fsql_value_kind h s = (case deref the_value h s of Ref v \<Rightarrow> Return (kind_of v) | NullPtr \<Rightarrow> Return KindNull | BadPtr \<Rightarrow> Dangling)"

text \<open>The getters write through a pointer of the caller, or allocate a handle.\<close>

definition value_get :: "(sql_value \<Rightarrow> 'a option) \<Rightarrow> nat \<Rightarrow> bool \<Rightarrow> ffi \<Rightarrow> 'a reply" where
  "value_get sel h out s =
     (case deref the_value h s of
        NullPtr \<Rightarrow> Return (NullPointer, None, None, s)
      | BadPtr \<Rightarrow> Dangling
      | Ref v \<Rightarrow>
          if \<not> out then Return (NullPointer, None, None, s)
          else case sel v of
              Some x \<Rightarrow> Return (StatusOk, Some x, None, s)
            | None \<Rightarrow> Return (WrongType, None, None, s))"

definition value_get_object :: "(sql_value \<Rightarrow> ffi_object option) \<Rightarrow> nat \<Rightarrow> bool \<Rightarrow> ffi \<Rightarrow> nat reply" where
  "value_get_object sel h out s =
     (case deref the_value h s of
        NullPtr \<Rightarrow> Return (NullPointer, None, None, s)
      | BadPtr \<Rightarrow> Dangling
      | Ref v \<Rightarrow>
          if \<not> out then Return (NullPointer, None, None, s)
          else case sel v of
              Some ob \<Rightarrow> return_object ob s
            | None \<Rightarrow> Return (WrongType, None, None, s))"

definition fsql_value_get_i64 :: "nat \<Rightarrow> bool \<Rightarrow> ffi \<Rightarrow> i64 reply" where
  "fsql_value_get_i64 h out s = value_get (\<lambda>v. case v of Integer i \<Rightarrow> Some i | _ \<Rightarrow> None) h out s"

definition fsql_value_get_f64 :: "nat \<Rightarrow> bool \<Rightarrow> ffi \<Rightarrow> f64 reply" where
  "fsql_value_get_f64 h out s = value_get (\<lambda>v. case v of Float f \<Rightarrow> Some f | _ \<Rightarrow> None) h out s"

definition fsql_value_get_bool :: "nat \<Rightarrow> bool \<Rightarrow> ffi \<Rightarrow> bool reply" where
  "fsql_value_get_bool h out s = value_get (\<lambda>v. case v of Boolean b \<Rightarrow> Some b | _ \<Rightarrow> None) h out s"

definition fsql_value_get_point :: "nat \<Rightarrow> bool \<Rightarrow> ffi \<Rightarrow> point reply" where
  "fsql_value_get_point h out s = value_get (\<lambda>v. case v of PointV p \<Rightarrow> Some p | _ \<Rightarrow> None) h out s"

definition fsql_value_get_text :: "nat \<Rightarrow> bool \<Rightarrow> ffi \<Rightarrow> nat reply" where
  "fsql_value_get_text h out s =
     value_get_object (\<lambda>v. case v of Text t \<Rightarrow> Some (StringObj (sanitize t)) | _ \<Rightarrow> None) h out s"

definition fsql_value_get_vector :: "nat \<Rightarrow> bool \<Rightarrow> ffi \<Rightarrow> nat reply" where
  "fsql_value_get_vector h out s = value_get_object (\<lambda>v. case v of Vector xs \<Rightarrow> Some (VectorObj xs) | _ \<Rightarrow> None) h out s"

definition fsql_value_free :: "nat \<Rightarrow> ffi \<Rightarrow> ffi ffi_outcome" where
  "fsql_value_free h s = free_object the_value h s"

definition fsql_vector_len :: "nat \<Rightarrow> ffi \<Rightarrow> nat ffi_outcome" where
  "fsql_vector_len h s = or_zero (deref (\<lambda>ob. map_option length (the_vector ob)) h s)"

definition fsql_vector_data :: "nat \<Rightarrow> ffi \<Rightarrow> nat ffi_outcome" where
  "fsql_vector_data h s = (case deref the_vector h s of Ref xs \<Rightarrow> Return h | NullPtr \<Rightarrow> Return 0 | BadPtr \<Rightarrow> Dangling)"

definition fsql_vector_free :: "nat \<Rightarrow> ffi \<Rightarrow> ffi ffi_outcome" where
  "fsql_vector_free h s = free_object the_vector h s"

end
