(* ===== verification/Ffi_Safety.thy ===== *)
theory Ffi_Safety
  imports Ffi
begin

section \<open>Memory safety of the C interface\<close>

text \<open>
  A client that passes only null pointers and live handles of the right type never reaches undefined behaviour:
  handles stay valid until they are freed, new handles are fresh, every object a call allocates is handed to the
  caller, a borrowed data pointer can be read while its handle is owned, and a shared pool lives exactly as long as
  a handle refers to it.
\<close>

datatype handle_kind = HDatabase | HPool | HConnection | HResult | HString | HValue | HVector

definition kind_of_object :: "ffi_object \<Rightarrow> handle_kind" where
  "kind_of_object ob =
     (case ob of
        DatabaseObj _ \<Rightarrow> HDatabase | PoolObj _ \<Rightarrow> HPool | ConnectionObj _ _ \<Rightarrow> HConnection | ResultObj _ \<Rightarrow> HResult
      | StringObj _ \<Rightarrow> HString | ValueObj _ \<Rightarrow> HValue | VectorObj _ \<Rightarrow> HVector)"

definition handle_kind_at :: "ffi \<Rightarrow> nat \<Rightarrow> handle_kind option" where
  "handle_kind_at s h = map_option kind_of_object (objects s h)"

definition pool_ref :: "ffi_object \<Rightarrow> nat option" where
  "pool_ref ob = (case ob of PoolObj i \<Rightarrow> Some i | ConnectionObj i _ \<Rightarrow> Some i | _ \<Rightarrow> None)"

text \<open>
  The invariant: live handles are numbers given out before, 0 is none; the strong count of a pool is the number of
  handles that refer to it, and the pool is there as long as that is not zero.
\<close>

definition pool_users :: "ffi \<Rightarrow> nat \<Rightarrow> nat set" where
  "pool_users s i = {h. \<exists>ob. objects s h = Some ob \<and> pool_ref ob = Some i}"

definition ffi_ok :: "ffi \<Rightarrow> bool" where
  "ffi_ok s \<longleftrightarrow>
     0 < next_object s \<and> (\<forall>h. objects s h \<noteq> None \<longrightarrow> 0 < h \<and> h < next_object s) \<and>
     (\<forall>i. strong s i = card (pool_users s i)) \<and> (\<forall>i. pools s i \<noteq> None \<longleftrightarrow> 0 < strong s i) \<and>
     (\<forall>i. pools s i \<noteq> None \<longrightarrow> i < next_pool s)"

lemma pool_users_finite: "ffi_ok s \<Longrightarrow> finite (pool_users s i)"
  by (rule finite_subset [of _ "{..<next_object s}"]) (auto simp: ffi_ok_def pool_users_def)

lemma pool_user_live:
  assumes "ffi_ok s" "objects s h = Some ob" "pool_ref ob = Some i"
  shows "pools s i \<noteq> None"
proof -
  have "h \<in> pool_users s i" using assms(2,3) by (simp add: pool_users_def)
  then have "0 < card (pool_users s i)" using pool_users_finite [OF assms(1)] card_gt_0_iff by blast
  then show ?thesis using assms(1) by (simp add: ffi_ok_def)
qed

text \<open>Objects that no call changes: all but databases and connections.\<close>

definition steady :: "ffi_object \<Rightarrow> bool" where
  "steady ob \<longleftrightarrow> kind_of_object ob \<notin> {HDatabase, HConnection}"

text \<open>
  What happens to the handles: those of the caller keep their type, and their contents unless they are databases or
  connections; the new ones are the listed ones, with numbers that were never given out before.
\<close>

definition grown :: "ffi \<Rightarrow> ffi \<Rightarrow> nat list \<Rightarrow> bool" where
  "grown s s' hs \<longleftrightarrow>
     ffi_ok s' \<and> (\<forall>h. objects s h \<noteq> None \<longrightarrow> handle_kind_at s' h = handle_kind_at s h) \<and>
     (\<forall>h ob. objects s h = Some ob \<longrightarrow> steady ob \<longrightarrow> objects s' h = Some ob) \<and>
     (\<forall>h. objects s h = None \<longrightarrow> (objects s' h \<noteq> None \<longleftrightarrow> h \<in> set hs)) \<and>
     (\<forall>h \<in> set hs. objects s h = None \<and> next_object s \<le> h) \<and> next_object s \<le> next_object s'"

definition safe_reply :: "('a \<Rightarrow> nat list) \<Rightarrow> ffi \<Rightarrow> 'a reply \<Rightarrow> bool" where
  "safe_reply f s r \<longleftrightarrow>
     (case r of
        Return (st, x, e, s') \<Rightarrow>
          grown s s' ((case x of None \<Rightarrow> [] | Some y \<Rightarrow> f y) @ (case e of None \<Rightarrow> [] | Some h \<Rightarrow> [h]))
      | Dangling \<Rightarrow> False
      | _ \<Rightarrow> True)"

definition new_handle :: "nat \<Rightarrow> nat list" where
  "new_handle h = (if h = 0 then [] else [h])"

lemma grown_refl: "ffi_ok s \<Longrightarrow> grown s s []"
  by (simp add: grown_def)

lemma fresh_handle: "ffi_ok s \<Longrightarrow> objects s (next_object s) = None"
  unfolding ffi_ok_def by (metis order_less_irrefl)

text \<open>A handle that refers to no pool.\<close>

lemma alloc_grown:
  assumes ok: "ffi_ok s" and own: "pool_ref ob = None" and a: "alloc ob s = (h, s')"
  shows "grown s s' [h]" "h \<noteq> 0"
proof -
  have h: "h = next_object s" "s' = s\<lparr>objects := (objects s)(h \<mapsto> ob), next_object := next_object s + 1\<rparr>"
    using a by (auto simp: alloc_def)
  show "h \<noteq> 0" using ok h(1) by (simp add: ffi_ok_def)
  have free: "objects s h = None" using fresh_handle [OF ok] h(1) by simp
  have "pool_users s' i = pool_users s i" for i using own free h(2) by (auto simp: pool_users_def)
  then have "ffi_ok s'" using ok unfolding ffi_ok_def h by (auto simp: less_Suc_eq)
  then show "grown s s' [h]" using free h by (auto simp: grown_def handle_kind_at_def)
qed

text \<open>A handle that takes one more reference to a pool.\<close>

definition one_more_ref :: "nat \<Rightarrow> ffi \<Rightarrow> ffi \<Rightarrow> bool" where
  "one_more_ref i s s1 \<longleftrightarrow>
     objects s1 = objects s \<and> next_object s1 = next_object s \<and> strong s1 = (strong s)(i := Suc (strong s i)) \<and>
     (\<forall>j. pools s1 j \<noteq> None \<longleftrightarrow> pools s j \<noteq> None \<or> j = i) \<and> next_pool s \<le> next_pool s1 \<and> i < next_pool s1"

lemma alloc_shared:
  assumes ok: "ffi_ok s" and more: "one_more_ref i s s1" and r: "pool_ref ob = Some i" and a: "alloc ob s1 = (h, s')"
  shows "grown s s' [h]" "h \<noteq> 0"
proof -
  have h: "h = next_object s" "s' = s1\<lparr>objects := (objects s)(h \<mapsto> ob), next_object := next_object s + 1\<rparr>"
    using a more by (auto simp: alloc_def one_more_ref_def)
  show "h \<noteq> 0" using ok h(1) by (simp add: ffi_ok_def)
  have free: "objects s h = None" using fresh_handle [OF ok] h(1) by simp
  have users: "pool_users s' j = (if j = i then insert h (pool_users s j) else pool_users s j)" for j
    using r free h(2) by (auto simp: pool_users_def)
  have "h \<notin> pool_users s i" using free by (simp add: pool_users_def)
  then have "card (insert h (pool_users s i)) = Suc (strong s i)"
    using ok pool_users_finite [OF ok, of i] by (simp add: ffi_ok_def)
  moreover have "j < next_pool s1" if "pools s j \<noteq> None \<or> j = i" for j
    using ok more that unfolding ffi_ok_def one_more_ref_def by (metis order_less_le_trans)
  ultimately have "ffi_ok s'"
    using ok more users unfolding ffi_ok_def one_more_ref_def h by (auto simp: less_Suc_eq)
  then show "grown s s' [h]" using free h by (auto simp: grown_def handle_kind_at_def)
qed

text \<open>A state that differs in the contents of databases, connections and pools only.\<close>

definition same_handles :: "ffi \<Rightarrow> ffi \<Rightarrow> bool" where
  "same_handles s s' \<longleftrightarrow> ffi_ok s' \<and> next_object s' = next_object s \<and> (\<forall>h. handle_kind_at s' h = handle_kind_at s h) \<and>
     (\<forall>h ob. objects s h = Some ob \<longrightarrow> steady ob \<longrightarrow> objects s' h = Some ob)"

lemma same_handles_None: "same_handles s s' \<Longrightarrow> objects s' h = None \<longleftrightarrow> objects s h = None"
  by (simp add: same_handles_def handle_kind_at_def) (metis map_option_is_None)

lemma grown_after: "same_handles s s1 \<Longrightarrow> grown s1 s' hs \<Longrightarrow> grown s s' hs"
  using same_handles_None [of s s1] unfolding grown_def same_handles_def by auto

lemma same_handles_refl: "ffi_ok s \<Longrightarrow> same_handles s s"
  by (simp add: same_handles_def)

lemma same_world: "same_handles s s1 \<Longrightarrow> same_handles s (s1\<lparr>ffi_world := w\<rparr>)"
  unfolding same_handles_def ffi_ok_def handle_kind_at_def pool_users_def by auto

lemma same_set_pool: "same_handles s s1 \<Longrightarrow> pools s1 i \<noteq> None \<Longrightarrow> same_handles s (set_pool i p s1)"
  unfolding same_handles_def ffi_ok_def handle_kind_at_def set_pool_def pool_users_def by auto

lemma same_set_object:
  assumes same: "same_handles s s1" and old: "objects s h = Some ob0" "\<not> steady ob0"
    and ob: "kind_of_object ob = kind_of_object ob0" "pool_ref ob = pool_ref ob0" and kept: "objects s1 h = objects s h"
  shows "same_handles s (set_object h ob s1)"
proof -
  have users: "pool_users (set_object h ob s1) i = pool_users s1 i" for i
    using old ob kept by (auto simp: pool_users_def set_object_def)
  show ?thesis
    using assms unfolding same_handles_def ffi_ok_def users
    by (auto simp: handle_kind_at_def set_object_def)
qed

subsection \<open>Replies\<close>

lemma safe_plain: "ffi_ok s \<Longrightarrow> safe_reply f s (Return (st, None, None, s))"
  by (simp add: safe_reply_def grown_refl)

lemma safe_fail:
  assumes "same_handles s s1"
  shows "safe_reply f s (fail st error_out msg s1)"
proof -
  have ok: "ffi_ok s1" using assms by (simp add: same_handles_def)
  obtain h s2 where a: "alloc (StringObj (sanitize msg)) s1 = (h, s2)" by fastforce
  have "grown s1 s2 [h]" by (rule alloc_grown(1) [OF ok _ a]) (simp add: pool_ref_def)
  then show ?thesis using grown_after [OF assms] grown_refl [OF ok] a
    by (simp add: safe_reply_def fail_def set_error_def string_handle_def)
qed

lemma safe_own_object:
  assumes "same_handles s s1" "pool_ref ob = None"
  shows "safe_reply new_handle s (return_object ob s1)"
proof -
  have ok: "ffi_ok s1" using assms by (simp add: same_handles_def)
  obtain h s2 where a: "alloc ob s1 = (h, s2)" by fastforce
  from alloc_grown [OF ok assms(2) a] show ?thesis using grown_after [OF assms(1)] a
    by (simp add: safe_reply_def return_object_def new_handle_def)
qed

lemma safe_shared_object:
  assumes "same_handles s s1" "one_more_ref i s1 s2" "pool_ref ob = Some i"
  shows "safe_reply new_handle s (return_object ob s2)"
proof -
  have ok: "ffi_ok s1" using assms by (simp add: same_handles_def)
  obtain h s3 where a: "alloc ob s2 = (h, s3)" by fastforce
  from alloc_shared [OF ok assms(2,3) a] show ?thesis using grown_after [OF assms(1)] a
    by (simp add: safe_reply_def return_object_def new_handle_def)
qed

lemma safe_with_result:
  assumes "same_handles s s1" "\<And>x. safe_reply f s (k x s1)"
  shows "safe_reply f s (with_result error_out r s1 k)"
  using assms(2) safe_fail [OF assms(1)] by (cases r) (simp_all add: with_result_def safe_reply_def)

lemma safe_pool:
  assumes "same_handles s s1"
  shows "safe_reply new_handle s (return_pool p s1)"
proof -
  have "ffi_ok s1" using assms by (simp add: same_handles_def)
  then have "strong s1 (next_pool s1) = 0" unfolding ffi_ok_def by (metis less_irrefl not_gr_zero)
  then have "one_more_ref (next_pool s1) s1
      (s1\<lparr>pools := (pools s1)(next_pool s1 \<mapsto> p), strong := (strong s1)(next_pool s1 := 1), next_pool := next_pool s1 + 1\<rparr>)"
    by (auto simp: one_more_ref_def)
  then show ?thesis unfolding return_pool_def by (rule safe_shared_object [OF assms]) (simp add: pool_ref_def)
qed

subsection \<open>Calls\<close>

definition live_handle :: "handle_kind \<Rightarrow> nat \<Rightarrow> ffi \<Rightarrow> bool" where
  "live_handle k h s \<longleftrightarrow> h = 0 \<or> handle_kind_at s h = Some k"

datatype ffi_call =
    StringData nat | StringFree nat
  | DbMemoryNew bool bool | DbOpen "string option" bool bool | DbExecute nat "string option" bool bool | DbFree nat
  | PoolMemoryNew nat bool bool | PoolOpen "string option" nat bool bool | PoolGet nat bool bool | PoolTryGet nat bool bool
  | PoolFree nat | ConnectionExecute nat "string option" bool bool | ConnectionFree nat
  | ResultAffectedRows nat | ResultRowCount nat | ResultMessage nat bool | ResultColumnCount nat nat
  | ResultColumnName nat nat nat bool | ResultValueAt nat nat nat bool | ResultFree nat
  | ValueKind nat | ValueGetI64 nat bool | ValueGetF64 nat bool | ValueGetBool nat bool | ValueGetText nat bool
  | ValueGetVector nat bool | ValueGetPoint nat bool | ValueFree nat
  | VectorLen nat | VectorData nat | VectorFree nat

text \<open>The handle a call is given, with its declared type, and the handle it frees.\<close>

fun handle_arg :: "ffi_call \<Rightarrow> (handle_kind \<times> nat) option" where
  "handle_arg (StringData h) = Some (HString, h)" | "handle_arg (StringFree h) = Some (HString, h)"
| "handle_arg (DbExecute h _ _ _) = Some (HDatabase, h)" | "handle_arg (DbFree h) = Some (HDatabase, h)"
| "handle_arg (PoolGet h _ _) = Some (HPool, h)" | "handle_arg (PoolTryGet h _ _) = Some (HPool, h)"
| "handle_arg (PoolFree h) = Some (HPool, h)"
| "handle_arg (ConnectionExecute h _ _ _) = Some (HConnection, h)" | "handle_arg (ConnectionFree h) = Some (HConnection, h)"
| "handle_arg (ResultAffectedRows h) = Some (HResult, h)" | "handle_arg (ResultRowCount h) = Some (HResult, h)"
| "handle_arg (ResultMessage h _) = Some (HResult, h)" | "handle_arg (ResultColumnCount h _) = Some (HResult, h)"
| "handle_arg (ResultColumnName h _ _ _) = Some (HResult, h)" | "handle_arg (ResultValueAt h _ _ _) = Some (HResult, h)"
| "handle_arg (ResultFree h) = Some (HResult, h)"
| "handle_arg (ValueKind h) = Some (HValue, h)" | "handle_arg (ValueGetI64 h _) = Some (HValue, h)"
| "handle_arg (ValueGetF64 h _) = Some (HValue, h)" | "handle_arg (ValueGetBool h _) = Some (HValue, h)"
| "handle_arg (ValueGetText h _) = Some (HValue, h)" | "handle_arg (ValueGetVector h _) = Some (HValue, h)"
| "handle_arg (ValueGetPoint h _) = Some (HValue, h)" | "handle_arg (ValueFree h) = Some (HValue, h)"
| "handle_arg (VectorLen h) = Some (HVector, h)" | "handle_arg (VectorData h) = Some (HVector, h)"
| "handle_arg (VectorFree h) = Some (HVector, h)"
| "handle_arg _ = None"

fun freed :: "ffi_call \<Rightarrow> nat set" where
  "freed (StringFree h) = {h}" | "freed (DbFree h) = {h}" | "freed (PoolFree h) = {h}" | "freed (ConnectionFree h) = {h}"
| "freed (ResultFree h) = {h}" | "freed (ValueFree h) = {h}" | "freed (VectorFree h) = {h}" | "freed _ = {}"

text \<open>A call as a step: the handles written to the caller, and the state after it.\<close>

definition reply_step :: "('a \<Rightarrow> nat list) \<Rightarrow> 'a reply \<Rightarrow> (nat list \<times> ffi) ffi_outcome" where
  "reply_step f r =
     (case r of
        Return (st, x, e, s') \<Rightarrow> Return ((case x of None \<Rightarrow> [] | Some y \<Rightarrow> f y) @ (case e of None \<Rightarrow> [] | Some h \<Rightarrow> [h]), s')
      | Dangling \<Rightarrow> Dangling | Waiting \<Rightarrow> Waiting | Aborted \<Rightarrow> Aborted)"

definition read_step :: "ffi \<Rightarrow> 'a ffi_outcome \<Rightarrow> (nat list \<times> ffi) ffi_outcome" where
  "read_step s r = (case r of Return _ \<Rightarrow> Return ([], s) | Dangling \<Rightarrow> Dangling | Waiting \<Rightarrow> Waiting | Aborted \<Rightarrow> Aborted)"

definition free_step :: "ffi ffi_outcome \<Rightarrow> (nat list \<times> ffi) ffi_outcome" where
  "free_step r = (case r of Return s' \<Rightarrow> Return ([], s') | Dangling \<Rightarrow> Dangling | Waiting \<Rightarrow> Waiting | Aborted \<Rightarrow> Aborted)"

fun ffi_step :: "platform \<Rightarrow> nat \<Rightarrow> nat \<Rightarrow> ffi_call \<Rightarrow> ffi \<Rightarrow> (nat list \<times> ffi) ffi_outcome" where
  "ffi_step P pid el (StringData h) s = read_step s (fsql_string_data h s)"
| "ffi_step P pid el (StringFree h) s = free_step (fsql_string_free h s)"
| "ffi_step P pid el (DbMemoryNew out err) s = reply_step new_handle (fsql_db_memory_new out err s)"
| "ffi_step P pid el (DbOpen p out err) s = reply_step new_handle (fsql_db_open P p out err s)"
| "ffi_step P pid el (DbExecute h sql out err) s = reply_step new_handle (fsql_db_execute P pid el h sql out err s)"
| "ffi_step P pid el (DbFree h) s = free_step (fsql_db_free h s)"
| "ffi_step P pid el (PoolMemoryNew n out err) s = reply_step new_handle (fsql_pool_memory_new n out err s)"
| "ffi_step P pid el (PoolOpen p n out err) s = reply_step new_handle (fsql_pool_open P p n out err s)"
| "ffi_step P pid el (PoolGet h out err) s = reply_step new_handle (fsql_pool_get h out err s)"
| "ffi_step P pid el (PoolTryGet h out err) s = reply_step new_handle (fsql_pool_try_get h out err s)"
| "ffi_step P pid el (PoolFree h) s = free_step (fsql_pool_free h s)"
| "ffi_step P pid el (ConnectionExecute h sql out err) s = reply_step new_handle (fsql_connection_execute P pid el h sql out err s)"
| "ffi_step P pid el (ConnectionFree h) s = free_step (fsql_connection_free h s)"
| "ffi_step P pid el (ResultAffectedRows h) s = read_step s (fsql_result_affected_rows h s)"
| "ffi_step P pid el (ResultRowCount h) s = read_step s (fsql_result_row_count h s)"
| "ffi_step P pid el (ResultMessage h out) s = reply_step new_handle (fsql_result_message h out s)"
| "ffi_step P pid el (ResultColumnCount h i) s = read_step s (fsql_result_column_count h i s)"
| "ffi_step P pid el (ResultColumnName h i j out) s = reply_step new_handle (fsql_result_column_name h i j out s)"
| "ffi_step P pid el (ResultValueAt h i j out) s = reply_step new_handle (fsql_result_value_at h i j out s)"
| "ffi_step P pid el (ResultFree h) s = free_step (fsql_result_free h s)"
| "ffi_step P pid el (ValueKind h) s = read_step s (fsql_value_kind h s)"
| "ffi_step P pid el (ValueGetI64 h out) s = reply_step (\<lambda>_. []) (fsql_value_get_i64 h out s)"
| "ffi_step P pid el (ValueGetF64 h out) s = reply_step (\<lambda>_. []) (fsql_value_get_f64 h out s)"
| "ffi_step P pid el (ValueGetBool h out) s = reply_step (\<lambda>_. []) (fsql_value_get_bool h out s)"
| "ffi_step P pid el (ValueGetText h out) s = reply_step new_handle (fsql_value_get_text h out s)"
| "ffi_step P pid el (ValueGetVector h out) s = reply_step new_handle (fsql_value_get_vector h out s)"
| "ffi_step P pid el (ValueGetPoint h out) s = reply_step (\<lambda>_. []) (fsql_value_get_point h out s)"
| "ffi_step P pid el (ValueFree h) s = free_step (fsql_value_free h s)"
| "ffi_step P pid el (VectorLen h) s = read_step s (fsql_vector_len h s)"
| "ffi_step P pid el (VectorData h) s = read_step s (fsql_vector_data h s)"
| "ffi_step P pid el (VectorFree h) s = free_step (fsql_vector_free h s)"

definition args_ok :: "ffi_call \<Rightarrow> ffi \<Rightarrow> bool" where
  "args_ok call s \<longleftrightarrow> (case handle_arg call of None \<Rightarrow> True | Some (k, h) \<Rightarrow> live_handle k h s)"

definition safe_step :: "nat set \<Rightarrow> ffi \<Rightarrow> (nat list \<times> ffi) ffi_outcome \<Rightarrow> bool" where
  "safe_step fs s r \<longleftrightarrow>
     (case r of
        Return (hs, s') \<Rightarrow>
          ffi_ok s' \<and> (\<forall>h. h \<notin> fs \<longrightarrow> objects s h \<noteq> None \<longrightarrow> handle_kind_at s' h = handle_kind_at s h) \<and>
          (\<forall>h ob. h \<notin> fs \<longrightarrow> objects s h = Some ob \<longrightarrow> steady ob \<longrightarrow> objects s' h = Some ob) \<and>
          (\<forall>h \<in> fs. objects s' h = None) \<and> (\<forall>h. objects s h = None \<longrightarrow> (objects s' h \<noteq> None \<longleftrightarrow> h \<in> set hs)) \<and>
          (\<forall>h \<in> set hs. objects s h = None \<and> next_object s \<le> h) \<and> next_object s \<le> next_object s'
      | Dangling \<Rightarrow> False
      | _ \<Rightarrow> True)"

lemma safe_reply_step: "safe_reply f s r \<Longrightarrow> safe_step {} s (reply_step f r)"
  by (auto simp: safe_reply_def safe_step_def reply_step_def grown_def split: ffi_outcome.splits)

lemma safe_read_step: "ffi_ok s \<Longrightarrow> r \<noteq> Dangling \<Longrightarrow> safe_step {} s (read_step s r)"
  by (auto simp: safe_step_def read_step_def split: ffi_outcome.splits)

subsection \<open>Live handles are not dangling\<close>

lemma deref_live:
  assumes "live_handle k h s" "\<And>ob. kind_of_object ob = k \<Longrightarrow> sel ob \<noteq> None"
  shows "deref sel h s \<noteq> BadPtr"
proof (cases "h = 0")
  case False
  then obtain ob where ob: "objects s h = Some ob" "kind_of_object ob = k"
    using assms(1) by (auto simp: live_handle_def handle_kind_at_def)
  then obtain x where "sel ob = Some x" using assms(2) by blast
  then show ?thesis using False ob by (simp add: deref_def)
qed (simp add: deref_def)

lemma deref_Ref: "deref sel h s = Ref x \<Longrightarrow> h \<noteq> 0 \<and> (\<exists>ob. objects s h = Some ob \<and> sel ob = Some x)"
  by (auto simp: deref_def split: if_splits option.splits)

lemma selectors:
  "kind_of_object ob = HDatabase \<Longrightarrow> the_database ob \<noteq> None" "kind_of_object ob = HPool \<Longrightarrow> the_pool ob \<noteq> None"
  "kind_of_object ob = HConnection \<Longrightarrow> the_connection ob \<noteq> None" "kind_of_object ob = HResult \<Longrightarrow> the_result ob \<noteq> None"
  "kind_of_object ob = HString \<Longrightarrow> the_string ob \<noteq> None" "kind_of_object ob = HValue \<Longrightarrow> the_value ob \<noteq> None"
  "kind_of_object ob = HVector \<Longrightarrow> the_vector ob \<noteq> None"
  by (cases ob; simp add: kind_of_object_def the_database_def the_pool_def the_connection_def the_result_def the_string_def
      the_value_def the_vector_def)+

lemma selected:
  "the_database ob = Some db \<Longrightarrow> ob = DatabaseObj db" "the_pool ob = Some i \<Longrightarrow> ob = PoolObj i"
  "the_connection ob = Some (i, c) \<Longrightarrow> ob = ConnectionObj i c"
  by (cases ob; simp add: the_database_def the_pool_def the_connection_def)+

lemma live_refs:
  "live_handle HDatabase h s \<Longrightarrow> deref the_database h s \<noteq> BadPtr" "live_handle HPool h s \<Longrightarrow> deref the_pool h s \<noteq> BadPtr"
  "live_handle HConnection h s \<Longrightarrow> deref the_connection h s \<noteq> BadPtr"
  "live_handle HResult h s \<Longrightarrow> deref the_result h s \<noteq> BadPtr" "live_handle HString h s \<Longrightarrow> deref the_string h s \<noteq> BadPtr"
  "live_handle HValue h s \<Longrightarrow> deref the_value h s \<noteq> BadPtr" "live_handle HVector h s \<Longrightarrow> deref the_vector h s \<noteq> BadPtr"
  by (erule deref_live, erule selectors)+

lemma or_zero_live: "d \<noteq> BadPtr \<Longrightarrow> or_zero d \<noteq> Dangling"
  by (cases d) (simp_all add: or_zero_def)

lemma null_object: "ffi_ok s \<Longrightarrow> objects s 0 = None"
  unfolding ffi_ok_def by (metis less_irrefl)

lemma free_null: "ffi_ok s \<Longrightarrow> deref sel h s = NullPtr \<Longrightarrow> safe_step {h} s (free_step (Return s))"
  using null_object by (auto simp: deref_def free_step_def safe_step_def split: if_splits option.splits)

lemma free_own_safe:
  assumes ok: "ffi_ok s" and live: "deref sel h s \<noteq> BadPtr" and own: "\<And>ob x. sel ob = Some x \<Longrightarrow> pool_ref ob = None"
  shows "safe_step {h} s (free_step (free_object sel h s))"
proof (cases "deref sel h s")
  case NullPtr
  then show ?thesis using free_null [OF ok NullPtr] by (simp add: free_object_def)
next
  case (Ref x)
  obtain ob where ob: "objects s h = Some ob" "sel ob = Some x" using deref_Ref [OF Ref] by blast
  have "pool_users (s\<lparr>objects := (objects s)(h := None)\<rparr>) i = pool_users s i" for i
    using ob own by (auto simp: pool_users_def)
  then have "ffi_ok (s\<lparr>objects := (objects s)(h := None)\<rparr>)" using ok unfolding ffi_ok_def by simp
  then show ?thesis using Ref ob by (auto simp: free_object_def free_step_def safe_step_def handle_kind_at_def)
qed (use live in simp)

text \<open>Giving up a handle that refers to a pool.\<close>

lemma free_shared_safe:
  assumes ok: "ffi_ok s" and ob: "objects s h = Some ob" "pool_ref ob = Some i"
    and same: "objects s1 = objects s" "next_object s1 = next_object s" "strong s1 = strong s" "next_pool s1 = next_pool s"
      "\<And>j. pools s1 j = None \<longleftrightarrow> pools s j = None"
  shows "safe_step {h} s (free_step (Return (arc_drop i (s1\<lparr>objects := (objects s1)(h := None)\<rparr>))))"
proof -
  define s2 where "s2 = arc_drop i (s1\<lparr>objects := (objects s1)(h := None)\<rparr>)"
  have fields: "objects s2 = (objects s)(h := None)" "next_object s2 = next_object s" "next_pool s2 = next_pool s"
    "strong s2 = (strong s)(i := strong s i - 1)"
    "\<And>j. pools s2 j = None \<longleftrightarrow> pools s j = None \<or> j = i \<and> strong s i - 1 = 0"
    using same by (auto simp: s2_def arc_drop_def Let_def)
  have users: "pool_users s2 j = (if j = i then pool_users s j - {h} else pool_users s j)" for j
    using ob by (auto simp: pool_users_def fields)
  have "h \<in> pool_users s i" using ob by (simp add: pool_users_def)
  then have "card (pool_users s i - {h}) = strong s i - 1"
    using ok pool_users_finite [OF ok, of i] by (simp add: ffi_ok_def)
  moreover have "pools s i \<noteq> None" by (rule pool_user_live [OF ok ob])
  ultimately have "ffi_ok s2" using ok users fields unfolding ffi_ok_def by auto
  then show ?thesis using ob(1) fields unfolding s2_def [symmetric]
    by (auto simp: free_step_def safe_step_def handle_kind_at_def)
qed

subsection \<open>Every call is safe\<close>

lemma free_call:
  assumes "ffi_ok s" "live_handle k h s" "\<And>ob. kind_of_object ob = k \<Longrightarrow> sel ob \<noteq> None"
    and "\<And>ob x. sel ob = Some x \<Longrightarrow> pool_ref ob = None"
  shows "safe_step {h} s (free_step (free_object sel h s))"
  by (rule free_own_safe [OF assms(1) deref_live [OF assms(2,3)] assms(4)])

lemma read_call:
  assumes "live_handle k h s" "\<And>ob. kind_of_object ob = k \<Longrightarrow> sel ob \<noteq> None"
  shows "or_zero (deref sel h s) \<noteq> Dangling"
  by (rule or_zero_live [OF deref_live [OF assms]])

lemma pool_of_handle:
  assumes "ffi_ok s" "objects s h = Some ob" "pool_ref ob = Some i"
  obtains p where "pools s i = Some p"
  using pool_user_live [OF assms] by blast

lemma pool_free_safe:
  assumes "ffi_ok s" "live_handle HPool h s"
  shows "safe_step {h} s (free_step (fsql_pool_free h s))"
proof (cases "deref the_pool h s")
  case NullPtr
  then show ?thesis using free_null [OF assms(1) NullPtr] by (simp add: fsql_pool_free_def)
next
  case BadPtr
  then show ?thesis using live_refs(2) [OF assms(2)] by blast
next
  case (Ref i)
  have ob: "objects s h = Some (PoolObj i)" using deref_Ref [OF Ref] selected(2) by auto
  show ?thesis using free_shared_safe [OF assms(1) ob, of i s] Ref by (simp add: fsql_pool_free_def pool_ref_def)
qed

lemma connection_free_safe:
  assumes "ffi_ok s" "live_handle HConnection h s"
  shows "safe_step {h} s (free_step (fsql_connection_free h s))"
proof (cases "deref the_connection h s")
  case NullPtr
  then show ?thesis using free_null [OF assms(1) NullPtr] by (simp add: fsql_connection_free_def)
next
  case BadPtr
  then show ?thesis using live_refs(3) [OF assms(2)] by blast
next
  case (Ref ic)
  obtain i c where ic: "ic = (i, c)" by fastforce
  have ob: "objects s h = Some (ConnectionObj i c)" using deref_Ref [OF Ref] selected(3) ic by auto
  obtain p where p: "pools s i = Some p" by (rule pool_of_handle [OF assms(1) ob]) (simp add: pool_ref_def)
  show ?thesis
    using free_shared_safe [OF assms(1) ob, of i "set_pool i (fst (conn_drop (p, c))) s"] Ref ic p
    by (simp add: fsql_connection_free_def pool_ref_def set_pool_def)
qed

lemma safe_sequence:
  assumes "ffi_ok s"
  shows "safe_reply f s (fail st error_out msg s)" "safe_reply f s (Return (st, None, None, s))"
  using safe_fail [OF same_handles_refl [OF assms]] safe_plain [OF assms] by auto

lemma string_object: "pool_ref (StringObj t) = None" "pool_ref (ValueObj v) = None" "pool_ref (VectorObj xs) = None"
    "pool_ref (ResultObj r) = None" "pool_ref (DatabaseObj db) = None"
  by (simp_all add: pool_ref_def)

lemma db_memory_new_safe: "ffi_ok s \<Longrightarrow> safe_reply new_handle s (fsql_db_memory_new out err s)"
  unfolding fsql_db_memory_new_def
  by (auto simp: safe_sequence safe_own_object same_handles_refl string_object safe_reply_def [of _ _ Aborted] split: result.splits)

lemma db_open_safe: "ffi_ok s \<Longrightarrow> safe_reply new_handle s (fsql_db_open P path out err s)"
  unfolding fsql_db_open_def
  by (auto simp: safe_sequence Let_def split: sum.splits prod.splits
      intro!: safe_with_result safe_own_object same_world same_handles_refl string_object)

lemma db_execute_safe:
  assumes "ffi_ok s" "live_handle HDatabase h s"
  shows "safe_reply new_handle s (fsql_db_execute P pid el h sql out err s)"
proof (cases "deref the_database h s")
  case BadPtr
  then show ?thesis using live_refs(1) [OF assms(2)] by blast
next
  case (Ref db)
  have ob: "objects s h = Some (DatabaseObj db)" using deref_Ref [OF Ref] selected(1) by auto
  have "same_handles s (set_object h (DatabaseObj db') (s\<lparr>ffi_world := w\<rparr>))" for db' w
    by (rule same_set_object [OF same_world [OF same_handles_refl [OF assms(1)]] ob])
      (simp_all add: kind_of_object_def pool_ref_def steady_def)
  then show ?thesis unfolding fsql_db_execute_def Ref
    by (auto simp: safe_sequence assms(1) Let_def split: sum.splits prod.splits
        intro!: safe_with_result safe_own_object string_object)
qed (simp add: fsql_db_execute_def safe_sequence assms(1))

lemma pool_memory_new_safe: "ffi_ok s \<Longrightarrow> safe_reply new_handle s (fsql_pool_memory_new n out err s)"
  unfolding fsql_pool_memory_new_def
  by (auto simp: safe_sequence intro!: safe_with_result safe_pool same_handles_refl)

lemma pool_open_safe: "ffi_ok s \<Longrightarrow> safe_reply new_handle s (fsql_pool_open P path n out err s)"
  unfolding fsql_pool_open_def
  by (auto simp: safe_sequence Let_def split: sum.splits prod.splits
      intro!: safe_with_result safe_pool same_world same_handles_refl)

lemma safe_connection:
  assumes "ffi_ok s" "pools s i \<noteq> None"
  shows "safe_reply new_handle s (return_object (ConnectionObj i c) (arc_clone i (set_pool i p s)))"
proof -
  have "i < next_pool s" using assms unfolding ffi_ok_def by blast
  then have "one_more_ref i (set_pool i p s) (arc_clone i (set_pool i p s))"
    by (auto simp: one_more_ref_def arc_clone_def set_pool_def)
  then show ?thesis
    by (rule safe_shared_object [OF same_set_pool [OF same_handles_refl [OF assms(1)] assms(2)]]) (simp add: pool_ref_def)
qed

lemma pool_get_safe:
  assumes "ffi_ok s" "live_handle HPool h s"
  shows "safe_reply new_handle s (fsql_pool_get h out err s)"
proof (cases "deref the_pool h s")
  case BadPtr
  then show ?thesis using live_refs(2) [OF assms(2)] by blast
next
  case (Ref i)
  have ob: "objects s h = Some (PoolObj i)" using deref_Ref [OF Ref] selected(2) by auto
  obtain p where p: "pools s i = Some p" by (rule pool_of_handle [OF assms(1) ob]) (simp add: pool_ref_def)
  have "safe_reply new_handle s Waiting" by (simp add: safe_reply_def)
  then show ?thesis unfolding fsql_pool_get_def Ref
    by (auto simp: safe_sequence assms(1) p split: option.splits prod.splits
        intro!: safe_with_result safe_connection same_set_pool same_handles_refl)
qed (simp add: fsql_pool_get_def safe_sequence assms(1))

lemma pool_try_get_safe:
  assumes "ffi_ok s" "live_handle HPool h s"
  shows "safe_reply new_handle s (fsql_pool_try_get h out err s)"
proof (cases "deref the_pool h s")
  case BadPtr
  then show ?thesis using live_refs(2) [OF assms(2)] by blast
next
  case (Ref i)
  have ob: "objects s h = Some (PoolObj i)" using deref_Ref [OF Ref] selected(2) by auto
  obtain p where p: "pools s i = Some p" by (rule pool_of_handle [OF assms(1) ob]) (simp add: pool_ref_def)
  have same: "same_handles s (set_pool i p' s)" for p' using same_set_pool [OF same_handles_refl [OF assms(1)]] p by simp
  have "safe_reply new_handle s (Return (StatusOk, Some 0, None, set_pool i p' s))" for p'
    using grown_after [OF same grown_refl] same [of p'] by (simp add: safe_reply_def new_handle_def same_handles_def)
  then show ?thesis unfolding fsql_pool_try_get_def Ref
    by (auto simp: safe_sequence assms(1) p Let_def split: option.splits prod.splits
        intro!: safe_with_result safe_connection same)
qed (simp add: fsql_pool_try_get_def safe_sequence assms(1))

lemma connection_execute_safe:
  assumes "ffi_ok s" "live_handle HConnection h s"
  shows "safe_reply new_handle s (fsql_connection_execute P pid el h sql out err s)"
proof (cases "deref the_connection h s")
  case BadPtr
  then show ?thesis using live_refs(3) [OF assms(2)] by blast
next
  case (Ref ic)
  obtain i c where ic: "ic = (i, c)" by fastforce
  have ob: "objects s h = Some (ConnectionObj i c)" using deref_Ref [OF Ref] selected(3) ic by auto
  obtain p where p: "pools s i = Some p" by (rule pool_of_handle [OF assms(1) ob]) (simp add: pool_ref_def)
  have "same_handles s (set_object h (ConnectionObj i c') (set_pool i p' (s\<lparr>ffi_world := w\<rparr>)))" for c' p' w
    by (rule same_set_object [OF same_set_pool [OF same_world [OF same_handles_refl [OF assms(1)]]] ob])
      (simp_all add: kind_of_object_def pool_ref_def set_pool_def steady_def p ob)
  then show ?thesis unfolding fsql_connection_execute_def Ref ic
    by (auto simp: safe_sequence assms(1) p Let_def split: sum.splits prod.splits
        intro!: safe_with_result safe_own_object string_object)
qed (simp add: fsql_connection_execute_def safe_sequence assms(1))

lemma result_calls_safe:
  assumes "ffi_ok s" "live_handle HResult h s"
  shows "safe_reply new_handle s (fsql_result_message h out s)"
    "safe_reply new_handle s (fsql_result_column_name h i j out s)"
    "safe_reply new_handle s (fsql_result_value_at h i j out s)"
  using live_refs(4) [OF assms(2)]
  by (auto simp: fsql_result_message_def fsql_result_column_name_def fsql_result_value_at_def safe_plain assms(1)
      split: deref.splits option.splits prod.splits intro!: safe_own_object same_handles_refl string_object)

lemma value_get_safe:
  assumes "ffi_ok s" "live_handle HValue h s"
  shows "safe_reply (\<lambda>_. []) s (value_get sel h out s)"
  using live_refs(6) [OF assms(2)] grown_refl [OF assms(1)]
  by (simp add: value_get_def safe_reply_def split: deref.splits option.splits)

lemma value_get_object_safe:
  assumes "ffi_ok s" "live_handle HValue h s" "\<And>v ob. sel v = Some ob \<Longrightarrow> pool_ref ob = None"
  shows "safe_reply new_handle s (value_get_object sel h out s)"
  using live_refs(6) [OF assms(2)] safe_sequence [OF assms(1)] assms(3)
    safe_own_object [OF same_handles_refl [OF assms(1)]]
  by (auto simp: value_get_object_def split: deref.splits option.splits)

lemma value_handles_safe:
  assumes "ffi_ok s" "live_handle HValue h s"
  shows "safe_reply new_handle s (fsql_value_get_text h out s)" "safe_reply new_handle s (fsql_value_get_vector h out s)"
  unfolding fsql_value_get_text_def fsql_value_get_vector_def
  by (rule value_get_object_safe [OF assms], auto simp: pool_ref_def split: sql_value.splits)+

lemma read_calls_safe:
  "live_handle HString h s \<Longrightarrow> fsql_string_data h s \<noteq> Dangling"
  "live_handle HVector h s \<Longrightarrow> fsql_vector_data h s \<noteq> Dangling"
  "live_handle HValue h s \<Longrightarrow> fsql_value_kind h s \<noteq> Dangling"
  "live_handle HVector h s \<Longrightarrow> fsql_vector_len h s \<noteq> Dangling"
  "live_handle HResult h s \<Longrightarrow> fsql_result_affected_rows h s \<noteq> Dangling"
  "live_handle HResult h s \<Longrightarrow> fsql_result_row_count h s \<noteq> Dangling"
  "live_handle HResult h s \<Longrightarrow> fsql_result_column_count h i s \<noteq> Dangling"
proof -
  show "live_handle HString h s \<Longrightarrow> fsql_string_data h s \<noteq> Dangling"
    using live_refs(5) by (auto simp: fsql_string_data_def split: deref.splits)
  show "live_handle HVector h s \<Longrightarrow> fsql_vector_data h s \<noteq> Dangling"
    using live_refs(7) by (auto simp: fsql_vector_data_def split: deref.splits)
  show "live_handle HValue h s \<Longrightarrow> fsql_value_kind h s \<noteq> Dangling"
    using live_refs(6) by (auto simp: fsql_value_kind_def split: deref.splits)
  show "live_handle HVector h s \<Longrightarrow> fsql_vector_len h s \<noteq> Dangling"
    unfolding fsql_vector_len_def by (erule read_call) (simp add: selectors)
qed (unfold fsql_result_affected_rows_def fsql_result_row_count_def fsql_result_column_count_def,
    (erule read_call, simp add: selectors)+)

lemma own_selected:
  "the_string ob = Some t \<Longrightarrow> pool_ref ob = None" "the_database ob = Some db \<Longrightarrow> pool_ref ob = None"
  "the_result ob = Some r \<Longrightarrow> pool_ref ob = None" "the_value ob = Some v \<Longrightarrow> pool_ref ob = None"
  "the_vector ob = Some xs \<Longrightarrow> pool_ref ob = None"
  by (cases ob; simp add: the_database_def the_result_def the_string_def the_value_def the_vector_def pool_ref_def)+

lemma own_frees_safe:
  assumes "ffi_ok s"
  shows "live_handle HString h s \<Longrightarrow> safe_step {h} s (free_step (fsql_string_free h s))"
    "live_handle HDatabase h s \<Longrightarrow> safe_step {h} s (free_step (fsql_db_free h s))"
    "live_handle HResult h s \<Longrightarrow> safe_step {h} s (free_step (fsql_result_free h s))"
    "live_handle HValue h s \<Longrightarrow> safe_step {h} s (free_step (fsql_value_free h s))"
    "live_handle HVector h s \<Longrightarrow> safe_step {h} s (free_step (fsql_vector_free h s))"
  unfolding fsql_string_free_def fsql_db_free_def fsql_result_free_def fsql_value_free_def fsql_vector_free_def
  by (erule free_call [OF assms], erule selectors, erule own_selected)+

lemma ffi_step_safe:
  assumes "ffi_ok s" "args_ok call s"
  shows "safe_step (freed call) s (ffi_step P pid el call s)"
proof -
  note live = assms(2) [unfolded args_ok_def]
  show ?thesis
    using live assms(1)
    by (cases call)
      (simp_all add: safe_reply_step safe_read_step db_memory_new_safe db_open_safe db_execute_safe pool_memory_new_safe
        pool_open_safe pool_get_safe pool_try_get_safe connection_execute_safe result_calls_safe value_get_safe
        value_handles_safe read_calls_safe connection_free_safe pool_free_safe own_frees_safe
        fsql_value_get_i64_def fsql_value_get_f64_def fsql_value_get_bool_def fsql_value_get_point_def)
qed

subsection \<open>Sessions of a client\<close>

text \<open>
  A client owns the handles it was given and has not freed. It passes null or a handle it owns, of the declared
  type. The relation lists the states it can reach, with what it owns and with the borrowed pointers it has been
  given, each with what was behind it then; it keeps those after their handle is freed.
\<close>

definition ffi_start :: "world \<Rightarrow> ffi" where
  "ffi_start w = \<lparr>objects = Map.empty, next_object = 1, pools = Map.empty, strong = (\<lambda>_. 0), next_pool = 0, ffi_world = w\<rparr>"

definition client_call :: "ffi_call \<Rightarrow> nat set \<Rightarrow> ffi \<Rightarrow> bool" where
  "client_call call H s \<longleftrightarrow>
     (case handle_arg call of None \<Rightarrow> True | Some (k, h) \<Rightarrow> h = 0 \<or> h \<in> H \<and> handle_kind_at s h = Some k)"

definition lend :: "ffi \<Rightarrow> nat ffi_outcome \<Rightarrow> (nat \<times> buffer) list" where
  "lend s r = (case r of Return p \<Rightarrow> (case read_buffer p s of Return b \<Rightarrow> [(p, b)] | _ \<Rightarrow> []) | _ \<Rightarrow> [])"

fun lent :: "ffi_call \<Rightarrow> ffi \<Rightarrow> (nat \<times> buffer) list" where
  "lent (StringData h) s = lend s (fsql_string_data h s)"
| "lent (VectorData h) s = lend s (fsql_vector_data h s)"
| "lent _ s = []"

inductive ffi_session :: "platform \<Rightarrow> nat \<Rightarrow> nat set \<Rightarrow> (nat \<times> buffer) set \<Rightarrow> ffi \<Rightarrow> bool" for P pid where
  session_start: "ffi_session P pid {} {} (ffi_start w)"
| session_call: "ffi_session P pid H B s \<Longrightarrow> client_call call H s \<Longrightarrow> ffi_step P pid el call s = Return (hs, s') \<Longrightarrow>
    ffi_session P pid (H - freed call \<union> set hs) (B \<union> set (lent call s)) s'"

lemma client_args: "client_call call H s \<Longrightarrow> args_ok call s"
  by (auto simp: client_call_def args_ok_def live_handle_def split: option.splits)

lemma freed_arg: "h \<in> freed call \<Longrightarrow> \<exists>k. handle_arg call = Some (k, h)"
  by (cases call) auto

lemma read_buffer_Return: "read_buffer p s = Return b \<longleftrightarrow> p \<noteq> 0 \<and> (\<exists>ob. objects s p = Some ob \<and> buffer_of ob = Some b)"
  by (auto simp: read_buffer_def deref_def split: option.split)

lemma buffer_steady: "buffer_of ob = Some b \<Longrightarrow> steady ob"
  by (cases ob) (simp_all add: buffer_of_def steady_def kind_of_object_def)

lemma read_buffer_gone: "objects s p = None \<Longrightarrow> read_buffer p s = Dangling"
  by (simp add: read_buffer_def deref_def)

lemma lend_sound: "(p, b) \<in> set (lend s r) \<Longrightarrow> read_buffer p s = Return b"
  by (auto simp: lend_def split: ffi_outcome.splits)

lemma lent_sound: "(p, b) \<in> set (lent call s) \<Longrightarrow> read_buffer p s = Return b \<and> freed call = {}"
  by (cases call) (auto dest: lend_sound)

text \<open>A borrowed pointer shows the bytes it was given out for while its handle lives, and dangles ever after.\<close>

definition borrow_ok :: "ffi \<Rightarrow> nat \<times> buffer \<Rightarrow> bool" where
  "borrow_ok s pb \<longleftrightarrow>
     fst pb < next_object s \<and> read_buffer (fst pb) s = (if objects s (fst pb) = None then Dangling else Return (snd pb))"

lemma session_heap:
  "ffi_session P pid H B s \<Longrightarrow> ffi_ok s \<and> {h. objects s h \<noteq> None} = H \<and> finite H \<and> (\<forall>pb \<in> B. borrow_ok s pb)"
proof (induction rule: ffi_session.induct)
  case (session_start w)
  show ?case by (simp add: ffi_ok_def ffi_start_def pool_users_def)
next
  case (session_call H B s call el hs s')
  have "safe_step (freed call) s (ffi_step P pid el call s)"
    using ffi_step_safe session_call client_args by blast
  then have st: "ffi_ok s'" "\<And>h. h \<notin> freed call \<Longrightarrow> objects s h \<noteq> None \<Longrightarrow> handle_kind_at s' h = handle_kind_at s h"
      "\<And>h. h \<in> freed call \<Longrightarrow> objects s' h = None" "\<And>h. objects s h = None \<Longrightarrow> objects s' h \<noteq> None \<longleftrightarrow> h \<in> set hs"
      "\<And>h. h \<in> set hs \<Longrightarrow> objects s h = None \<and> next_object s \<le> h" "next_object s \<le> next_object s'"
    and steady: "\<And>h ob. h \<notin> freed call \<Longrightarrow> objects s h = Some ob \<Longrightarrow> steady ob \<Longrightarrow> objects s' h = Some ob"
    using session_call by (simp_all add: safe_step_def)
  have kept: "objects s' h \<noteq> None \<longleftrightarrow> h \<notin> freed call" if "objects s h \<noteq> None" for h
    using st(2,3) [of h] that by (auto simp: handle_kind_at_def)
  have "h \<in> {h. objects s' h \<noteq> None} \<longleftrightarrow> h \<in> H - freed call \<union> set hs" for h
    using kept [of h] st(4,5) [of h] session_call by (cases "objects s h") auto
  then have live: "{h. objects s' h \<noteq> None} = H - freed call \<union> set hs" by blast
  have borrow: "borrow_ok s' (p, b)" if "borrow_ok s (p, b)" for p b
  proof (cases "objects s' p")
    case None
    then show ?thesis using that st(6) by (simp add: borrow_ok_def read_buffer_gone)
  next
    case (Some ob')
    have "p < next_object s" using that by (simp add: borrow_ok_def)
    then have "p \<notin> set hs" using st(5) by (meson leD)
    then have old: "objects s p \<noteq> None" using Some st(4) [of p] by auto
    then have "read_buffer p s = Return b" using that by (simp add: borrow_ok_def)
    then obtain ob where ob: "objects s p = Some ob" "buffer_of ob = Some b" "p \<noteq> 0"
      unfolding read_buffer_Return by blast
    have "p \<notin> freed call" using kept [OF old] Some by auto
    then have "objects s' p = Some ob" using steady ob buffer_steady by blast
    then show ?thesis using ob st(6) \<open>p < next_object s\<close> by (simp add: borrow_ok_def read_buffer_Return)
  qed
  have new: "borrow_ok s (p, b)" if "(p, b) \<in> set (lent call s)" for p b
    using lent_sound [OF that] session_call.IH by (auto simp: borrow_ok_def read_buffer_Return ffi_ok_def)
  have "borrow_ok s' pb" if "pb \<in> B \<union> set (lent call s)" for pb
    using that borrow [of "fst pb" "snd pb"] new [of "fst pb" "snd pb"] session_call.IH by auto
  then show ?case using st(1) live session_call by simp
qed

text \<open>A handle that is not on the heap is a dangling pointer for every call that takes one.\<close>

lemma dangling_argument:
  assumes "handle_arg call = Some (k, h)" "h \<noteq> 0" "objects s h = None"
  shows "ffi_step P pid el call s = Dangling"
proof -
  have bad: "deref sel h s = BadPtr" for sel :: "ffi_object \<Rightarrow> 'a option" using assms(2,3) by (simp add: deref_def)
  show ?thesis
    using assms(1)
    by (cases call)
      (auto simp: bad reply_step_def read_step_def free_step_def free_object_def or_zero_def fsql_string_data_def fsql_string_free_def
        fsql_db_execute_def fsql_db_free_def fsql_pool_get_def fsql_pool_try_get_def fsql_pool_free_def fsql_connection_execute_def
        fsql_connection_free_def fsql_result_affected_rows_def fsql_result_row_count_def fsql_result_message_def
        fsql_result_column_count_def fsql_result_column_name_def fsql_result_value_at_def fsql_result_free_def fsql_value_kind_def
        fsql_value_get_i64_def fsql_value_get_f64_def fsql_value_get_bool_def fsql_value_get_text_def fsql_value_get_vector_def
        fsql_value_get_point_def value_get_def value_get_object_def fsql_value_free_def fsql_vector_len_def fsql_vector_data_def
        fsql_vector_free_def)
qed

subsection \<open>Properties\<close>

text \<open>C25: The C interface is memory safe. On a heap of live handles whose pools have the right reference counts, a
  call whose handle argument is null or a live handle of its declared type never dereferences a dangling
  pointer: it returns, waits for a connection or aborts. When it returns, the handles it was not asked to free stay live
  with their type, and unless they are databases or connections with their contents; the freed one is gone, the
  objects it allocated are exactly the ones it handed to the caller, under numbers never used before, and the
  reference counts of the pools are right again, so nothing leaks.\<close>

theorem ffi_memory_safe:
  assumes "ffi_ok s" "args_ok call s"
  shows "safe_step (freed call) s (ffi_step P pid el call s)"
  using ffi_step_safe [OF assms] .

definition demo_heap :: ffi where
  "demo_heap = \<lparr>objects = [1 \<mapsto> DatabaseObj demo_database, 2 \<mapsto> ValueObj (Text ''a'')], next_object = 3, pools = Map.empty,
     strong = (\<lambda>_. 0), next_pool = 0, ffi_world = demo_world\<rparr>"

theorem ffi_memory_safe_witness:
  "safe_step {} demo_heap (ffi_step demo_platform 7 0 (DbExecute 1 (Some ''COMMIT'') True True) demo_heap)"
proof -
  have "pool_users demo_heap i = {}" for i by (auto simp: pool_users_def demo_heap_def pool_ref_def split: if_splits)
  then have "ffi_ok demo_heap" by (simp add: ffi_ok_def) (simp add: demo_heap_def)
  moreover have "args_ok (DbExecute 1 (Some ''COMMIT'') True True) demo_heap"
    by (simp add: args_ok_def live_handle_def handle_kind_at_def demo_heap_def kind_of_object_def)
  ultimately show ?thesis using ffi_memory_safe [where call = "DbExecute 1 (Some ''COMMIT'') True True"] by simp
qed

text \<open>C26: A client of the C interface that passes null or handles that it was given and has not freed keeps the heap
  exact. In every state it reaches, the live objects are exactly the handles it owns, and a pool is there exactly
  when it owns the pool's handle or a connection from it (so connections may outlive the pool handle, although
  the doc of \<^verbatim>\<open>fsql_pool_free\<close> rules that out); with all handles freed, objects and pools are gone. Its next
  call never reaches a dangling pointer. Each pointer that \<^verbatim>\<open>fsql_string_data\<close> and \<^verbatim>\<open>fsql_vector_data\<close> have given
  it shows the same bytes or floats for as long as it owns the handle they came from, and dangles from the moment
  that handle is freed. A call on a handle it does not own, a freed one for instance, reaches a dangling pointer.\<close>

theorem ffi_session_exact:
  assumes "ffi_session P pid H B s"
  shows "{h. objects s h \<noteq> None} = H \<and> finite H \<and>
    (\<forall>i. pools s i \<noteq> None \<longleftrightarrow> (\<exists>h \<in> H. Option.bind (objects s h) pool_ref = Some i)) \<and>
    (client_call call H s \<longrightarrow> ffi_step P pid el call s \<noteq> Dangling) \<and>
    (\<forall>(p, b) \<in> B. read_buffer p s = (if p \<in> H then Return b else Dangling)) \<and>
    (handle_arg call = Some (k, h) \<longrightarrow> h \<noteq> 0 \<longrightarrow> h \<notin> H \<longrightarrow> ffi_step P pid el call s = Dangling)"
proof (intro conjI impI allI ballI)
  note heap = session_heap [OF assms]
  have H: "h \<in> H \<longleftrightarrow> objects s h \<noteq> None" for h using heap by blast
  show "{h. objects s h \<noteq> None} = H" "finite H" using heap by blast+
  show "pools s i \<noteq> None \<longleftrightarrow> (\<exists>h \<in> H. Option.bind (objects s h) pool_ref = Some i)" for i
  proof -
    have "pools s i \<noteq> None \<longleftrightarrow> pool_users s i \<noteq> {}"
      using heap pool_users_finite [of s i] card_gt_0_iff [of "pool_users s i"] by (simp add: ffi_ok_def)
    also have "\<dots> \<longleftrightarrow> (\<exists>h \<in> H. Option.bind (objects s h) pool_ref = Some i)"
      by (auto simp: pool_users_def H bind_eq_Some_conv)
    finally show ?thesis .
  qed
  show "ffi_step P pid el call s \<noteq> Dangling" if "client_call call H s"
    using ffi_step_safe [OF conjunct1 [OF heap] client_args [OF that], of P pid el] by (auto simp: safe_step_def)
  show "case pb of (p, b) \<Rightarrow> read_buffer p s = (if p \<in> H then Return b else Dangling)" if "pb \<in> B" for pb
  proof -
    have "borrow_ok s pb" using heap that by blast
    then show ?thesis by (cases pb) (simp add: borrow_ok_def H)
  qed
  show "ffi_step P pid el call s = Dangling" if "handle_arg call = Some (k, h)" "h \<noteq> 0" "h \<notin> H"
    using dangling_argument [OF that(1,2)] H that(3) by blast
qed

text \<open>
  One client makes a database, passes a null statement to it, takes the pointer to the text of the error and frees
  the string; another makes a pool, checks a connection out and frees the handle of the pool first.
\<close>

lemma error_session:
  "\<exists>s. ffi_session demo_platform 7 {1} {(2, Bytes ''sql is null or invalid utf-8'')} s"
proof -
  obtain db where new: "memory = Ok db"
    using demo_options_valid by (simp add: memory_def memory_with_options_def try_memory_with_options_def)
  let ?msg = "''sql is null or invalid utf-8''"
  define s1 where "s1 = (ffi_start demo_world)\<lparr>objects := [1 \<mapsto> DatabaseObj db], next_object := 2\<rparr>"
  define s2 where "s2 = s1\<lparr>objects := [1 \<mapsto> DatabaseObj db, 2 \<mapsto> StringObj ?msg], next_object := 3\<rparr>"
  define s3 where "s3 = s2\<lparr>objects := [1 \<mapsto> DatabaseObj db]\<rparr>"
  have "ffi_step demo_platform 7 0 (DbMemoryNew True True) (ffi_start demo_world) = Return ([1], s1)"
    by (simp add: fsql_db_memory_new_def new return_object_def alloc_def reply_step_def new_handle_def ffi_start_def s1_def)
  from session_call [OF session_start _ this]
  have r1: "ffi_session demo_platform 7 {1} {} s1" by (simp add: client_call_def)
  have "ffi_step demo_platform 7 0 (DbExecute 1 None True True) s1 = Return ([2], s2)"
    by (simp add: fsql_db_execute_def deref_def the_database_def require_cstr_def fail_def set_error_def string_handle_def
        sanitize_def alloc_def reply_step_def s1_def s2_def)
  from session_call [OF r1 _ this]
  have r2: "ffi_session demo_platform 7 {1, 2} {} s2"
    by (simp add: client_call_def s1_def handle_kind_at_def kind_of_object_def insert_commute)
  have "ffi_step demo_platform 7 0 (StringData 2) s2 = Return ([], s2)"
    by (simp add: fsql_string_data_def deref_def the_string_def read_step_def s2_def)
  then have "ffi_session demo_platform 7 ({1, 2} - freed (StringData 2) \<union> set []) ({} \<union> set (lent (StringData 2) s2)) s2"
    by (intro session_call [OF r2]) (simp_all add: client_call_def s2_def handle_kind_at_def kind_of_object_def)
  moreover have "lent (StringData 2) s2 = [(2, Bytes ?msg)]"
    by (simp add: lend_def fsql_string_data_def read_buffer_def deref_def the_string_def buffer_of_def s2_def)
  ultimately have r3: "ffi_session demo_platform 7 {1, 2} {(2, Bytes ?msg)} s2" by simp
  have "ffi_step demo_platform 7 0 (StringFree 2) s2 = Return ([], s3)"
    by (simp add: fsql_string_free_def free_object_def deref_def the_string_def free_step_def s2_def s3_def fun_upd_twist)
  from session_call [OF r3 _ this]
  have "ffi_session demo_platform 7 {1} {(2, Bytes ?msg)} s3"
    by (simp add: client_call_def s2_def handle_kind_at_def kind_of_object_def insert_Diff_if)
  then show ?thesis by blast
qed

lemma pool_session:
  "\<exists>s c. ffi_session demo_platform 7 {2} {} s \<and> objects s 2 = Some (ConnectionObj 0 c)"
proof -
  obtain db where new: "memory = Ok db"
    using demo_options_valid by (simp add: memory_def memory_with_options_def try_memory_with_options_def)
  define p where "p = \<lparr>shared = \<lparr>shared_db = db, row_locks = []\<rparr>, shared_poisoned = False, permits = 1,
      max_connections = 1, next_transaction_id = 1\<rparr>"
  have p: "pool_memory 1 = Ok p" "permits p = 1" "\<not> shared_poisoned p"
    by (simp_all add: pool_memory_def from_database_def new p_def)
  then obtain c p' where c: "get p = Some (Ok c, p')" by (auto simp: get_def checkout_def lock_shared_def Let_def)
  define s1 where "s1 = (ffi_start demo_world)\<lparr>objects := [1 \<mapsto> PoolObj 0], next_object := 2, pools := [0 \<mapsto> p],
      strong := (\<lambda>_. 0)(0 := 1), next_pool := 1\<rparr>"
  define s2 where "s2 = s1\<lparr>objects := [1 \<mapsto> PoolObj 0, 2 \<mapsto> ConnectionObj 0 c], next_object := 3, pools := [0 \<mapsto> p'],
      strong := (\<lambda>_. 0)(0 := 2)\<rparr>"
  define s3 where "s3 = s2\<lparr>objects := [2 \<mapsto> ConnectionObj 0 c], strong := (\<lambda>_. 0)(0 := 1)\<rparr>"
  have "ffi_step demo_platform 7 0 (PoolMemoryNew 1 True True) (ffi_start demo_world) = Return ([1], s1)"
    using p(1) by (simp add: fsql_pool_memory_new_def with_result_def return_pool_def return_object_def alloc_def reply_step_def
        new_handle_def ffi_start_def s1_def)
  from session_call [OF session_start _ this]
  have r1: "ffi_session demo_platform 7 {1} {} s1" by (simp add: client_call_def)
  have "ffi_step demo_platform 7 0 (PoolGet 1 True True) s1 = Return ([2], s2)"
    using c by (simp add: fsql_pool_get_def deref_def the_pool_def with_result_def return_object_def alloc_def arc_clone_def
        set_pool_def reply_step_def new_handle_def s1_def s2_def numeral_eq_Suc)
  from session_call [OF r1 _ this]
  have r2: "ffi_session demo_platform 7 {1, 2} {} s2"
    by (simp add: client_call_def s1_def handle_kind_at_def kind_of_object_def insert_commute)
  have "ffi_step demo_platform 7 0 (PoolFree 1) s2 = Return ([], s3)"
    by (simp add: fsql_pool_free_def deref_def the_pool_def arc_drop_def free_step_def s2_def s3_def fun_upd_twist)
  from session_call [OF r2 _ this]
  have "ffi_session demo_platform 7 {2} {} s3"
    by (simp add: client_call_def s2_def handle_kind_at_def kind_of_object_def insert_Diff_if)
  moreover have "objects s3 2 = Some (ConnectionObj 0 c)" by (simp add: s3_def)
  ultimately show ?thesis by blast
qed

theorem ffi_session_exact_witness:
  "(\<exists>s. ffi_session demo_platform 7 {1} {(2, Bytes ''sql is null or invalid utf-8'')} s \<and>
      read_buffer 2 s = Dangling \<and> ffi_step demo_platform 7 0 (StringData 2) s = Dangling) \<and>
   (\<exists>s. ffi_session demo_platform 7 {2} {} s \<and> pools s 0 \<noteq> None \<and>
      ffi_step demo_platform 7 0 (ConnectionExecute 2 (Some ''COMMIT'') True True) s \<noteq> Dangling)"
proof
  obtain s where s: "ffi_session demo_platform 7 {1} {(2, Bytes ''sql is null or invalid utf-8'')} s" using error_session by blast
  from ffi_session_exact [OF s, of "StringData 2" 0 HString 2] s
  show "\<exists>s. ffi_session demo_platform 7 {1} {(2, Bytes ''sql is null or invalid utf-8'')} s \<and>
      read_buffer 2 s = Dangling \<and> ffi_step demo_platform 7 0 (StringData 2) s = Dangling" by auto
  obtain t c where t: "ffi_session demo_platform 7 {2} {} t" "objects t 2 = Some (ConnectionObj 0 c)" using pool_session by blast
  have "client_call (ConnectionExecute 2 (Some ''COMMIT'') True True) {2} t"
    using t(2) by (simp add: client_call_def handle_kind_at_def kind_of_object_def)
  with ffi_session_exact [OF t(1), of "ConnectionExecute 2 (Some ''COMMIT'') True True" 0] t
  show "\<exists>s. ffi_session demo_platform 7 {2} {} s \<and> pools s 0 \<noteq> None \<and>
      ffi_step demo_platform 7 0 (ConnectionExecute 2 (Some ''COMMIT'') True True) s \<noteq> Dangling"
    by (intro exI [of _ t]) (auto simp: pool_ref_def)
qed

end
