(* ===== verification/Spec2Isabelle.thy ===== *)
theory Spec2Isabelle
  imports Pool_Safety Pool_Orphans Read_Back Ffi_Safety
begin

text \<open>
  Verification of the \<^verbatim>\<open>fsql\<close> crate, an embedded SQL database: a statement is parsed, run on a catalog of
  tables, and the catalog is written to one text file; a pool shares one database between connections with row
  locks, and a C interface hands out opaque handles.

  \<^bold>\<open>How the program's parts interact.\<close>
  \<^item> The application calls \<^verbatim>\<open>Database::execute\<close> (\<^verbatim>\<open>src/src/engine.rs\<close>) or \<^verbatim>\<open>Connection::execute\<close>
    (\<^verbatim>\<open>src/src/pool.rs\<close>), directly or through \<^verbatim>\<open>src/src/ffi.rs\<close>.
  \<^item> Both parse the text through a statement cache (\<^verbatim>\<open>src/src/sql/parser.rs\<close>), write the binlog and undo log
    (\<^verbatim>\<open>src/src/logging.rs\<close>), and run the statement on a catalog (\<^verbatim>\<open>src/src/storage/catalog.rs\<close>,
    \<^verbatim>\<open>src/src/storage/table.rs\<close>): the transaction's copy when one is open, the committed catalog otherwise.
  \<^item> A change of the committed catalog is persisted: the catalog is encoded (\<^verbatim>\<open>src/src/storage/codec.rs\<close>),
    written to a temporary file and renamed. When that fails the catalog is restored.
  \<^item> A commit in the pool merges the rows that the transaction has locked into the committed catalog.

  \<^bold>\<open>Which theory models what.\<close> Names are those of the source; a result is \<^verbatim>\<open>Ok\<close>, \<^verbatim>\<open>Err\<close> or \<^verbatim>\<open>Panic\<close>, so
  that every error and every panic of the source is a branch of the model.
  \<^item> \<^verbatim>\<open>Prelude\<close>: the error type (\<^verbatim>\<open>src/src/error.rs\<close>), results and their sequencing. \<^verbatim>\<open>Ordered_Map\<close>: \<^verbatim>\<open>BTreeMap\<close>
    and \<^verbatim>\<open>BTreeSet\<close> as sorted lists. \<^verbatim>\<open>Rust_Text\<close>: the functions of \<^verbatim>\<open>str\<close> that the crate calls, on UTF-8 byte
    lists. \<^verbatim>\<open>Ieee\<close>: floats as bit patterns and their comparisons.
  \<^item> \<^verbatim>\<open>Values\<close>: \<^verbatim>\<open>value.rs\<close>, \<^verbatim>\<open>identifier.rs\<close>, \<^verbatim>\<open>query.rs\<close> and \<^verbatim>\<open>sql/ast.rs\<close>. \<^verbatim>\<open>Codec\<close>: \<^verbatim>\<open>storage/codec.rs\<close>, with the
    locales of a codec and its instances. \<^verbatim>\<open>Options\<close>: the option types of \<^verbatim>\<open>logging.rs\<close>.
  \<^item> \<^verbatim>\<open>Table\<close>: \<^verbatim>\<open>storage/table.rs\<close>. A \<^verbatim>\<open>table\<close> has columns, rows and three kinds of index. \<^verbatim>\<open>Table_Rebuild\<close> shows what
    the indexes contain, \<^verbatim>\<open>Table_Query\<close> that answering a filter through an index is a scan, \<^verbatim>\<open>Table_Ops\<close> what
    insert, update, delete and the index definitions do, \<^verbatim>\<open>Table_Select\<close> what a query returns.
  \<^item> \<^verbatim>\<open>Catalog\<close>: \<^verbatim>\<open>storage/catalog.rs\<close>, the file format and its round trip.
  \<^item> \<^verbatim>\<open>Logging\<close>: a file system whose operations may fail (\<^verbatim>\<open>world\<close>), and the log writers of \<^verbatim>\<open>logging.rs\<close>.
  \<^item> \<^verbatim>\<open>Parser\<close>: \<^verbatim>\<open>sql/parser.rs\<close>, one definition per function; a slice out of range or inside a character is a panic.
    \<^verbatim>\<open>Parser_Text\<close> says where a valid text may be cut, \<^verbatim>\<open>Parser_Safety\<close> and \<^verbatim>\<open>Parser_Total\<close> show when the parser panics,
    \<^verbatim>\<open>Parser_Valid\<close> that a parsed statement holds valid texts.
  \<^item> \<^verbatim>\<open>Parser_Roundtrip\<close>, \<^verbatim>\<open>Parser_Select\<close>, \<^verbatim>\<open>Parser_Rows\<close>, \<^verbatim>\<open>Parser_Create\<close> and \<^verbatim>\<open>Parser_Index\<close> give a reference printer for
    insertions, queries, updates and deletions, and definitions of tables and indexes, with conditions that are
    equalities or full-text searches, and show that the parser reads back what it prints;
    \<^verbatim>\<open>Parser_Words\<close> says where a keyword can begin in such a text (\<^verbatim>\<open>quiet\<close>). \<^verbatim>\<open>Parser_Statements\<close> puts them together
    for every kind of executable statement, and bounds integer literals and the depth of \<^verbatim>\<open>EXPLAIN\<close>.
  \<^item> \<^verbatim>\<open>Engine\<close>: \<^verbatim>\<open>engine.rs\<close>. \<^verbatim>\<open>Statements\<close> shows that statements are atomic, \<^verbatim>\<open>Durability\<close> what persisting does under
    every pattern of I/O failures, \<^verbatim>\<open>Sessions\<close> states transactions abstractly (\<^verbatim>\<open>tx_step\<close> on the committed and the
    pending catalog), proves that the engine refines it, gives the invariant of a session, and says what calls of
    \<^verbatim>\<open>execute\<close> do inside a transaction, the logs included.
  \<^item> \<^verbatim>\<open>Pool\<close>: \<^verbatim>\<open>pool.rs\<close>. \<^verbatim>\<open>Pool_Merge\<close> is about lock keys and the merge, \<^verbatim>\<open>Pool_Frame\<close> about what statements keep,
    \<^verbatim>\<open>Pool_Locks\<close> interleaves the atomic steps of any number of connections and proves their invariant,
    \<^verbatim>\<open>Pool_Safety\<close> draws the consequences, and \<^verbatim>\<open>Pool_Orphans\<close> follows the locks that a failed merge leaves without an
    owner.
  \<^item> \<^verbatim>\<open>Ffi\<close>: \<^verbatim>\<open>ffi.rs\<close>, every exported function on a heap of handles; the strong count of a shared pool and the
    data pointers that a string or vector handle lends out are part of the state. \<^verbatim>\<open>Ffi_Safety\<close> shows that a client with
    live handles never reaches undefined behaviour, that the live objects are always the handles the client owns, that
    a borrowed pointer can be read as long as its handle is not freed, and that the storage of a pool is released exactly
    with the last handle that refers to it.
  \<^item> \<^verbatim>\<open>Read_Back\<close> composes the parser, the engine and the table: a rolled back transaction leaves no trace outside the
    logs, reopening the file gives the committed catalog, and what the text of an \<^verbatim>\<open>INSERT\<close> stores is what the text
    of a \<^verbatim>\<open>SELECT\<close> on the primary key returns. This theory composes the parser with the engine for every text.

  \<^bold>\<open>Interfaces.\<close> The locales are \<^verbatim>\<open>ordered_map\<close> (the laws of a map, given by \<^verbatim>\<open>Ordered_Map\<close>), \<^verbatim>\<open>codec\<close> and
  \<^verbatim>\<open>field_codec\<close> (given by \<^verbatim>\<open>Codec\<close>), \<^verbatim>\<open>posting_index\<close> (an index and the rows it lists, given by \<^verbatim>\<open>Table_Query\<close>),
  \<^verbatim>\<open>atomic_op\<close> and \<^verbatim>\<open>catalog_op\<close> (an operation that succeeds with a good state or leaves the state alone: the
  table operations, and the same operations on a catalog), \<^verbatim>\<open>growing_op\<close> and \<^verbatim>\<open>counting_op\<close> (operations that keep
  columns and never lower a row counter).

  \<^bold>\<open>Parameters of the model.\<close> \<^verbatim>\<open>platform\<close> holds what is standard library on whole Unicode or arithmetic on
  floats: alphanumeric and lower case for all characters, the debug text of a value, parsing and printing of
  floats, sums, products, roots and trigonometry. It also says whether the build checks arithmetic
  (\<^verbatim>\<open>overflow_checks\<close>: a debug build panics where a release build wraps). Theorems hold for every platform. The clock and the process id are
  arguments. An I/O operation consumes one entry of the list of outcomes in the \<^verbatim>\<open>world\<close>, which says whether it
  fails and how much of a write is done first; theorems hold for every such list.

  \<^bold>\<open>Bounds and fuel.\<close> No definition has fuel. \<^verbatim>\<open>EXPLAIN\<close> recurses on a shorter text, the tokenizers and scanners on
  the rest of their input, the encoder on its lists (each level of \<^verbatim>\<open>EXPLAIN\<close> takes at least seven bytes); reading a
  file is one pass over its lines. Row numbers, counters and transaction numbers are 64-bit words; the step to the next
  one (\<^verbatim>\<open>next_id\<close>) wraps, or panics with \<^verbatim>\<open>overflow_checks\<close>, as in the source: in \<^verbatim>\<open>insert_with_options\<close>, in
  \<^verbatim>\<open>reserve_insert_row_id\<close> and in \<^verbatim>\<open>decode_row\<close>. Theorems about insertion assume that the last row number is not used up;
  the one about decoding says that this overflow is the only panic.

  \<^bold>\<open>Assumptions worth knowing.\<close> The invariant of a session needs \<^verbatim>\<open>statement_fits\<close>: an insertion finds a free row
  number, and \<^verbatim>\<open>CREATE INDEX\<close> is not run on a table with full-text indexes of another tokenizer than the default,
  because \<^verbatim>\<open>create_index\<close> rebuilds them with default options. The pool's invariant is for the default
  tokenizer for the same reason (\<^verbatim>\<open>merge_catalogs\<close>). Filters that compare with a floating point zero are excluded
  where an index is compared with a scan: index keys tell 0.0 from -0.0. Every property names the conditions it
  needs. The round trips of the parser are for
  ordinary names: lower case letters, digits and underscores, not a keyword, and without the beginnings and phrases
  that the parser looks for by prefix or anywhere in the text (\<^verbatim>\<open>ordinary_name\<close>, \<^verbatim>\<open>index_name\<close>, \<^verbatim>\<open>quiet_value\<close>); the printer has no syntax for
  values with floating point numbers, whose texts are read by the platform.

  \<^bold>\<open>Not modelled.\<close> The tests and benchmarks (the \<^verbatim>\<open>cfg(test)\<close> parts of the sources and \<^verbatim>\<open>src/tests\<close>), with the helpers
  that exist only for them, the accessors that only return a field (\<^verbatim>\<open>catalog\<close>, \<^verbatim>\<open>options\<close>, \<^verbatim>\<open>max_connections\<close>),
  and the examples in other languages. Memory inside Rust's ownership is not modelled, because the compiler
  checks it; the C interface, where it does not, is. Two threads that use one connection at the same time are
  serialised by its mutexes and are not interleaved further. \<^verbatim>\<open>PathBuf::from\<close> is modelled for paths with a plain
  last component. Allocation never fails.
\<close>

section \<open>From the statement text to the file\<close>

text \<open>C11: A call of \<^verbatim>\<open>execute\<close> on any valid UTF-8 text keeps the invariant of the session (well-formed catalogs, a
  cache that agrees with the parser, the committed catalog in the file) and the path and options of the
  database, whatever I/O operation fails; and it panics only when the parser does, for one of the known
  reasons. The assumption on the parsed statement concerns row numbers that are used up and an index created
  while full-text indexes of another tokenizer exist.\<close>

theorem execute_valid_text:
  assumes "session_ok P (db, w)" "utf8_valid sql"
    and "\<And>stmt. parse_sql_with_dialect P sql (sql_dialect (db_options db)) = Ok stmt \<Longrightarrow>
      statement_fits (tokenizer_of db) stmt (active_catalog db)"
  shows "case execute P pid elapsed sql (db, w) of (r, s') \<Rightarrow>
    session_ok P s' \<and> same_home db (fst s') \<and> (is_panic r \<longrightarrow> (\<exists>t. parses_text sql t \<and> panic_cause t))"
proof -
  have "sql_allowed P sql db"
    using assms(3) parse_valid [OF assms(2)] by (simp add: sql_allowed_def statement_allowed_def)
  note ok = execute_good [OF assms(1) this]
  obtain r db' w' where run: "execute P pid elapsed sql (db, w) = (r, db', w')" by (metis prod_cases3)
  show ?thesis using ok [OF run] parse_panics [OF assms(2)] unfolding run prod.case fst_conv by blast
qed

theorem execute_valid_text_witness:
  "case execute demo_platform 7 0 ''COMMIT'' (demo_database, demo_world) of (r, s') \<Rightarrow>
    session_ok demo_platform s' \<and> same_home demo_database (fst s') \<and>
    (is_panic r \<longrightarrow> (\<exists>t. parses_text ''COMMIT'' t \<and> panic_cause t))"
proof (rule execute_valid_text [OF demo_session_ok])
  show "utf8_valid ''COMMIT''" by code_simp
  have "parse_sql_with_dialect demo_platform ''COMMIT'' (sql_dialect (db_options demo_database)) = Ok Commit" by code_simp
  then show "statement_fits (tokenizer_of demo_database) stmt (active_catalog demo_database)"
    if "parse_sql_with_dialect demo_platform ''COMMIT'' (sql_dialect (db_options demo_database)) = Ok stmt" for stmt
    using that by simp
qed

end
